(* ===== verification/Prelude.thy ===== *)
theory Prelude
  imports Main "HOL-Library.Word"
begin

text \<open>
  Shared vocabulary of the development: the machine words of the C code, its flag words
  (\<open>has\<close>, \<open>setf\<close>, \<open>clrf\<close> for \<open>f & m\<close>, \<open>f |= m\<close> and \<open>f &= ~m\<close>), C strings as suffixes of
  memory, and the character classes of \<open>ctype.h\<close> in the C locale.  The collection
  \<open>flag_defs\<close> gathers the numeric values of the enumeration constants.
\<close>

unbundle bit_operations_syntax

named_theorems flag_defs

type_synonym u8 = "8 word"
type_synonym u16 = "16 word"
type_synonym u32 = "32 word"
type_synonym u64 = "64 word"

subsection \<open>Flag words\<close>

definition has :: "'a::len word \<Rightarrow> 'a word \<Rightarrow> bool" where
  "has f m \<longleftrightarrow> f AND m \<noteq> 0"

definition setf :: "'a::len word \<Rightarrow> 'a word \<Rightarrow> 'a word" where
  "setf f m = f OR m"

definition clrf :: "'a::len word \<Rightarrow> 'a word \<Rightarrow> 'a word" where
  "clrf f m = f AND NOT m"

lemma word_or_eq_0 [simp]: "(x OR y = 0) \<longleftrightarrow> x = 0 \<and> y = (0 :: 'a::len word)"
  by (auto simp: bit_eq_iff bit_simps)

lemma has_setf [simp]: "has (setf f m) k \<longleftrightarrow> has f k \<or> has m k"
  by (simp add: has_def setf_def bit.conj_disj_distrib2)

lemma has_or [simp]: "has f (m OR k) \<longleftrightarrow> has f m \<or> has f k"
  by (simp add: has_def bit.conj_disj_distrib)

lemma has_or_left [simp]: "has (m OR k) f \<longleftrightarrow> has m f \<or> has k f"
  by (simp add: has_def bit.conj_disj_distrib2)

lemma has_clrf: "has (clrf f m) k \<longleftrightarrow> has f (k AND NOT m)"
  by (simp add: has_def clrf_def ac_simps)

lemma and_not_disjoint: "m AND k = 0 \<Longrightarrow> k AND NOT m = (k :: 'a::len word)"
  by (auto simp: bit_eq_iff bit_simps)

lemma has_clrf_disjoint [simp]: "m AND k = 0 \<Longrightarrow> has (clrf f m) k \<longleftrightarrow> has f k"
  by (simp add: has_clrf and_not_disjoint)

lemma and_not_self [simp]: "x AND (y AND NOT x) = (0 :: 'a::len word)"
  "x AND (NOT x AND y) = 0"
  by (auto simp: bit_eq_iff bit_simps)

lemma has_clrf_same [simp]: "\<not> has (clrf f m) m"
  by (simp add: has_def clrf_def ac_simps)

lemma has_0 [simp]: "\<not> has 0 k" "\<not> has f 0"
  by (simp_all add: has_def)

lemma clrf_0 [simp]: "clrf f 0 = f"
  by (simp add: clrf_def)

lemma clrf_idem [simp]: "clrf (clrf f m) m = clrf f m"
  by (simp add: clrf_def ac_simps)

lemma setf_idem [simp]: "setf (setf f m) m = setf f m"
  by (simp add: setf_def ac_simps)

subsection \<open>Characters\<close>

definition code :: "char \<Rightarrow> nat" where
  "code c = of_char c"

definition schar :: "char \<Rightarrow> int" where
  "schar c = (if code c < 128 then int (code c) else int (code c) - 256)"

definition isspace :: "char \<Rightarrow> bool" where
  "isspace c \<longleftrightarrow> code c = 32 \<or> 9 \<le> code c \<and> code c \<le> 13"

definition isdigit :: "char \<Rightarrow> bool" where
  "isdigit c \<longleftrightarrow> 48 \<le> code c \<and> code c \<le> 57"

definition isupper :: "char \<Rightarrow> bool" where
  "isupper c \<longleftrightarrow> 65 \<le> code c \<and> code c \<le> 90"

definition islower :: "char \<Rightarrow> bool" where
  "islower c \<longleftrightarrow> 97 \<le> code c \<and> code c \<le> 122"

definition isalpha :: "char \<Rightarrow> bool" where
  "isalpha c \<longleftrightarrow> isupper c \<or> islower c"

definition isalnum :: "char \<Rightarrow> bool" where
  "isalnum c \<longleftrightarrow> isalpha c \<or> isdigit c"

definition iscntrl :: "char \<Rightarrow> bool" where
  "iscntrl c \<longleftrightarrow> code c < 32 \<or> code c = 127"

definition ispunct :: "char \<Rightarrow> bool" where
  "ispunct c \<longleftrightarrow> 33 \<le> code c \<and> code c \<le> 126 \<and> \<not> isalnum c"

definition isxdigit :: "char \<Rightarrow> bool" where
  "isxdigit c \<longleftrightarrow> isdigit c \<or> 65 \<le> code c \<and> code c \<le> 70 \<or> 97 \<le> code c \<and> code c \<le> 102"

definition toupper :: "char \<Rightarrow> char" where
  "toupper c = (if islower c then char_of (code c - 32) else c)"

lemmas ctype_defs = isspace_def isdigit_def isupper_def islower_def isalpha_def isalnum_def
  iscntrl_def ispunct_def isxdigit_def toupper_def code_def

abbreviation NUL :: char where "NUL \<equiv> CHR 0x00"
abbreviation CR :: char where "CR \<equiv> CHR 0x0D"
abbreviation LF :: char where "LF \<equiv> CHR 0x0A"

abbreviation CRLF :: string where "CRLF \<equiv> [CR, LF]"

lemma code_lt [simp]: "code c < 256"
  by (simp add: code_def)

lemma char_of_code [simp]: "char_of (code c) = c"
  by (simp add: code_def)

subsection \<open>Hexadecimal digits\<close>

definition hex_digit :: "nat \<Rightarrow> char" where
  "hex_digit n = (if n < 10 then char_of (48 + n) else char_of (87 + n))"

definition hex_val :: "char \<Rightarrow> nat" where
  "hex_val c =
     (if isdigit c then code c - 48
      else if code c \<ge> 97 then code c - 87 else code c - 55)"

lemma code_char_of: "n < 256 \<Longrightarrow> code (char_of n) = n"
  by (simp add: code_def)

lemma hex_digit_simps [simp]:
  assumes "n < 16"
  shows "isxdigit (hex_digit n)" "hex_val (hex_digit n) = n"
  using assms by (auto simp: hex_digit_def hex_val_def isxdigit_def isdigit_def code_char_of)

subsection \<open>C strings and \<open>string_t\<close>\<close>

text \<open>
  A C pointer into a character array is the suffix of the array that starts at it, so that
  advancing it is \<open>drop\<close> and reading past the valid part is visible.  \<open>at0\<close> is the
  dereference of such a pointer where the code knows the string is NUL-terminated: past the
  last modelled character it is the terminator.
\<close>

definition at0 :: "string \<Rightarrow> char" where
  "at0 s = (case s of [] \<Rightarrow> NUL | c # _ \<Rightarrow> c)"

lemma at0_simps [simp]: "at0 [] = NUL" "at0 (c # s) = c"
  by (simp_all add: at0_def)

record string_t =
  sptr :: string
  slen :: nat

definition str_wf :: "string_t \<Rightarrow> bool" where
  "str_wf s \<longleftrightarrow> slen s \<le> length (sptr s)"

definition str_of :: "string_t \<Rightarrow> string" where
  "str_of s = take (slen s) (sptr s)"

definition mk_str :: "string \<Rightarrow> string_t" where
  "mk_str s = \<lparr>sptr = s, slen = length s\<rparr>"

definition str_adv :: "nat \<Rightarrow> string_t \<Rightarrow> string_t" where
  "str_adv n s = \<lparr>sptr = drop n (sptr s), slen = slen s - n\<rparr>"

lemma str_of_mk [simp]: "str_of (mk_str s) = s"
  by (simp add: str_of_def mk_str_def)

lemma str_wf_mk [simp]: "str_wf (mk_str s)"
  by (simp add: str_wf_def mk_str_def)

lemma str_of_adv [simp]: "str_of (str_adv n s) = drop n (str_of s)"
  by (simp add: str_of_def str_adv_def drop_take)

lemma str_wf_adv [simp]: "str_wf s \<Longrightarrow> str_wf (str_adv n s)"
  by (auto simp: str_wf_def str_adv_def)

lemma length_str_of [simp]: "str_wf s \<Longrightarrow> length (str_of s) = slen s"
  by (simp add: str_of_def str_wf_def)

subsection \<open>Generic list lemmas\<close>

lemma take_length_takeWhile [simp]: "take (length (takeWhile P xs)) xs = takeWhile P xs"
  by (metis takeWhile_eq_take)

lemma length_takeWhile_drop:
  "n \<le> length (takeWhile P xs) \<Longrightarrow>
   length (takeWhile P (drop n xs)) = length (takeWhile P xs) - n"
proof (induction xs arbitrary: n)
  case Nil
  then show ?case by simp
next
  case (Cons x xs)
  then show ?case by (cases n) (auto split: if_splits)
qed

lemma dropWhile_drop:
  "n \<le> length (takeWhile P xs) \<Longrightarrow> dropWhile P (drop n xs) = dropWhile P xs"
proof (induction xs arbitrary: n)
  case Nil
  then show ?case by simp
next
  case (Cons x xs)
  then show ?case by (cases n) (auto split: if_splits)
qed

lemma map_of_find: "map_of xs k = map_option snd (find (\<lambda>p. fst p = k) xs)"
  by (induction xs) auto

end
