(* ===== verification/Numbers.thy ===== *)
theory Numbers
  imports Prelude
begin

text \<open>
  The number conversions of the C library the program uses: \<open>printf ("%d")\<close>, \<open>strtol\<close> in base 10
  and \<open>atoi\<close>, which is \<open>(int) strtol\<close> in glibc: \<open>strtol\<close> saturates at the bounds of \<open>long\<close>, the
  conversion to \<open>int\<close> wraps.
\<close>

fun print_nat :: "nat \<Rightarrow> string" where
  "print_nat n = (if n < 10 then [char_of (48 + n)] else print_nat (n div 10) @ [char_of (48 + n mod 10)])"

declare print_nat.simps [simp del]

definition print_int :: "int \<Rightarrow> string" where
  "print_int i = (if i < 0 then CHR ''-'' # print_nat (nat (- i)) else print_nat (nat i))"

definition dec_value :: "string \<Rightarrow> nat" where
  "dec_value s = foldl (\<lambda>v c. v * 10 + (code c - 48)) 0 (takeWhile isdigit s)"

definition strtol10 :: "string \<Rightarrow> int" where
  "strtol10 s =
     (let s = dropWhile isspace s
      in if at0 s = CHR ''-'' then max (- 0x8000000000000000) (- int (dec_value (tl s)))
         else if at0 s = CHR ''+'' then min 0x7FFFFFFFFFFFFFFF (int (dec_value (tl s)))
         else min 0x7FFFFFFFFFFFFFFF (int (dec_value s)))"

definition atoi :: "string \<Rightarrow> int" where
  "atoi s = sint (word_of_int (strtol10 s) :: u32)"

lemma digit_char [simp]: "n < 10 \<Longrightarrow> isdigit (char_of (48 + n))" "n < 10 \<Longrightarrow> code (char_of (48 + n)) = 48 + n"
  by (simp_all add: isdigit_def code_char_of)

lemma print_nat_digits: "\<forall>c\<in>set (print_nat n). isdigit c"
  by (induction n rule: print_nat.induct) (subst print_nat.simps, auto)

lemma print_nat_nonempty [simp]: "print_nat n \<noteq> []"
  by (subst print_nat.simps) simp

lemma print_nat_value: "foldl (\<lambda>v c. v * 10 + (code c - 48)) 0 (print_nat n) = n"
proof (induction n rule: print_nat.induct)
  case (1 n)
  then show ?case by (subst print_nat.simps) simp
qed

lemma takeWhile_digits:
  "r = [] \<or> \<not> isdigit (hd r) \<Longrightarrow> takeWhile isdigit (print_nat n @ r) = print_nat n"
  using print_nat_digits [of n] by (cases r) (auto simp: takeWhile_append2 takeWhile_tail)

lemma hd_print_nat: "isdigit (hd (print_nat n))"
  using print_nat_digits [of n] by (simp add: hd_in_set)

lemma strtol10_print:
  assumes "int n \<le> 0x7FFFFFFFFFFFFFFF" "r = [] \<or> \<not> isdigit (hd r)"
  shows "strtol10 (print_nat n @ r) = int n"
proof -
  obtain c s where s: "print_nat n = c # s" by (cases "print_nat n") auto
  then have d: "isdigit c" using hd_print_nat [of n] by simp
  then have "\<not> isspace c" "c \<noteq> CHR ''-''" "c \<noteq> CHR ''+''"
    by (auto simp: isdigit_def isspace_def code_def)
  moreover have "dec_value (c # s @ r) = n"
    using takeWhile_digits [OF assms(2), of n] print_nat_value [of n] s by (simp add: dec_value_def)
  ultimately show ?thesis using assms(1) s by (simp add: strtol10_def)
qed

lemma atoi_print:
  assumes "n < 2147483648" "r = [] \<or> \<not> isdigit (hd r)"
  shows "atoi (print_nat n @ r) = int n"
proof -
  have "strtol10 (print_nat n @ r) = int n" using assms by (intro strtol10_print) auto
  then show ?thesis
    using assms(1) by (simp add: atoi_def sint_uint unsigned_of_nat take_bit_nat_eq_self
        signed_take_bit_int_eq_self)
qed

lemma length_print_nat: "n < 10 ^ Suc k \<Longrightarrow> length (print_nat n) \<le> Suc k"
proof (induction k arbitrary: n)
  case 0
  then show ?case by (subst print_nat.simps) simp
next
  case (Suc k)
  have "n div 10 < 10 ^ Suc k" using Suc.prems by (simp add: less_mult_imp_div_less)
  with Suc.IH show ?case by (subst print_nat.simps) simp
qed

lemma length_print_int:
  assumes "\<bar>i\<bar> < 10 ^ 20"
  shows "length (print_int i) \<le> 21"
proof -
  have "nat \<bar>i\<bar> < 10 ^ Suc 19" using assms by simp
  from length_print_nat [OF this] show ?thesis by (auto simp: print_int_def abs_if split: if_splits)
qed

end
