(* ===== verification/CmdLine.thy ===== *)
theory CmdLine
  imports Numbers
begin

text \<open>
  The command line: the walk over the arguments (\<open>basic_args.c\<close>), the options of the program and
  the way from the options to the event loop (\<open>system/main.c\<close>, \<open>system/helper.c\<close>).  The state is
  the part of \<open>master\<close> that options change; what else an option does is logged.
\<close>

subsection \<open>Arguments\<close>

record args =
  ar_argv :: "string list"
  ar_index :: nat

fun basic_args_cmp :: "string \<Rightarrow> string list \<Rightarrow> int" where
  "basic_args_cmp base [] = 0"
| "basic_args_cmp base (p # ps) = (if base = p then 1 else basic_args_cmp base ps)"

definition basic_args_get :: "args \<Rightarrow> string option \<times> args" where
  "basic_args_get a =
     (let num = ar_index a + 1; a = a\<lparr>ar_index := num\<rparr>
      in (if num \<ge> length (ar_argv a) then None else Some (ar_argv a ! num), a))"

text \<open>
  How a callback ends: with a value, or the process with a status.  \<open>None\<close> around it is undefined
  behaviour.
\<close>

datatype outcome = Ret int | Exit int

type_synonym 's arg_callback = "args \<Rightarrow> string \<Rightarrow> 's \<Rightarrow> (outcome \<times> args \<times> 's) option"

text \<open>The letters of an argument such as \<open>-qd\<close>, each an option of its own.\<close>

fun short_options :: "'s arg_callback \<Rightarrow> string \<Rightarrow> args \<Rightarrow> 's \<Rightarrow> (outcome \<times> args \<times> 's) option" where
  "short_options cb [] a s = Some (Ret 0, a, s)"
| "short_options cb (c # cs) a s =
     Option.bind (cb a [CHR ''-'', c] s) (\<lambda>(r, a, s).
     if r \<noteq> Ret 0 then Some (r, a, s) else short_options cb cs a s)"

definition argv_process1 :: "'s arg_callback \<Rightarrow> args \<Rightarrow> 's \<Rightarrow> (outcome \<times> args \<times> 's) option" where
  "argv_process1 cb a s =
     (let base = ar_argv a ! ar_index a in
      if at0 base \<noteq> CHR ''-'' then Some (Ret 0, a, s)
      else let p = tl base in
        if at0 p = CHR ''-'' then cb a base s
        else short_options cb p a s)"

partial_function (option) args_loop :: "'s arg_callback \<Rightarrow> args \<Rightarrow> 's \<Rightarrow> (outcome \<times> 's) option" where
  "args_loop cb a s =
     (if ar_index a \<ge> length (ar_argv a) then Some (Ret 0, s)
      else Option.bind (argv_process1 cb a s) (\<lambda>(r, a, s).
        if r \<noteq> Ret 0 then Some (r, s)
        else args_loop cb (a\<lparr>ar_index := ar_index a + 1\<rparr>) s))"

definition basic_args_process :: "'s arg_callback \<Rightarrow> string list \<Rightarrow> 's \<Rightarrow> (outcome \<times> 's) option" where
  "basic_args_process cb argv s = args_loop cb \<lparr>ar_argv = argv, ar_index = 1\<rparr> s"

subsection \<open>The options\<close>

datatype opt =
    CVER | CHELP | CPIDFILE | CDAEMONIZE | CPRETEND | CWORKDIR | CLOGDIR | CTMPDIR | CCONFIG | CDLOG
  | CREUSE | CVERBOSE | CQUIET | CLOGLEVEL | CLOGMASK | CDOWNLOAD | COUTPUT | CPROGRESS | CAUTONAME | CSERVE

definition cmdlist :: "(string option \<times> string \<times> opt) list" where
  "cmdlist =
     [(Some ''-v'', ''--version'', CVER),
      (Some ''-h'', ''--help'', CHELP),
      (Some ''-d'', ''--download'', CDOWNLOAD),
      (Some ''-o'', ''--output'', COUTPUT),
      (Some ''-p'', ''--progress'', CPROGRESS),
      (Some ''-n'', ''--autoname'', CAUTONAME),
      (None, ''--serve'', CSERVE),
      (Some ''-c'', ''--config'', CCONFIG),
      (None, ''--log'', CDLOG),
      (None, ''--pretend'', CPRETEND),
      (None, ''--check'', CPRETEND),
      (None, ''--pidfile'', CPIDFILE),
      (None, ''--daemonize'', CDAEMONIZE),
      (None, ''--workdir'', CWORKDIR),
      (None, ''--logdir'', CLOGDIR),
      (None, ''--tmpdir'', CTMPDIR),
      (None, ''--reuse'', CREUSE),
      (Some ''-V'', ''--verbose'', CVERBOSE),
      (Some ''-q'', ''--quiet'', CQUIET),
      (None, ''--loglevel'', CLOGLEVEL),
      (None, ''--logmask'', CLOGMASK)]"

fun find_cmd :: "(string option \<times> string \<times> opt) list \<Rightarrow> string \<Rightarrow> opt option" where
  "find_cmd [] name = None"
| "find_cmd ((short, long, cmd) # l) name = (if short = Some name \<or> long = name then Some cmd else find_cmd l name)"

definition HIN_FLAG_QUIT :: u32 where [flag_defs]: "HIN_FLAG_QUIT = 0x1"
definition HIN_DAEMONIZE :: u32 where [flag_defs]: "HIN_DAEMONIZE = 0x2"
definition HIN_PRETEND :: u32 where [flag_defs]: "HIN_PRETEND = 0x4"
definition HIN_SKIP_CONFIG :: u32 where [flag_defs]: "HIN_SKIP_CONFIG = 0x20"

definition DEBUG_BASIC :: u32 where [flag_defs]: "DEBUG_BASIC = 0x1"
definition DEBUG_CONFIG :: u32 where [flag_defs]: "DEBUG_CONFIG = 0x2"
definition DEBUG_SOCKET :: u32 where [flag_defs]: "DEBUG_SOCKET = 0x8"
definition DEBUG_HTTP :: u32 where [flag_defs]: "DEBUG_HTTP = 0x100"
definition DEBUG_CGI :: u32 where [flag_defs]: "DEBUG_CGI = 0x200"
definition DEBUG_PROXY :: u32 where [flag_defs]: "DEBUG_PROXY = 0x400"
definition DEBUG_RW_ERROR :: u32 where [flag_defs]: "DEBUG_RW_ERROR = 0x20000"

datatype opt_event =
    Print_version
  | Print_help
  | Set_debug u32
  | Chdir string
  | Download nat string
  | Save_fd nat int
  | Progress nat
  | Autoname nat
  | Serve string

record opts =
  op_flags :: u32
  op_debug :: u32
  op_conf :: string
  op_workdir :: string
  op_logdir :: string
  op_tmpdir :: string
  op_pid :: "string option"
  op_sharefd :: int
  op_listen :: int
  op_download :: "nat option"
  op_log :: "opt_event list"

text \<open>
  \<open>pe_redirect\<close>: the log file can be opened (if not, the process exits); \<open>pe_fd_open\<close>: the
  descriptor is open; \<open>pe_listen\<close>: \<open>httpd_create\<close> for the port succeeds; \<open>pe_open\<close>: the descriptor of an opened file or a negative error;
  \<open>pe_download\<close>: what \<open>http_download_raw\<close> returns; \<open>pe_hex\<close>: \<open>strtol\<close> in base 16.
\<close>

record prog_env =
  pe_redirect :: "string \<Rightarrow> bool"
  pe_fd_open :: "int \<Rightarrow> bool"
  pe_listen :: "string \<Rightarrow> bool"
  pe_open :: "string \<Rightarrow> int"
  pe_download :: "string \<Rightarrow> opts \<Rightarrow> nat option"
  pe_hex :: "string \<Rightarrow> int"

definition log_opt :: "opt_event \<Rightarrow> opts \<Rightarrow> opts" where
  "log_opt ev s = s\<lparr>op_log := op_log s @ [ev]\<rparr>"

text \<open>The new path; an empty path makes \<open>old[len-1]\<close> read before the string.\<close>

definition hin_directory_path :: "string \<Rightarrow> string option" where
  "hin_directory_path old =
     (if old = [] then None else if last old = CHR ''/'' then Some old else Some (old @ ''/''))"

definition set_debug :: "u32 \<Rightarrow> opts \<Rightarrow> opts" where
  "set_debug m s = log_opt (Set_debug m) (s\<lparr>op_debug := m\<rparr>)"

definition level_mask :: "int \<Rightarrow> u32 option" where
  "level_mask nr =
     (let l0 = DEBUG_BASIC;
          l1 = DEBUG_CONFIG OR DEBUG_SOCKET OR DEBUG_RW_ERROR OR l0;
          l2 = DEBUG_HTTP OR DEBUG_CGI OR DEBUG_PROXY OR l1
      in if nr = 5 then Some 0xffffffff
         else if nr = 4 \<or> nr = 3 \<or> nr = 2 then Some l2
         else if nr = 1 then Some l1
         else if nr = 0 then Some l0
         else None)"

text \<open>An option without its argument prints the help and fails.\<close>

definition need_arg :: "args \<Rightarrow> opts \<Rightarrow> (string \<Rightarrow> args \<Rightarrow> opts \<Rightarrow> (outcome \<times> args \<times> opts) option) \<Rightarrow>
    (outcome \<times> args \<times> opts) option" where
  "need_arg a s k =
     (case basic_args_get a of
        (None, a) \<Rightarrow> Some (Ret (-1), a, log_opt Print_help s)
      | (Some p, a) \<Rightarrow> k p a s)"

definition need_download :: "args \<Rightarrow> opts \<Rightarrow> (nat \<Rightarrow> (outcome \<times> args \<times> opts) option) \<Rightarrow> (outcome \<times> args \<times> opts) option" where
  "need_download a s k = (case op_download s of None \<Rightarrow> Some (Ret (-1), a, s) | Some d \<Rightarrow> k d)"

definition opt_download :: "prog_env \<Rightarrow> args \<Rightarrow> opts \<Rightarrow> (outcome \<times> args \<times> opts) option" where
  "opt_download e a s = need_arg a s (\<lambda>p a s.
     let d = pe_download e p s;
         s = (case d of Some n \<Rightarrow> log_opt (Download n p) s | None \<Rightarrow> s)
     in Some (Ret 0, a, s\<lparr>op_download := d,
          op_flags := setf (setf (op_flags s) HIN_SKIP_CONFIG) HIN_FLAG_QUIT,
          op_debug := clrf (op_debug s) (DEBUG_BASIC OR DEBUG_CONFIG)\<rparr>))"

definition opt_output :: "prog_env \<Rightarrow> args \<Rightarrow> opts \<Rightarrow> (outcome \<times> args \<times> opts) option" where
  "opt_output e a s = need_arg a s (\<lambda>p a s. need_download a s (\<lambda>d.
     let fd = pe_open e p in
     Some (Ret (if fd < 0 then -1 else 0), a, log_opt (Save_fd d fd) s)))"

text \<open>The result of \<open>httpd_create\<close> is dereferenced without a test.\<close>

definition opt_serve :: "prog_env \<Rightarrow> args \<Rightarrow> opts \<Rightarrow> (outcome \<times> args \<times> opts) option" where
  "opt_serve e a s = need_arg a s (\<lambda>p a s.
     if pe_listen e p
     then Some (Ret 0, a, log_opt (Serve p)
            (s\<lparr>op_listen := op_listen s + 1, op_flags := setf (op_flags s) HIN_SKIP_CONFIG\<rparr>))
     else None)"

lemmas opt_defs = opt_download_def opt_output_def opt_serve_def

definition run_option :: "prog_env \<Rightarrow> opt \<Rightarrow> args \<Rightarrow> opts \<Rightarrow> (outcome \<times> args \<times> opts) option" where
  "run_option e c a s =
     (case c of
        CVER \<Rightarrow> Some (Ret 1, a, log_opt Print_version s)
      | CHELP \<Rightarrow> Some (Ret 1, a, log_opt Print_help s)
      | CDAEMONIZE \<Rightarrow> Some (Ret 0, a, s\<lparr>op_flags := setf (op_flags s) HIN_DAEMONIZE\<rparr>)
      | CPRETEND \<Rightarrow> Some (Ret 0, a, set_debug 0 (s\<lparr>op_flags := setf (op_flags s) HIN_PRETEND\<rparr>))
      | CWORKDIR \<Rightarrow> need_arg a s (\<lambda>p a s. Option.bind (hin_directory_path p) (\<lambda>d.
          Some (Ret 0, a, log_opt (Chdir d) (s\<lparr>op_workdir := d\<rparr>))))
      | CLOGDIR \<Rightarrow> need_arg a s (\<lambda>p a s. Option.bind (hin_directory_path p) (\<lambda>d.
          Some (Ret 0, a, s\<lparr>op_logdir := d\<rparr>)))
      | CTMPDIR \<Rightarrow> need_arg a s (\<lambda>p a s. Option.bind (hin_directory_path p) (\<lambda>d.
          Some (Ret 0, a, s\<lparr>op_tmpdir := d\<rparr>)))
      | CPIDFILE \<Rightarrow> need_arg a s (\<lambda>p a s. Some (Ret 0, a, if p \<noteq> [] then s\<lparr>op_pid := Some p\<rparr> else s))
      | CCONFIG \<Rightarrow> need_arg a s (\<lambda>p a s.
          Some (Ret 0, a, s\<lparr>op_conf := p, op_flags := clrf (op_flags s) HIN_SKIP_CONFIG\<rparr>))
      | CDLOG \<Rightarrow> need_arg a s (\<lambda>p a s. Some (if pe_redirect e p then Ret 0 else Exit 1, a, s))
      | CREUSE \<Rightarrow> need_arg a s (\<lambda>p a s.
          if \<not> pe_fd_open e (atoi p) then Some (Exit 1, a, s)
          else Some (Ret 0, a, s\<lparr>op_sharefd := atoi p\<rparr>))
      | CVERBOSE \<Rightarrow> Some (Ret 0, a, set_debug 0xffffffff s)
      | CQUIET \<Rightarrow> Some (Ret 0, a, set_debug 0 s)
      | CLOGLEVEL \<Rightarrow> need_arg a s (\<lambda>p a s.
          case level_mask (atoi p) of
            None \<Rightarrow> Some (Ret (-1), a, s\<lparr>op_debug := 0\<rparr>)
          | Some m \<Rightarrow> Some (Ret 0, a, set_debug m s))
      | CLOGMASK \<Rightarrow> need_arg a s (\<lambda>p a s. Some (Ret 0, a, set_debug (word_of_int (pe_hex e p)) s))
      | CDOWNLOAD \<Rightarrow> opt_download e a s
      | COUTPUT \<Rightarrow> opt_output e a s
      | CPROGRESS \<Rightarrow> need_download a s (\<lambda>d. Some (Ret 0, a, log_opt (Progress d) s))
      | CAUTONAME \<Rightarrow> need_download a s (\<lambda>d. Some (Ret 0, a, log_opt (Autoname d) s))
      | CSERVE \<Rightarrow> opt_serve e a s)"

definition hin_process_argv :: "prog_env \<Rightarrow> opts arg_callback" where
  "hin_process_argv e a name s =
     (case find_cmd cmdlist name of
        None \<Rightarrow> Some (Ret (-1), a, log_opt Print_help s)
      | Some c \<Rightarrow> run_option e c a s)"

subsection \<open>From the options to the event loop\<close>

text \<open>
  What start-up finds: \<open>ms_lua\<close>: the Lua state is created; \<open>ms_conf\<close>: the configuration, which
  may open sockets, or \<open>None\<close> when it fails; \<open>ms_daemon\<close> and \<open>ms_pid\<close>: how \<open>hin_daemonize\<close> and
  \<open>hin_pidfile\<close> end.
\<close>

record start_env =
  ms_lua :: bool
  ms_conf :: "string \<Rightarrow> opts \<Rightarrow> opts option"
  ms_daemon :: outcome
  ms_pid :: "string \<Rightarrow> outcome"

datatype started = Exited int | Serving opts

definition HIN_DEBUG_MASK :: u32 where "HIN_DEBUG_MASK = 0x20007"

definition opts0 :: opts where
  "opts0 = \<lparr>op_flags = 0, op_debug = HIN_DEBUG_MASK, op_conf = ''workdir/main.lua'', op_workdir = ''./'',
     op_logdir = ''workdir/logs/'', op_tmpdir = ''/tmp/'', op_pid = None, op_sharefd = 0, op_listen = 0,
     op_download = None, op_log = []\<rparr>"

definition hin_conf_load :: "start_env \<Rightarrow> opts \<Rightarrow> opts option" where
  "hin_conf_load m s = (if has (op_flags s) HIN_SKIP_CONFIG then Some s else ms_conf m (op_conf s) s)"

text \<open>\<open>exit\<close> in a step, or a negative result, ends the start.\<close>

definition start_step :: "outcome \<Rightarrow> started \<Rightarrow> started" where
  "start_step r k = (case r of Exit n \<Rightarrow> Exited n | Ret n \<Rightarrow> if n < 0 then Exited (-1) else k)"

definition main :: "prog_env \<Rightarrow> start_env \<Rightarrow> string list \<Rightarrow> started option" where
  "main e m argv =
     Option.bind (basic_args_process (hin_process_argv e) argv opts0) (\<lambda>(r, s).
     Some (case r of
         Exit n \<Rightarrow> Exited n
       | Ret n \<Rightarrow>
           if n \<noteq> 0 then (if n > 0 then Exited 0 else Exited (-1))
           else if \<not> ms_lua m then Exited (-1)
           else case hin_conf_load m s of
             None \<Rightarrow> Exited (-1)
           | Some s \<Rightarrow>
               if has (op_flags s) HIN_PRETEND then Exited 0
               else start_step (if has (op_flags s) HIN_DAEMONIZE then ms_daemon m else Ret 0)
                 (start_step (case op_pid s of None \<Rightarrow> Ret 0 | Some p \<Rightarrow> ms_pid m p)
                   (if has (op_flags s) HIN_FLAG_QUIT then Serving s
                    else if op_listen s \<le> 0 then Exited (-1)
                    else Serving s))))"

subsection \<open>What an option reads\<close>

definition takes :: "opt \<Rightarrow> bool" where
  "takes c \<longleftrightarrow> c \<notin> {CVER, CHELP, CDAEMONIZE, CPRETEND, CVERBOSE, CQUIET, CPROGRESS, CAUTONAME}"

definition takes_name :: "string \<Rightarrow> bool" where
  "takes_name name = (case find_cmd cmdlist name of None \<Rightarrow> False | Some c \<Rightarrow> takes c)"

definition with_arg :: "string \<Rightarrow> args" where
  "with_arg p = \<lparr>ar_argv = [[], p], ar_index = 0\<rparr>"

lemma get_with_arg [simp]: "basic_args_get (with_arg p) = (Some p, (with_arg p)\<lparr>ar_index := 1\<rparr>)"
  by (simp add: basic_args_get_def with_arg_def)

lemma get_arg:
  "ar_index a + 1 < length (ar_argv a) \<Longrightarrow>
   basic_args_get a = (Some (ar_argv a ! (ar_index a + 1)), a\<lparr>ar_index := ar_index a + 1\<rparr>)"
  "\<not> ar_index a + 1 < length (ar_argv a) \<Longrightarrow> basic_args_get a = (None, a\<lparr>ar_index := ar_index a + 1\<rparr>)"
  by (simp_all add: basic_args_get_def Let_def)

lemma run_option_flag:
  "\<not> takes c \<Longrightarrow> run_option e c a s = map_option (\<lambda>(r, _, s'). (r, a, s')) (run_option e c b s)"
  by (cases c) (simp_all add: takes_def run_option_def opt_defs need_download_def split: option.splits)

lemma run_option_arg:
  assumes "takes c" "ar_index a + 1 < length (ar_argv a)"
  shows "run_option e c a s = map_option (\<lambda>(r, _, s'). (r, a\<lparr>ar_index := ar_index a + 1\<rparr>, s'))
     (run_option e c (with_arg (ar_argv a ! (ar_index a + 1))) s)"
  using assms
  by (cases c) (auto simp: takes_def run_option_def opt_defs need_arg_def need_download_def get_arg Let_def
      split: option.splits Option.bind_splits)

lemma run_option_missing:
  assumes "takes c" "\<not> ar_index a + 1 < length (ar_argv a)"
  shows "run_option e c a s = Some (Ret (-1), a\<lparr>ar_index := ar_index a + 1\<rparr>, log_opt Print_help s)"
  using assms by (cases c) (auto simp: takes_def run_option_def opt_defs need_arg_def get_arg)

text \<open>What follows the argument a walk is at.\<close>

definition following :: "args \<Rightarrow> string list" where
  "following a = drop (ar_index a + 1) (ar_argv a)"

lemma following_step [simp]: "following (a\<lparr>ar_index := Suc (ar_index a)\<rparr>) = tl (following a)"
  by (simp add: following_def tl_drop drop_Suc)

lemma drop_after: "drop n xs = p # ps \<Longrightarrow> drop (Suc n) xs = ps"
  by (metis drop_Suc list.sel(3) tl_drop)

lemma following_Nil: "following a = [] \<longleftrightarrow> \<not> ar_index a + 1 < length (ar_argv a)"
  by (auto simp: following_def)

lemma following_Cons: "following a = p # ps \<Longrightarrow> ar_index a + 1 < length (ar_argv a) \<and> ar_argv a ! (ar_index a + 1) = p"
  unfolding following_def by (metis drop_eq_Nil leI list.discI nth_via_drop)

lemma hin_process_argv_flag:
  "\<not> takes_name name \<Longrightarrow> hin_process_argv e a name s = map_option (\<lambda>(r, _, s'). (r, a, s')) (hin_process_argv e b name s)"
  using run_option_flag by (auto simp: hin_process_argv_def takes_name_def split: option.splits)

lemma hin_process_argv_flag_ex:
  assumes "\<not> takes_name name"
  shows "\<exists>x. \<forall>a. hin_process_argv e a name s = map_option (\<lambda>(r, s'). (r, a, s')) x"
proof (cases "hin_process_argv e (with_arg []) name s")
  case None
  then have "hin_process_argv e a name s = map_option (\<lambda>(r, s'). (r, a, s')) None" for a
    using hin_process_argv_flag [OF assms, of e a s "with_arg []"] by simp
  then show ?thesis by blast
next
  case (Some x)
  obtain r b s' where x: "x = (r, b, s')" by (cases x)
  then have "hin_process_argv e a name s = map_option (\<lambda>(r, s'). (r, a, s')) (Some (r, s'))" for a
    using hin_process_argv_flag [OF assms, of e a s "with_arg []"] Some by simp
  then show ?thesis by blast
qed

lemma hin_process_argv_arg:
  "takes_name name \<Longrightarrow> following a = p # ps \<Longrightarrow> hin_process_argv e a name s =
     map_option (\<lambda>(r, _, s'). (r, a\<lparr>ar_index := Suc (ar_index a)\<rparr>, s')) (hin_process_argv e (with_arg p) name s)"
  using run_option_arg following_Cons [of a p ps]
  by (auto simp: hin_process_argv_def takes_name_def split: option.splits)

lemma hin_process_argv_missing:
  "takes_name name \<Longrightarrow> following a = [] \<Longrightarrow> hin_process_argv e a name s =
     Some (Ret (-1), a\<lparr>ar_index := Suc (ar_index a)\<rparr>, log_opt Print_help s)"
  using run_option_missing [of _ a] following_Nil [of a]
  by (auto simp: hin_process_argv_def takes_name_def split: option.splits)

text \<open>Two walks that are at different places of different argument lists behave the same as long
  as the same arguments follow.\<close>

definition same_walk :: "(outcome \<times> args \<times> 's) option \<Rightarrow> (outcome \<times> args \<times> 's) option \<Rightarrow> bool" where
  "same_walk x y \<longleftrightarrow> map_option (\<lambda>(r, a, s). (r, following a, s)) x = map_option (\<lambda>(r, a, s). (r, following a, s)) y"

lemma same_walk_cases:
  assumes "same_walk x y"
  obtains "x = None" "y = None"
  | r a b s where "x = Some (r, a, s)" "y = Some (r, b, s)" "following a = following b"
  using assms by (cases x; cases y) (auto simp: same_walk_def)

lemma hin_process_argv_same:
  assumes "following a = following b"
  shows "same_walk (hin_process_argv e a name s) (hin_process_argv e b name s)"
proof (cases "takes_name name")
  case True
  then show ?thesis
  proof (cases "following a")
    case Nil
    then show ?thesis using assms True by (simp add: hin_process_argv_missing same_walk_def)
  next
    case (Cons p ps)
    then show ?thesis using assms True
      by (simp add: hin_process_argv_arg same_walk_def option.map_comp comp_def case_prod_beta)
  qed
next
  case False
  then obtain x where "\<And>a. hin_process_argv e a name s = map_option (\<lambda>(r, s'). (r, a, s')) x"
    using hin_process_argv_flag_ex by blast
  then show ?thesis using assms by (simp add: same_walk_def option.map_comp comp_def case_prod_beta)
qed

lemma short_options_same:
  "following a = following b \<Longrightarrow>
   same_walk (short_options (hin_process_argv e) cs a s) (short_options (hin_process_argv e) cs b s)"
proof (induction cs arbitrary: a b s)
  case (Cons c cs)
  from hin_process_argv_same [OF Cons.prems, of e "[CHR ''-'', c]" s] show ?case
  proof (cases rule: same_walk_cases)
    case (2 r a1 b1 s1)
    show ?thesis
    proof (cases "r = Ret 0")
      case True
      then show ?thesis using 2 Cons.IH [OF 2(3), of s1] by simp
    qed (use 2 in \<open>simp add: same_walk_def\<close>)
  qed (simp add: same_walk_def)
qed (simp add: same_walk_def)

text \<open>An option reads its argument at most; the walk goes on behind it.\<close>

lemma hin_process_argv_moves:
  assumes "hin_process_argv e a name s = Some (r, b, s')"
  shows "b = a \<or> b = a\<lparr>ar_index := Suc (ar_index a)\<rparr>"
proof (cases "takes_name name")
  case True
  then show ?thesis using assms
    by (cases "following a") (auto simp: hin_process_argv_missing hin_process_argv_arg)
next
  case False
  then obtain x where "\<And>a. hin_process_argv e a name s = map_option (\<lambda>(r, s'). (r, a, s')) x"
    using hin_process_argv_flag_ex by blast
  then show ?thesis using assms by auto
qed

lemma short_options_moves:
  "short_options (hin_process_argv e) cs a s = Some (r, b, s') \<Longrightarrow>
   ar_argv b = ar_argv a \<and> ar_index a \<le> ar_index b"
proof (induction cs arbitrary: a s)
  case (Cons c cs)
  then obtain r1 a1 s1 where st: "hin_process_argv e a [CHR ''-'', c] s = Some (r1, a1, s1)"
    and rest: "r1 \<noteq> Ret 0 \<Longrightarrow> b = a1" "r1 = Ret 0 \<Longrightarrow> short_options (hin_process_argv e) cs a1 s1 = Some (r, b, s')"
    by (cases "hin_process_argv e a [CHR ''-'', c] s") (auto split: if_splits)
  have a1: "ar_argv a1 = ar_argv a \<and> ar_index a \<le> ar_index a1" using hin_process_argv_moves [OF st] by auto
  show ?case
  proof (cases "r1 = Ret 0")
    case True
    from Cons.IH [OF rest(2) [OF this]] a1 show ?thesis by simp
  qed (use rest(1) a1 in simp)
qed simp

lemma argv_process1_moves:
  "argv_process1 (hin_process_argv e) a s = Some (r, b, s') \<Longrightarrow> ar_argv b = ar_argv a \<and> ar_index a \<le> ar_index b"
  using short_options_moves hin_process_argv_moves
  by (fastforce simp: argv_process1_def Let_def split: if_splits)

lemma argv_process1_same:
  assumes "drop (ar_index a) (ar_argv a) = w # ws" "drop (ar_index b) (ar_argv b) = w # ws"
  shows "same_walk (argv_process1 (hin_process_argv e) a s) (argv_process1 (hin_process_argv e) b s)"
proof -
  have w: "ar_argv a ! ar_index a = w" "ar_argv b ! ar_index b = w" using assms by (simp_all add: nth_via_drop)
  have f: "following a = following b"
    using assms by (metis Suc_eq_plus1 drop_Suc following_def list.sel(3) tl_drop)
  show ?thesis using hin_process_argv_same [OF f] short_options_same [OF f] f
    by (simp add: argv_process1_def w Let_def same_walk_def)
qed

lemma args_loop_same:
  "drop (ar_index a) (ar_argv a) = drop (ar_index b) (ar_argv b) \<Longrightarrow>
   args_loop (hin_process_argv e) a s = args_loop (hin_process_argv e) b s"
proof (induction "length (ar_argv a) - ar_index a" arbitrary: a b s rule: less_induct)
  case less
  show ?case
  proof (cases "drop (ar_index a) (ar_argv a)")
    case Nil
    then show ?thesis using less.prems by (subst (1 2) args_loop.simps) auto
  next
    case (Cons w ws)
    then have lt: "ar_index a < length (ar_argv a)" "ar_index b < length (ar_argv b)"
      using less.prems by (metis drop_eq_Nil leI list.discI)+
    from argv_process1_same [OF Cons less.prems [symmetric, unfolded Cons], of e s] show ?thesis
    proof (cases rule: same_walk_cases)
      case 1
      then show ?thesis using lt by (subst (1 2) args_loop.simps) simp
    next
      case (2 r a1 b1 s1)
      note mv = argv_process1_moves [OF 2(1)] argv_process1_moves [OF 2(2)]
      have "args_loop (hin_process_argv e) (a1\<lparr>ar_index := ar_index a1 + 1\<rparr>) s1 =
            args_loop (hin_process_argv e) (b1\<lparr>ar_index := ar_index b1 + 1\<rparr>) s1"
        using 2(3) mv lt by (intro less.hyps) (auto simp: following_def)
      then show ?thesis using 2 lt by (subst (1 2) args_loop.simps) simp
    qed
  qed
qed

subsection \<open>Properties\<close>

definition sound_env :: "prog_env \<Rightarrow> bool" where
  "sound_env e \<longleftrightarrow> (\<forall>p. pe_listen e p)"

lemma run_option_defined:
  assumes "sound_env e" "[] \<notin> set (ar_argv a)"
  shows "run_option e c a s \<noteq> None"
proof -
  have "hin_directory_path p \<noteq> None" if "p \<in> set (ar_argv a)" for p
    using assms(2) that by (auto simp: hin_directory_path_def)
  then have "\<exists>d. hin_directory_path (ar_argv a ! Suc (ar_index a)) = Some d" if "Suc (ar_index a) < length (ar_argv a)"
    using nth_mem [OF that] by blast
  then show ?thesis
    using assms(1) by (cases c) (auto simp: run_option_def opt_defs need_arg_def need_download_def basic_args_get_def
        sound_env_def Let_def split: option.splits)
qed

lemma hin_process_argv_defined:
  "sound_env e \<Longrightarrow> [] \<notin> set (ar_argv a) \<Longrightarrow> \<exists>r b s'. hin_process_argv e a name s = Some (r, b, s')"
  using run_option_defined by (auto simp: hin_process_argv_def split: option.splits)

lemma short_options_defined:
  assumes "sound_env e" "[] \<notin> set (ar_argv a)"
  shows "\<exists>r b s'. short_options (hin_process_argv e) cs a s = Some (r, b, s')"
  using assms(2)
proof (induction cs arbitrary: a s)
  case (Cons c cs)
  obtain r b s' where st: "hin_process_argv e a [CHR ''-'', c] s = Some (r, b, s')"
    using hin_process_argv_defined [OF assms(1) Cons.prems] by blast
  have "ar_argv b = ar_argv a" using hin_process_argv_moves [OF st] by auto
  then show ?case using st Cons.IH [of b s'] Cons.prems by auto
qed simp

lemma args_loop_ends:
  assumes "sound_env e" "[] \<notin> set (ar_argv a)"
  shows "\<exists>r s'. args_loop (hin_process_argv e) a s = Some (r, s')"
  using assms(2)
proof (induction "length (ar_argv a) - ar_index a" arbitrary: a s rule: less_induct)
  case less
  show ?case
  proof (cases "ar_index a < length (ar_argv a)")
    case True
    obtain r b s1 where st: "argv_process1 (hin_process_argv e) a s = Some (r, b, s1)"
      using short_options_defined [OF assms(1) less.prems] hin_process_argv_defined [OF assms(1) less.prems]
      by (fastforce simp: argv_process1_def Let_def)
    note mv = argv_process1_moves [OF st]
    have "\<exists>r s'. args_loop (hin_process_argv e) (b\<lparr>ar_index := ar_index b + 1\<rparr>) s1 = Some (r, s')"
      using mv True less.prems by (intro less.hyps) auto
    then show ?thesis using st True by (subst args_loop.simps) auto
  qed (subst args_loop.simps, simp)
qed


definition prog_env0 :: prog_env where
  "prog_env0 = \<lparr>pe_redirect = (\<lambda>_. True), pe_fd_open = (\<lambda>_. False), pe_listen = (\<lambda>_. True), pe_open = (\<lambda>_. 7),
     pe_download = (\<lambda>_ _. Some 1), pe_hex = (\<lambda>_. 0)\<rparr>"

definition start_env0 :: start_env where
  "start_env0 = \<lparr>ms_lua = True, ms_conf = (\<lambda>_. Some), ms_daemon = Ret 0, ms_pid = (\<lambda>_. Ret 0)\<rparr>"


text \<open>The two exceptions: a directory that is the empty string, a port that is refused.\<close>

lemma empty_directory_undefined:
  "basic_args_process (hin_process_argv e) [prog, ''--workdir'', []] s = None"
  by (subst basic_args_process_def, subst args_loop.simps)
     (simp add: argv_process1_def hin_process_argv_def cmdlist_def run_option_def opt_defs need_arg_def
        basic_args_get_def hin_directory_path_def)

lemma refused_port_undefined:
  "\<not> pe_listen e port \<Longrightarrow> basic_args_process (hin_process_argv e) [prog, ''--serve'', port] s = None"
  by (subst basic_args_process_def, subst args_loop.simps)
     (simp add: argv_process1_def hin_process_argv_def cmdlist_def run_option_def opt_defs need_arg_def basic_args_get_def)

text \<open>Letters in one word, and the same letters as words, each followed by its argument.\<close>

fun as_words :: "string \<Rightarrow> string list \<Rightarrow> string list" where
  "as_words [] ps = []"
| "as_words (c # cs) ps =
     (if takes_name [CHR ''-'', c]
      then [CHR ''-'', c] # take 1 ps @ as_words cs (tl ps)
      else [CHR ''-'', c] # as_words cs ps)"

definition arg_count :: "string \<Rightarrow> nat" where
  "arg_count cs = length (filter (\<lambda>c. takes_name [CHR ''-'', c]) cs)"

definition go_on :: "prog_env \<Rightarrow> outcome \<times> args \<times> opts \<Rightarrow> (outcome \<times> opts) option" where
  "go_on e = (\<lambda>(r, a, s). if r \<noteq> Ret 0 then Some (r, s)
     else args_loop (hin_process_argv e) (a\<lparr>ar_index := Suc (ar_index a)\<rparr>) s)"

lemma args_loop_word:
  assumes "drop (ar_index a) (ar_argv a) = w # ws"
  shows "args_loop (hin_process_argv e) a s = Option.bind (argv_process1 (hin_process_argv e) a s) (go_on e)"
proof -
  have "ar_index a < length (ar_argv a)" using assms by (metis drop_eq_Nil leI list.discI)
  then show ?thesis by (subst args_loop.simps, cases "argv_process1 (hin_process_argv e) a s") (auto simp: go_on_def)
qed

lemma args_loop_letter:
  assumes "drop (ar_index a) (ar_argv a) = [CHR ''-'', c] # ws"
  shows "args_loop (hin_process_argv e) a s = Option.bind (hin_process_argv e a [CHR ''-'', c] s) (go_on e)"
proof -
  have "ar_argv a ! ar_index a = [CHR ''-'', c]" using assms by (simp add: nth_via_drop)
  then have "argv_process1 (hin_process_argv e) a s = hin_process_argv e a [CHR ''-'', c] s"
    by (cases "hin_process_argv e a [CHR ''-'', c] s") (auto simp: argv_process1_def Let_def)
  then show ?thesis using args_loop_word [OF assms] by simp
qed

lemma as_words_letters:
  assumes "following a = ps @ ws" "drop (ar_index b) (ar_argv b) = as_words cs ps @ ws" "length ps = arg_count cs"
  shows "Option.bind (short_options (hin_process_argv e) cs a s) (go_on e) = args_loop (hin_process_argv e) b s"
  using assms
proof (induction cs arbitrary: ps a b s)
  case Nil
  then show ?case by (simp add: go_on_def arg_count_def following_def args_loop_same)
next
  case (Cons c cs)
  let ?n = "[CHR ''-'', c]"
  show ?case
  proof (cases "takes_name ?n")
    case True
    then obtain p qs where ps: "ps = p # qs" using Cons.prems(3) by (cases ps) (auto simp: arg_count_def)
    have b: "drop (ar_index b) (ar_argv b) = ?n # p # as_words cs qs @ ws" using Cons.prems(2) True ps by simp
    then have fb: "following b = p # as_words cs qs @ ws"
      by (metis Suc_eq_plus1 drop_Suc following_def list.sel(3) tl_drop)
    have fa: "following a = p # qs @ ws" using Cons.prems(1) ps by simp
    let ?a = "a\<lparr>ar_index := Suc (ar_index a)\<rparr>" and ?b = "b\<lparr>ar_index := Suc (ar_index b)\<rparr>"
    have ih: "Option.bind (short_options (hin_process_argv e) cs ?a s') (go_on e) =
        args_loop (hin_process_argv e) (?b\<lparr>ar_index := Suc (ar_index ?b)\<rparr>) s'" for s'
      using Cons.prems(3) True ps fa fb
      by (intro Cons.IH [of _ qs]) (auto simp: arg_count_def following_def dest: drop_after)
    show ?thesis
    proof (cases "hin_process_argv e (with_arg p) ?n s")
      case None
      then show ?thesis
        using hin_process_argv_arg [OF True fa] hin_process_argv_arg [OF True fb] args_loop_letter [OF b] by simp
    next
      case (Some x)
      then show ?thesis
        using hin_process_argv_arg [OF True fa] hin_process_argv_arg [OF True fb] args_loop_letter [OF b] ih
        by (cases x) (auto simp: go_on_def)
    qed
  next
    case False
    then obtain x where x: "\<And>a. hin_process_argv e a ?n s = map_option (\<lambda>(r, s'). (r, a, s')) x"
      using hin_process_argv_flag_ex by blast
    have b: "drop (ar_index b) (ar_argv b) = ?n # as_words cs ps @ ws" using Cons.prems(2) False by simp
    have ih: "Option.bind (short_options (hin_process_argv e) cs a s') (go_on e) =
        args_loop (hin_process_argv e) (b\<lparr>ar_index := Suc (ar_index b)\<rparr>) s'" for s'
      using Cons.prems(1,3) False b
      by (intro Cons.IH [of _ ps]) (auto simp: arg_count_def dest: drop_after)
    show ?thesis using args_loop_letter [OF b] ih by (cases x) (auto simp: x go_on_def)
  qed
qed

text \<open>
  Several letters behind one dash mean the same as the letters as options of their own, each
  followed by its argument if it has one: \<open>-do url file\<close> is \<open>-d url -o file\<close>.
\<close>

theorem bundled_options:
  assumes "at0 cs \<noteq> CHR ''-''" "length ps = arg_count cs"
  shows "basic_args_process (hin_process_argv e) (prog # (CHR ''-'' # cs) # ps @ ws) s =
         basic_args_process (hin_process_argv e) (prog # as_words cs ps @ ws) s"
proof -
  let ?a = "\<lparr>ar_argv = prog # (CHR ''-'' # cs) # ps @ ws, ar_index = 1\<rparr>"
  have "args_loop (hin_process_argv e) ?a s = Option.bind (short_options (hin_process_argv e) cs ?a s) (go_on e)"
    by (subst args_loop_word) (use assms(1) in \<open>simp_all add: argv_process1_def\<close>)
  also have "\<dots> = args_loop (hin_process_argv e) \<lparr>ar_argv = prog # as_words cs ps @ ws, ar_index = 1\<rparr> s"
    using assms(2) by (intro as_words_letters) (simp_all add: following_def)
  finally show ?thesis by (simp add: basic_args_process_def)
qed

theorem bundled_options_witness:
  "basic_args_process (hin_process_argv prog_env0) [''hin'', ''-do'', ''http://a/b'', ''c'', ''-p''] opts0 =
   basic_args_process (hin_process_argv prog_env0) [''hin'', ''-d'', ''http://a/b'', ''-o'', ''c'', ''-p''] opts0"
  using bundled_options [of "''do''" "[''http://a/b'', ''c'']" prog_env0 "''hin''" "[''-p'']" opts0]
  by (simp add: arg_count_def takes_name_def cmdlist_def takes_def)

end
