(* ===== verification/Servers.thy ===== *)
theory Servers
  imports CmdLine
begin

text \<open>
  Listening and accepting: \<open>netcode/listen.c\<close>, \<open>netcode/server.c\<close>, stopping in \<open>netcode/hin.c\<close> and
  the restart of \<open>system/restart.c\<close>.  Servers, clients and accept buffers are objects on a heap;
  a freed object is absent, and using it is \<open>None\<close>.  The linked lists are the sequences their
  heads represent.  What a system call answers is an argument.
\<close>

definition HIN_FLAG_RETRY :: u32 where [flag_defs]: "HIN_FLAG_RETRY = 0x1"
definition HIN_RESTARTING :: u32 where [flag_defs]: "HIN_RESTARTING = 0x8"
definition HIN_FLAG_FINISH :: u32 where [flag_defs]: "HIN_FLAG_FINISH = 0x80"

text \<open>Addresses of sockets are abstract; \<open>sv_base\<close> is \<open>rp_base\<close>, the addresses left to retry.\<close>

record 'a server =
  sv_fd :: int
  sv_flags :: u32
  sv_num_client :: int
  sv_accept :: "nat option"
  sv_clients :: "nat list"
  sv_addr :: "'a option"
  sv_base :: "'a list option"

record sclient =
  sc_server :: nat
  sc_fd :: int

record abuf =
  ab_client :: "nat option"
  ab_active :: bool

record 'a world =
  w_servers :: "nat \<Rightarrow> 'a server option"
  w_clients :: "nat \<Rightarrow> sclient option"
  w_bufs :: "nat \<Rightarrow> abuf option"
  w_next :: nat
  w_list :: "nat list"
  w_retry :: "nat list"
  w_num_client :: int
  w_num_connection :: int
  w_num_listen :: int
  w_flags :: u32
  w_done :: int
  w_restart_pid :: int

definition put_server :: "nat \<Rightarrow> 'a server \<Rightarrow> 'a world \<Rightarrow> 'a world" where
  "put_server s sv w = w\<lparr>w_servers := (w_servers w)(s \<mapsto> sv)\<rparr>"

subsection \<open>Closing, stopping and the end of the program\<close>

definition next_in :: "nat list \<Rightarrow> nat \<Rightarrow> nat option" where
  "next_in xs x = (case dropWhile (\<lambda>y. y \<noteq> x) xs of _ # y # _ \<Rightarrow> Some y | _ \<Rightarrow> None)"

definition first_in :: "nat list \<Rightarrow> nat option" where
  "first_in xs = (case xs of [] \<Rightarrow> None | x # _ \<Rightarrow> Some x)"

text \<open>
  \<open>hin_check_alive\<close>, \<open>hin_stop\<close>, the loop of \<open>hin_stop\<close> at an element, and \<open>hin_server_close\<close> call
  each other.
\<close>

datatype stop_call = Check_alive | Stop | Stop_from "nat option" | Server_close nat

text \<open>The part of \<open>hin_server_close\<close> that frees the accept buffer, also when it is in use.\<close>

definition drop_accept :: "nat \<Rightarrow> 'a world \<Rightarrow> 'a world option" where
  "drop_accept s w =
     Option.bind (w_servers w s) (\<lambda>sv.
     case sv_accept sv of
       None \<Rightarrow> Some w
     | Some b \<Rightarrow>
         Option.bind (w_bufs w b) (\<lambda>buf.
         let free = (\<lambda>cs. case ab_client buf of None \<Rightarrow> cs | Some c \<Rightarrow> cs(c := None)) in
         Some (put_server s (sv\<lparr>sv_accept := None\<rparr>)
           (w\<lparr>w_clients := free (w_clients w), w_bufs := (w_bufs w)(b := None)\<rparr>))))"

definition free_server :: "nat \<Rightarrow> 'a world \<Rightarrow> 'a world" where
  "free_server s w = w\<lparr>w_list := remove1 s (w_list w), w_num_listen := w_num_listen w - 1,
     w_servers := (w_servers w)(s := None)\<rparr>"

text \<open>The end of \<open>hin_check_alive\<close>.\<close>

definition alive_result :: "'a world \<Rightarrow> int \<times> 'a world" where
  "alive_result w =
     (if \<not> has (w_flags w) HIN_FLAG_QUIT then (1, w)
      else if w_list w \<noteq> [] \<or> w_num_connection w \<noteq> 0 then (1, w)
      else (0, w\<lparr>w_flags := setf (w_flags w) HIN_FLAG_FINISH\<rparr>))"

partial_function (option) stopping :: "stop_call \<Rightarrow> 'a world \<Rightarrow> (int \<times> 'a world) option" where
  "stopping c w =
     (case c of
        Check_alive \<Rightarrow>
          (if \<not> has (w_flags w) HIN_RESTARTING \<or> w_done w = 0 then Some (alive_result w)
           else if w_done w > 0
           then Option.bind (stopping Stop (w\<lparr>w_done := 0, w_flags := clrf (w_flags w) HIN_RESTARTING\<rparr>)) (\<lambda>(_, w).
                Some (alive_result w))
           else Some (alive_result (w\<lparr>w_done := 0\<rparr>)))
      | Stop \<Rightarrow>
          (let w = w\<lparr>w_flags := setf (w_flags w) HIN_FLAG_QUIT\<rparr> in
           if w_list w = []
           then Option.bind (stopping Check_alive w) (\<lambda>(_, w). Some (0, w))
           else stopping (Stop_from (first_in (w_list w))) w)
      | Stop_from p \<Rightarrow>
          (case p of
             None \<Rightarrow> Some (0, w)
           | Some s \<Rightarrow>
               Option.bind (w_servers w s) (\<lambda>_.
               let p = next_in (w_list w) s in
               Option.bind (stopping (Server_close s) w) (\<lambda>(_, w). stopping (Stop_from p) w)))
      | Server_close s \<Rightarrow>
          Option.bind (drop_accept s w) (\<lambda>w.
          Option.bind (w_servers w s) (\<lambda>sv.
          if sv_clients sv \<noteq> [] then Some (0, w)
          else Option.bind (stopping Check_alive (free_server s w)) (\<lambda>(_, w). Some (0, w)))))"

definition hin_check_alive :: "'a world \<Rightarrow> (int \<times> 'a world) option" where
  "hin_check_alive w = stopping Check_alive w"

definition hin_stop :: "'a world \<Rightarrow> 'a world option" where
  "hin_stop w = map_option snd (stopping Stop w)"

definition hin_server_close :: "nat \<Rightarrow> 'a world \<Rightarrow> (int \<times> 'a world) option" where
  "hin_server_close s w = stopping (Server_close s) w"

definition hin_client_close :: "nat \<Rightarrow> 'a world \<Rightarrow> 'a world option" where
  "hin_client_close c w =
     Option.bind (w_clients w c) (\<lambda>cl.
     let s = sc_server cl in
     Option.bind (w_servers w s) (\<lambda>sv.
     let sv = sv\<lparr>sv_clients := remove1 c (sv_clients sv)\<rparr>;
         w = put_server s sv (w\<lparr>w_clients := (w_clients w)(c := None), w_num_client := w_num_client w - 1\<rparr>)
     in if sv_clients sv \<noteq> [] then Some w
        else if sv_accept sv \<noteq> None then Some w
        else map_option snd (hin_server_close s w)))"

subsection \<open>Accepting\<close>

definition hin_server_create_client :: "nat \<Rightarrow> 'a world \<Rightarrow> nat \<times> 'a world" where
  "hin_server_create_client s w =
     (w_next w, w\<lparr>w_clients := (w_clients w)(w_next w \<mapsto> \<lparr>sc_server = s, sc_fd = 0\<rparr>), w_next := w_next w + 1\<rparr>)"

text \<open>
  \<open>request_accept\<close> fails when the buffer is in use; \<open>ok\<close> is the success of the rest of it.  On
  success the buffer is in use until the kernel completes it.
\<close>

definition request_accept :: "bool \<Rightarrow> nat \<Rightarrow> 'a world \<Rightarrow> (int \<times> 'a world) option" where
  "request_accept ok b w =
     Option.bind (w_bufs w b) (\<lambda>buf.
     if ab_active buf \<or> \<not> ok then Some (-1, w)
     else Some (0, w\<lparr>w_bufs := (w_bufs w)(b \<mapsto> buf\<lparr>ab_active := True\<rparr>)\<rparr>))"

text \<open>The errors of \<open>accept\<close>, by what the code does about them.\<close>

datatype accept_error = Again | Slow | Fatal

definition retry_errors :: "string list" where
  "retry_errors = [''EAGAIN'', ''EWOULDBLOCK'', ''EINTR'', ''ECONNABORTED'', ''ENETDOWN'', ''EPROTO'', ''EHOSTDOWN'',
     ''ENONET'', ''EHOSTUNREACH'', ''ENETUNREACH'']"

definition slow_errors :: "string list" where
  "slow_errors = [''EMFILE'', ''ENFILE'', ''ENOBUFS'', ''ENOMEM'', ''EPERM'']"

definition error_class :: "string \<Rightarrow> accept_error" where
  "error_class e = (if e \<in> set retry_errors then Again else if e \<in> set slow_errors then Slow else Fatal)"

text \<open>A retried request: 0 or the error -1.\<close>

definition again :: "bool \<Rightarrow> nat \<Rightarrow> 'a world \<Rightarrow> (int \<times> 'a world) option" where
  "again ok b w = Option.bind (request_accept ok b w) (\<lambda>(r, w). Some (if r < 0 then -1 else 0, w))"

text \<open>
  The accept callback of the server has returned \<open>cb\<close>; the counters grow also when it failed.
\<close>

definition hin_server_do_client_callback :: "nat \<Rightarrow> 'a world \<Rightarrow> 'a world option" where
  "hin_server_do_client_callback c w =
     Option.bind (w_clients w c) (\<lambda>cl.
     Option.bind (w_servers w (sc_server cl)) (\<lambda>sv.
     Some (put_server (sc_server cl) (sv\<lparr>sv_num_client := sv_num_client sv + 1\<rparr>)
       (w\<lparr>w_num_client := w_num_client w + 1\<rparr>))))"

definition accept_failed :: "string \<Rightarrow> bool \<Rightarrow> nat \<Rightarrow> nat \<Rightarrow> 'a world \<Rightarrow> (int \<times> 'a world) option" where
  "accept_failed e ok b s w =
     Option.bind (w_servers w s) (\<lambda>sv.
     if sv_accept sv = None then Some (1, w)
     else case error_class e of
         Again \<Rightarrow> again ok b w
       | Slow \<Rightarrow> Some (0, w)
       | Fatal \<Rightarrow> Some (-1, put_server s (sv\<lparr>sv_accept := None\<rparr>) w))"

definition accepted :: "int \<Rightarrow> int \<Rightarrow> bool \<Rightarrow> nat \<Rightarrow> nat \<Rightarrow> nat \<Rightarrow> 'a world \<Rightarrow> (int \<times> 'a world) option" where
  "accepted fd cb ok b c s w =
     Option.bind (w_clients w c) (\<lambda>cl.
     Option.bind (hin_server_do_client_callback c (w\<lparr>w_clients := (w_clients w)(c \<mapsto> cl\<lparr>sc_fd := fd\<rparr>)\<rparr>)) (\<lambda>w.
     Option.bind (w_servers w s) (\<lambda>sv.
     if cb < 0
     then (if sv_accept sv = None then Some (1, w) else again ok b w)
     else
       let sv = sv\<lparr>sv_clients := sv_clients sv @ [c]\<rparr>; w = put_server s sv w in
       if sv_accept sv = None then Some (1, w)
       else case hin_server_create_client s w of (new, w) \<Rightarrow>
         Option.bind (w_bufs w b) (\<lambda>buf.
         again ok b (w\<lparr>w_bufs := (w_bufs w)(b \<mapsto> buf\<lparr>ab_client := Some new\<rparr>)\<rparr>)))))"

text \<open>\<open>ret\<close> is the new descriptor or the error of the kernel.\<close>

definition hin_server_accept_callback :: "(string + int) \<Rightarrow> int \<Rightarrow> bool \<Rightarrow> nat \<Rightarrow> 'a world \<Rightarrow> (int \<times> 'a world) option" where
  "hin_server_accept_callback ret cb ok b w =
     Option.bind (w_bufs w b) (\<lambda>buf.
     case ab_client buf of
       None \<Rightarrow> Some (1, w)
     | Some c \<Rightarrow>
         Option.bind (w_clients w c) (\<lambda>cl.
         case ret of
           Inl e \<Rightarrow> accept_failed e ok b (sc_server cl) w
         | Inr fd \<Rightarrow> accepted fd cb ok b c (sc_server cl) w))"

text \<open>The completion, as the event loop delivers it: the buffer is freed after a result other than 0.\<close>

definition accept_complete :: "(string + int) \<Rightarrow> int \<Rightarrow> bool \<Rightarrow> nat \<Rightarrow> 'a world \<Rightarrow> 'a world option" where
  "accept_complete ret cb ok b w =
     Option.bind (w_bufs w b) (\<lambda>buf.
     Option.bind (hin_server_accept_callback ret cb ok b
                    (w\<lparr>w_bufs := (w_bufs w)(b \<mapsto> buf\<lparr>ab_active := False\<rparr>)\<rparr>)) (\<lambda>(r, w).
     Some (if r \<noteq> 0 then w\<lparr>w_bufs := (w_bufs w)(b := None)\<rparr> else w)))"

fun reaccept_from :: "bool \<Rightarrow> nat list \<Rightarrow> 'a world \<Rightarrow> (int \<times> 'a world) option" where
  "reaccept_from ok [] w = Some (0, w)"
| "reaccept_from ok (s # ss) w =
     Option.bind (w_servers w s) (\<lambda>sv.
     case sv_accept sv of
       None \<Rightarrow> reaccept_from ok ss w
     | Some b \<Rightarrow>
         Option.bind (w_bufs w b) (\<lambda>buf.
         if ab_active buf then reaccept_from ok ss w
         else Option.bind (request_accept ok b w) (\<lambda>(r, w).
           if r < 0 then Some (-1, w) else reaccept_from ok ss w)))"

definition hin_server_reaccept :: "bool \<Rightarrow> 'a world \<Rightarrow> (int \<times> 'a world) option" where
  "hin_server_reaccept ok w = reaccept_from ok (w_list w) w"

definition hin_server_start_accept :: "bool \<Rightarrow> nat \<Rightarrow> 'a world \<Rightarrow> (int \<times> 'a world) option" where
  "hin_server_start_accept ok s w =
     Option.bind (w_servers w s) (\<lambda>sv.
     if sv_fd sv < 0
     then Some (if has (sv_flags sv) HIN_FLAG_RETRY then 0 else -1, w)
     else
       let b = w_next w in
       case hin_server_create_client s (w\<lparr>w_next := b + 1\<rparr>) of (c, w) \<Rightarrow>
       let w = put_server s (sv\<lparr>sv_accept := Some b\<rparr>)
                 (w\<lparr>w_bufs := (w_bufs w)(b \<mapsto> \<lparr>ab_client = Some c, ab_active = False\<rparr>)\<rparr>) in
       Option.bind (request_accept ok b w) (\<lambda>(r, w).
       if r < 0 then Some (-1, w) else Some (0, w\<lparr>w_list := w_list w @ [s]\<rparr>)))"

subsection \<open>Listening\<close>

datatype bind_result = Bind_ok | In_use | Bind_error

text \<open>
  \<open>le_lookup\<close>: the addresses of \<open>getaddrinfo\<close>; \<open>le_sockname\<close>: the addresses of the descriptors
  that are open already.
\<close>

record 'a listen_env =
  le_lookup :: "'a list option"
  le_socket :: "'a \<Rightarrow> int"
  le_bind :: "'a \<Rightarrow> bind_result"
  le_listen :: bool
  le_sockname :: "nat \<Rightarrow> 'a option"

definition hin_server_reuse_socket :: "'a listen_env \<Rightarrow> 'a \<Rightarrow> int option" where
  "hin_server_reuse_socket e a = map_option int (find (\<lambda>i. le_sockname e i = Some a) [0..<1024])"

text \<open>A server that is in the list already would be linked twice.\<close>

definition hin_server_add_retry :: "nat \<Rightarrow> 'a world \<Rightarrow> 'a world option" where
  "hin_server_add_retry s w =
     Option.bind (w_servers w s) (\<lambda>sv.
     if s \<in> set (w_retry w) then None
     else Some (put_server s (sv\<lparr>sv_flags := setf (sv_flags sv) HIN_FLAG_RETRY\<rparr>) (w\<lparr>w_retry := w_retry w @ [s]\<rparr>)))"

datatype bound = Bound int | Reused int | Busy | Unbound

fun bind_loop :: "'a listen_env \<Rightarrow> nat \<Rightarrow> 'a list \<Rightarrow> 'a list \<Rightarrow> 'a world \<Rightarrow> (bound \<times> 'a world) option" where
  "bind_loop e s base [] w = Some (Unbound, w)"
| "bind_loop e s base (a # as) w =
     (let fd = le_socket e a in
      if fd = -1 then bind_loop e s base as w
      else case le_bind e a of
          Bind_ok \<Rightarrow> Option.bind (w_servers w s) (\<lambda>sv. Some (Bound fd, put_server s (sv\<lparr>sv_addr := Some a\<rparr>) w))
        | In_use \<Rightarrow>
            Option.bind (w_servers w s) (\<lambda>sv.
            case hin_server_reuse_socket e a of
              Some i \<Rightarrow> Some (Reused i, put_server s (sv\<lparr>sv_fd := i, sv_addr := Some a\<rparr>) w)
            | None \<Rightarrow> map_option (Pair Busy)
                (hin_server_add_retry s (put_server s (sv\<lparr>sv_fd := fd, sv_addr := Some a, sv_base := Some base\<rparr>) w)))
        | Bind_error \<Rightarrow> bind_loop e s base as w)"

definition hin_socket_listen :: "'a listen_env \<Rightarrow> nat \<Rightarrow> 'a world \<Rightarrow> (int \<times> 'a world) option" where
  "hin_socket_listen e s w =
     Option.bind (w_servers w s) (\<lambda>sv.
     case (case sv_base sv of Some b \<Rightarrow> Some b | None \<Rightarrow> le_lookup e) of
       None \<Rightarrow> Some (-1, w)
     | Some base \<Rightarrow>
         Option.bind (bind_loop e s base base w) (\<lambda>(r, w).
         let settled = (\<lambda>x. Option.bind (w_servers w s) (\<lambda>sv.
               Some (x, put_server s (sv\<lparr>sv_flags := clrf (sv_flags sv) HIN_FLAG_RETRY, sv_base := None\<rparr>) w)))
         in case r of
              Reused i \<Rightarrow> Some (i, w)
            | Busy \<Rightarrow> Some (-1, w)
            | Unbound \<Rightarrow> settled (-1)
            | Bound fd \<Rightarrow> settled (if le_listen e then fd else -1)))"

definition set_fd :: "nat \<Rightarrow> int \<Rightarrow> 'a world \<Rightarrow> 'a world option" where
  "set_fd s fd w = Option.bind (w_servers w s) (\<lambda>sv. Some (put_server s (sv\<lparr>sv_fd := fd\<rparr>) w))"

definition hin_request_listen :: "'a listen_env \<Rightarrow> bool \<Rightarrow> nat \<Rightarrow> 'a world \<Rightarrow> (int \<times> 'a world) option" where
  "hin_request_listen e ok s w =
     Option.bind (hin_socket_listen e s w) (\<lambda>(fd, w).
     Option.bind (set_fd s fd w) (\<lambda>w.
     Option.bind (hin_server_start_accept ok s w) (\<lambda>(r, w).
     if r < 0 then Some (-1, w) else Some (0, w\<lparr>w_num_listen := w_num_listen w + 1\<rparr>))))"

text \<open>
  \<open>hin_socket_do_retry\<close>: the element behind the server is taken from the list, not the server;
  behind the last one it is the null pointer.
\<close>

partial_function (option) retry_from :: "'a listen_env \<Rightarrow> bool \<Rightarrow> nat option \<Rightarrow> 'a world \<Rightarrow> (int \<times> 'a world) option" where
  "retry_from e ok p w =
     (case p of
        None \<Rightarrow> Some (0, w)
      | Some s \<Rightarrow>
          Option.bind (next_in (w_retry w) s) (\<lambda>q.
          Option.bind (hin_socket_listen e s (w\<lparr>w_retry := remove1 q (w_retry w)\<rparr>)) (\<lambda>(fd, w).
          Option.bind (set_fd s fd w) (\<lambda>w.
          Option.bind (hin_server_start_accept ok s w) (\<lambda>(r, w).
          if r < 0 then Some (-1, w) else retry_from e ok (Some q) w)))))"

definition hin_socket_do_retry :: "'a listen_env \<Rightarrow> bool \<Rightarrow> 'a world \<Rightarrow> (int \<times> 'a world) option" where
  "hin_socket_do_retry e ok w = retry_from e ok (first_in (w_retry w)) w"

text \<open>\<open>httpd_create\<close>: a new server that listens; \<open>None\<close> inside is the null pointer.\<close>

definition new_server :: "'a server" where
  "new_server = \<lparr>sv_fd = 0, sv_flags = 0, sv_num_client = 0, sv_accept = None, sv_clients = [], sv_addr = None,
     sv_base = None\<rparr>"

definition httpd_create :: "'a listen_env \<Rightarrow> bool \<Rightarrow> 'a world \<Rightarrow> (nat option \<times> 'a world) option" where
  "httpd_create e ok w =
     (let s = w_next w in
      Option.bind (hin_request_listen e ok s (put_server s new_server (w\<lparr>w_next := s + 1\<rparr>))) (\<lambda>(r, w).
      Some (if r < 0 then None else Some s, w)))"

subsection \<open>Restarting\<close>

text \<open>\<open>idle\<close>: what closing the idle connections, the timers and the FastCGI sockets changes.\<close>

definition hin_stop1 :: "('a world \<Rightarrow> 'a world) \<Rightarrow> 'a world \<Rightarrow> 'a world option" where
  "hin_stop1 idle w = hin_stop (idle w)"

definition hin_restart_do_close :: "('a world \<Rightarrow> 'a world) \<Rightarrow> 'a world \<Rightarrow> 'a world option" where
  "hin_restart_do_close idle w = hin_stop1 idle (w\<lparr>w_flags := setf (w_flags w) HIN_RESTARTING\<rparr>)"

definition hin_restart_child_done :: "'a world \<Rightarrow> 'a world" where
  "hin_restart_child_done w = w\<lparr>w_done := 1\<rparr>"

text \<open>\<open>pid\<close>: the result of \<open>fork\<close> in the old process.\<close>

definition hin_restart1 :: "int \<Rightarrow> ('a world \<Rightarrow> 'a world) \<Rightarrow> 'a world \<Rightarrow> (int \<times> 'a world) option" where
  "hin_restart1 pid idle w =
     (let w = w\<lparr>w_done := 0\<rparr> in
      if pid < 0 then Some (-1, w)
      else map_option (Pair 0) (hin_restart_do_close idle (w\<lparr>w_restart_pid := pid\<rparr>)))"

definition hin_check_alive_timer :: "('a world \<Rightarrow> 'a world) \<Rightarrow> 'a world \<Rightarrow> 'a world option" where
  "hin_check_alive_timer idle w =
     (if w_restart_pid w \<noteq> 0 \<and> w_done w \<noteq> 0
      then map_option (\<lambda>w. w\<lparr>w_done := 0\<rparr>) (hin_stop1 idle w)
      else Some w)"

end
