(* ===== verification/ServerLife.thy ===== *)
theory ServerLife
  imports Servers
begin

text \<open>
  The servers over every order of the events: the invariant that ties servers, clients and accept
  buffers together, what stopping does, and what it does not wait for.
\<close>

subsection \<open>Well-formed servers\<close>

definition client_of :: "'a world \<Rightarrow> nat \<Rightarrow> nat \<Rightarrow> bool" where
  "client_of w s c \<longleftrightarrow> (\<exists>cl. w_clients w c = Some cl \<and> sc_server cl = s)"

definition server_ok :: "'a world \<Rightarrow> nat \<Rightarrow> 'a server \<Rightarrow> bool" where
  "server_ok w s sv \<longleftrightarrow> s < w_next w \<and> distinct (sv_clients sv) \<and> (\<forall>c\<in>set (sv_clients sv). client_of w s c) \<and>
     (\<forall>b. sv_accept sv = Some b \<longrightarrow> (\<exists>buf c. w_bufs w b = Some buf \<and> ab_client buf = Some c \<and>
        client_of w s c \<and> c \<notin> set (sv_clients sv)))"

definition world_ok :: "'a world \<Rightarrow> bool" where
  "world_ok w \<longleftrightarrow> distinct (w_list w) \<and> (\<forall>s\<in>set (w_list w). w_servers w s \<noteq> None) \<and>
     (\<forall>s sv. w_servers w s = Some sv \<longrightarrow> server_ok w s sv) \<and>
     (\<forall>b buf. w_bufs w b = Some buf \<longrightarrow> b < w_next w \<and> (\<exists>s sv. w_servers w s = Some sv \<and> sv_accept sv = Some b)) \<and>
     (\<forall>c cl. w_clients w c = Some cl \<longrightarrow> c < w_next w)"

text \<open>No restart is being confirmed, so that \<open>hin_check_alive\<close> does not stop the servers.\<close>

definition calm :: "'a world \<Rightarrow> bool" where
  "calm w \<longleftrightarrow> \<not> (has (w_flags w) HIN_RESTARTING \<and> w_done w > 0)"

lemma put_server_simps [simp]:
  "w_servers (put_server s sv w) = (w_servers w)(s \<mapsto> sv)" "w_clients (put_server s sv w) = w_clients w"
  "w_bufs (put_server s sv w) = w_bufs w" "w_next (put_server s sv w) = w_next w" "w_list (put_server s sv w) = w_list w"
  "w_flags (put_server s sv w) = w_flags w" "w_done (put_server s sv w) = w_done w"
  "w_num_connection (put_server s sv w) = w_num_connection w" "w_retry (put_server s sv w) = w_retry w"
  "w_restart_pid (put_server s sv w) = w_restart_pid w"
  by (simp_all add: put_server_def)

lemma client_of_unique: "client_of w s c \<Longrightarrow> client_of w t c \<Longrightarrow> s = t"
  by (auto simp: client_of_def)

lemma client_of_cong: "w_clients w' c = w_clients w c \<Longrightarrow> client_of w' s c \<longleftrightarrow> client_of w s c"
  by (simp add: client_of_def)

lemma world_okD:
  assumes "world_ok w" "w_servers w s = Some sv"
  shows "server_ok w s sv"
  using assms by (simp add: world_ok_def)

lemma world_okI:
  assumes "distinct (w_list w)" "\<And>s. s \<in> set (w_list w) \<Longrightarrow> w_servers w s \<noteq> None"
    "\<And>s sv. w_servers w s = Some sv \<Longrightarrow> server_ok w s sv"
    "\<And>b buf. w_bufs w b = Some buf \<Longrightarrow> b < w_next w"
    "\<And>b buf. w_bufs w b = Some buf \<Longrightarrow> \<exists>s sv. w_servers w s = Some sv \<and> sv_accept sv = Some b"
    "\<And>c cl. w_clients w c = Some cl \<Longrightarrow> c < w_next w"
  shows "world_ok w"
  unfolding world_ok_def using assms by blast

lemma world_ok_parts:
  assumes "world_ok w"
  shows "distinct (w_list w)" "s \<in> set (w_list w) \<Longrightarrow> w_servers w s \<noteq> None"
    "w_bufs w b = Some buf \<Longrightarrow> b < w_next w" "w_clients w c = Some cl \<Longrightarrow> c < w_next w"
  using assms by (auto simp: world_ok_def)

lemma buffer_owner:
  assumes "world_ok w" "w_bufs w b = Some buf"
  obtains s sv where "w_servers w s = Some sv" "sv_accept sv = Some b"
  using assms unfolding world_ok_def by blast

lemma accept_buffer:
  assumes "world_ok w" "w_servers w s = Some sv" "sv_accept sv = Some b"
  obtains buf c where "w_bufs w b = Some buf" "ab_client buf = Some c" "client_of w s c" "c \<notin> set (sv_clients sv)"
  using world_okD [OF assms(1,2)] assms(3) by (auto simp: server_ok_def)

lemma accept_unique:
  assumes "world_ok w" "w_servers w s = Some sv" "sv_accept sv = Some b" "w_servers w t = Some tv" "sv_accept tv = Some b"
  shows "t = s"
proof -
  obtain buf c where 1: "w_bufs w b = Some buf" "ab_client buf = Some c" "client_of w s c"
    by (rule accept_buffer [OF assms(1-3)])
  obtain buf' c' where 2: "w_bufs w b = Some buf'" "ab_client buf' = Some c'" "client_of w t c'"
    by (rule accept_buffer [OF assms(1,4,5)])
  show ?thesis using 1 2 client_of_unique by fastforce
qed

text \<open>What stopping and closing leave alone.\<close>

definition same_rest :: "'a world \<Rightarrow> 'a world \<Rightarrow> bool" where
  "same_rest w w' \<longleftrightarrow> w_next w' = w_next w \<and> w_num_connection w' = w_num_connection w"

lemma drop_accept_ok:
  assumes ok: "world_ok w" and sv: "w_servers w s = Some sv"
  obtains w' where "drop_accept s w = Some w'" "world_ok w'" "same_rest w w'"
    "w_servers w' = (w_servers w)(s \<mapsto> sv\<lparr>sv_accept := None\<rparr>)" "w_list w' = w_list w"
    "w_flags w' = w_flags w" "w_done w' = w_done w"
proof (cases "sv_accept sv")
  case None
  then have "sv\<lparr>sv_accept := None\<rparr> = sv" by simp
  then show ?thesis using that [of w] None ok sv by (simp add: drop_accept_def same_rest_def fun_upd_idem)
next
  case (Some b)
  obtain buf c where b: "w_bufs w b = Some buf" "ab_client buf = Some c" "client_of w s c" "c \<notin> set (sv_clients sv)"
    by (rule accept_buffer [OF ok sv Some])
  let ?w = "put_server s (sv\<lparr>sv_accept := None\<rparr>)
      (w\<lparr>w_clients := (w_clients w)(c := None), w_bufs := (w_bufs w)(b := None)\<rparr>)"
  have keep: "client_of ?w t c' \<longleftrightarrow> client_of w t c'" if "c' \<noteq> c" for t c' using that by (simp add: client_of_def)
  have srv: "server_ok ?w t tv" if t: "w_servers ?w t = Some tv" for t tv
  proof (cases "t = s")
    case True
    have k: "\<forall>c'\<in>set (sv_clients sv). client_of ?w s c'"
    proof
      fix c' assume c': "c' \<in> set (sv_clients sv)"
      then have "c' \<noteq> c" using b(4) by auto
      then show "client_of ?w s c'" using keep world_okD [OF ok sv] c' by (simp add: server_ok_def)
    qed
    show ?thesis using True t world_okD [OF ok sv] k by (auto simp: server_ok_def)
  next
    case False
    then have tv: "w_servers w t = Some tv" using t by simp
    have other: "c' \<noteq> c" if "client_of w t c'" for c' using that b(3) False client_of_unique by metis
    have nb: "sv_accept tv \<noteq> Some b" using accept_unique [OF ok sv Some tv] False by auto
    show ?thesis using world_okD [OF ok tv] other keep nb unfolding server_ok_def by auto
  qed
  have "world_ok ?w"
  proof (rule world_okI)
    fix b' buf' assume b': "w_bufs ?w b' = Some buf'"
    then have w: "w_bufs w b' = Some buf'" "b' \<noteq> b" by (auto split: if_splits)
    then show "b' < w_next ?w" using world_ok_parts(3) [OF ok] by simp
    obtain t tv where t: "w_servers w t = Some tv" "sv_accept tv = Some b'" by (rule buffer_owner [OF ok w(1)])
    then have "t \<noteq> s" using sv Some w(2) by auto
    then show "\<exists>t tv. w_servers ?w t = Some tv \<and> sv_accept tv = Some b'" using t by auto
  next
    fix c' cl assume "w_clients ?w c' = Some cl"
    then show "c' < w_next ?w" using world_ok_parts(4) [OF ok] by (auto split: if_splits)
  qed (use srv world_ok_parts [OF ok] in auto)
  moreover have "drop_accept s w = Some ?w" using sv Some b by (simp add: drop_accept_def)
  ultimately show ?thesis using that [of ?w] by (simp add: same_rest_def)
qed

lemma free_server_ok:
  assumes "world_ok w" "w_servers w s = Some sv" "sv_accept sv = None"
  shows "world_ok (free_server s w)"
proof -
  let ?w = "free_server s w"
  have same: "w_bufs ?w = w_bufs w" "w_clients ?w = w_clients w" "w_next ?w = w_next w" "w_list ?w = remove1 s (w_list w)"
    "w_servers ?w = (w_servers w)(s := None)" by (simp_all add: free_server_def)
  show ?thesis
  proof (rule world_okI)
    fix t tv assume "w_servers ?w t = Some tv"
    then have "w_servers w t = Some tv" by (auto simp: same split: if_splits)
    from world_okD [OF assms(1) this] show "server_ok ?w t tv" by (simp add: server_ok_def client_of_def same)
  next
    fix b buf assume "w_bufs ?w b = Some buf"
    then have w: "w_bufs w b = Some buf" by (simp add: same)
    then show "b < w_next ?w" using world_ok_parts(3) [OF assms(1)] by (simp add: same)
    obtain t tv where t: "w_servers w t = Some tv" "sv_accept tv = Some b" by (rule buffer_owner [OF assms(1) w])
    then have "t \<noteq> s" using assms(2,3) by auto
    then show "\<exists>t tv. w_servers ?w t = Some tv \<and> sv_accept tv = Some b" using t by (auto simp: same)
  next
    fix c cl assume "w_clients ?w c = Some cl"
    then show "c < w_next ?w" using world_ok_parts(4) [OF assms(1)] by (simp add: same)
  next
    fix t assume "t \<in> set (w_list ?w)"
    then show "w_servers ?w t \<noteq> None"
      using world_ok_parts(1,2) [OF assms(1)] by (auto simp: same)
  qed (use world_ok_parts(1) [OF assms(1)] in \<open>simp add: same\<close>)
qed

subsection \<open>Stopping\<close>

lemma world_ok_upd [simp]:
  "world_ok (w\<lparr>w_flags := f\<rparr>) \<longleftrightarrow> world_ok w" "world_ok (w\<lparr>w_done := d\<rparr>) \<longleftrightarrow> world_ok w"
  "world_ok (w\<lparr>w_num_client := n\<rparr>) \<longleftrightarrow> world_ok w" "world_ok (w\<lparr>w_num_listen := n\<rparr>) \<longleftrightarrow> world_ok w"
  "world_ok (w\<lparr>w_restart_pid := n\<rparr>) \<longleftrightarrow> world_ok w" "world_ok (w\<lparr>w_retry := l\<rparr>) \<longleftrightarrow> world_ok w"
  "world_ok (w\<lparr>w_num_connection := n\<rparr>) \<longleftrightarrow> world_ok w"
  by (simp_all add: world_ok_def server_ok_def client_of_def)

definition same_objects :: "'a world \<Rightarrow> 'a world \<Rightarrow> bool" where
  "same_objects w w' \<longleftrightarrow> w_servers w' = w_servers w \<and> w_clients w' = w_clients w \<and> w_bufs w' = w_bufs w \<and>
     w_list w' = w_list w \<and> same_rest w w'"

lemma same_objects_ok: "same_objects w w' \<Longrightarrow> world_ok w' \<longleftrightarrow> world_ok w"
  by (simp add: same_objects_def same_rest_def world_ok_def server_ok_def client_of_def)

text \<open>Whether the program has been told to quit, and whether the event loop ends.\<close>

definition finishes :: "'a world \<Rightarrow> 'a world \<Rightarrow> bool \<Rightarrow> bool" where
  "finishes w w' p \<longleftrightarrow> (has (w_flags w') HIN_FLAG_QUIT \<longleftrightarrow> has (w_flags w) HIN_FLAG_QUIT) \<and>
     (has (w_flags w') HIN_FLAG_FINISH \<longleftrightarrow>
        has (w_flags w) HIN_FLAG_FINISH \<or> has (w_flags w) HIN_FLAG_QUIT \<and> p \<and> w_num_connection w = 0)"

lemma flag_bits [simp]:
  "has HIN_FLAG_FINISH HIN_FLAG_FINISH" "\<not> has HIN_FLAG_FINISH HIN_FLAG_QUIT" "\<not> has HIN_FLAG_FINISH HIN_RESTARTING"
  "has HIN_FLAG_QUIT HIN_FLAG_QUIT" "\<not> has HIN_FLAG_QUIT HIN_FLAG_FINISH" "\<not> has HIN_FLAG_QUIT HIN_RESTARTING"
  "has HIN_RESTARTING HIN_RESTARTING" "\<not> has HIN_RESTARTING HIN_FLAG_QUIT" "\<not> has HIN_RESTARTING HIN_FLAG_FINISH"
  "HIN_RESTARTING AND HIN_FLAG_QUIT = 0" "HIN_RESTARTING AND HIN_FLAG_FINISH = 0"
  by (simp_all add: has_def flag_defs)

lemma alive_result_rest:
  "same_objects w (snd (alive_result w))" "finishes w (snd (alive_result w)) (w_list w = [])"
  "calm w \<Longrightarrow> calm (snd (alive_result w))"
  by (auto simp: alive_result_def same_objects_def same_rest_def finishes_def calm_def)

lemma check_calm:
  assumes "calm w"
  obtains r w' where "stopping Check_alive w = Some (r, w')" "same_objects w w'" "calm w'" "finishes w w' (w_list w = [])"
proof (cases "has (w_flags w) HIN_RESTARTING \<and> w_done w \<noteq> 0")
  case False
  then have "stopping Check_alive w = Some (alive_result w)" by (subst stopping.simps) auto
  then show ?thesis
    by (intro that [of "fst (alive_result w)" "snd (alive_result w)"] alive_result_rest assms) simp
next
  case True
  let ?w = "w\<lparr>w_done := 0\<rparr>"
  have "stopping Check_alive w = Some (alive_result ?w)"
    using True assms by (subst stopping.simps) (auto simp: calm_def)
  moreover have "same_objects w (snd (alive_result ?w))" "finishes w (snd (alive_result ?w)) (w_list w = [])"
    using alive_result_rest(1,2) [of ?w] by (simp_all add: same_objects_def same_rest_def finishes_def)
  moreover have "calm (snd (alive_result ?w))" by (rule alive_result_rest(3)) (simp add: calm_def)
  ultimately show ?thesis using that [of "fst (alive_result ?w)" "snd (alive_result ?w)"] by simp
qed

definition has_clients :: "'a world \<Rightarrow> nat \<Rightarrow> bool" where
  "has_clients w s \<longleftrightarrow> (\<exists>sv. w_servers w s = Some sv \<and> sv_clients sv \<noteq> [])"

text \<open>What becomes of a server that is stopped.\<close>

definition stopped :: "'a world \<Rightarrow> nat \<Rightarrow> 'a server option" where
  "stopped w s = (if has_clients w s then map_option (\<lambda>sv. sv\<lparr>sv_accept := None\<rparr>) (w_servers w s) else None)"

lemma close_calm:
  assumes "world_ok w" "calm w" "w_servers w s = Some sv"
  obtains r w' where "stopping (Server_close s) w = Some (r, w')" "world_ok w'" "calm w'" "same_rest w w'"
    "w_servers w' = (w_servers w)(s := stopped w s)"
    "w_list w' = (if has_clients w s then w_list w else remove1 s (w_list w))"
    "finishes w w' (\<not> has_clients w s \<and> w_list w' = [])"
proof -
  obtain w1 where w1: "drop_accept s w = Some w1" "world_ok w1" "same_rest w w1"
    "w_servers w1 = (w_servers w)(s \<mapsto> sv\<lparr>sv_accept := None\<rparr>)" "w_list w1 = w_list w"
    "w_flags w1 = w_flags w" "w_done w1 = w_done w"
    by (rule drop_accept_ok [OF assms(1,3)])
  show ?thesis
  proof (cases "sv_clients sv = []")
    case False
    then have "stopping (Server_close s) w = Some (0, w1)" using w1 by (subst stopping.simps) simp
    moreover have "has_clients w s" using False assms(3) by (simp add: has_clients_def)
    ultimately show ?thesis
      using w1 assms(2,3) by (intro that [of 0 w1]) (simp_all add: calm_def finishes_def stopped_def)
  next
    case True
    let ?f = "free_server s w1"
    have f: "w_servers ?f = (w_servers w)(s := None)" "w_list ?f = remove1 s (w_list w)" "w_flags ?f = w_flags w"
      "w_done ?f = w_done w" "same_rest w1 ?f" "w_num_connection ?f = w_num_connection w"
      using w1 by (auto simp: free_server_def same_rest_def)
    have "calm ?f" using assms(2) f by (simp add: calm_def)
    then obtain r w2 where w2: "stopping Check_alive ?f = Some (r, w2)" "same_objects ?f w2" "calm w2"
      "finishes ?f w2 (w_list ?f = [])" by (rule check_calm)
    have "stopping (Server_close s) w = Some (0, w2)" using w1 w2(1) True by (subst stopping.simps) simp
    moreover have "\<not> has_clients w s" using True assms(3) by (simp add: has_clients_def)
    moreover have "world_ok ?f" by (rule free_server_ok [OF w1(2), of _ "sv\<lparr>sv_accept := None\<rparr>"]) (use w1(4) in simp_all)
    then have "world_ok w2" using same_objects_ok [OF w2(2)] by simp
    ultimately show ?thesis
      using w2 f w1(3) by (intro that [of 0 w2]) (auto simp: same_objects_def same_rest_def stopped_def finishes_def)
  qed
qed

lemma next_in_suffix: "s \<notin> set pre \<Longrightarrow> next_in (pre @ s # xs) s = first_in xs"
proof -
  assume "s \<notin> set pre"
  then have "dropWhile (\<lambda>y. y \<noteq> s) (pre @ s # xs) = s # xs" by (induction pre) auto
  then show ?thesis by (simp add: next_in_def first_in_def split: list.splits)
qed

lemma stop_from_calm:
  assumes "world_ok w" "calm w" "w_list w = pre @ xs"
  shows "\<exists>w'. stopping (Stop_from (first_in xs)) w = Some (0, w') \<and> world_ok w' \<and> calm w' \<and> same_rest w w' \<and>
     w_list w' = pre @ filter (has_clients w) xs \<and>
     (\<forall>s. w_servers w' s = (if s \<in> set xs then stopped w s else w_servers w s)) \<and>
     finishes w w' (xs \<noteq> [] \<and> w_list w' = [])"
  using assms
proof (induction xs arbitrary: pre w)
  case Nil
  then show ?case by (subst stopping.simps) (simp add: first_in_def same_rest_def finishes_def)
next
  case (Cons s xs)
  have d: "s \<notin> set pre" "s \<notin> set xs" "distinct (pre @ s # xs)" using world_ok_parts(1) [OF Cons.prems(1)] Cons.prems(3) by auto
  obtain sv where sv: "w_servers w s = Some sv" using world_ok_parts(2) [OF Cons.prems(1), of s] Cons.prems(3) by auto
  obtain r w1 where w1: "stopping (Server_close s) w = Some (r, w1)" "world_ok w1" "calm w1" "same_rest w w1"
    "w_servers w1 = (w_servers w)(s := stopped w s)"
    "w_list w1 = (if has_clients w s then w_list w else remove1 s (w_list w))"
    "finishes w w1 (\<not> has_clients w s \<and> w_list w1 = [])"
    by (rule close_calm [OF Cons.prems(1,2) sv])
  let ?pre = "if has_clients w s then pre @ [s] else pre"
  have "w_list w1 = ?pre @ xs" using w1(6) Cons.prems(3) d by (simp add: remove1_append)
  from Cons.IH [OF w1(2,3) this] obtain w2 where w2: "stopping (Stop_from (first_in xs)) w1 = Some (0, w2)"
    "world_ok w2" "calm w2" "same_rest w1 w2" "w_list w2 = ?pre @ filter (has_clients w1) xs"
    "\<forall>t. w_servers w2 t = (if t \<in> set xs then stopped w1 t else w_servers w1 t)"
    "finishes w1 w2 (xs \<noteq> [] \<and> w_list w2 = [])" by blast
  have other: "has_clients w1 t \<longleftrightarrow> has_clients w t" "stopped w1 t = stopped w t" if "t \<noteq> s" for t
    using that w1(5) by (auto simp: has_clients_def stopped_def)
  have "filter (has_clients w1) xs = filter (has_clients w) xs"
  proof (rule filter_cong [OF refl])
    fix t assume "t \<in> set xs"
    then have "t \<noteq> s" using d(2) by auto
    then show "has_clients w1 t = has_clients w t" by (rule other(1))
  qed
  then have l: "w_list w2 = pre @ filter (has_clients w) (s # xs)" using w2(5) by simp
  have "stopping (Stop_from (first_in (s # xs))) w = Some (0, w2)"
    using sv w1(1) w2(1) next_in_suffix [OF d(1)] Cons.prems(3) by (subst stopping.simps) (simp add: first_in_def)
  moreover have "\<forall>t. w_servers w2 t = (if t \<in> set (s # xs) then stopped w t else w_servers w t)"
  proof
    fix t
    show "w_servers w2 t = (if t \<in> set (s # xs) then stopped w t else w_servers w t)"
      using w2(6) w1(5) other(2) [of t] d(2) by (cases "t = s") auto
  qed
  moreover have "finishes w w2 (s # xs \<noteq> [] \<and> w_list w2 = [])"
    using w1(4,7) w2(7) l \<open>w_list w1 = ?pre @ xs\<close> by (auto simp: finishes_def same_rest_def split: if_splits)
  moreover have "same_rest w w2" using w1(4) w2(4) by (simp add: same_rest_def)
  ultimately show ?case using w2(2,3) l by blast
qed

text \<open>Stopping in a calm state.\<close>

lemma hin_stop_calm:
  assumes "world_ok w" "calm w"
  obtains w' where "hin_stop w = Some w'" "world_ok w'" "calm w'" "same_rest w w'"
    "w_list w' = filter (has_clients w) (w_list w)"
    "\<forall>s. w_servers w' s = (if s \<in> set (w_list w) then stopped w s else w_servers w s)"
    "has (w_flags w') HIN_FLAG_QUIT"
    "has (w_flags w') HIN_FLAG_FINISH \<longleftrightarrow>
       has (w_flags w) HIN_FLAG_FINISH \<or> w_list w' = [] \<and> w_num_connection w = 0"
proof -
  let ?q = "w\<lparr>w_flags := setf (w_flags w) HIN_FLAG_QUIT\<rparr>"
  have q: "world_ok ?q" "calm ?q" using assms by (simp_all add: calm_def)
  have hc: "has_clients ?q = has_clients w" "stopped ?q = stopped w" by (auto simp: has_clients_def stopped_def fun_eq_iff)
  show ?thesis
  proof (cases "w_list w = []")
    case True
    obtain r w1 where w1: "stopping Check_alive ?q = Some (r, w1)" "same_objects ?q w1" "calm w1"
      "finishes ?q w1 (w_list ?q = [])" by (rule check_calm [OF q(2)])
    have "hin_stop w = Some w1" unfolding hin_stop_def using True w1(1) by (subst stopping.simps) simp
    moreover have "world_ok w1" using same_objects_ok [OF w1(2)] q(1) by simp
    ultimately show ?thesis
      using w1 True by (intro that [of w1]) (auto simp: same_objects_def same_rest_def finishes_def)
  next
    case False
    have "w_list ?q = [] @ w_list w" by simp
    from stop_from_calm [OF q this] obtain w1 where w1: "stopping (Stop_from (first_in (w_list w))) ?q = Some (0, w1)"
      "world_ok w1" "calm w1" "same_rest ?q w1" "w_list w1 = [] @ filter (has_clients ?q) (w_list w)"
      "\<forall>s. w_servers w1 s = (if s \<in> set (w_list w) then stopped ?q s else w_servers ?q s)"
      "finishes ?q w1 (w_list w \<noteq> [] \<and> w_list w1 = [])" by blast
    have "hin_stop w = Some w1" unfolding hin_stop_def using False w1(1) by (subst stopping.simps) (simp add: Let_def)
    then show ?thesis
      using w1 False hc by (intro that [of w1]) (auto simp: same_rest_def finishes_def)
  qed
qed

lemma check_ok:
  assumes "world_ok w"
  obtains r w' where "stopping Check_alive w = Some (r, w')" "world_ok w'"
proof (cases "calm w")
  case True
  then obtain r w' where "stopping Check_alive w = Some (r, w')" "same_objects w w'" by (rule check_calm)
  then show ?thesis using that same_objects_ok assms by blast
next
  case False
  let ?w = "w\<lparr>w_done := 0, w_flags := clrf (w_flags w) HIN_RESTARTING\<rparr>"
  have "world_ok ?w" "calm ?w" using assms by (simp_all add: calm_def)
  then obtain w1 where w1: "hin_stop ?w = Some w1" "world_ok w1" by (rule hin_stop_calm)
  then obtain r where "stopping Stop ?w = Some (r, w1)" by (auto simp: hin_stop_def)
  then have "stopping Check_alive w = Some (alive_result w1)"
    using False by (subst stopping.simps) (auto simp: calm_def)
  then show ?thesis
    using that [of "fst (alive_result w1)" "snd (alive_result w1)"] w1(2) same_objects_ok [OF alive_result_rest(1) [of w1]] by simp
qed

lemma close_ok:
  assumes "world_ok w" "w_servers w s = Some sv"
  obtains r w' where "hin_server_close s w = Some (r, w')" "world_ok w'"
proof -
  obtain w1 where w1: "drop_accept s w = Some w1" "world_ok w1" "w_servers w1 = (w_servers w)(s \<mapsto> sv\<lparr>sv_accept := None\<rparr>)"
    by (rule drop_accept_ok [OF assms])
  show ?thesis
  proof (cases "sv_clients sv = []")
    case False
    then have "hin_server_close s w = Some (0, w1)"
      unfolding hin_server_close_def using w1 by (subst stopping.simps) simp
    then show ?thesis using that w1(2) by simp
  next
    case True
    have "world_ok (free_server s w1)"
      by (rule free_server_ok [OF w1(2), of _ "sv\<lparr>sv_accept := None\<rparr>"]) (use w1(3) in simp_all)
    then obtain r w2 where w2: "stopping Check_alive (free_server s w1) = Some (r, w2)" "world_ok w2" by (rule check_ok)
    have "hin_server_close s w = Some (0, w2)"
      unfolding hin_server_close_def using w1 w2 True by (subst stopping.simps) simp
    then show ?thesis using that w2(2) by simp
  qed
qed

lemma remove_client_ok:
  assumes "world_ok w" "w_servers w s = Some sv" "c \<in> set (sv_clients sv)"
  shows "world_ok (put_server s (sv\<lparr>sv_clients := remove1 c (sv_clients sv)\<rparr>)
           (w\<lparr>w_clients := (w_clients w)(c := None), w_num_client := n\<rparr>))" (is "world_ok ?w")
proof (rule world_okI)
  have c: "client_of w s c" "distinct (sv_clients sv)" using world_okD [OF assms(1,2)] assms(3) by (auto simp: server_ok_def)
  have keep: "client_of ?w t c' \<longleftrightarrow> client_of w t c'" if "c' \<noteq> c" for t c' using that by (simp add: client_of_def)
  fix t tv assume t: "w_servers ?w t = Some tv"
  show "server_ok ?w t tv"
  proof (cases "t = s")
    case True
    have tv: "tv = sv\<lparr>sv_clients := remove1 c (sv_clients sv)\<rparr>" using t True by simp
    have rest: "\<exists>buf c'. w_bufs w b = Some buf \<and> ab_client buf = Some c' \<and> client_of ?w s c' \<and>
        c' \<notin> set (remove1 c (sv_clients sv))" if acc: "sv_accept sv = Some b" for b
    proof -
      obtain buf c' where b: "w_bufs w b = Some buf" "ab_client buf = Some c'" "client_of w s c'" "c' \<notin> set (sv_clients sv)"
        by (rule accept_buffer [OF assms(1,2) acc])
      then have "c' \<noteq> c" using assms(3) by auto
      then show ?thesis using b keep notin_set_remove1 by fastforce
    qed
    have "client_of ?w s c'" if "c' \<in> set (remove1 c (sv_clients sv))" for c'
    proof -
      have "c' \<noteq> c" "c' \<in> set (sv_clients sv)" using that c(2) by auto
      then show ?thesis using keep world_okD [OF assms(1,2)] by (simp add: server_ok_def)
    qed
    then show ?thesis using rest world_okD [OF assms(1,2)] True unfolding server_ok_def tv by simp
  next
    case False
    then have tv: "w_servers w t = Some tv" using t by simp
    have "c' \<noteq> c" if "client_of w t c'" for c' using that c(1) False client_of_unique by metis
    then show ?thesis using world_okD [OF assms(1) tv] keep unfolding server_ok_def by auto
  qed
next
  fix b buf assume "w_bufs ?w b = Some buf"
  then have w: "w_bufs w b = Some buf" by simp
  then show "b < w_next ?w" using world_ok_parts(3) [OF assms(1)] by simp
  obtain t tv where t: "w_servers w t = Some tv" "sv_accept tv = Some b" by (rule buffer_owner [OF assms(1) w])
  then show "\<exists>t tv. w_servers ?w t = Some tv \<and> sv_accept tv = Some b"
    using assms(2) by (cases "t = s") auto
qed (use world_ok_parts [OF assms(1)] in \<open>auto split: if_splits\<close>)

text \<open>A client that is closed; the server goes with the last one if it does not accept any more.\<close>

lemma client_close_ok:
  assumes "world_ok w" "w_servers w s = Some sv" "c \<in> set (sv_clients sv)"
  obtains w' where "hin_client_close c w = Some w'" "world_ok w'"
proof -
  obtain cl where cl: "w_clients w c = Some cl" "sc_server cl = s"
    using world_okD [OF assms(1,2)] assms(3) by (auto simp: server_ok_def client_of_def)
  let ?sv = "sv\<lparr>sv_clients := remove1 c (sv_clients sv)\<rparr>"
  let ?w = "put_server s ?sv (w\<lparr>w_clients := (w_clients w)(c := None), w_num_client := w_num_client w - 1\<rparr>)"
  have ok: "world_ok ?w" by (rule remove_client_ok [OF assms])
  have sv: "w_servers ?w s = Some ?sv" by simp
  obtain r w1 where w1: "hin_server_close s ?w = Some (r, w1)" "world_ok w1" by (rule close_ok [OF ok sv])
  have "hin_client_close c w = (if sv_clients ?sv \<noteq> [] then Some ?w else if sv_accept ?sv \<noteq> None then Some ?w else Some w1)"
    using cl assms(2) w1(1) by (cases "remove1 c (sv_clients sv) = []") (simp_all add: hin_client_close_def Let_def)
  then show ?thesis using that ok w1(2) by (metis (full_types))
qed

subsection \<open>Accepting keeps the servers well-formed\<close>

lemma active_ok:
  assumes "world_ok w" "w_bufs w b = Some buf" "ab_client buf' = ab_client buf"
  shows "world_ok (w\<lparr>w_bufs := (w_bufs w)(b \<mapsto> buf')\<rparr>)" (is "world_ok ?w")
proof (rule world_okI)
  fix s sv assume "w_servers ?w s = Some sv"
  then have "server_ok w s sv" using world_okD [OF assms(1)] by simp
  then show "server_ok ?w s sv" using assms(2,3) unfolding server_ok_def client_of_def by fastforce
next
  fix b' buf' assume "w_bufs ?w b' = Some buf'"
  then obtain x where w: "w_bufs w b' = Some x" using assms(2) by (auto split: if_splits)
  then show "b' < w_next ?w" using world_ok_parts(3) [OF assms(1)] by simp
  obtain t tv where "w_servers w t = Some tv" "sv_accept tv = Some b'" by (rule buffer_owner [OF assms(1) w])
  then show "\<exists>s sv. w_servers ?w s = Some sv \<and> sv_accept sv = Some b'" by auto
qed (use world_ok_parts [OF assms(1)] in auto)

lemma again_ok:
  assumes "world_ok w" "w_bufs w b = Some buf" "\<not> ab_active buf"
  shows "\<exists>w'. again True b w = Some (0, w') \<and> world_ok w' \<and> w_list w' = w_list w"
proof -
  let ?w = "w\<lparr>w_bufs := (w_bufs w)(b \<mapsto> buf\<lparr>ab_active := True\<rparr>)\<rparr>"
  have "again True b w = Some (0, ?w)" using assms by (simp add: again_def request_accept_def)
  moreover have "world_ok ?w" by (rule active_ok [OF assms(1,2)]) simp
  ultimately show ?thesis by simp
qed

lemma server_fields_ok:
  assumes "world_ok w" "w_servers w s = Some sv" "sv_clients sv' = sv_clients sv" "sv_accept sv' = sv_accept sv"
  shows "world_ok (put_server s sv' w)" (is "world_ok ?w")
proof (rule world_okI)
  fix t tv assume "w_servers ?w t = Some tv"
  then show "server_ok ?w t tv"
    using world_okD [OF assms(1,2)] world_okD [OF assms(1)] assms(3,4)
    by (auto simp: server_ok_def client_of_def split: if_splits)
next
  fix b buf assume "w_bufs ?w b = Some buf"
  then have w: "w_bufs w b = Some buf" by simp
  then show "b < w_next ?w" using world_ok_parts(3) [OF assms(1)] by simp
  obtain t tv where "w_servers w t = Some tv" "sv_accept tv = Some b" by (rule buffer_owner [OF assms(1) w])
  then show "\<exists>t tv. w_servers ?w t = Some tv \<and> sv_accept tv = Some b" using assms(2,4) by (cases "t = s") auto
qed (use world_ok_parts [OF assms(1)] in auto)

lemma client_fields_ok:
  assumes "world_ok w" "w_clients w c = Some cl" "sc_server cl' = sc_server cl"
  shows "world_ok (w\<lparr>w_clients := (w_clients w)(c \<mapsto> cl')\<rparr>)" (is "world_ok ?w")
proof (rule world_okI)
  have keep: "client_of ?w t c' \<longleftrightarrow> client_of w t c'" for t c' using assms by (auto simp: client_of_def)
  fix t tv assume "w_servers ?w t = Some tv"
  then show "server_ok ?w t tv" using world_okD [OF assms(1)] by (simp add: server_ok_def keep)
next
  fix b buf assume "w_bufs ?w b = Some buf"
  then have w: "w_bufs w b = Some buf" by simp
  obtain t tv where "w_servers w t = Some tv" "sv_accept tv = Some b" by (rule buffer_owner [OF assms(1) w])
  then show "\<exists>t tv. w_servers ?w t = Some tv \<and> sv_accept tv = Some b" by auto
qed (use assms(2) world_ok_parts [OF assms(1)] in \<open>auto split: if_splits\<close>)

text \<open>The client of the buffer joins the list, a new one takes its place.\<close>

lemma next_client_ok:
  assumes ok: "world_ok w" and sv: "w_servers w s = Some sv" and b: "sv_accept sv = Some b" "w_bufs w b = Some buf"
    and c: "ab_client buf = Some c"
  shows "world_ok ((put_server s (sv\<lparr>sv_clients := sv_clients sv @ [c]\<rparr>) w)
     \<lparr>w_clients := (w_clients w)(w_next w \<mapsto> \<lparr>sc_server = s, sc_fd = 0\<rparr>), w_next := w_next w + 1,
      w_bufs := (w_bufs w)(b \<mapsto> buf\<lparr>ab_client := Some (w_next w)\<rparr>)\<rparr>)" (is "world_ok ?w")
proof (rule world_okI)
  obtain buf' c' where x: "w_bufs w b = Some buf'" "ab_client buf' = Some c'" "client_of w s c'" "c' \<notin> set (sv_clients sv)"
    by (rule accept_buffer [OF ok sv b(1)])
  then have cs: "client_of w s c" "c \<notin> set (sv_clients sv)" using b(2) c by simp_all
  have fresh: "\<not> client_of w t (w_next w)" for t using world_ok_parts(4) [OF ok] by (fastforce simp: client_of_def)
  have keep: "client_of ?w t c'" if "client_of w t c'" for t c'
    using that world_ok_parts(4) [OF ok, of c'] by (auto simp: client_of_def)
  have new: "client_of ?w s (w_next w)" by (simp add: client_of_def)
  fix t tv assume t: "w_servers ?w t = Some tv"
  show "server_ok ?w t tv"
  proof (cases "t = s")
    case True
    have "w_next w \<notin> set (sv_clients sv)" "w_next w \<noteq> c"
      using world_okD [OF ok sv] fresh [of s] cs by (auto simp: server_ok_def)
    moreover have tv: "tv = sv\<lparr>sv_clients := sv_clients sv @ [c]\<rparr>" using t True by simp
    moreover have "client_of ?w s c'" if "c' \<in> set (sv_clients sv @ [c])" for c'
      using that cs(1) world_okD [OF ok sv] by (intro keep) (auto simp: server_ok_def)
    moreover have "w_bufs ?w b = Some (buf\<lparr>ab_client := Some (w_next w)\<rparr>)" by simp
    ultimately show ?thesis
      using world_okD [OF ok sv] cs(2) new b(1) unfolding server_ok_def True by simp
  next
    case False
    then have tv: "w_servers w t = Some tv" using t by simp
    have "sv_accept tv \<noteq> Some b" using accept_unique [OF ok sv b(1) tv] False by auto
    moreover have "s < w_next w" if "client_of w t s" for s using that world_ok_parts(4) [OF ok] by (auto simp: client_of_def)
    ultimately show ?thesis using world_okD [OF ok tv] keep unfolding server_ok_def by fastforce
  qed
next
  fix b' buf' assume "w_bufs ?w b' = Some buf'"
  then obtain x where w: "w_bufs w b' = Some x" using b(2) by (auto split: if_splits)
  then show "b' < w_next ?w" using world_ok_parts(3) [OF ok] by fastforce
  obtain t tv where "w_servers w t = Some tv" "sv_accept tv = Some b'" by (rule buffer_owner [OF ok w])
  then show "\<exists>t tv. w_servers ?w t = Some tv \<and> sv_accept tv = Some b'" using sv by (cases "t = s") auto
next
  fix c' cl assume "w_clients ?w c' = Some cl"
  then show "c' < w_next ?w" using world_ok_parts(4) [OF ok, of c'] by (auto split: if_splits)
qed (use world_ok_parts [OF ok] in auto)

text \<open>A fatal error: the server gives up its buffer, which the event loop frees.\<close>

lemma give_up_ok:
  assumes ok: "world_ok w" and sv: "w_servers w s = Some sv" and b: "sv_accept sv = Some b"
  shows "world_ok ((put_server s (sv\<lparr>sv_accept := None\<rparr>) w)\<lparr>w_bufs := (w_bufs w)(b := None)\<rparr>)" (is "world_ok ?w")
proof (rule world_okI)
  fix t tv assume t: "w_servers ?w t = Some tv"
  show "server_ok ?w t tv"
  proof (cases "t = s")
    case True
    then show ?thesis using t world_okD [OF ok sv] by (auto simp: server_ok_def client_of_def)
  next
    case False
    then have tv: "w_servers w t = Some tv" using t by simp
    have "sv_accept tv \<noteq> Some b" using accept_unique [OF ok sv b tv] False by auto
    then show ?thesis using world_okD [OF ok tv] unfolding server_ok_def client_of_def by auto
  qed
next
  fix b' buf' assume "w_bufs ?w b' = Some buf'"
  then have w: "w_bufs w b' = Some buf'" "b' \<noteq> b" by (auto split: if_splits)
  then show "b' < w_next ?w" using world_ok_parts(3) [OF ok] by simp
  obtain t tv where t: "w_servers w t = Some tv" "sv_accept tv = Some b'" by (rule buffer_owner [OF ok w(1)])
  then have "t \<noteq> s" using sv b w(2) by auto
  then show "\<exists>t tv. w_servers ?w t = Some tv \<and> sv_accept tv = Some b'" using t by auto
qed (use world_ok_parts [OF ok] in auto)

lemma accept_complete_ok:
  assumes ok: "world_ok w" and buf: "w_bufs w b = Some buf"
  shows "\<exists>w'. accept_complete ret cb True b w = Some w' \<and> world_ok w'"
proof -
  obtain s sv where sv: "w_servers w s = Some sv" "sv_accept sv = Some b" by (rule buffer_owner [OF ok buf])
  obtain buf' c where "w_bufs w b = Some buf'" "ab_client buf' = Some c" "client_of w s c" by (rule accept_buffer [OF ok sv])
  then have c: "ab_client buf = Some c" "client_of w s c" using buf by simp_all
  then obtain cl where cl: "w_clients w c = Some cl" "sc_server cl = s" by (auto simp: client_of_def)
  let ?buf = "buf\<lparr>ab_active := False\<rparr>"
  let ?w = "w\<lparr>w_bufs := (w_bufs w)(b \<mapsto> ?buf)\<rparr>"
  have okw: "world_ok ?w" by (rule active_ok [OF ok buf]) simp
  have svw: "w_servers ?w s = Some sv" using sv by simp
  show ?thesis
  proof (cases ret)
    case (Inl e)
    show ?thesis
    proof (cases "error_class e")
      case Again
      obtain w' where "again True b ?w = Some (0, w')" "world_ok w'" using again_ok [OF okw, of b ?buf] by auto
      then show ?thesis using Inl Again buf c cl sv
        by (simp add: accept_complete_def hin_server_accept_callback_def accept_failed_def)
    next
      case Slow
      then show ?thesis using Inl buf c cl sv okw
        by (simp add: accept_complete_def hin_server_accept_callback_def accept_failed_def)
    next
      case Fatal
      have "world_ok ((put_server s (sv\<lparr>sv_accept := None\<rparr>) ?w)\<lparr>w_bufs := (w_bufs ?w)(b := None)\<rparr>)"
        by (rule give_up_ok [OF okw svw sv(2)])
      then show ?thesis using Inl Fatal buf c cl sv
        by (simp add: accept_complete_def hin_server_accept_callback_def accept_failed_def put_server_def)
    qed
  next
    case (Inr fd)
    let ?w1 = "?w\<lparr>w_clients := (w_clients w)(c \<mapsto> cl\<lparr>sc_fd := fd\<rparr>)\<rparr>"
    let ?sv = "sv\<lparr>sv_num_client := sv_num_client sv + 1\<rparr>"
    let ?w2 = "put_server s ?sv (?w1\<lparr>w_num_client := w_num_client w + 1\<rparr>)"
    have "world_ok ?w1" using client_fields_ok [OF okw, of c cl "cl\<lparr>sc_fd := fd\<rparr>"] cl by simp
    then have ok2: "world_ok ?w2" by (intro server_fields_ok [where sv = sv]) (use sv in simp_all)
    have cb: "hin_server_do_client_callback c ?w1 = Some ?w2"
      using cl sv by (simp add: hin_server_do_client_callback_def)
    have buf2: "w_bufs ?w2 b = Some ?buf" by simp
    show ?thesis
    proof (cases "cb < 0")
      case True
      obtain w' where "again True b ?w2 = Some (0, w')" "world_ok w'" using again_ok [OF ok2, of b ?buf] by auto
      then show ?thesis using Inr True buf c cl sv cb
        by (simp add: accept_complete_def hin_server_accept_callback_def accepted_def)
    next
      case False
      let ?w3 = "(put_server s (?sv\<lparr>sv_clients := sv_clients ?sv @ [c]\<rparr>) ?w2)
         \<lparr>w_clients := (w_clients ?w2)(w_next ?w2 \<mapsto> \<lparr>sc_server = s, sc_fd = 0\<rparr>), w_next := w_next ?w2 + 1,
          w_bufs := (w_bufs ?w2)(b \<mapsto> ?buf\<lparr>ab_client := Some (w_next ?w2)\<rparr>)\<rparr>"
      have ok3: "world_ok ?w3" by (rule next_client_ok [OF ok2]) (use sv c in simp_all)
      obtain w' where "again True b ?w3 = Some (0, w')" "world_ok w'"
        using again_ok [OF ok3, of b "?buf\<lparr>ab_client := Some (w_next ?w2)\<rparr>"] by auto
      then show ?thesis using Inr False buf c cl sv cb
        by (simp add: accept_complete_def hin_server_accept_callback_def accepted_def hin_server_create_client_def
            put_server_def)
    qed
  qed
qed

lemma reaccept_ok:
  assumes "world_ok w" "\<forall>s\<in>set ss. w_servers w s \<noteq> None"
  shows "\<exists>w'. reaccept_from True ss w = Some (0, w') \<and> world_ok w'"
  using assms
proof (induction ss arbitrary: w)
  case (Cons s ss)
  then obtain sv where sv: "w_servers w s = Some sv" by auto
  show ?case
  proof (cases "sv_accept sv")
    case None
    then show ?thesis using Cons sv by simp
  next
    case (Some b)
    obtain buf c where buf: "w_bufs w b = Some buf" by (rule accept_buffer [OF Cons.prems(1) sv Some])
    let ?w = "w\<lparr>w_bufs := (w_bufs w)(b \<mapsto> buf\<lparr>ab_active := True\<rparr>)\<rparr>"
    have "world_ok ?w" by (rule active_ok [OF Cons.prems(1) buf]) simp
    from Cons.IH [OF this] Cons.IH [OF Cons.prems(1)] show ?thesis
      using Cons.prems(2) sv Some buf by (cases "ab_active buf") (auto simp: request_accept_def)
  qed
qed simp

lemma start_accept_ok:
  assumes ok: "world_ok w" and sv: "w_servers w s = Some sv" "sv_accept sv = None" and s: "s \<notin> set (w_list w)"
  shows "\<exists>r w'. hin_server_start_accept True s w = Some (r, w') \<and> world_ok w'"
proof (cases "sv_fd sv < 0")
  case True
  then show ?thesis using ok sv by (simp add: hin_server_start_accept_def)
next
  case False
  let ?b = "w_next w" and ?c = "w_next w + 1"
  let ?w = "(put_server s (sv\<lparr>sv_accept := Some ?b\<rparr>) w)
    \<lparr>w_next := ?c + 1, w_clients := (w_clients w)(?c \<mapsto> \<lparr>sc_server = s, sc_fd = 0\<rparr>),
     w_bufs := (w_bufs w)(?b \<mapsto> \<lparr>ab_client = Some ?c, ab_active = True\<rparr>), w_list := w_list w @ [s]\<rparr>"
  have "hin_server_start_accept True s w = Some (0, ?w)"
    using False sv by (simp add: hin_server_start_accept_def hin_server_create_client_def request_accept_def put_server_def
        Let_def)
  moreover have "world_ok ?w"
  proof (rule world_okI)
    have keep: "client_of ?w t c'" if "client_of w t c'" for t c'
      using that world_ok_parts(4) [OF ok, of c'] by (auto simp: client_of_def)
    have fresh: "\<not> client_of w t ?c" for t using world_ok_parts(4) [OF ok, of ?c] by (fastforce simp: client_of_def)
    have new: "client_of ?w s ?c" by (simp add: client_of_def)
    fix t tv assume t: "w_servers ?w t = Some tv"
    show "server_ok ?w t tv"
    proof (cases "t = s")
      case True
      then have "tv = sv\<lparr>sv_accept := Some ?b\<rparr>" using t by simp
      then show ?thesis
        using world_okD [OF ok sv(1)] keep fresh [of s] new unfolding server_ok_def True by auto
    next
      case False
      then have tv: "w_servers w t = Some tv" using t by simp
      have "b \<noteq> ?b" if "w_bufs w b = Some buf" for b buf using world_ok_parts(3) [OF ok that] by simp
      then show ?thesis using world_okD [OF ok tv] keep unfolding server_ok_def by fastforce
    qed
  next
    fix b' buf' assume b': "w_bufs ?w b' = Some buf'"
    show "b' < w_next ?w" using b' world_ok_parts(3) [OF ok, of b'] by (auto split: if_splits)
    show "\<exists>t tv. w_servers ?w t = Some tv \<and> sv_accept tv = Some b'"
    proof (cases "b' = ?b")
      case False
      then have "w_bufs w b' = Some buf'" using b' by simp
      then obtain t tv where "w_servers w t = Some tv" "sv_accept tv = Some b'" by (rule buffer_owner [OF ok])
      then show ?thesis using sv by (cases "t = s") auto
    qed auto
  next
    fix c' cl assume "w_clients ?w c' = Some cl"
    then show "c' < w_next ?w" using world_ok_parts(4) [OF ok, of c'] by (auto split: if_splits)
  qed (use world_ok_parts(1,2) [OF ok] s sv in auto)
  ultimately show ?thesis by blast
qed

text \<open>Listening changes fields of its server that say nothing of its clients.\<close>

definition fields_only :: "nat \<Rightarrow> 'a world \<Rightarrow> 'a world \<Rightarrow> bool" where
  "fields_only s w w' \<longleftrightarrow> (\<exists>sv sv'. w_servers w s = Some sv \<and> w_servers w' = (w_servers w)(s \<mapsto> sv') \<and>
     sv_clients sv' = sv_clients sv \<and> sv_accept sv' = sv_accept sv) \<and>
     w_clients w' = w_clients w \<and> w_bufs w' = w_bufs w \<and> w_list w' = w_list w \<and> w_next w' = w_next w"

lemma fields_only_put:
  "w_servers w s = Some sv \<Longrightarrow> sv_clients sv' = sv_clients sv \<Longrightarrow> sv_accept sv' = sv_accept sv \<Longrightarrow>
   fields_only s w (put_server s sv' w)"
  by (auto simp: fields_only_def)

lemma fields_only_refl: "w_servers w s = Some sv \<Longrightarrow> fields_only s w w"
  unfolding fields_only_def by (metis fun_upd_triv)

lemma fields_only_trans:
  assumes "fields_only s w w1" "fields_only s w1 w2"
  shows "fields_only s w w2"
proof -
  obtain sv sv1 where 1: "w_servers w s = Some sv" "w_servers w1 = (w_servers w)(s \<mapsto> sv1)"
    "sv_clients sv1 = sv_clients sv" "sv_accept sv1 = sv_accept sv" using assms(1) by (auto simp: fields_only_def)
  obtain sv2 where 2: "w_servers w2 = (w_servers w1)(s \<mapsto> sv2)"
    "sv_clients sv2 = sv_clients sv1" "sv_accept sv2 = sv_accept sv1" using assms(2) 1 by (auto simp: fields_only_def)
  have "w_servers w2 = (w_servers w)(s \<mapsto> sv2)" using 1(2) 2(1) by simp
  then show ?thesis using 1 2 assms by (auto simp: fields_only_def)
qed

lemma fields_only_ok:
  assumes "fields_only s w w'" "world_ok w"
  shows "world_ok w'"
proof -
  obtain sv sv' where sv: "w_servers w s = Some sv" "w_servers w' = (w_servers w)(s \<mapsto> sv')"
    "sv_clients sv' = sv_clients sv" "sv_accept sv' = sv_accept sv" using assms(1) by (auto simp: fields_only_def)
  have "world_ok (put_server s sv' w)" by (rule server_fields_ok [OF assms(2) sv(1,3,4)])
  moreover have "world_ok w' \<longleftrightarrow> world_ok (put_server s sv' w)"
    using assms(1) sv(2) by (simp add: fields_only_def world_ok_def server_ok_def client_of_def)
  ultimately show ?thesis by simp
qed

lemma add_retry_fields:
  assumes "w_servers w s = Some sv" "s \<notin> set (w_retry w)"
  shows "\<exists>w'. hin_server_add_retry s w = Some w' \<and> fields_only s w w'"
  using assms by (auto simp: hin_server_add_retry_def fields_only_def)

lemma bind_loop_fields:
  assumes "w_servers w s = Some sv" "s \<notin> set (w_retry w)"
  shows "\<exists>r w'. bind_loop e s base as w = Some (r, w') \<and> fields_only s w w'"
proof (induction as)
  case Nil
  then show ?case using fields_only_refl [OF assms(1)] by simp
next
  case (Cons a as)
  let ?w = "put_server s (sv\<lparr>sv_fd := le_socket e a, sv_addr := Some a, sv_base := Some base\<rparr>) w"
  have f: "fields_only s w ?w" by (rule fields_only_put [OF assms(1)]) simp_all
  obtain w1 where w1: "hin_server_add_retry s ?w = Some w1" "fields_only s ?w w1"
    using add_retry_fields [of ?w s] assms(2) by auto
  have "fields_only s w w1" by (rule fields_only_trans [OF f w1(2)])
  then show ?case using Cons w1(1) assms(1) fields_only_put [OF assms(1)]
    by (auto simp: Let_def split: bind_result.split option.split)
qed

lemma socket_listen_fields:
  assumes "w_servers w s = Some sv" "s \<notin> set (w_retry w)"
  shows "\<exists>r w'. hin_socket_listen e s w = Some (r, w') \<and> fields_only s w w'"
proof (cases "case sv_base sv of Some b \<Rightarrow> Some b | None \<Rightarrow> le_lookup e")
  case None
  then show ?thesis using assms(1) fields_only_refl [OF assms(1)] by (simp add: hin_socket_listen_def)
next
  case (Some base)
  obtain r w1 where w1: "bind_loop e s base base w = Some (r, w1)" "fields_only s w w1"
    using bind_loop_fields [OF assms] by blast
  then obtain sv1 where sv1: "w_servers w1 s = Some sv1" by (auto simp: fields_only_def)
  let ?w2 = "put_server s (sv1\<lparr>sv_flags := clrf (sv_flags sv1) HIN_FLAG_RETRY, sv_base := None\<rparr>) w1"
  have "fields_only s w1 ?w2" by (rule fields_only_put [OF sv1]) simp_all
  then have "fields_only s w ?w2" by (rule fields_only_trans [OF w1(2)])
  then show ?thesis using Some assms(1) w1 sv1 by (cases r) (simp_all add: hin_socket_listen_def)
qed

lemma create_ok:
  assumes ok: "world_ok w" and free: "w_next w \<notin> set (w_retry w)"
  shows "\<exists>r w'. httpd_create e True w = Some (r, w') \<and> world_ok w'"
proof -
  let ?s = "w_next w"
  let ?w = "put_server ?s new_server (w\<lparr>w_next := ?s + 1\<rparr>)"
  have none: "w_servers w ?s = None" using world_okD [OF ok, of ?s] by (cases "w_servers w ?s") (auto simp: server_ok_def)
  have okw: "world_ok ?w"
  proof (rule world_okI)
    fix t tv assume "w_servers ?w t = Some tv"
    then show "server_ok ?w t tv"
      using world_okD [OF ok, of t] by (auto simp: server_ok_def client_of_def new_server_def split: if_splits)
  next
    fix b buf assume "w_bufs ?w b = Some buf"
    then have w: "w_bufs w b = Some buf" by simp
    then show "b < w_next ?w" using world_ok_parts(3) [OF ok] by fastforce
    obtain t tv where t: "w_servers w t = Some tv" "sv_accept tv = Some b" by (rule buffer_owner [OF ok w])
    then have "t \<noteq> ?s" using none by auto
    then show "\<exists>t tv. w_servers ?w t = Some tv \<and> sv_accept tv = Some b" using t by auto
  next
    fix c cl assume "w_clients ?w c = Some cl"
    then show "c < w_next ?w" using world_ok_parts(4) [OF ok] by fastforce
  qed (use world_ok_parts(1,2) [OF ok] in auto)
  obtain fd w1 where w1: "hin_socket_listen e ?s ?w = Some (fd, w1)" "fields_only ?s ?w w1"
    using socket_listen_fields [of ?w ?s new_server e] free by auto
  obtain sv1 where sv1: "w_servers w1 ?s = Some sv1" "sv_accept sv1 = None"
    using w1(2) by (auto simp: fields_only_def new_server_def)
  let ?w2 = "put_server ?s (sv1\<lparr>sv_fd := fd\<rparr>) w1"
  have "fields_only ?s w1 ?w2" by (rule fields_only_put [OF sv1(1)]) simp_all
  from fields_only_trans [OF w1(2) this] have f2: "fields_only ?s ?w ?w2" .
  have "?s \<notin> set (w_list w)" using none world_ok_parts(2) [OF ok, of ?s] by blast
  then have nl: "?s \<notin> set (w_list ?w2)" using f2 by (simp add: fields_only_def)
  obtain r w3 where w3: "hin_server_start_accept True ?s ?w2 = Some (r, w3)" "world_ok w3"
    using start_accept_ok [OF fields_only_ok [OF f2 okw], of ?s "sv1\<lparr>sv_fd := fd\<rparr>"] sv1(2) nl by auto
  then show ?thesis using w1(1) sv1(1) by (simp add: httpd_create_def hin_request_listen_def set_fd_def)
qed

lemma stop_busy:
  assumes "world_ok w" "w_list w = pre @ xs" "\<forall>s\<in>set xs. has_clients w s"
  shows "\<exists>w'. stopping (Stop_from (first_in xs)) w = Some (0, w') \<and> world_ok w'"
  using assms
proof (induction xs arbitrary: pre w)
  case Nil
  then show ?case by (subst stopping.simps) (simp add: first_in_def)
next
  case (Cons s xs)
  have d: "s \<notin> set pre" "s \<notin> set xs" using world_ok_parts(1) [OF Cons.prems(1)] Cons.prems(2) by auto
  obtain sv where sv: "w_servers w s = Some sv" "sv_clients sv \<noteq> []" using Cons.prems(3) by (auto simp: has_clients_def)
  obtain w1 where w1: "drop_accept s w = Some w1" "world_ok w1"
    "w_servers w1 = (w_servers w)(s \<mapsto> sv\<lparr>sv_accept := None\<rparr>)" "w_list w1 = w_list w"
    by (rule drop_accept_ok [OF Cons.prems(1) sv(1)])
  have cl: "stopping (Server_close s) w = Some (0, w1)" using w1 sv(2) by (subst stopping.simps) simp
  have "\<forall>t\<in>set xs. has_clients w1 t" using Cons.prems(3) w1(3) sv by (auto simp: has_clients_def)
  moreover have "w_list w1 = (pre @ [s]) @ xs" using w1(4) Cons.prems(2) by simp
  ultimately obtain w2 where "stopping (Stop_from (first_in xs)) w1 = Some (0, w2)" "world_ok w2"
    using Cons.IH [OF w1(2)] by blast
  then show ?case
    using sv(1) cl next_in_suffix [OF d(1)] Cons.prems(2) by (subst stopping.simps) (simp add: first_in_def)
qed

definition may_stop :: "'a world \<Rightarrow> bool" where
  "may_stop w \<longleftrightarrow> calm w \<or> (\<forall>s\<in>set (w_list w). has_clients w s)"

lemma hin_stop_ok:
  assumes "world_ok w" "may_stop w"
  shows "\<exists>w'. hin_stop w = Some w' \<and> world_ok w'"
proof (cases "calm w")
  case True
  then show ?thesis using hin_stop_calm [OF assms(1)] by metis
next
  case False
  let ?q = "w\<lparr>w_flags := setf (w_flags w) HIN_FLAG_QUIT\<rparr>"
  have q: "world_ok ?q" using assms(1) by simp
  show ?thesis
  proof (cases "w_list w = []")
    case True
    obtain r w1 where "stopping Check_alive ?q = Some (r, w1)" "world_ok w1" by (rule check_ok [OF q])
    then show ?thesis unfolding hin_stop_def using True by (subst stopping.simps) (simp add: Let_def)
  next
    case ne: False
    have "\<forall>s\<in>set (w_list w). has_clients ?q s" using assms(2) False by (simp add: may_stop_def has_clients_def)
    then obtain w1 where "stopping (Stop_from (first_in (w_list w))) ?q = Some (0, w1)" "world_ok w1"
      using stop_busy [OF q, of "[]" "w_list w"] by auto
    then show ?thesis unfolding hin_stop_def using ne by (subst stopping.simps) (simp add: Let_def)
  qed
qed

subsection \<open>Every order of events\<close>

text \<open>
  The events of the program: a socket of the configuration, a completion of \<open>accept\<close> with the
  result of the accept callback, a client that is closed, the timer, the end of the console or a
  signal, a restart, the death of the new process and what the new process writes to the shared
  memory.  \<open>n\<close> is the number of connections to other servers that are left.
\<close>

datatype 'a server_event =
    Listen "'a listen_env"
  | Accept_done "string + int" int nat
  | Client_closed nat
  | Timer
  | Quit
  | Restart int int
  | Restart_timer int
  | Child_done
  | New_process int

definition left :: "int \<Rightarrow> 'a world \<Rightarrow> 'a world" where
  "left n w = w\<lparr>w_num_connection := n\<rparr>"

fun do_server_event :: "'a server_event \<Rightarrow> 'a world \<Rightarrow> 'a world option" where
  "do_server_event (Listen e) w = map_option snd (httpd_create e True w)"
| "do_server_event (Accept_done ret cb b) w = accept_complete ret cb True b w"
| "do_server_event (Client_closed c) w = hin_client_close c w"
| "do_server_event Timer w = map_option snd (hin_server_reaccept True w)"
| "do_server_event Quit w = hin_stop w"
| "do_server_event (Restart pid n) w = map_option snd (hin_restart1 pid (left n) w)"
| "do_server_event (Restart_timer n) w = hin_check_alive_timer (left n) w"
| "do_server_event Child_done w = Some (hin_restart_child_done w)"
| "do_server_event (New_process d) w = Some (w\<lparr>w_done := d\<rparr>)"

text \<open>
  When an event can happen: an address that is allocated is not in use; a completion is that of
  a request in the kernel whose buffer still exists; a client that is closed was accepted; and the
  program is not told to stop while it is about to stop itself for a restart.
\<close>

fun can_happen :: "'a server_event \<Rightarrow> 'a world \<Rightarrow> bool" where
  "can_happen (Listen e) w \<longleftrightarrow> w_next w \<notin> set (w_retry w)"
| "can_happen (Accept_done ret cb b) w \<longleftrightarrow> (\<exists>buf. w_bufs w b = Some buf \<and> ab_active buf)"
| "can_happen (Client_closed c) w \<longleftrightarrow> (\<exists>s sv. w_servers w s = Some sv \<and> c \<in> set (sv_clients sv))"
| "can_happen Quit w \<longleftrightarrow> may_stop w"
| "can_happen (Restart_timer n) w \<longleftrightarrow> may_stop w"
| "can_happen _ w \<longleftrightarrow> True"

definition world0 :: "'a world" where
  "world0 = \<lparr>w_servers = (\<lambda>_. None), w_clients = (\<lambda>_. None), w_bufs = (\<lambda>_. None), w_next = 0, w_list = [],
     w_retry = [], w_num_client = 0, w_num_connection = 0, w_num_listen = 0, w_flags = 0, w_done = 0,
     w_restart_pid = 0\<rparr>"

inductive server_reach :: "'a world \<Rightarrow> bool" where
  start: "server_reach world0"
| event: "server_reach w \<Longrightarrow> can_happen ev w \<Longrightarrow> do_server_event ev w = Some w' \<Longrightarrow> server_reach w'"

lemma may_stop_left [simp]: "may_stop (left n w) \<longleftrightarrow> may_stop w" "world_ok (left n w) \<longleftrightarrow> world_ok w"
  by (simp_all add: may_stop_def calm_def has_clients_def left_def)

lemma server_event_ok:
  assumes "world_ok w" "can_happen ev w"
  shows "\<exists>w'. do_server_event ev w = Some w' \<and> world_ok w'"
proof (cases ev)
  case (Listen e)
  then show ?thesis using create_ok [OF assms(1), of e] assms(2) by auto
next
  case (Accept_done ret cb b)
  then show ?thesis using accept_complete_ok [OF assms(1)] assms(2) by auto
next
  case (Client_closed c)
  then obtain s sv where "w_servers w s = Some sv" "c \<in> set (sv_clients sv)" using assms(2) by auto
  then obtain w' where "hin_client_close c w = Some w'" "world_ok w'" by (rule client_close_ok [OF assms(1)])
  then show ?thesis using Client_closed by simp
next
  case Timer
  have "\<forall>s\<in>set (w_list w). w_servers w s \<noteq> None" using world_ok_parts(2) [OF assms(1)] by blast
  from reaccept_ok [OF assms(1) this] show ?thesis using Timer by (auto simp: hin_server_reaccept_def)
next
  case Quit
  then show ?thesis using hin_stop_ok [OF assms(1)] assms(2) by simp
next
  case (Restart pid n)
  let ?w = "left n (w\<lparr>w_done := 0, w_restart_pid := pid, w_flags := setf (w_flags w) HIN_RESTARTING\<rparr>)"
  have "world_ok ?w" "may_stop ?w" using assms(1) by (simp_all add: may_stop_def calm_def left_def)
  then show ?thesis
    using hin_stop_ok [of ?w] assms(1) Restart
    by (cases "pid < 0") (auto simp: hin_restart1_def hin_restart_do_close_def hin_stop1_def Let_def)
next
  case (Restart_timer n)
  then show ?thesis
    using hin_stop_ok [of "left n w"] assms by (auto simp: hin_check_alive_timer_def hin_stop1_def)
qed (use assms(1) in \<open>simp_all add: hin_restart_child_done_def\<close>)

lemma server_reach_ok: "server_reach w \<Longrightarrow> world_ok w"
proof (induction rule: server_reach.induct)
  case start
  show ?case by (simp add: world_ok_def world0_def)
next
  case (event w ev w')
  then show ?case using server_event_ok [of w ev] by auto
qed



text \<open>
  C38: stopping frees the accept buffer of every server while its request is in the kernel: when
  the request completes, the event loop uses the freed buffer.
\<close>

theorem stop_frees_in_flight:
  assumes "server_reach w" "calm w" "s \<in> set (w_list w)" "w_servers w s = Some sv" "sv_accept sv = Some b"
  shows "\<exists>w'. hin_stop w = Some w' \<and> accept_complete ret cb ok b w' = None"
proof -
  note ok = server_reach_ok [OF assms(1)]
  obtain w' where w': "hin_stop w = Some w'" "world_ok w'"
    "\<forall>s. w_servers w' s = (if s \<in> set (w_list w) then stopped w s else w_servers w s)"
    by (rule hin_stop_calm [OF ok assms(2)])
  have "w_bufs w' b = None"
  proof (rule ccontr)
    assume "w_bufs w' b \<noteq> None"
    then obtain buf where "w_bufs w' b = Some buf" by auto
    then obtain t tv where t: "w_servers w' t = Some tv" "sv_accept tv = Some b" by (rule buffer_owner [OF w'(2)])
    show False
    proof (cases "t \<in> set (w_list w)")
      case True
      then show False using t w'(3) by (auto simp: stopped_def split: if_splits)
    next
      case False
      then have "w_servers w t = Some tv" using t w'(3) by simp
      then show False using accept_unique [OF ok assms(4,5) _ t(2)] assms(3) False by auto
    qed
  qed
  then show ?thesis using w'(1) by (simp add: accept_complete_def)
qed

text \<open>
  A restart does not wait for the new process: when no client is connected, the old process
  closes its sockets and leaves its event loop at once, before the new process can have reported
  that it serves.
\<close>

theorem restart_does_not_wait:
  assumes "server_reach w" "\<forall>s\<in>set (w_list w). \<not> has_clients w s" "0 \<le> pid"
  shows "\<exists>w'. hin_restart1 pid (left 0) w = Some (0, w') \<and> w_list w' = [] \<and> has (w_flags w') HIN_FLAG_FINISH"
proof -
  let ?w = "left 0 (w\<lparr>w_done := 0, w_restart_pid := pid, w_flags := setf (w_flags w) HIN_RESTARTING\<rparr>)"
  have "world_ok ?w" "calm ?w" using server_reach_ok [OF assms(1)] by (simp_all add: calm_def left_def)
  then obtain w' where w': "hin_stop ?w = Some w'" "w_list w' = filter (has_clients ?w) (w_list ?w)"
    "has (w_flags w') HIN_FLAG_FINISH \<longleftrightarrow> has (w_flags ?w) HIN_FLAG_FINISH \<or> w_list w' = [] \<and> w_num_connection ?w = 0"
    by (rule hin_stop_calm)
  have "w_list w' = []" using w'(2) assms(2) by (simp add: left_def has_clients_def filter_empty_conv)
  then show ?thesis
    using w' assms(3) by (simp add: hin_restart1_def hin_restart_do_close_def hin_stop1_def left_def)
qed

subsection \<open>Concrete servers\<close>

definition listen_env0 :: "nat listen_env" where
  "listen_env0 = \<lparr>le_lookup = Some [7], le_socket = (\<lambda>_. 3), le_bind = (\<lambda>_. Bind_ok), le_listen = True,
     le_sockname = (\<lambda>_. None)\<rparr>"

definition world1 :: "nat world" where
  "world1 = the (do_server_event (Listen listen_env0) world0)"

lemma world1_eq:
  "do_server_event (Listen listen_env0) world0 = Some world1"
  "w_list world1 = [0]" "w_flags world1 = 0" "w_done world1 = 0" "w_num_connection world1 = 0"
  "w_servers world1 = [0 \<mapsto> new_server\<lparr>sv_fd := 3, sv_addr := Some 7, sv_accept := Some 1\<rparr>]"
  "w_bufs world1 = [1 \<mapsto> \<lparr>ab_client = Some 2, ab_active = True\<rparr>]"
  by (simp_all add: world1_def httpd_create_def hin_request_listen_def hin_socket_listen_def set_fd_def
      hin_server_start_accept_def hin_server_create_client_def request_accept_def put_server_def Let_def
      world0_def listen_env0_def new_server_def clrf_def numeral_2_eq_2)

lemma world1_reach: "server_reach world1"
proof (rule server_reach.event [OF server_reach.start _ world1_eq(1)])
  show "can_happen (Listen listen_env0) (world0 :: nat world)" by (simp add: world0_def)
qed

lemma world1_calm: "calm world1"
  by (simp add: calm_def world1_eq)



theorem stop_frees_in_flight_witness:
  "\<exists>w'. hin_stop world1 = Some w' \<and> accept_complete (Inr 9) 0 True 1 w' = None"
  using stop_frees_in_flight [OF world1_reach world1_calm, of 0 _ 1] by (simp add: world1_eq)

theorem restart_does_not_wait_witness:
  "\<exists>w'. hin_restart1 100 (left 0) world1 = Some (0, w') \<and> w_list w' = [] \<and> has (w_flags w') HIN_FLAG_FINISH"
  using restart_does_not_wait [OF world1_reach, of 100] by (simp add: world1_eq has_clients_def new_server_def)

text \<open>Retrying the only server that waits for its address uses the null pointer.\<close>

lemma retry_undefined: "w_retry w = [s] \<Longrightarrow> hin_socket_do_retry e ok w = None"
  unfolding hin_socket_do_retry_def by (subst retry_from.simps) (simp add: first_in_def next_in_def)

text \<open>
  A server whose accept callback refused a client still counts it.
\<close>

lemma refused_client_counted:
  assumes "w_clients w c = Some cl" "sc_server cl = s" "w_servers w s = Some sv" "sv_accept sv = None" "cb < 0"
  shows "\<exists>w'. accepted fd cb ok b c s w = Some (1, w') \<and> w_num_client w' = w_num_client w + 1 \<and>
     map_option sv_clients (w_servers w' s) = Some (sv_clients sv)"
  using assms by (simp add: accepted_def hin_server_do_client_callback_def put_server_def)

end
