(* ===== verification/Pattern.thy ===== *)
theory Pattern
  imports Prelude
begin

text \<open>
  \<open>external/basic/basic_pattern.c\<close>: the pattern matcher every parser of the program is built
  on.  A format is the list of its characters before the terminator; the data is a
  \<open>string_t\<close>.  \<open>match_char\<close> compares characters where the code compares their (injective)
  conversions to \<open>uint32_t\<close>.
\<close>

definition PATTERN_LETTER :: u32 where [flag_defs]: "PATTERN_LETTER = 1"
definition PATTERN_SPACE :: u32 where [flag_defs]: "PATTERN_SPACE = 2"
definition PATTERN_CONTROL :: u32 where [flag_defs]: "PATTERN_CONTROL = 4"
definition PATTERN_DIGIT :: u32 where [flag_defs]: "PATTERN_DIGIT = 8"
definition PATTERN_LOWER :: u32 where [flag_defs]: "PATTERN_LOWER = 0x10"
definition PATTERN_UPPER :: u32 where [flag_defs]: "PATTERN_UPPER = 0x20"
definition PATTERN_PUNCTUATION :: u32 where [flag_defs]: "PATTERN_PUNCTUATION = 0x40"
definition PATTERN_ALPHANUM :: u32 where [flag_defs]: "PATTERN_ALPHANUM = 0x80"
definition PATTERN_HEXA :: u32 where [flag_defs]: "PATTERN_HEXA = 0x100"
definition PATTERN_NULL_CHAR :: u32 where [flag_defs]: "PATTERN_NULL_CHAR = 0x200"
definition PATTERN_CUSTOM :: u32 where [flag_defs]: "PATTERN_CUSTOM = 0x400"
definition PATTERN_NEGATIVE :: u32 where [flag_defs]: "PATTERN_NEGATIVE = 0x800"
definition PATTERN_ALL :: u32 where [flag_defs]: "PATTERN_ALL = 0x1000"

definition RUN_ONE :: u8 where [flag_defs]: "RUN_ONE = 0"
definition RUN_ALL :: u8 where [flag_defs]: "RUN_ALL = 0x10"
definition RUN_ZERO :: u8 where [flag_defs]: "RUN_ZERO = 1"

definition get_specifier :: "char \<Rightarrow> u8" where
  "get_specifier x =
     (if x = CHR ''+'' then RUN_ALL
      else if x = CHR ''*'' then RUN_ALL OR RUN_ZERO
      else if x = CHR ''?'' then RUN_ONE OR RUN_ZERO
      else RUN_ONE)"

definition match_char :: "char \<Rightarrow> u32 \<Rightarrow> char \<Rightarrow> bool" where
  "match_char c matches ch \<longleftrightarrow>
     has matches PATTERN_CUSTOM \<and> c = ch \<or>
     has matches PATTERN_SPACE \<and> isspace c \<or>
     has matches PATTERN_ALPHANUM \<and> isalnum c \<or>
     has matches PATTERN_LETTER \<and> isalpha c \<or>
     has matches PATTERN_DIGIT \<and> isdigit c \<or>
     has matches PATTERN_CONTROL \<and> iscntrl c \<or>
     has matches PATTERN_PUNCTUATION \<and> ispunct c \<or>
     has matches PATTERN_LOWER \<and> islower c \<or>
     has matches PATTERN_UPPER \<and> isupper c \<or>
     has matches PATTERN_HEXA \<and> isxdigit c \<or>
     has matches PATTERN_NULL_CHAR \<and> c = NUL \<or>
     has matches PATTERN_NEGATIVE \<and> c \<noteq> ch \<or>
     has matches PATTERN_ALL \<and> c \<noteq> NUL"

definition class_of :: "char \<Rightarrow> u32 option" where
  "class_of x =
     (if x = CHR ''a'' then Some PATTERN_LETTER
      else if x = CHR ''A'' then Some (NOT PATTERN_LETTER)
      else if x = CHR ''s'' then Some PATTERN_SPACE
      else if x = CHR ''S'' then Some (NOT PATTERN_SPACE)
      else if x = CHR ''c'' then Some PATTERN_CONTROL
      else if x = CHR ''C'' then Some (NOT PATTERN_CONTROL)
      else if x = CHR ''d'' then Some PATTERN_DIGIT
      else if x = CHR ''D'' then Some (NOT PATTERN_DIGIT)
      else if x = CHR ''l'' then Some PATTERN_LOWER
      else if x = CHR ''L'' then Some (NOT PATTERN_LOWER)
      else if x = CHR ''u'' then Some PATTERN_UPPER
      else if x = CHR ''U'' then Some (NOT PATTERN_UPPER)
      else if x = CHR ''p'' then Some PATTERN_PUNCTUATION
      else if x = CHR ''P'' then Some (NOT PATTERN_PUNCTUATION)
      else if x = CHR ''w'' then Some PATTERN_ALPHANUM
      else if x = CHR ''W'' then Some (NOT PATTERN_ALPHANUM)
      else if x = CHR ''x'' then Some PATTERN_HEXA
      else if x = CHR ''X'' then Some (NOT PATTERN_HEXA)
      else if x = CHR ''z'' then Some PATTERN_NULL_CHAR
      else if x = CHR ''Z'' then Some (NOT PATTERN_NULL_CHAR)
      else if x = CHR ''y'' then Some PATTERN_ALL
      else if x = CHR ''Y'' then Some (NOT PATTERN_ALL)
      else None)"

text \<open>The advance in the format, the match mask, and the character (unchanged by a class).\<close>

definition get_pattern :: "string \<Rightarrow> char \<Rightarrow> nat \<times> u32 \<times> char" where
  "get_pattern fmt ch =
     (if at0 fmt \<noteq> CHR ''%'' then (1, PATTERN_CUSTOM, at0 fmt)
      else case class_of (at0 (tl fmt)) of
        Some m \<Rightarrow> (2, m, ch)
      | None \<Rightarrow> (2, PATTERN_CUSTOM, at0 (tl fmt)))"

text \<open>One pass over the items of the set; \<open>str\<close> is the data left.\<close>

function pat_pass :: "bool \<Rightarrow> string \<Rightarrow> char \<Rightarrow> string \<Rightarrow> bool \<Rightarrow> string \<times> bool \<times> char" where
  "pat_pass all fmt ch str any =
     (if fmt = [] then (str, any, ch)
      else case get_pattern fmt ch of (adv, m, ch') \<Rightarrow>
        (case str of
           [] \<Rightarrow> pat_pass all (drop adv fmt) ch' [] any
         | c # s \<Rightarrow>
             if match_char c m ch'
             then pat_pass all (drop adv fmt) ch'
                    (if all then dropWhile (\<lambda>c. match_char c m ch') s else s) True
             else pat_pass all (drop adv fmt) ch' str any))"
  by pat_completeness auto
termination
  by (relation "measure (\<lambda>(all, fmt, ch, str, any). length fmt)")
     (auto simp: get_pattern_def split: if_splits option.splits)

declare pat_pass.simps [simp del]

lemma pat_pass_shorter:
  "pat_pass all fmt ch str any = (str', any', ch') \<Longrightarrow>
   length str' \<le> length str \<and> (any' \<longrightarrow> any \<or> length str' < length str)"
proof (induction all fmt ch str any rule: pat_pass.induct)
  case (1 all fmt ch str any)
  obtain adv m ch1 where g: "get_pattern fmt ch = (adv, m, ch1)" by (cases "get_pattern fmt ch")
  have le: "length (dropWhile P s) \<le> length s" for P and s :: string
    by (simp add: length_dropWhile_le)
  show ?case
  proof (cases "fmt = []")
    case True
    with 1(4) show ?thesis by (simp add: pat_pass.simps)
  next
    case False
    show ?thesis
    proof (cases str)
      case Nil
      with 1 g False show ?thesis by (simp add: pat_pass.simps [of all fmt])
    next
      case (Cons c s)
      with 1 g False le [of "\<lambda>c. match_char c m ch1" s] show ?thesis
        by (cases "match_char c m ch1"; cases all)
           (fastforce simp: pat_pass.simps [of _ fmt])+
    qed
  qed
qed

text \<open>The outer loop; it returns how many characters of \<open>data\<close> are before \<open>str\<close> at the end.\<close>

function pat_loop :: "bool \<Rightarrow> bool \<Rightarrow> string \<Rightarrow> char \<Rightarrow> string \<Rightarrow> string \<Rightarrow> nat" where
  "pat_loop neg all fmt ch data str =
     (case pat_pass all fmt ch str False of (str', any, ch') \<Rightarrow>
        if neg then
          (if any then length data - length str' - 1
           else if str' = [] then length data - length str'
           else pat_loop neg all fmt ch' data (tl str'))
        else
          (if \<not> any then length data - length str'
           else pat_loop neg all fmt ch' data str'))"
  by pat_completeness auto
termination
  by (relation "measure (\<lambda>(neg, all, fmt, ch, data, str). length str)")
     (auto dest!: sym [of _ "pat_pass _ _ _ _ _"] pat_pass_shorter simp: neq_Nil_conv)

declare pat_loop.simps [simp del]

definition match_pattern :: "string \<Rightarrow> string \<Rightarrow> u8 \<Rightarrow> int" where
  "match_pattern data pattern specifier =
     (let neg = (at0 pattern = CHR ''^'');
          fmt = (if neg then tl pattern else pattern);
          count = pat_loop neg (has specifier RUN_ALL) fmt NUL data data
      in if count = 0 \<and> \<not> has specifier RUN_ZERO then -1 else int count)"

text \<open>The characters of a bracket set up to the unescaped \<open>]\<close>; \<open>None\<close> when it is missing.\<close>

fun set_end :: "char \<Rightarrow> string \<Rightarrow> (string \<times> string) option" where
  "set_end prev [] = None"
| "set_end prev (c # r) =
     (if c = CHR '']'' \<and> prev \<noteq> CHR ''%'' then Some ([], r)
      else map_option (\<lambda>(a, b). (c # a, b)) (set_end c r))"

lemma set_end_shorter: "set_end prev r = Some (pat, r') \<Longrightarrow> length r' < length r"
  by (induction r arbitrary: prev pat) (fastforce split: if_splits)+

definition after_spec :: "string \<Rightarrow> string" where
  "after_spec fmt = (if get_specifier (at0 fmt) \<noteq> RUN_ONE then tl fmt else fmt)"

lemma after_spec_le: "length (after_spec fmt) \<le> length fmt"
  by (simp add: after_spec_def)

text \<open>
  The interpreter of a format: \<open>p\<close> is the data pointer, \<open>n\<close> the bytes up to \<open>max\<close>, \<open>st\<close> the
  open capture, \<open>caps\<close> the captures stored so far.  \<open>None\<close> is the return value -1.
\<close>

type_synonym cursor = "string \<times> nat"

function match_loop ::
  "bool \<Rightarrow> string \<Rightarrow> string \<Rightarrow> nat \<Rightarrow> cursor option \<Rightarrow> string_t list \<Rightarrow> cursor option \<times> string_t list"
where
  "match_loop ic fmt p n st caps =
     (case fmt of
        [] \<Rightarrow> (if st = None then Some (p, n) else None, caps)
      | c # r \<Rightarrow>
          if c = CHR ''%'' then
            (let k = match_pattern (take n p) (take 2 fmt) (get_specifier (at0 (drop 2 fmt)))
             in if k < 0 then (None, caps)
                else match_loop ic (after_spec (drop 2 fmt)) (drop (nat k) p) (n - nat k) st caps)
          else if c = CHR ''['' then
            (case set_end c r of
               None \<Rightarrow> (None, caps)
             | Some (pat, r') \<Rightarrow>
                 (let k = match_pattern (take n p) pat (get_specifier (at0 r'))
                  in if k < 0 then (None, caps)
                     else match_loop ic (after_spec r') (drop (nat k) p) (n - nat k) st caps))
          else if c = CHR ''('' then match_loop ic r p n (Some (p, n)) caps
          else if c = CHR '')'' then
            (case st of
               None \<Rightarrow> (None, caps)
             | Some (p0, n0) \<Rightarrow> match_loop ic r p n None (caps @ [\<lparr>sptr = p0, slen = n0 - n\<rparr>]))
          else if n = 0 then (None, caps)
          else if (if ic then toupper c \<noteq> toupper (at0 p) else c \<noteq> at0 p) then (None, caps)
          else match_loop ic r (drop 1 p) (n - 1) st caps)"
  by pat_completeness auto
termination
  by (relation "measure (\<lambda>(ic, fmt, p, n, st, caps). length fmt)")
     (use after_spec_le set_end_shorter in
       \<open>auto simp: less_Suc_eq_le intro: order_trans [OF after_spec_le]
          dest!: set_end_shorter\<close>)

declare match_loop.simps [simp del]

definition PATTERN_CASE :: u32 where [flag_defs]: "PATTERN_CASE = 1"

definition match_string_virtual :: "string_t \<Rightarrow> u32 \<Rightarrow> string \<Rightarrow> int \<times> string_t \<times> string_t list" where
  "match_string_virtual data flags fmt =
     (if slen data = 0 then (if fmt = [] then (0, data, []) else (-1, data, []))
      else case match_loop (has flags PATTERN_CASE) fmt (sptr data) (slen data) None [] of
        (None, caps) \<Rightarrow> (-1, data, caps)
      | (Some (p, n), caps) \<Rightarrow> (int (slen data - n), str_adv (slen data - n) data, caps))"

definition match_string :: "string_t \<Rightarrow> string \<Rightarrow> int \<times> string_t \<times> string_t list" where
  "match_string source fmt = match_string_virtual source 0 fmt"

definition matchi_string :: "string_t \<Rightarrow> string \<Rightarrow> int \<times> string_t \<times> string_t list" where
  "matchi_string source fmt = match_string_virtual source PATTERN_CASE fmt"

definition match_string_equal :: "string_t \<Rightarrow> string \<Rightarrow> int \<times> string_t list" where
  "match_string_equal source fmt =
     (case match_string_virtual source 0 fmt of (used, _, caps) \<Rightarrow>
        (if used \<noteq> int (slen source) then -1 else used, caps))"

definition matchi_string_equal :: "string_t \<Rightarrow> string \<Rightarrow> int \<times> string_t list" where
  "matchi_string_equal source fmt =
     (case match_string_virtual source PATTERN_CASE fmt of (used, _, caps) \<Rightarrow>
        (if used \<noteq> int (slen source) then -1 else used, caps))"


subsection \<open>What a set matches\<close>

text \<open>\<open>set_mem fmt c\<close>: some item of the set accepts \<open>c\<close>.\<close>

function set_mem :: "string \<Rightarrow> char \<Rightarrow> bool" where
  "set_mem fmt c =
     (if fmt = [] then False
      else case get_pattern fmt NUL of (adv, m, ch) \<Rightarrow> match_char c m ch \<or> set_mem (drop adv fmt) c)"
  by pat_completeness auto
termination
  by (relation "measure (\<lambda>(fmt, c). length fmt)")
     (auto simp: get_pattern_def split: if_splits option.splits)

declare set_mem.simps [simp del]

lemma match_char_any:
  "has m PATTERN_CUSTOM \<and> has m PATTERN_NEGATIVE \<Longrightarrow> match_char c m ch"
  by (auto simp: match_char_def)

lemma match_char_complement:
  "x \<in> set ''ASCDLUPWXZY'' \<Longrightarrow> \<exists>m. class_of x = Some m \<and> (\<forall>c ch. match_char c m ch)"
proof -
  assume "x \<in> set ''ASCDLUPWXZY''"
  then have "\<exists>m. class_of x = Some m \<and> has m PATTERN_CUSTOM \<and> has m PATTERN_NEGATIVE"
    by (simp only: list.set insert_iff empty_iff)
       (elim disjE; simp add: class_of_def flag_defs has_def)
  then show ?thesis using match_char_any by blast
qed

lemma match_char_class:
  "class_of x = Some m \<Longrightarrow> match_char c m ch = match_char c m ch'"
  by (auto simp: class_of_def match_char_def flag_defs has_def split: if_splits)

lemma get_pattern_indep:
  assumes "get_pattern fmt ch = (adv, m, ch1)" "get_pattern fmt ch' = (adv', m', ch1')"
  shows "adv' = adv" "m' = m" "match_char c m' ch1' = match_char c m ch1"
  using assms by (auto simp: get_pattern_def match_char_class split: if_splits option.splits)

lemma set_mem_Nil [simp]: "\<not> set_mem [] c"
  by (simp add: set_mem.simps)

lemma set_mem_step:
  assumes "fmt \<noteq> []" "get_pattern fmt ch = (adv, m, ch1)"
  shows "set_mem fmt c \<longleftrightarrow> match_char c m ch1 \<or> set_mem (drop adv fmt) c"
proof -
  obtain a m' ch1' where g: "get_pattern fmt NUL = (a, m', ch1')"
    by (cases "get_pattern fmt NUL")
  show ?thesis
    using get_pattern_indep [OF assms(2) g] assms(1) g by (subst set_mem.simps) simp
qed

lemma pat_pass_no:
  "\<forall>c s. str = c # s \<longrightarrow> \<not> set_mem fmt c \<Longrightarrow>
   \<exists>ch'. pat_pass all fmt ch str any = (str, any, ch')"
proof (induction all fmt ch str any rule: pat_pass.induct)
  case (1 all fmt ch str any)
  obtain adv m ch1 where g: "get_pattern fmt ch = (adv, m, ch1)" by (cases "get_pattern fmt ch")
  show ?case
  proof (cases "fmt = []")
    case True
    then show ?thesis by (simp add: pat_pass.simps)
  next
    case False
    then show ?thesis
      using 1 g set_mem_step [OF False g]
      by (cases str) (subst pat_pass.simps [of all fmt], auto)+
  qed
qed

text \<open>A pass consumes a prefix of members, and at least one when the first character is one.\<close>

lemma pat_pass_prefix:
  assumes "pat_pass all fmt ch str any = (str', any', ch')" "\<forall>c. set_mem fmt c \<longrightarrow> P c"
  shows "\<exists>n \<le> length (takeWhile P str). str' = drop n str \<and> (any' \<longleftrightarrow> any \<or> 0 < n) \<and>
           (n = 0 \<longrightarrow> str = [] \<or> \<not> set_mem fmt (hd str))"
  using assms
proof (induction all fmt ch str any rule: pat_pass.induct)
  case (1 all fmt ch str any)
  obtain adv m ch1 where g: "get_pattern fmt ch = (adv, m, ch1)" by (cases "get_pattern fmt ch")
  show ?case
  proof (cases "fmt = []")
    case True
    with 1(4) show ?thesis by (auto simp: pat_pass.simps)
  next
    case False
    note mem = set_mem_step [OF False g]
    show ?thesis
    proof (cases str)
      case Nil
      with 1 g False mem show ?thesis by (simp add: pat_pass.simps [of all fmt])
    next
      case (Cons c s)
      show ?thesis
      proof (cases "match_char c m ch1")
        case no: False
        with 1(4) Cons False g have "pat_pass all (drop adv fmt) ch1 str any = (str', any', ch')"
          by (simp add: pat_pass.simps [of all fmt])
        with 1(3) [OF False] g Cons no 1(5) mem show ?thesis by auto
      next
        case yes: True
        define k where "k = (if all then length (takeWhile (\<lambda>c. match_char c m ch1) s) else 0)"
        have dk: "(if all then dropWhile (\<lambda>c. match_char c m ch1) s else s) = drop k s"
          by (simp add: k_def dropWhile_eq_drop)
        have sub: "length (takeWhile (\<lambda>c. match_char c m ch1) s) \<le> length (takeWhile P s)"
          using 1(5) mem by (induction s) auto
        let ?S = "if all then dropWhile (\<lambda>c. match_char c m ch1) s else s"
        have pp: "pat_pass all (drop adv fmt) ch1 ?S True = (str', any', ch')"
          using 1(4) Cons False g yes by (simp add: pat_pass.simps [of all fmt])
        have sm: "\<forall>c. set_mem (drop adv fmt) c \<longrightarrow> P c" using 1(5) mem by auto
        from 1(2) [OF False g [symmetric] refl Cons yes pp sm]
        obtain n where n: "n \<le> length (takeWhile P (drop k s))" "str' = drop n (drop k s)" "any'"
          unfolding dk by auto
        have k: "k \<le> length (takeWhile P s)" using sub by (simp add: k_def)
        have pc: "P c" using yes mem 1(5) by auto
        have "Suc (k + n) \<le> length (takeWhile P str)"
          using n(1) k pc Cons length_takeWhile_drop [OF k] by simp
        then show ?thesis
          using n Cons by (intro exI [of _ "Suc (k + n)"]) (simp add: add.commute)
      qed
    qed
  qed
qed

lemma pat_loop_pos:
  "i + length str = length data \<Longrightarrow>
   pat_loop False all fmt ch data str = i + length (takeWhile (set_mem fmt) str)"
proof (induction "length str" arbitrary: str ch i rule: less_induct)
  case less
  obtain str' any ch' where p: "pat_pass all fmt ch str False = (str', any, ch')"
    by (cases "pat_pass all fmt ch str False")
  from pat_pass_prefix [OF p, of "set_mem fmt"] obtain n where
    n: "n \<le> length (takeWhile (set_mem fmt) str)" "str' = drop n str" "any \<longleftrightarrow> 0 < n"
       "n = 0 \<longrightarrow> str = [] \<or> \<not> set_mem fmt (hd str)" by auto
  have nl: "n \<le> length str" using n(1) length_takeWhile_le order_trans by blast
  show ?case
  proof (cases "n = 0")
    case True
    then have "takeWhile (set_mem fmt) str = []" using n(4) by (cases str) auto
    then show ?thesis using True n p less(2) by (simp add: pat_loop.simps [of False all fmt ch])
  next
    case False
    then have "pat_loop False all fmt ch data str = pat_loop False all fmt ch' data str'"
      using p n(3) by (simp add: pat_loop.simps [of False all fmt ch])
    also have "\<dots> = (i + n) + length (takeWhile (set_mem fmt) str')"
      using less(1) [of str' "i + n" ch'] n(2) nl False less(2) by auto
    finally show ?thesis using n(1) n(2) length_takeWhile_drop [OF n(1)] by simp
  qed
qed

lemma match_pattern_pos:
  "at0 pattern \<noteq> CHR ''^'' \<Longrightarrow>
   match_pattern data pattern specifier =
     (let n = length (takeWhile (set_mem pattern) data)
      in if n = 0 \<and> \<not> has specifier RUN_ZERO then -1 else int n)"
  using pat_loop_pos [of 0 data data] by (simp add: match_pattern_def Let_def)

text \<open>
  A set that does not start with a caret matches the longest prefix of members, whatever
  the repetition specifier: \<open>RUN_ALL\<close> changes nothing (a set without \<open>+\<close> is as greedy as one
  with it), and only an empty match without \<open>RUN_ZERO\<close> fails.
\<close>

theorem match_pattern_longest:
  assumes "at0 pattern \<noteq> CHR ''^''"
  shows "match_pattern data pattern specifier =
     (let n = length (takeWhile (set_mem pattern) data)
      in if n = 0 \<and> \<not> has specifier RUN_ZERO then -1 else int n)"
  using assms by (rule match_pattern_pos)

lemma set_mem_digit: "set_mem ''%d'' c = isdigit c"
  by (simp add: set_mem.simps [of "''%d''"] get_pattern_def class_of_def match_char_def flag_defs
      has_def)

theorem match_pattern_longest_witness:
  "match_pattern ''2024-05'' ''%d'' RUN_ONE = 4"
  using match_pattern_longest [of "''%d''" "''2024-05''" RUN_ONE]
  by (simp add: set_mem_digit ctype_defs flag_defs has_def)

text \<open>
  a complemented class such as \<open>%A\<close> or \<open>%D\<close>, documented as the characters outside the
  class, accepts every byte: it swallows all the data that is left.
\<close>

theorem complement_matches_all:
  assumes "x \<in> set ''ASCDLUPWXZY''" "data \<noteq> []"
  shows "match_pattern data [CHR ''%'', x] specifier = int (length data)"
proof -
  obtain m where m: "class_of x = Some m" "\<And>c ch. match_char c m ch"
    using match_char_complement [OF assms(1)] by blast
  have "set_mem [CHR ''%'', x] = (\<lambda>_. True)"
    by (rule ext) (simp add: set_mem.simps [of "[_, _]"] get_pattern_def m)
  then show ?thesis using assms(2) by (simp add: match_pattern_pos takeWhile_eq_all_conv [THEN iffD2])
qed

theorem complement_matches_all_witness: "match_pattern ''a1'' ''%D'' RUN_ONE = 2"
  using complement_matches_all [of "CHR ''D''" "''a1''" RUN_ONE] by simp

subsection \<open>Sets that start with a caret\<close>

lemma pat_pass_one:
  assumes "set_mem fmt c" "\<forall>d r. s = d # r \<longrightarrow> \<not> set_mem fmt d"
  shows "\<exists>ch'. pat_pass all fmt ch (c # s) False = (s, True, ch')"
proof -
  obtain str' any' ch' where p: "pat_pass all fmt ch (c # s) False = (str', any', ch')"
    by (cases "pat_pass all fmt ch (c # s) False")
  from pat_pass_prefix [OF p, of "set_mem fmt"] obtain n where
    n: "n \<le> length (takeWhile (set_mem fmt) (c # s))" "str' = drop n (c # s)" "any' \<longleftrightarrow> 0 < n"
       "n = 0 \<longrightarrow> \<not> set_mem fmt c" by auto
  have "takeWhile (set_mem fmt) (c # s) = [c]" using assms by (cases s) auto
  with n assms(1) have "n = 1" by (cases "n = 0") auto
  then show ?thesis using n p by simp
qed

lemma pat_loop_neg:
  assumes "i + length str = length data"
    "\<forall>d r. dropWhile (\<lambda>c. \<not> set_mem fmt c) str = d # r \<longrightarrow> r = [] \<or> \<not> set_mem fmt (hd r)"
  shows "pat_loop True all fmt ch data str = i + length (takeWhile (\<lambda>c. \<not> set_mem fmt c) str)"
  using assms
proof (induction str arbitrary: ch i)
  case Nil
  obtain ch' where "pat_pass all fmt ch [] False = ([], False, ch')"
    using pat_pass_no [of "[]" fmt all ch False] by auto
  then show ?case using Nil by (simp add: pat_loop.simps [of True all fmt ch])
next
  case (Cons c s)
  show ?case
  proof (cases "set_mem fmt c")
    case True
    obtain ch' where "pat_pass all fmt ch (c # s) False = (s, True, ch')"
      using pat_pass_one [of fmt c s all ch] True Cons(3) by (cases s) auto
    then show ?thesis using True Cons(2) by (simp add: pat_loop.simps [of True all fmt ch])
  next
    case False
    obtain ch' where "pat_pass all fmt ch (c # s) False = (c # s, False, ch')"
      using pat_pass_no [of "c # s" fmt all ch False] False by auto
    then have "pat_loop True all fmt ch data (c # s) = pat_loop True all fmt ch' data s"
      by (simp add: pat_loop.simps [of True all fmt ch])
    then show ?thesis using Cons(1) [of "Suc i" ch'] Cons(2,3) False by simp
  qed
qed

text \<open>
  A set that starts with a caret matches up to the first member of the rest of the set,
  provided that member is not followed by another one.  (Where it is, the code steps back by
  one character only: \<open>match_pattern ''ab//c'' ''^/%z'' RUN_ALL = 3\<close>, the \<open>match_pattern_doubled\<close>
  below.)
\<close>

theorem match_pattern_until:
  assumes "\<forall>d r. dropWhile (\<lambda>c. \<not> set_mem stop c) data = d # r \<longrightarrow> r = [] \<or> \<not> set_mem stop (hd r)"
    "data \<noteq> []" "\<not> set_mem stop (hd data)"
  shows "match_pattern data (CHR ''^'' # stop) specifier =
           int (length (takeWhile (\<lambda>c. \<not> set_mem stop c) data))"
  using pat_loop_neg [of 0 data data stop] assms
  by (cases data) (simp_all add: match_pattern_def Let_def)

lemma set_mem_path: "set_mem ''/%z'' c \<longleftrightarrow> c = CHR ''/'' \<or> c = NUL"
  by (auto simp: set_mem.simps [of "''/%z''"] set_mem.simps [of "''%z''"] get_pattern_def
      class_of_def match_char_def flag_defs has_def)

theorem match_pattern_until_witness: "match_pattern ''ab/c'' ''^/%z'' RUN_ALL = 2"
  using match_pattern_until [of "''/%z''" "''ab/c''" RUN_ALL]
  by (simp add: set_mem_path)

text \<open>The doubled terminator: one separator of the two stays in the match.\<close>

lemma match_pattern_doubled: "match_pattern ''ab//c'' ''^/%z'' RUN_ALL = 3"
  by (simp add: match_pattern_def pat_loop.simps pat_pass.simps get_pattern_def class_of_def
      match_char_def flag_defs has_def)

subsection \<open>The interpreter stays inside the data\<close>

lemma pat_loop_le: "pat_loop neg all fmt ch data str \<le> length data"
proof (induction neg all fmt ch data str rule: pat_loop.induct)
  case (1 neg all fmt ch data str)
  then show ?case
    by (subst pat_loop.simps) (auto split: prod.splits)
qed

lemma match_pattern_le: "match_pattern data pattern specifier \<le> int (length data)"
  by (simp add: match_pattern_def Let_def pat_loop_le)

text \<open>\<open>in_mem mem lim s\<close>: the string \<open>s\<close> is a slice of the first \<open>lim\<close> bytes of \<open>mem\<close>.\<close>

definition in_mem :: "string \<Rightarrow> nat \<Rightarrow> string_t \<Rightarrow> bool" where
  "in_mem mem lim s \<longleftrightarrow> (\<exists>i. sptr s = drop i mem \<and> i + slen s \<le> lim)"

definition at_mem :: "string \<Rightarrow> nat \<Rightarrow> string \<Rightarrow> nat \<Rightarrow> bool" where
  "at_mem mem lim p n \<longleftrightarrow> (\<exists>i. p = drop i mem \<and> i + n = lim)"

lemma at_mem_drop: "at_mem mem lim p n \<Longrightarrow> k \<le> n \<Longrightarrow> at_mem mem lim (drop k p) (n - k)"
  by (auto simp: at_mem_def intro: exI [of _ "k + _"])

lemma match_pattern_nat: "n \<le> length p \<Longrightarrow> nat (match_pattern (take n p) pat sp) \<le> n"
  using match_pattern_le [of "take n p" pat sp] by simp

lemma capture_in_mem:
  "at_mem mem lim p0 n0 \<Longrightarrow> n \<le> n0 \<Longrightarrow> in_mem mem lim \<lparr>sptr = p0, slen = n0 - n\<rparr>"
  by (auto simp: at_mem_def in_mem_def)

lemma match_loop_Nil [simp]:
  "match_loop ic [] p n st caps = (if st = None then Some (p, n) else None, caps)"
  by (simp add: match_loop.simps)

lemma match_loop_class:
  "match_loop ic (CHR ''%'' # r) p n st caps =
     (let k = match_pattern (take n p) (CHR ''%'' # take 1 r) (get_specifier (at0 (drop 1 r)))
      in if k < 0 then (None, caps)
         else match_loop ic (after_spec (drop 1 r)) (drop (nat k) p) (n - nat k) st caps)"
  by (subst match_loop.simps) (simp add: Let_def)

lemma match_loop_set:
  "match_loop ic (CHR ''['' # r) p n st caps =
     (case set_end CHR ''['' r of
        None \<Rightarrow> (None, caps)
      | Some (pat, r') \<Rightarrow>
          (let k = match_pattern (take n p) pat (get_specifier (at0 r'))
           in if k < 0 then (None, caps)
              else match_loop ic (after_spec r') (drop (nat k) p) (n - nat k) st caps))"
  by (subst match_loop.simps) (simp add: Let_def split: option.splits)

lemma match_loop_open [simp]:
  "match_loop ic (CHR ''('' # r) p n st caps = match_loop ic r p n (Some (p, n)) caps"
  by (subst match_loop.simps) simp

lemma match_loop_close [simp]:
  "match_loop ic (CHR '')'' # r) p n None caps = (None, caps)"
  "match_loop ic (CHR '')'' # r) p n (Some (p0, n0)) caps =
     match_loop ic r p n None (caps @ [\<lparr>sptr = p0, slen = n0 - n\<rparr>])"
  by (subst match_loop.simps, simp)+

lemma match_loop_lit:
  "c \<notin> {CHR ''%'', CHR ''['', CHR ''('', CHR '')''} \<Longrightarrow>
   match_loop ic (c # r) p n st caps =
     (if n = 0 \<or> (if ic then toupper c \<noteq> toupper (at0 p) else c \<noteq> at0 p) then (None, caps)
      else match_loop ic r (drop 1 p) (n - 1) st caps)"
  by (subst match_loop.simps) simp

text \<open>
  \<open>ml_state\<close>: the data pointer, the open capture and the stored captures are inside the data.
\<close>

definition ml_state ::
  "string \<Rightarrow> nat \<Rightarrow> string \<Rightarrow> nat \<Rightarrow> cursor option \<Rightarrow> string_t list \<Rightarrow> bool" where
  "ml_state mem lim p n st caps \<longleftrightarrow> lim \<le> length mem \<and> at_mem mem lim p n \<and>
     (\<forall>c\<in>set caps. in_mem mem lim c) \<and>
     (\<forall>p0 n0. st = Some (p0, n0) \<longrightarrow> at_mem mem lim p0 n0 \<and> n \<le> n0)"

lemma ml_state_len: "ml_state mem lim p n st caps \<Longrightarrow> n \<le> length p"
  by (auto simp: ml_state_def at_mem_def)

lemma ml_state_adv:
  "ml_state mem lim p n st caps \<Longrightarrow> k \<le> n \<Longrightarrow> ml_state mem lim (drop k p) (n - k) st caps"
  by (fastforce simp: ml_state_def at_mem_drop)

lemma ml_state_open: "ml_state mem lim p n st caps \<Longrightarrow> ml_state mem lim p n (Some (p, n)) caps"
  by (simp add: ml_state_def)

lemma ml_state_close:
  "ml_state mem lim p n (Some (p0, n0)) caps \<Longrightarrow>
   ml_state mem lim p n None (caps @ [\<lparr>sptr = p0, slen = n0 - n\<rparr>])"
  by (auto simp: ml_state_def capture_in_mem)

lemma match_loop_in_mem:
  assumes "match_loop ic fmt p n st caps = (res, caps')" "ml_state mem lim p n st caps"
  shows "(\<forall>c\<in>set caps'. in_mem mem lim c) \<and>
         (\<forall>p' n'. res = Some (p', n') \<longrightarrow> at_mem mem lim p' n' \<and> n' \<le> n)"
  using assms
proof (induction "length fmt" arbitrary: fmt p n st caps rule: less_induct)
  case less
  note st = less(3) and IH = less(1)
  let ?goal = "(\<forall>c\<in>set caps'. in_mem mem lim c) \<and>
         (\<forall>p' n'. res = Some (p', n') \<longrightarrow> at_mem mem lim p' n' \<and> n' \<le> n)"
  have fin: ?goal if "res = None" "caps' = caps" using st that by (simp add: ml_state_def)
  have step: ?goal if "match_loop ic f (drop k p) (n - k) st caps = (res, caps')"
      "length f < length fmt" "k \<le> n" for f k
    using IH [OF that(2) that(1) ml_state_adv [OF st that(3)]] by fastforce
  have branch: ?goal
    if "(if k < 0 then (None, caps)
         else match_loop ic f (drop (nat k) p) (n - nat k) st caps) = (res, caps')"
      "length f < length fmt" "nat k \<le> n" for f and k :: int
  proof (cases "k < 0")
    case True
    then show ?thesis using that(1) fin by simp
  next
    case False
    then have "match_loop ic f (drop (nat k) p) (n - nat k) st caps = (res, caps')"
      using that(1) by simp
    then show ?thesis by (rule step [OF _ that(2,3)])
  qed
  show ?case
  proof (cases fmt)
    case Nil
    then show ?thesis using less(2) st by (auto simp: ml_state_def split: if_splits)
  next
    case (Cons c r)
    consider (pc) "c = CHR ''%''" | (br) "c = CHR ''[''" | (op) "c = CHR ''(''"
      | (cl) "c = CHR '')''" | (lit) "c \<notin> {CHR ''%'', CHR ''['', CHR ''('', CHR '')''}"
      by auto
    then show ?thesis
    proof cases
      case pc
      have "length (after_spec (drop 1 r)) < length fmt"
        using after_spec_le [of "drop 1 r"] Cons by simp
      from branch [OF less(2) [unfolded Cons pc match_loop_class Let_def] this]
      show ?thesis using match_pattern_nat [OF ml_state_len [OF st]] by blast
    next
      case br
      show ?thesis
      proof (cases "set_end CHR ''['' r")
        case None
        then show ?thesis using less(2) Cons br fin by (simp add: match_loop_set)
      next
        case (Some x)
        obtain pat r' where x: "x = (pat, r')" by (cases x)
        have "length (after_spec r') < length fmt"
          using after_spec_le [of r'] set_end_shorter [OF Some [unfolded x]] Cons by simp
        from branch [OF less(2) [unfolded Cons br match_loop_set Some x option.case prod.case Let_def]
            this]
        show ?thesis using match_pattern_nat [OF ml_state_len [OF st]] by blast
      qed
    next
      case op
      then show ?thesis
        using IH [of r p n "Some (p, n)" caps] less(2) Cons ml_state_open [OF st] by simp
    next
      case cl
      show ?thesis
      proof (cases st)
        case None
        then show ?thesis using less(2) Cons cl fin by simp
      next
        case (Some x)
        obtain p0 n0 where x: "x = (p0, n0)" by (cases x)
        show ?thesis
          using IH [of r p n None "caps @ [\<lparr>sptr = p0, slen = n0 - n\<rparr>]"] less(2) Cons cl Some x
            ml_state_close st by simp
      qed
    next
      case lit
      let ?stop = "n = 0 \<or> (if ic then toupper c \<noteq> toupper (at0 p) else c \<noteq> at0 p)"
      have m: "match_loop ic (c # r) p n st caps = (res, caps')" using less(2) Cons by simp
      show ?thesis
      proof (cases ?stop)
        case True
        with m have "res = None" "caps' = caps" by (simp_all only: match_loop_lit [OF lit] if_True prod.inject)
        then show ?thesis by (rule fin)
      next
        case False
        with m have "match_loop ic r (drop 1 p) (n - 1) st caps = (res, caps')"
          by (simp only: match_loop_lit [OF lit] if_False)
        then show ?thesis by (rule step) (use False Cons in simp_all)
      qed
    qed
  qed
qed

lemma match_string_virtual_safe:
  assumes "match_string_virtual data flags fmt = (used, data', caps)" "str_wf data"
  shows "(used = -1 \<and> data' = data \<or>
          0 \<le> used \<and> used \<le> int (slen data) \<and> data' = str_adv (nat used) data \<and> str_wf data') \<and>
         (\<forall>c\<in>set caps. in_mem (sptr data) (slen data) c)"
proof (cases "slen data = 0")
  case True
  then show ?thesis using assms
    by (auto simp: match_string_virtual_def str_adv_def split: if_splits)
next
  case False
  have st: "ml_state (sptr data) (slen data) (sptr data) (slen data) None []"
    using assms(2) by (auto simp: ml_state_def at_mem_def str_wf_def intro: exI [of _ 0])
  obtain res cs where m:
    "match_loop (has flags PATTERN_CASE) fmt (sptr data) (slen data) None [] = (res, cs)"
    by (cases "match_loop (has flags PATTERN_CASE) fmt (sptr data) (slen data) None []")
  show ?thesis
    using match_loop_in_mem [OF m st] assms False m
    by (cases res) (auto simp: match_string_virtual_def at_mem_def)
qed



text \<open>A format without special characters is compared literally.\<close>

definition plain_fmt :: "string \<Rightarrow> bool" where
  "plain_fmt fmt \<longleftrightarrow> set fmt \<inter> set ''%[()'' = {}"

lemma match_loop_plain:
  "plain_fmt fmt \<Longrightarrow> n \<le> length p \<Longrightarrow>
   match_loop False fmt p n st caps =
     (if take (length fmt) (take n p) = fmt \<and> st = None
      then Some (drop (length fmt) p, n - length fmt) else None, caps)"
proof (induction fmt arbitrary: p n)
  case Nil
  then show ?case by simp
next
  case (Cons c r)
  have "match_loop False (c # r) p n st caps =
     (if n = 0 \<or> c \<noteq> at0 p then (None, caps)
      else match_loop False r (drop 1 p) (n - 1) st caps)"
    using Cons(2) by (subst match_loop_lit) (auto simp: plain_fmt_def)
  then show ?case
    using Cons by (cases p; cases n) (auto simp: plain_fmt_def)
qed

lemma match_string_plain:
  assumes "plain_fmt fmt" "str_wf data"
  shows "match_string data fmt =
     (if take (length fmt) (str_of data) = fmt
      then (int (length fmt), str_adv (length fmt) data, []) else (-1, data, []))"
proof (cases "slen data = 0")
  case True
  then show ?thesis
    by (simp add: match_string_def match_string_virtual_def str_of_def str_adv_def)
next
  case False
  have ml: "match_loop False fmt (sptr data) (slen data) None [] =
     (if take (length fmt) (str_of data) = fmt
      then Some (drop (length fmt) (sptr data), slen data - length fmt) else None, [])"
    using match_loop_plain [OF assms(1), of "slen data" "sptr data" None "[]"] assms(2)
    by (simp add: str_of_def str_wf_def)
  show ?thesis
  proof (cases "take (length fmt) (str_of data) = fmt")
    case True
    have "length (take (length fmt) (str_of data)) = length fmt" by (simp only: True)
    then have "length fmt \<le> slen data" using assms(2) by simp
    then show ?thesis using True False ml
      by (simp add: match_string_def match_string_virtual_def)
  next
    case no: False
    show ?thesis using no False ml by (simp add: match_string_def match_string_virtual_def)
  qed
qed

lemma match_loop_plain_ic:
  "plain_fmt fmt \<Longrightarrow> n \<le> length p \<Longrightarrow>
   match_loop True fmt p n None caps =
     (if map toupper (take (length fmt) (take n p)) = map toupper fmt
      then Some (drop (length fmt) p, n - length fmt) else None, caps)"
proof (induction fmt arbitrary: p n)
  case Nil
  then show ?case by simp
next
  case (Cons c r)
  have "match_loop True (c # r) p n None caps =
     (if n = 0 \<or> toupper c \<noteq> toupper (at0 p) then (None, caps)
      else match_loop True r (drop 1 p) (n - 1) None caps)"
    using Cons(2) by (subst match_loop_lit) (auto simp: plain_fmt_def)
  then show ?case
    using Cons by (cases p; cases n) (auto simp: plain_fmt_def)
qed

lemma take_eq_iff:
  assumes "length u = n" "t = take (length fmt) u"
  shows "map f u = map f fmt \<longleftrightarrow> map f t = map f fmt \<and> length fmt = n"
proof
  assume e: "map f u = map f fmt"
  then have "length u = length fmt" by (rule map_eq_imp_length_eq)
  with e assms show "map f t = map f fmt \<and> length fmt = n" by simp
next
  assume e: "map f t = map f fmt \<and> length fmt = n"
  then have "t = u" using assms by simp
  with e show "map f u = map f fmt" by blast
qed

lemma match_string_equal_plain:
  assumes "plain_fmt fmt" "str_wf s" "fmt \<noteq> []"
  shows "0 < fst (match_string_equal s fmt) \<longleftrightarrow> str_of s = fmt"
proof -
  define t where "t = take (length fmt) (str_of s)"
  have "match_string_virtual s 0 fmt =
      (if t = fmt then (int (length fmt), str_adv (length fmt) s, []) else (-1, s, []))"
    using match_string_plain [OF assms(1,2)] by (simp add: match_string_def t_def)
  then have "0 < fst (match_string_equal s fmt) \<longleftrightarrow> t = fmt \<and> length fmt = slen s"
    using assms(3) by (auto simp: match_string_equal_def simp flip: length_greater_0_conv)
  also have "\<dots> \<longleftrightarrow> str_of s = fmt"
    using take_eq_iff [of "str_of s" "slen s" t fmt id] assms(2) by (simp add: t_def)
  finally show ?thesis .
qed

lemma matchi_string_equal_plain:
  assumes "plain_fmt fmt" "str_wf s" "fmt \<noteq> []"
  shows "0 < fst (matchi_string_equal s fmt) \<longleftrightarrow> map toupper (str_of s) = map toupper fmt"
proof (cases "slen s = 0")
  case True
  then show ?thesis using assms(3)
    by (auto simp: matchi_string_equal_def match_string_virtual_def str_of_def)
next
  case False
  define t where "t = take (length fmt) (str_of s)"
  have c: "has PATTERN_CASE PATTERN_CASE" by (simp add: flag_defs has_def)
  have len: "length fmt \<le> slen s" if "map toupper t = map toupper fmt"
  proof -
    have "length t = length fmt" using that by (rule map_eq_imp_length_eq)
    then show ?thesis using assms(2) by (simp add: t_def)
  qed
  have "match_loop True fmt (sptr s) (slen s) None [] =
      (if map toupper t = map toupper fmt
       then Some (drop (length fmt) (sptr s), slen s - length fmt) else None, [])"
    using match_loop_plain_ic [OF assms(1), of "slen s" "sptr s" "[]"] assms(2)
    by (simp add: t_def str_of_def str_wf_def)
  then have "match_string_virtual s PATTERN_CASE fmt =
      (if map toupper t = map toupper fmt then (int (length fmt), str_adv (length fmt) s, []) else (-1, s, []))"
    using False len c by (simp add: match_string_virtual_def)
  then have "0 < fst (matchi_string_equal s fmt) \<longleftrightarrow> map toupper t = map toupper fmt \<and> length fmt = slen s"
    using assms(3) by (auto simp: matchi_string_equal_def simp flip: length_greater_0_conv)
  also have "\<dots> \<longleftrightarrow> map toupper (str_of s) = map toupper fmt"
    using take_eq_iff [of "str_of s" "slen s" t fmt toupper] assms(2) by (simp add: t_def)
  finally show ?thesis .
qed

end
