(* ===== verification/HttpUtils.thy ===== *)
theory HttpUtils
  imports Pattern
begin

text \<open>
  \<open>http/utils/http_utils.c\<close>: status and method names, the request line, URL decoding, lines and
  URIs.  Pointers are memory suffixes, so a read beyond the length of a string is visible.
\<close>

definition HIN_METHOD_GET :: int where "HIN_METHOD_GET = 0x10"
definition HIN_METHOD_HEAD :: int where "HIN_METHOD_HEAD = 0x11"
definition HIN_METHOD_POST :: int where "HIN_METHOD_POST = 0x20"

definition status_names :: "(int \<times> string) list" where
  "status_names =
     [(100, ''Continue''), (101, ''Switching Protocols''), (102, ''Processing''), (103, ''Early Hints''),
      (200, ''OK''), (201, ''Created''), (202, ''Accepted''), (203, ''Non-Authoritative Information''),
      (204, ''No Content''), (205, ''Reset Content''), (206, ''Partial Content''),
      (207, ''Multi-Status''), (208, ''Already Reported''), (300, ''Multiple Choice''),
      (301, ''Moved Permanently''), (302, ''Found''), (303, ''See Other''), (304, ''Not Modified''),
      (305, ''Use Proxy''), (306, ''Switch Proxy''), (307, ''Temporary Redirect''),
      (308, ''Permanent Redirect''), (400, ''Bad Request''), (401, ''Unauthorized''),
      (402, ''Payment Required''), (403, ''Forbidden''), (404, ''Not Found''),
      (405, ''Method Not Allowed''), (406, ''Not Acceptable''), (407, ''Proxy Authentication Required''),
      (408, ''Request Timeout''), (409, ''Conflict''), (410, ''Gone''), (411, ''Length Required''),
      (412, ''Precondition Failed''), (413, ''Payload Too Large''), (414, ''URI Too Long''),
      (415, ''Unsupported Media Type''), (416, ''Range Not Satisfiable''), (425, ''Too Early''),
      (426, ''Upgrade Required''), (428, ''Precondition Required''), (429, ''Too Many Requests''),
      (431, ''Request Header Fields Too Large''), (451, ''Unavailable For Legal Reasons''),
      (500, ''Server error''), (501, ''Not Implemented''), (502, ''Bad Gateway''),
      (503, ''Service Unavailable''), (504, ''Gateway Timeout''), (505, ''HTTP Version Not Supported''),
      (511, ''Network Authentication Required'')]"

definition http_status_name :: "int \<Rightarrow> string" where
  "http_status_name nr = (case map_of status_names nr of Some s \<Rightarrow> s | None \<Rightarrow> ''Unknown'')"

definition hin_http_method_name :: "int \<Rightarrow> string option" where
  "hin_http_method_name num =
     (if num = HIN_METHOD_GET then Some ''GET''
      else if num = HIN_METHOD_POST then Some ''POST''
      else if num = HIN_METHOD_HEAD then Some ''HEAD''
      else None)"

definition HIN_HTTP_PATH_ACCEPT :: string where
  "HIN_HTTP_PATH_ACCEPT = ''[%w.%%_-/+&#$?=,:;~@!'' @ [CHR 0x27] @ ''*()%[%]]+''"

text \<open>The method, the path and the version of the request line; \<open>None\<close> is the result -1.\<close>

definition hin_http_parse_header_line :: "string_t \<Rightarrow> (int \<times> string_t \<times> int) option \<times> string_t" where
  "hin_http_parse_header_line line =
     (case match_string line (''(%a+) ('' @ HIN_HTTP_PATH_ACCEPT @ '') HTTP/([%d.]+)'') of
        (used, line', caps) \<Rightarrow>
          if used \<le> 0 then (None, line')
          else
            let methods = caps ! 0; paths = caps ! 1; versions = caps ! 2;
                method = (if fst (matchi_string_equal methods ''GET'') > 0 then HIN_METHOD_GET
                          else if fst (matchi_string_equal methods ''POST'') > 0 then HIN_METHOD_POST
                          else if fst (matchi_string_equal methods ''HEAD'') > 0 then HIN_METHOD_HEAD
                          else 0);
                version = (if fst (match_string_equal versions ''1.1'') > 0 then 0x11
                           else if fst (match_string_equal versions ''1.0'') > 0 then 0x10
                           else 0)
            in (Some (method, paths, version), line'))"

text \<open>The value (wrapping, \<open>unsigned long\<close>) and the end pointer.\<close>

fun my_strtoul :: "string \<Rightarrow> u64 \<Rightarrow> int \<Rightarrow> u64 \<times> string" where
  "my_strtoul [] num base = (num, [])"
| "my_strtoul (c # s) num base =
     (let ch = (if isdigit c then Some (int (code c) - 48)
                else if isupper c then Some (10 + int (code c) - 65)
                else if islower c then Some (10 + int (code c) - 97)
                else None)
      in case ch of
           None \<Rightarrow> (num, c # s)
         | Some v \<Rightarrow>
             if v \<ge> base then (num, c # s)
             else my_strtoul s (num * word_of_int base + word_of_int v) base)"

lemma my_strtoul_shorter: "length (snd (my_strtoul s num base)) \<le> length s"
  by (induction s num base rule: my_strtoul.induct) (auto simp: Let_def split: option.splits)

lemma my_strtoul_tl: "(num, rest) = my_strtoul (tl p1) 0 16 \<Longrightarrow> p1 \<noteq> [] \<Longrightarrow> length rest < length p1"
  using my_strtoul_shorter [of "tl p1" 0 16] by (cases p1) (auto simp: less_Suc_eq_le dest: sym)

text \<open>
  The decoded bytes; \<open>None\<close> is a byte of the new allocation that is not written.  \<open>n\<close> is
  \<open>max - p1\<close>: the number is read up to the first character that is not a digit, even past \<open>max\<close>.
\<close>

function url_loop :: "string \<Rightarrow> int \<Rightarrow> char option list" where
  "url_loop p1 n =
     (if n \<le> 0 \<or> p1 = [] then []
      else if at0 p1 = CHR ''%'' then
        (case my_strtoul (tl p1) 0 16 of
           (num, rest) \<Rightarrow>
             let utf = sint (ucast num :: u32);
                 b = (if utf > 0x1F then Some (char_of (nat (utf mod 256))) else None)
             in b # url_loop rest (n - int (length p1 - length rest)))
      else Some (at0 p1) # url_loop (tl p1) (n - 1))"
  by pat_completeness auto
termination
  by (relation "measure (\<lambda>(p1, n). length p1)") (auto dest: my_strtoul_tl)

declare url_loop.simps [simp del]

definition hin_parse_url_encoding :: "string_t \<Rightarrow> char option list" where
  "hin_parse_url_encoding source = url_loop (sptr source) (int (slen source))"

text \<open>
  The loop reads \<open>*max\<close>, one byte past the string; a line feed there would make the new length
  -1, which wraps (\<open>None\<close>).  \<open>i\<close> is the index, \<open>lst\<close> the index \<open>last - ptr\<close>.
\<close>

function find_line_loop :: "string_t \<Rightarrow> nat \<Rightarrow> nat \<Rightarrow> (int \<times> string_t \<times> string_t) option" where
  "find_line_loop src i lst =
     (if i > slen src then Some (0, src, \<lparr>sptr = sptr src, slen = 0\<rparr>)
      else
        let c = at0 (drop i (sptr src)) in
        if c = LF
        then if i = slen src then None
             else Some (1, \<lparr>sptr = drop (i + 1) (sptr src), slen = slen src - (i + 1)\<rparr>,
                        \<lparr>sptr = sptr src, slen = lst\<rparr>)
        else if c = CR then find_line_loop src (i + 1) i
        else find_line_loop src (i + 1) (i + 1))"
  by pat_completeness auto
termination
  by (relation "measure (\<lambda>(s, i, l). slen s + 1 - i)") auto

declare find_line_loop.simps [simp del]

definition hin_find_line :: "string_t \<Rightarrow> (int \<times> string_t \<times> string_t) option" where
  "hin_find_line source = find_line_loop source 0 0"

subsection \<open>URIs\<close>

record hin_uri =
  scheme :: string_t
  host :: string_t
  port :: string_t
  path :: string_t
  query :: string_t
  fragment :: string_t
  all :: string_t
  https :: int

definition null_str :: string_t where "null_str = \<lparr>sptr = [], slen = 0\<rparr>"

definition uri0 :: hin_uri where
  "uri0 = \<lparr>scheme = null_str, host = null_str, port = null_str, path = null_str, query = null_str,
           fragment = null_str, all = null_str, https = 0\<rparr>"

definition PATH_ACCEPT :: string where
  "PATH_ACCEPT = ''%w.=/;-_~!$&'' @ [CHR 0x27] @ ''%(%)%*%+,:%%@''"

text \<open>A capture is stored even when the rest of the format fails.\<close>

definition stored :: "string_t list \<Rightarrow> string_t \<Rightarrow> string_t" where
  "stored caps old = (case caps of [] \<Rightarrow> old | c # _ \<Rightarrow> c)"

definition hin_parse_uri :: "string \<Rightarrow> int \<Rightarrow> int \<times> hin_uri" where
  "hin_parse_uri url len =
     (let len = (if len \<le> 0 then length (takeWhile ((\<noteq>) NUL) url) else nat len);
          c = \<lparr>sptr = url, slen = len\<rparr>;
          (used, c, caps) = match_string c ''(https)://'';
          info = uri0\<lparr>scheme := stored caps null_str\<rparr>;
          (c, info) =
            (if used > 0 then (c, info\<lparr>https := 1\<rparr>)
             else
               let (used, c, caps) = match_string c ''(http)://'';
                   info = info\<lparr>scheme := stored caps (scheme info)\<rparr>
               in if used > 0 then (c, info\<lparr>https := 0\<rparr>)
                  else
                    let (used, c, caps) = match_string c ''([%w+-.]+)://''
                    in (c, info\<lparr>scheme := stored caps (scheme info)\<rparr>));
          (used, c, caps) = match_string c ''([%w.-_]+)'';
          info = info\<lparr>host := (if used < 0 then null_str else stored caps (host info))\<rparr>;
          (used, c, caps) = match_string c '':(%d+)'';
          info = info\<lparr>port := stored caps (port info)\<rparr>;
          (err, c, caps) = match_string c (''(['' @ PATH_ACCEPT @ '']+)'');
          info = info\<lparr>path := stored caps (path info)\<rparr>
      in if err < 0 then (-1, info)
         else
           let (used, c, caps) = match_string c (''%?(['' @ PATH_ACCEPT @ '']+)'');
               info = info\<lparr>query := stored caps (query info)\<rparr>;
               (used, c, caps) = match_string c (''%#(['' @ PATH_ACCEPT @ '']+)'');
               info = info\<lparr>fragment := stored caps (fragment info)\<rparr>;
               used = length url - length (sptr c)
           in (int used, info\<lparr>all := \<lparr>sptr = url, slen = used\<rparr>\<rparr>))"

subsection \<open>Lines\<close>

text \<open>The length of a line without its carriage return.\<close>

definition strip_len :: "string \<Rightarrow> nat" where
  "strip_len l = (if l \<noteq> [] \<and> last l = CR then length l - 1 else length l)"

lemma strip_len_snoc: "strip_len (l @ [c]) = (if c = CR then length l else length l + 1)"
  by (simp add: strip_len_def)

lemma find_line_loop_spec:
  assumes "str_wf s" "i \<le> slen s" "LF \<notin> set (take i (sptr s))" "lst = strip_len (take i (sptr s))"
  shows "find_line_loop s i lst =
     (let l = takeWhile ((\<noteq>) LF) (str_of s) in
      if LF \<in> set (str_of s)
      then Some (1, str_adv (length l + 1) s, \<lparr>sptr = sptr s, slen = strip_len l\<rparr>)
      else if at0 (drop (slen s) (sptr s)) = LF then None
      else Some (0, s, \<lparr>sptr = sptr s, slen = 0\<rparr>))"
  using assms
proof (induction "slen s - i" arbitrary: i lst)
  case 0
  then have i: "i = slen s" by simp
  have no: "LF \<notin> set (str_of s)" using 0(4) i by (simp add: str_of_def)
  show ?case
    using no i by (subst find_line_loop.simps, subst (1 2) find_line_loop.simps) (simp add: Let_def)
next
  case (Suc n)
  then have i: "i < slen s" "i < length (sptr s)" by (auto simp: str_wf_def)
  let ?c = "sptr s ! i"
  have at: "at0 (drop i (sptr s)) = ?c" using i by (simp add: Cons_nth_drop_Suc [symmetric])
  have tk: "take (Suc i) (sptr s) = take i (sptr s) @ [?c]" using i by (simp add: take_Suc_conv_app_nth)
  have so: "str_of s = take i (sptr s) @ ?c # drop (i + 1) (str_of s)"
    using i by (simp add: str_of_def drop_take) (metis Cons_nth_drop_Suc Suc_diff_Suc append_take_drop_id
        drop_take le_simps(1) take_Suc_Cons take_add take_drop ordered_cancel_comm_monoid_diff_class.add_diff_inverse)
  show ?case
  proof (cases "?c = LF")
    case True
    have tw: "takeWhile ((\<noteq>) LF) (str_of s) = take i (sptr s)"
      using Suc(5) True by (subst so) (subst takeWhile_append2, auto)
    have "LF \<in> set (str_of s)" using True by (subst so) simp
    then show ?thesis
      using True at i Suc(6) tw by (subst find_line_loop.simps) (simp add: Let_def str_adv_def min_def)
  next
    case False
    have "find_line_loop s i lst = find_line_loop s (i + 1) (strip_len (take (i + 1) (sptr s)))"
      using False at i by (subst find_line_loop.simps) (simp add: Let_def tk strip_len_snoc)
    also have "\<dots> = (let l = takeWhile ((\<noteq>) LF) (str_of s) in
      if LF \<in> set (str_of s)
      then Some (1, str_adv (length l + 1) s, \<lparr>sptr = sptr s, slen = strip_len l\<rparr>)
      else if at0 (drop (slen s) (sptr s)) = LF then None
      else Some (0, s, \<lparr>sptr = sptr s, slen = 0\<rparr>))"
      using Suc(2) i False Suc(5) by (intro Suc(1)) (auto simp: tk Suc(3))
    finally show ?thesis .
  qed
qed

text \<open>
  C12: \<open>hin_find_line\<close> splits off the first line without its line end, whether LF or CRLF, and
  leaves the source alone when there is none; it reads one byte past the string, and a line feed
  there makes the new length wrap.
\<close>

theorem find_line_spec:
  assumes "str_wf s"
  shows "hin_find_line s =
     (let l = takeWhile ((\<noteq>) LF) (str_of s) in
      if LF \<in> set (str_of s)
      then Some (1, str_adv (length l + 1) s, \<lparr>sptr = sptr s, slen = strip_len l\<rparr>)
      else if at0 (drop (slen s) (sptr s)) = LF then None
      else Some (0, s, \<lparr>sptr = sptr s, slen = 0\<rparr>))"
  unfolding hin_find_line_def
  by (rule find_line_loop_spec [OF assms]) (simp_all add: strip_len_def)

theorem find_line_spec_witness:
  "hin_find_line (mk_str (''ab'' @ CRLF @ ''c'')) =
     Some (1, \<lparr>sptr = ''c'', slen = 1\<rparr>, \<lparr>sptr = ''ab'' @ CRLF @ ''c'', slen = 2\<rparr>)"
  using find_line_spec [of "mk_str (''ab'' @ CRLF @ ''c'')"]
  by (simp add: mk_str_def str_of_def str_adv_def strip_len_def str_wf_def numeral_2_eq_2)

subsection \<open>URL decoding\<close>

text \<open>An encoded string: each character with whether it is written as \<open>%XX\<close>.\<close>

definition url_enc :: "(char \<times> bool) list \<Rightarrow> string" where
  "url_enc l = concat (map (\<lambda>(c, esc). if esc then [CHR ''%'', hex_digit (code c div 16), hex_digit (code c mod 16)]
                                        else [c]) l)"

definition no_hex :: "string \<Rightarrow> bool" where
  "no_hex s \<longleftrightarrow> s = [] \<or> \<not> isxdigit (hd s)"

fun url_ok :: "(char \<times> bool) list \<Rightarrow> string \<Rightarrow> bool" where
  "url_ok [] s \<longleftrightarrow> True"
| "url_ok ((c, esc) # l) s \<longleftrightarrow>
     (if esc then code c > 0x1F \<and> no_hex (url_enc l @ s) else c \<noteq> CHR ''%'') \<and> url_ok l s"

lemma strtoul_digit:
  "n < 16 \<Longrightarrow> my_strtoul (hex_digit n # s) num 16 = my_strtoul s (num * 16 + word_of_int (int n)) 16"
  by (auto simp: hex_digit_def isdigit_def isupper_def islower_def code_char_of)

lemma strtoul_stop: "no_hex s \<Longrightarrow> my_strtoul s num 16 = (num, s)"
  by (cases s) (auto simp: no_hex_def isxdigit_def isdigit_def isupper_def islower_def)

declare my_strtoul.simps(2) [simp del]

lemma word_small: "n < 256 \<Longrightarrow> sint (ucast (word_of_int (int n) :: u64) :: u32) = int n"
  by (simp add: sint_uint unsigned_ucast_eq unsigned_of_nat take_bit_nat_eq_self take_bit_int_eq_self
      signed_take_bit_int_eq_self)

lemma url_loop_enc:
  assumes "url_ok l s"
  shows "url_loop (url_enc l @ s) (int (length (url_enc l))) = map (\<lambda>(c, _). Some c) l"
  using assms
proof (induction l)
  case Nil
  then show ?case by (simp add: url_enc_def url_loop.simps)
next
  case (Cons x l)
  obtain c esc where x: "x = (c, esc)" by (cases x)
  have split: "url_enc (x # l) = url_enc [x] @ url_enc l" by (simp add: url_enc_def)
  show ?case
  proof (cases esc)
    case False
    then have eq: "url_enc (x # l) = c # url_enc l" using x by (simp add: url_enc_def)
    show ?thesis using Cons x False unfolding eq
      by (subst url_loop.simps) simp
  next
    case True
    let ?r = "url_enc l @ s"
    have hx: "url_enc [x] = [CHR ''%'', hex_digit (code c div 16), hex_digit (code c mod 16)]"
      using True x by (simp add: url_enc_def)
    have lt: "code c div 16 < 16" "code c mod 16 < 16" using code_lt [of c] by (auto simp: less_mult_imp_div_less)
    have v: "word_of_int (int (code c div 16)) * 16 + word_of_int (int (code c mod 16)) =
        (word_of_int (int (code c)) :: u64)"
    proof -
      have "int (code c) = int (code c div 16) * 16 + int (code c mod 16)"
        by (metis div_mult_mod_eq of_nat_add of_nat_mult of_nat_numeral)
      from arg_cong [OF this, of "word_of_int :: int \<Rightarrow> u64"] show ?thesis by simp
    qed
    have st: "my_strtoul (hex_digit (code c div 16) # hex_digit (code c mod 16) # ?r) 0 16 =
        (word_of_int (int (code c)), ?r)"
      using Cons.prems x True lt by (simp add: strtoul_digit strtoul_stop v [simplified])
    have "code c > 0x1F" using Cons.prems x True by simp
    then show ?thesis
      using Cons.IH Cons.prems x True unfolding split hx
      by (subst url_loop.simps) (simp add: st word_small [simplified] Let_def nat_mod_as_int [symmetric])
  qed
qed

text \<open>
  Decoding undoes percent-encoding, when every \<open>%XX\<close> stands for a character above 0x1f and
  is not followed by a further hexadecimal digit (also beyond the end of the string: the number
  is read greedily and without regard to the length).
\<close>

theorem url_roundtrip:
  assumes "url_ok l s"
  shows "hin_parse_url_encoding \<lparr>sptr = url_enc l @ s, slen = length (url_enc l)\<rparr> =
         map (\<lambda>(c, _). Some c) l"
  by (simp add: hin_parse_url_encoding_def url_loop_enc [OF assms])

theorem url_roundtrip_witness:
  "hin_parse_url_encoding \<lparr>sptr = ''a%20%2fx'', slen = 8\<rparr> = map Some ''a /x''"
proof -
  have h: "hex_digit 2 = CHR ''2''" "hex_digit 0 = CHR ''0''" "hex_digit 15 = CHR ''f''"
    by (simp_all add: hex_digit_def char_of_def bit_simps bit_0)
  have e: "url_enc [(CHR ''a'', False), (CHR '' '', True), (CHR ''/'', True), (CHR ''x'', False)] = ''a%20%2fx''"
    by (simp add: url_enc_def code_def h)
  have "url_ok [(CHR ''a'', False), (CHR '' '', True), (CHR ''/'', True), (CHR ''x'', False)] []"
    by (simp add: no_hex_def url_enc_def isxdigit_def isdigit_def code_def)
  from url_roundtrip [OF this] show ?thesis by (simp add: e eval_nat_numeral)
qed

text \<open>The greedy number: the blank and the letter become one byte, and with a control
  character the byte is not written at all.\<close>

lemma url_greedy:
  "hin_parse_url_encoding (mk_str ''%20b'') = [Some (char_of (0x0b :: nat))]"
  "hin_parse_url_encoding (mk_str ''%0a'') = [None]"
  by (simp_all add: hin_parse_url_encoding_def mk_str_def url_loop.simps my_strtoul.simps isdigit_def isupper_def
      islower_def code_def Let_def)

subsection \<open>The request line\<close>

lemma match_char_lit: "match_char c PATTERN_CUSTOM ch \<longleftrightarrow> c = ch"
  by (auto simp: match_char_def flag_defs has_def)

lemma set_mem_lit: "x \<noteq> CHR ''%'' \<Longrightarrow> set_mem (x # fmt) c \<longleftrightarrow> c = x \<or> set_mem fmt c"
  by (subst set_mem.simps) (simp add: get_pattern_def match_char_lit)

lemma set_mem_esc:
  "set_mem (CHR ''%'' # x # fmt) c \<longleftrightarrow>
     (case class_of x of None \<Rightarrow> c = x | Some m \<Rightarrow> match_char c m NUL) \<or> set_mem fmt c"
  by (subst set_mem.simps) (simp add: get_pattern_def match_char_lit split: option.splits)

lemma match_char_classes:
  "match_char c PATTERN_ALPHANUM ch \<longleftrightarrow> isalnum c" "match_char c PATTERN_DIGIT ch \<longleftrightarrow> isdigit c"
  "match_char c PATTERN_LETTER ch \<longleftrightarrow> isalpha c" "match_char c PATTERN_SPACE ch \<longleftrightarrow> isspace c"
  by (auto simp: match_char_def flag_defs has_def)

definition path_set :: string where
  "path_set = ''%w.%%_-/+&#$?=,:;~@!'' @ [CHR 0x27] @ ''*()%[%]''"

lemma path_set_mem:
  "set_mem path_set c \<longleftrightarrow> isalnum c \<or> c \<in> set (''.%_-/+&#$?=,:;~@!*()[]'' @ [CHR 0x27])"
  by (auto simp: path_set_def set_mem_lit set_mem_esc class_of_def match_char_classes)

lemma match_pattern_run:
  assumes "at0 pat \<noteq> CHR ''^''" "x \<noteq> []" "\<forall>c\<in>set x. set_mem pat c" "length x \<le> n"
    "length x < n \<Longrightarrow> y \<noteq> [] \<and> \<not> set_mem pat (hd y)"
  shows "match_pattern (take n (x @ y)) pat sp = int (length x)"
proof -
  have "takeWhile (set_mem pat) (take n (x @ y)) = x"
  proof (cases "length x < n")
    case True
    then obtain c z where y: "y = c # z" "\<not> set_mem pat c" using assms(5) by (cases y) auto
    then have "take n (x @ y) = x @ c # take (n - length x - 1) z"
      using True by (simp add: take_Cons')
    then show ?thesis using assms(3) y(2) by (simp add: takeWhile_append2)
  next
    case False
    then show ?thesis using assms(3,4) by (simp add: takeWhile_eq_all_conv [THEN iffD2])
  qed
  then show ?thesis using assms(1,2) by (simp add: match_pattern_pos)
qed

lemma plus_specifier [simp]:
  "get_specifier CHR ''+'' = RUN_ALL" "after_spec (CHR ''+'' # r) = r"
  by (simp_all add: get_specifier_def after_spec_def flag_defs)

lemma class_step:
  assumes "set_mem [CHR ''%'', k] = P" "x \<noteq> []" "list_all P x" "length x \<le> n"
    "length x < n \<Longrightarrow> y \<noteq> [] \<and> \<not> P (hd y)"
  shows "match_loop ic (CHR ''%'' # k # CHR ''+'' # r) (x @ y) n st caps =
     match_loop ic r y (n - length x) st caps"
proof -
  have "match_pattern (take n (x @ y)) [CHR ''%'', k] RUN_ALL = int (length x)"
    using assms by (intro match_pattern_run) (auto simp: list_all_iff)
  then show ?thesis using assms(2) by (simp add: match_loop_class Let_def del: take_append)
qed

lemma set_step:
  assumes "set_end CHR ''['' body = Some (pat, CHR ''+'' # r)" "set_mem pat = P" "at0 pat \<noteq> CHR ''^''"
    "x \<noteq> []" "list_all P x" "length x \<le> n" "length x < n \<Longrightarrow> y \<noteq> [] \<and> \<not> P (hd y)"
  shows "match_loop ic (CHR ''['' # body) (x @ y) n st caps = match_loop ic r y (n - length x) st caps"
proof -
  have "match_pattern (take n (x @ y)) pat RUN_ALL = int (length x)"
    using assms by (intro match_pattern_run) (auto simp: list_all_iff)
  then show ?thesis using assms(1) by (simp add: match_loop_set Let_def del: take_append)
qed

lemma lit_step:
  "c \<notin> {CHR ''%'', CHR ''['', CHR ''('', CHR '')''} \<Longrightarrow> 0 < n \<Longrightarrow>
   match_loop ic (c # r) (c # y) n st caps = match_loop ic r y (n - 1) st caps"
  by (simp add: match_loop_lit)

definition request_fmt :: string where
  "request_fmt = ''(%a+) ('' @ HIN_HTTP_PATH_ACCEPT @ '') HTTP/([%d.]+)''"

lemma request_fmt_eq:
  "request_fmt = ''(%a+) (['' @ path_set @ '']+) HTTP/([%d.]+)''"
  by (simp add: request_fmt_def HIN_HTTP_PATH_ACCEPT_def path_set_def)

lemma path_set_end:
  "set_end CHR ''['' (path_set @ '']+) HTTP/([%d.]+)'') = Some (path_set, ''+) HTTP/([%d.]+)'')"
  by (simp add: path_set_def)

lemma version_set_end: "set_end CHR ''['' ''%d.]+)'' = Some (''%d.'', ''+)'')"
  by simp

lemma version_mem: "set_mem ''%d.'' c \<longleftrightarrow> isdigit c \<or> c = CHR ''.''"
  by (auto simp: set_mem_lit set_mem_esc class_of_def match_char_classes)

lemma letter_mem: "set_mem ''%a'' c \<longleftrightarrow> isalpha c"
  by (auto simp: set_mem_esc class_of_def match_char_classes)

definition request_parts :: "string \<Rightarrow> string \<Rightarrow> string \<Rightarrow> string \<Rightarrow> bool" where
  "request_parts m p v rest \<longleftrightarrow> m \<noteq> [] \<and> p \<noteq> [] \<and> v \<noteq> [] \<and> list_all isalpha m \<and>
     list_all (set_mem path_set) p \<and> list_all (\<lambda>c. isdigit c \<or> c = CHR ''.'') v"

lemma request_match:
  assumes "request_parts m p v rest"
  shows "match_string \<lparr>sptr = m @ '' '' @ p @ '' HTTP/'' @ v @ rest,
            slen = length (m @ '' '' @ p @ '' HTTP/'' @ v)\<rparr> request_fmt =
     (int (length (m @ '' '' @ p @ '' HTTP/'' @ v)), \<lparr>sptr = rest, slen = 0\<rparr>,
      [\<lparr>sptr = m @ '' '' @ p @ '' HTTP/'' @ v @ rest, slen = length m\<rparr>,
       \<lparr>sptr = p @ '' HTTP/'' @ v @ rest, slen = length p\<rparr>,
       \<lparr>sptr = v @ rest, slen = length v\<rparr>])"
proof -
  let ?s = "m @ '' '' @ p @ '' HTTP/'' @ v @ rest"
  let ?v = "v @ rest" and ?p = "p @ '' HTTP/'' @ v @ rest"
  let ?N = "length (m @ '' '' @ p @ '' HTTP/'' @ v)"
  let ?f1 = "'') (['' @ path_set @ '']+) HTTP/([%d.]+)''" and ?f2 = "'') HTTP/([%d.]+)''"
  let ?c1 = "\<lparr>sptr = ?s, slen = length m\<rparr>" and ?c2 = "\<lparr>sptr = ?p, slen = length p\<rparr>"
  note parts = assms [unfolded request_parts_def]
  have letter: "set_mem ''%a'' = isalpha" and ver: "set_mem ''%d.'' = (\<lambda>c. isdigit c \<or> c = CHR ''.'')"
    by (auto simp: letter_mem version_mem)
  have blank: "\<not> isalpha (CHR '' '')" "\<not> set_mem path_set (CHR '' '')"
    by (simp_all add: path_set_mem isalnum_def isdigit_def isalpha_def isupper_def islower_def code_def)
  have "match_loop False request_fmt ?s ?N None [] =
      match_loop False ?f1 ('' '' @ ?p) (?N - length m) (Some (?s, ?N)) []"
    unfolding request_fmt_eq using parts class_step [OF letter, of m ?N "'' '' @ ?p" False ?f1] blank
    by simp
  also have "\<dots> = match_loop False (CHR ''['' # path_set @ '']+) HTTP/([%d.]+)'') ?p
      (?N - length m - 1) (Some (?p, ?N - length m - 1)) [?c1]"
    by (simp add: lit_step)
  also have "\<dots> = match_loop False ?f2 ('' HTTP/'' @ ?v) (6 + length v) (Some (?p, ?N - length m - 1)) [?c1]"
    using parts set_step [OF path_set_end refl _ _ _ _ _, of p "?N - length m - 1" "'' HTTP/'' @ ?v"] blank
    by (simp add: path_set_def [THEN arg_cong, of at0])
  also have "\<dots> = match_loop False ''[%d.]+)'' ?v (length v) (Some (?v, length v)) [?c1, ?c2]"
    by (simp add: lit_step)
  also have "\<dots> = match_loop False '')'' rest 0 (Some (?v, length v)) [?c1, ?c2]"
    using parts set_step [OF version_set_end ver, of v "length v" rest] by simp
  also have "\<dots> = (Some (rest, 0), [?c1, ?c2, \<lparr>sptr = ?v, slen = length v\<rparr>])"
    by simp
  finally have "match_loop False request_fmt ?s ?N None [] =
      (Some (rest, 0), [?c1, ?c2, \<lparr>sptr = ?v, slen = length v\<rparr>])" .
  moreover define X where "X = m @ '' '' @ p @ '' HTTP/'' @ v"
  moreover have "?s = X @ rest" by (simp add: X_def)
  ultimately have "match_loop False request_fmt (X @ rest) (length X) None [] =
      (Some (rest, 0), [?c1, ?c2, \<lparr>sptr = ?v, slen = length v\<rparr>])" "X \<noteq> []" by simp_all
  then have "match_string \<lparr>sptr = X @ rest, slen = length X\<rparr> request_fmt =
      (int (length X), \<lparr>sptr = rest, slen = 0\<rparr>, [?c1, ?c2, \<lparr>sptr = ?v, slen = length v\<rparr>])"
    by (simp add: match_string_def match_string_virtual_def str_adv_def)
  then show ?thesis by (simp add: X_def)
qed

text \<open>
  C28: a request line made of letters, a path of accepted characters and a version is parsed
  into exactly these parts, whatever follows it; the method is recognised without regard to case.
\<close>

theorem parse_request_line:
  assumes "request_parts m p v rest"
  shows "hin_http_parse_header_line \<lparr>sptr = m @ '' '' @ p @ '' HTTP/'' @ v @ rest,
            slen = length (m @ '' '' @ p @ '' HTTP/'' @ v)\<rparr> =
     (Some (if map toupper m = ''GET'' then HIN_METHOD_GET
            else if map toupper m = ''POST'' then HIN_METHOD_POST
            else if map toupper m = ''HEAD'' then HIN_METHOD_HEAD else 0,
            \<lparr>sptr = p @ '' HTTP/'' @ v @ rest, slen = length p\<rparr>,
            if v = ''1.1'' then 0x11 else if v = ''1.0'' then 0x10 else 0),
      \<lparr>sptr = rest, slen = 0\<rparr>)"
proof -
  define M where "M = \<lparr>sptr = m @ '' '' @ p @ '' HTTP/'' @ v @ rest, slen = length m\<rparr>"
  define V where "V = \<lparr>sptr = v @ rest, slen = length v\<rparr>"
  have plain: "plain_fmt ''GET''" "plain_fmt ''POST''" "plain_fmt ''HEAD''" "plain_fmt ''1.1''" "plain_fmt ''1.0''"
    by (simp_all add: plain_fmt_def)
  have wf: "str_wf M" "str_wf V" "str_of M = m" "str_of V = v"
    by (simp_all add: M_def V_def str_wf_def str_of_def)
  have up: "map toupper ''GET'' = ''GET''" "map toupper ''POST'' = ''POST''" "map toupper ''HEAD'' = ''HEAD''"
    by (simp_all add: toupper_def islower_def code_def)
  have eqs: "0 < fst (matchi_string_equal M ''GET'') \<longleftrightarrow> map toupper m = ''GET''"
    "0 < fst (matchi_string_equal M ''POST'') \<longleftrightarrow> map toupper m = ''POST''"
    "0 < fst (matchi_string_equal M ''HEAD'') \<longleftrightarrow> map toupper m = ''HEAD''"
    "0 < fst (match_string_equal V ''1.1'') \<longleftrightarrow> v = ''1.1''"
    "0 < fst (match_string_equal V ''1.0'') \<longleftrightarrow> v = ''1.0''"
    using matchi_string_equal_plain [OF _ wf(1)] match_string_equal_plain [OF _ wf(2)] plain wf(3,4) up
    by simp_all
  show ?thesis
    unfolding hin_http_parse_header_line_def request_fmt_def [symmetric]
      request_match [OF assms, folded M_def V_def]
    by (simp add: eqs Let_def)
qed

theorem parse_request_line_witness:
  "hin_http_parse_header_line
     \<lparr>sptr = ''GET /index.html HTTP/1.1'' @ CRLF, slen = length ''GET /index.html HTTP/1.1''\<rparr> =
     (Some (HIN_METHOD_GET, \<lparr>sptr = ''/index.html HTTP/1.1'' @ CRLF, slen = length ''/index.html''\<rparr>, 0x11),
      \<lparr>sptr = CRLF, slen = 0\<rparr>)"
  using parse_request_line [of "''GET''" "''/index.html''" "''1.1''" CRLF]
  by (simp add: request_parts_def path_set_mem ctype_defs)

subsection \<open>URIs stay inside the text\<close>

definition cursor_in :: "string \<Rightarrow> nat \<Rightarrow> string_t \<Rightarrow> bool" where
  "cursor_in mem n s \<longleftrightarrow> n \<le> length mem \<and> (\<exists>i. sptr s = drop i mem \<and> i + slen s = n)"

lemma match_cursor:
  assumes "match_string s fmt = (used, s', caps)" "cursor_in mem n s"
  shows "cursor_in mem n s' \<and> (\<forall>c\<in>set caps. in_mem mem n c)"
proof -
  obtain i where i: "sptr s = drop i mem" "i + slen s = n" "n \<le> length mem"
    using assms(2) by (auto simp: cursor_in_def)
  then have wf: "str_wf s" by (simp add: str_wf_def)
  have m: "match_string_virtual s 0 fmt = (used, s', caps)" using assms(1) by (simp add: match_string_def)
  have sub: "in_mem mem n c" if c: "in_mem (sptr s) (slen s) c" for c
  proof -
    obtain j where "sptr c = drop j (sptr s)" "j + slen c \<le> slen s" using c by (auto simp: in_mem_def)
    then show ?thesis using i by (auto simp: in_mem_def intro!: exI [of _ "j + i"])
  qed
  have adv: "cursor_in mem n (str_adv k s)" if "k \<le> slen s" for k
    using i that by (auto simp: cursor_in_def str_adv_def intro!: exI [of _ "k + i"])
  have "(used = -1 \<and> s' = s \<or> 0 \<le> used \<and> used \<le> int (slen s) \<and> s' = str_adv (nat used) s \<and> str_wf s') \<and>
      (\<forall>c\<in>set caps. in_mem (sptr s) (slen s) c)"
    using match_string_virtual_safe [OF m wf] .
  then show ?thesis using sub adv [of "nat used"] assms(2) by auto
qed

definition part_in :: "string \<Rightarrow> nat \<Rightarrow> string_t \<Rightarrow> bool" where
  "part_in mem n s \<longleftrightarrow> s = null_str \<or> in_mem mem n s"

lemma part_in_stored: "\<forall>c\<in>set caps. in_mem mem n c \<Longrightarrow> part_in mem n old \<Longrightarrow> part_in mem n (stored caps old)"
  by (auto simp: part_in_def stored_def split: list.splits)

lemma part_in_null [simp]: "part_in mem n null_str"
  by (simp add: part_in_def)

text \<open>
  Whatever the text, every component of a parsed URI is unset or a slice of the given
  bytes, and no more than the given length is reported as used.
\<close>

theorem parse_uri_safe:
  assumes "0 < len" "len \<le> int (length url)" "hin_parse_uri url len = (used, info)"
  shows "used \<le> len \<and>
         (\<forall>s \<in> {scheme info, host info, port info, path info, query info, fragment info}.
            part_in url (nat len) s)"
proof -
  define c where "c = \<lparr>sptr = url, slen = nat len\<rparr>"
  obtain u1 c1 k1 where m1: "match_string c ''(https)://'' = (u1, c1, k1)" by (metis prod_cases3)
  obtain u2 c2 k2 where m2: "match_string c1 ''(http)://'' = (u2, c2, k2)" by (metis prod_cases3)
  obtain u3 c3 k3 where m3: "match_string c2 ''([%w+-.]+)://'' = (u3, c3, k3)" by (metis prod_cases3)
  define d where "d = (if u1 > 0 then c1 else if u2 > 0 then c2 else c3)"
  obtain u4 c4 k4 where m4: "match_string d ''([%w.-_]+)'' = (u4, c4, k4)" by (metis prod_cases3)
  obtain u5 c5 k5 where m5: "match_string c4 '':(%d+)'' = (u5, c5, k5)" by (metis prod_cases3)
  obtain u6 c6 k6 where m6: "match_string c5 (''(['' @ PATH_ACCEPT @ '']+)'') = (u6, c6, k6)" by (metis prod_cases3)
  obtain u7 c7 k7 where m7: "match_string c6 (''%?(['' @ PATH_ACCEPT @ '']+)'') = (u7, c7, k7)" by (metis prod_cases3)
  obtain u8 c8 k8 where m8: "match_string c7 (''%#(['' @ PATH_ACCEPT @ '']+)'') = (u8, c8, k8)" by (metis prod_cases3)
  have m4': "u1 > 0 \<Longrightarrow> match_string c1 ''([%w.-_]+)'' = (u4, c4, k4)"
    "\<not> u1 > 0 \<Longrightarrow> u2 > 0 \<Longrightarrow> match_string c2 ''([%w.-_]+)'' = (u4, c4, k4)"
    "\<not> u1 > 0 \<Longrightarrow> \<not> u2 > 0 \<Longrightarrow> match_string c3 ''([%w.-_]+)'' = (u4, c4, k4)"
    using m4 by (simp_all add: d_def)
  have i0: "cursor_in url (nat len) c"
    using assms(1,2) by (auto simp: cursor_in_def c_def intro: exI [of _ 0])
  note i1 = match_cursor [OF m1 i0]
  note i2 = match_cursor [OF m2 conjunct1 [OF i1]]
  note i3 = match_cursor [OF m3 conjunct1 [OF i2]]
  have id: "cursor_in url (nat len) d" using i1 i2 i3 by (simp add: d_def)
  note i4 = match_cursor [OF m4 id]
  note i5 = match_cursor [OF m5 conjunct1 [OF i4]]
  note i6 = match_cursor [OF m6 conjunct1 [OF i5]]
  note i7 = match_cursor [OF m7 conjunct1 [OF i6]]
  note i8 = match_cursor [OF m8 conjunct1 [OF i7]]
  have used: "int (length url - length (sptr c8)) \<le> len"
    using conjunct1 [OF i8] assms(1) by (auto simp: cursor_in_def)
  have len: "\<not> len \<le> 0" using assms(1) by simp
  define s where "s = (if u1 > 0 then stored k1 null_str
      else if u2 > 0 then stored k2 (stored k1 null_str) else stored k3 (stored k2 (stored k1 null_str)))"
  define h where "h = (if u4 < 0 then null_str else stored k4 null_str)"
  define x where "x = (if u1 > 0 then 1 else 0 :: int)"
  have "hin_parse_uri url len =
     (if u6 < 0
      then (-1, uri0\<lparr>scheme := s, host := h, port := stored k5 null_str, path := stored k6 null_str, https := x\<rparr>)
      else (int (length url - length (sptr c8)),
            \<lparr>scheme = s, host = h, port = stored k5 null_str, path = stored k6 null_str,
             query = stored k7 null_str, fragment = stored k8 null_str,
             all = \<lparr>sptr = url, slen = length url - length (sptr c8)\<rparr>, https = x\<rparr>))"
    unfolding hin_parse_uri_def Let_def
    by (cases "u1 > 0"; cases "u2 > 0")
       (simp_all add: len c_def [symmetric] m1 m2 m3 m4' m5 m6 m7 m8 s_def h_def x_def
          uri0_def del: append_Cons append_Nil)
  then show ?thesis
    using assms(1,3) used i1 i2 i3 i4 i5 i6 i7 i8
    by (auto simp: s_def h_def uri0_def part_in_stored split: if_splits)
qed

theorem parse_uri_safe_witness:
  "part_in ''http://a/'' 9 (host (snd (hin_parse_uri ''http://a/'' 9)))"
proof -
  obtain used info where "hin_parse_uri ''http://a/'' 9 = (used, info)"
    by (cases "hin_parse_uri ''http://a/'' 9")
  from parse_uri_safe [OF _ _ this] this show ?thesis by simp
qed

end
