(* ===== verification/Buffers.thy ===== *)
theory Buffers
  imports Prelude
begin

text \<open>
  \<open>netcode/header.c\<close> and \<open>netcode/buffer.c\<close>: the chain of buffers response headers are printed
  into, the transmission of such a chain, and the dynamic line buffer requests are read into.
  A header text is the string \<open>vsnprintf\<close> or \<open>strftime\<close> produces for the arguments.
\<close>

definition READ_SZ :: nat where "READ_SZ = 4096"
definition HIN_HTTPD_MAX_HEADER_LINE_SIZE :: nat where "HIN_HTTPD_MAX_HEADER_LINE_SIZE = 4096"

subsection \<open>The header chain\<close>

text \<open>The bytes of the buffer (\<open>sz\<close> of them) and how many are used.\<close>

record hbuf =
  hb_mem :: string
  hb_count :: nat

abbreviation hb_sz :: "hbuf \<Rightarrow> nat" where "hb_sz b \<equiv> length (hb_mem b)"

definition hb_free :: "hbuf \<Rightarrow> nat" where
  "hb_free b = hb_sz b - hb_count b"

definition mem_write :: "nat \<Rightarrow> string \<Rightarrow> string \<Rightarrow> string" where
  "mem_write pos msg mem = take pos mem @ msg @ drop (pos + length msg) mem"

definition new_buffer :: "nat \<Rightarrow> hbuf" where
  "new_buffer min_sz =
     (let sz = (if READ_SZ > min_sz then READ_SZ else min_sz)
      in \<lparr>hb_mem = replicate sz NUL, hb_count = 0\<rparr>)"

text \<open>\<open>vsnprintf (ptr, sz, ...)\<close>: at most \<open>sz - 1\<close> characters and the terminator.\<close>

definition print_at :: "nat \<Rightarrow> nat \<Rightarrow> string \<Rightarrow> string \<Rightarrow> string" where
  "print_at pos sz msg mem =
     (if sz = 0 then mem else mem_write pos (take (sz - 1) msg @ [NUL]) mem)"

partial_function (option) vheader :: "hbuf list \<Rightarrow> string \<Rightarrow> (nat \<times> hbuf list) option" where
  "vheader bufs msg =
     (case bufs of
        [] \<Rightarrow> None
      | b # rest \<Rightarrow>
          if rest \<noteq> [] then Option.bind (vheader rest msg) (\<lambda>(n, r). Some (n, b # r))
          else
            let b1 = b\<lparr>hb_mem := print_at (hb_count b) (hb_free b) msg (hb_mem b)\<rparr>
            in if length msg > HIN_HTTPD_MAX_HEADER_LINE_SIZE then Some (0, [b1])
               else if length msg \<ge> hb_free b
               then Option.bind (vheader [new_buffer (length msg)] msg) (\<lambda>(n, r). Some (n, b1 # r))
               else Some (length msg, [b1\<lparr>hb_count := hb_count b + length msg\<rparr>]))"

definition header :: "hbuf list \<Rightarrow> string \<Rightarrow> (nat \<times> hbuf list) option" where
  "header bufs msg = vheader bufs msg"

function header_raw :: "hbuf list \<Rightarrow> string \<Rightarrow> nat \<times> hbuf list" where
  "header_raw [] data = (0, [])"
| "header_raw (b # b' # rest) data =
     (case header_raw (b' # rest) data of (n, r) \<Rightarrow> (n, b # r))"
| "header_raw [b] data =
     (if length data > HIN_HTTPD_MAX_HEADER_LINE_SIZE then (0, [b])
      else if length data > hb_free b
      then (case header_raw [new_buffer (length data)] data of (n, r) \<Rightarrow> (n, b # r))
      else (length data,
            [b\<lparr>hb_mem := mem_write (hb_count b) data (hb_mem b),
               hb_count := hb_count b + length data\<rparr>]))"
  by pat_completeness auto
termination
  by (relation "measures [\<lambda>(bufs, d). length bufs, \<lambda>(bufs, d). length d - hb_free (hd bufs)]")
     (auto simp: new_buffer_def hb_free_def READ_SZ_def HIN_HTTPD_MAX_HEADER_LINE_SIZE_def)

text \<open>The result is where the reserved bytes are: the index of the buffer and the position.\<close>

function header_ptr :: "hbuf list \<Rightarrow> nat \<Rightarrow> (nat \<times> nat) option \<times> hbuf list" where
  "header_ptr [] len = (None, [])"
| "header_ptr (b # b' # rest) len =
     (case header_ptr (b' # rest) len of (p, r) \<Rightarrow> (map_option (\<lambda>(i, q). (Suc i, q)) p, b # r))"
| "header_ptr [b] len =
     (if len > HIN_HTTPD_MAX_HEADER_LINE_SIZE then (None, [b])
      else if len > hb_free b
      then (case header_ptr [new_buffer len] len of
              (p, r) \<Rightarrow> (map_option (\<lambda>(i, q). (Suc i, q)) p, b # r))
      else (Some (0, hb_count b), [b\<lparr>hb_count := hb_count b + len\<rparr>]))"
  by pat_completeness auto
termination
  by (relation "measures [\<lambda>(bufs, n). length bufs, \<lambda>(bufs, n). n - hb_free (hd bufs)]")
     (auto simp: new_buffer_def hb_free_def READ_SZ_def HIN_HTTPD_MAX_HEADER_LINE_SIZE_def)

text \<open>
  \<open>date\<close> is the output of \<open>strftime\<close>, empty when it does not fit or the time is invalid; the
  unused bytes are taken back from the buffer the caller passed, the first of the chain.
\<close>

definition header_date :: "hbuf list \<Rightarrow> string \<Rightarrow> nat \<times> hbuf list" where
  "header_date bufs date =
     (let sz = 80;
          msg = (if length date < sz then date else [])
      in case header_ptr bufs sz of
           (None, bufs') \<Rightarrow> (0, bufs')
         | (Some (i, pos), bufs') \<Rightarrow>
             (let b = bufs' ! i;
                  bufs' = bufs'[i := b\<lparr>hb_mem := mem_write pos (msg @ [NUL]) (hb_mem b)\<rparr>];
                  first = hd bufs'
              in (length msg,
                  first\<lparr>hb_count := hb_count first - (sz - length msg)\<rparr> # tl bufs')))"

definition chain_text :: "hbuf list \<Rightarrow> string" where
  "chain_text bufs = concat (map (\<lambda>b. take (hb_count b) (hb_mem b)) bufs)"

definition chain_wf :: "hbuf list \<Rightarrow> bool" where
  "chain_wf bufs \<longleftrightarrow> bufs \<noteq> [] \<and> (\<forall>b\<in>set bufs. hb_count b \<le> hb_sz b)"

lemma chain_text_simps [simp]:
  "chain_text [] = []" "chain_text (b # bs) = take (hb_count b) (hb_mem b) @ chain_text bs"
  by (simp_all add: chain_text_def)

lemma mem_write_simps [simp]:
  assumes "pos + length msg \<le> length mem"
  shows "length (mem_write pos msg mem) = length mem"
    "take pos (mem_write pos msg mem) = take pos mem"
    "take (pos + length msg) (mem_write pos msg mem) = take pos mem @ msg"
  using assms by (simp_all add: mem_write_def)

lemma print_at_simps:
  assumes "pos + sz = length mem"
  shows "length (print_at pos sz msg mem) = length mem"
    "take pos (print_at pos sz msg mem) = take pos mem"
    "length msg < sz \<Longrightarrow> take (pos + length msg) (print_at pos sz msg mem) = take pos mem @ msg"
  using assms by (auto simp: print_at_def mem_write_def min_def)

lemma new_buffer_simps [simp]:
  "hb_count (new_buffer n) = 0" "hb_free (new_buffer n) = max READ_SZ n"
  "hb_sz (new_buffer n) = max READ_SZ n"
  by (auto simp: new_buffer_def hb_free_def)

lemma vheader_step:
  "vheader (b # c # bs) msg = Option.bind (vheader (c # bs) msg) (\<lambda>(n, r). Some (n, b # r))"
  by (subst vheader.simps) simp

lemma vheader_last:
  assumes "length msg < hb_free b" "length msg \<le> HIN_HTTPD_MAX_HEADER_LINE_SIZE"
  shows "vheader [b] msg = Some (length msg,
     [b\<lparr>hb_mem := print_at (hb_count b) (hb_free b) msg (hb_mem b), hb_count := hb_count b + length msg\<rparr>])"
  using assms by (subst vheader.simps) (simp add: Let_def)

text \<open>A text of exactly 4096 bytes asks for buffers of 4096 bytes for ever.\<close>

lemma vheader_no_value:
  "vheader bufs msg = Some r \<Longrightarrow>
   \<not> (bufs = [new_buffer (length msg)] \<and> length msg = HIN_HTTPD_MAX_HEADER_LINE_SIZE)"
proof (rule vheader.raw_induct [of "\<lambda>bufs msg r.
    \<not> (bufs = [new_buffer (length msg)] \<and> length msg = HIN_HTTPD_MAX_HEADER_LINE_SIZE)"])
  fix vh bufs msg r
  assume ih: "\<And>bufs msg r. vh bufs msg = Some r \<Longrightarrow>
      \<not> (bufs = [new_buffer (length msg)] \<and> length msg = HIN_HTTPD_MAX_HEADER_LINE_SIZE)"
    and eq: "(case bufs of
        [] \<Rightarrow> None
      | b # rest \<Rightarrow>
          if rest \<noteq> [] then Option.bind (vh rest msg) (\<lambda>(n, r). Some (n, b # r))
          else
            let b1 = b\<lparr>hb_mem := print_at (hb_count b) (hb_free b) msg (hb_mem b)\<rparr>
            in if length msg > HIN_HTTPD_MAX_HEADER_LINE_SIZE then Some (0, [b1])
               else if length msg \<ge> hb_free b
               then Option.bind (vh [new_buffer (length msg)] msg) (\<lambda>(n, r). Some (n, b1 # r))
               else Some (length msg, [b1\<lparr>hb_count := hb_count b + length msg\<rparr>])) = Some r"
  have "vh [new_buffer (length msg)] msg = None" if "length msg = HIN_HTTPD_MAX_HEADER_LINE_SIZE"
    using ih [of "[new_buffer (length msg)]" msg] that by (cases "vh [new_buffer (length msg)] msg") auto
  then show "\<not> (bufs = [new_buffer (length msg)] \<and> length msg = HIN_HTTPD_MAX_HEADER_LINE_SIZE)"
    using eq by (auto simp: READ_SZ_def HIN_HTTPD_MAX_HEADER_LINE_SIZE_def Let_def)
qed

lemma vheader_diverges:
  "length msg = HIN_HTTPD_MAX_HEADER_LINE_SIZE \<Longrightarrow> vheader [new_buffer (length msg)] msg = None"
  using vheader_no_value by (metis option.exhaust)

lemma vheader_spill:
  assumes "hb_free b \<le> length msg" "length msg < HIN_HTTPD_MAX_HEADER_LINE_SIZE" "hb_count b \<le> hb_sz b"
  shows "\<exists>bufs'. vheader [b] msg = Some (length msg, bufs') \<and> chain_wf bufs' \<and>
           chain_text bufs' = chain_text [b] @ msg"
proof -
  have "vheader [new_buffer (length msg)] msg = Some (length msg,
     [(new_buffer (length msg))\<lparr>hb_mem := print_at 0 READ_SZ msg (hb_mem (new_buffer (length msg))),
        hb_count := length msg\<rparr>])"
    using assms(2) by (subst vheader_last)
      (simp_all add: READ_SZ_def HIN_HTTPD_MAX_HEADER_LINE_SIZE_def max_def)
  moreover note print_at_simps [of "hb_count b" "hb_free b" "hb_mem b" msg]
  moreover note print_at_simps [of 0 READ_SZ "hb_mem (new_buffer (length msg))" msg]
  ultimately show ?thesis
    using assms
    by (subst vheader.simps)
       (simp add: Let_def chain_wf_def hb_free_def READ_SZ_def HIN_HTTPD_MAX_HEADER_LINE_SIZE_def max_def)
qed

lemma vheader_result:
  assumes "chain_wf bufs"
  shows "if length msg > HIN_HTTPD_MAX_HEADER_LINE_SIZE
         then \<exists>bufs'. vheader bufs msg = Some (0, bufs') \<and> chain_wf bufs' \<and>
                chain_text bufs' = chain_text bufs
         else if length msg = HIN_HTTPD_MAX_HEADER_LINE_SIZE \<and> hb_free (last bufs) \<le> length msg
         then vheader bufs msg = None
         else \<exists>bufs'. vheader bufs msg = Some (length msg, bufs') \<and> chain_wf bufs' \<and>
                chain_text bufs' = chain_text bufs @ msg"
  using assms
proof (induction bufs)
  case Nil
  then show ?case by (simp add: chain_wf_def)
next
  case (Cons b rest)
  show ?case
  proof (cases rest)
    case (Cons c cs)
    with Cons.IH Cons.prems show ?thesis
      by (auto simp: vheader_step chain_wf_def split: if_splits)
  next
    case Nil
    have cnt: "hb_count b \<le> hb_sz b" using Cons.prems by (simp add: chain_wf_def)
    then have p: "hb_count b + hb_free b = hb_sz b" by (simp add: hb_free_def)
    note ps = print_at_simps [OF p, of msg]
    consider (long) "length msg > HIN_HTTPD_MAX_HEADER_LINE_SIZE"
      | (loop) "length msg = HIN_HTTPD_MAX_HEADER_LINE_SIZE" "hb_free b \<le> length msg"
      | (spill) "length msg < HIN_HTTPD_MAX_HEADER_LINE_SIZE" "hb_free b \<le> length msg"
      | (fits) "length msg \<le> HIN_HTTPD_MAX_HEADER_LINE_SIZE" "length msg < hb_free b"
      by linarith
    then show ?thesis
    proof cases
      case long
      then show ?thesis using ps cnt Nil
        by (subst vheader.simps) (simp add: Let_def chain_wf_def)
    next
      case loop
      then show ?thesis using vheader_diverges [OF loop(1)] Nil
        by (subst vheader.simps) (simp add: Let_def)
    next
      case spill
      then show ?thesis using vheader_spill [OF spill(2,1) cnt] Nil by auto
    next
      case fits
      then show ?thesis using ps p vheader_last [OF fits(2,1)] Nil
        by (simp add: chain_wf_def)
    qed
  qed
qed

text \<open>
  Printing a header appends exactly its text to the chain, splitting into a new buffer
  when the last one is full.  A text above 4096 bytes is dropped.  A text of exactly 4096 bytes
  that does not fit makes the function recurse for ever: each new buffer has 4096 bytes, one
  too few for the terminator.
\<close>

theorem header_appends:
  assumes "chain_wf bufs"
  shows "if length msg > HIN_HTTPD_MAX_HEADER_LINE_SIZE
         then \<exists>bufs'. header bufs msg = Some (0, bufs') \<and> chain_wf bufs' \<and>
                chain_text bufs' = chain_text bufs
         else if length msg = HIN_HTTPD_MAX_HEADER_LINE_SIZE \<and> hb_free (last bufs) \<le> length msg
         then header bufs msg = None
         else \<exists>bufs'. header bufs msg = Some (length msg, bufs') \<and> chain_wf bufs' \<and>
                chain_text bufs' = chain_text bufs @ msg"
  unfolding header_def by (rule vheader_result [OF assms])

theorem header_appends_witness:
  "\<exists>bufs'. header [new_buffer 0] ''Date: '' = Some (6, bufs') \<and> chain_text bufs' = ''Date: ''"
  using header_appends [of "[new_buffer 0]" "''Date: ''"]
  by (auto simp: HIN_HTTPD_MAX_HEADER_LINE_SIZE_def chain_wf_def)

lemma header_raw_appends:
  "chain_wf bufs \<Longrightarrow> length data \<le> HIN_HTTPD_MAX_HEADER_LINE_SIZE \<Longrightarrow>
   \<exists>bufs'. header_raw bufs data = (length data, bufs') \<and> chain_wf bufs' \<and>
           chain_text bufs' = chain_text bufs @ data"
proof (induction bufs data rule: header_raw.induct)
  case (2 b b' rest data)
  then show ?case by (fastforce simp: chain_wf_def)
next
  case (3 b data)
  have fit: "\<exists>b'. header_raw [c] data = (length data, [b']) \<and> hb_count b' \<le> hb_sz b' \<and>
      take (hb_count b') (hb_mem b') = take (hb_count c) (hb_mem c) @ data"
    if "length data \<le> hb_free c" "hb_count c \<le> hb_sz c" for c
    using that 3 by (simp add: hb_free_def)
  have "hb_count b \<le> hb_sz b" using 3 by (simp add: chain_wf_def)
  then show ?case
    using fit [of b] fit [of "new_buffer (length data)"] 3(3)
    by (cases "length data \<le> hb_free b") (auto simp: chain_wf_def not_le)
qed (simp add: chain_wf_def)

text \<open>
  A date header is appended when the buffer has 80 free bytes; otherwise the 80 bytes are
  reserved in a new buffer but the unused ones are taken back from the old one: the response
  loses the end of its last header and carries NUL bytes after the date.
\<close>

theorem header_date_result:
  assumes "hb_count b \<le> hb_sz b" "length date < 80"
  shows "chain_text (snd (header_date [b] date)) =
     (if 80 \<le> hb_free b then chain_text [b] @ date
      else take (hb_count b - (80 - length date)) (hb_mem b) @ date @ replicate (80 - length date) NUL)"
proof (cases "80 \<le> hb_free b")
  case True
  have "take (hb_count b + length date) (mem_write (hb_count b) (date @ [NUL]) (hb_mem b)) =
        take (hb_count b) (hb_mem b) @ date"
    using True assms by (simp add: mem_write_def hb_free_def)
  then show ?thesis
    using True assms by (simp add: header_date_def HIN_HTTPD_MAX_HEADER_LINE_SIZE_def Let_def)
next
  case False
  have "take 80 (mem_write 0 (date @ [NUL]) (hb_mem (new_buffer 80))) =
        date @ replicate (80 - length date) NUL"
    using assms(2)
    by (simp add: mem_write_def new_buffer_def READ_SZ_def flip: replicate_Suc)
  then show ?thesis
    using False assms
    by (simp add: header_date_def HIN_HTTPD_MAX_HEADER_LINE_SIZE_def READ_SZ_def Let_def)
qed

theorem header_date_result_witness:
  "chain_text (snd (header_date [new_buffer 0] ''Date: now'')) = ''Date: now''"
  using header_date_result [of "new_buffer 0" "''Date: now''"] by (simp add: READ_SZ_def)

subsection \<open>Transmission of a chain\<close>

text \<open>
  The completion of a write of the first buffer with result \<open>ret\<close>; \<open>ptr += ret\<close> is \<open>drop\<close>.  The
  value 0 says that the chain is finished (or the peer closed).
\<close>

definition hin_buffer_continue_write :: "hbuf list \<Rightarrow> int \<Rightarrow> int \<times> hbuf list" where
  "hin_buffer_continue_write bufs ret =
     (case bufs of
        [] \<Rightarrow> (0, [])
      | b # rest \<Rightarrow>
          if ret \<le> 0 then (ret, bufs)
          else if ret \<noteq> int (hb_count b)
          then (ret, b\<lparr>hb_mem := drop (nat ret) (hb_mem b), hb_count := hb_count b - nat ret\<rparr> # rest)
          else if rest \<noteq> [] then (ret, rest)
          else (0, bufs))"

text \<open>A sequence of completions: what the kernel took from the buffers, and what is left.\<close>

fun transmit :: "hbuf list \<Rightarrow> nat list \<Rightarrow> string \<times> hbuf list" where
  "transmit bufs [] = ([], bufs)"
| "transmit [] (r # rs) = ([], [])"
| "transmit (b # bs) (r # rs) =
     (case hin_buffer_continue_write (b # bs) (int r) of
        (ret, bufs') \<Rightarrow>
          if ret = 0 then (take r (hb_mem b), [])
          else (case transmit bufs' rs of (s, f) \<Rightarrow> (take r (hb_mem b) @ s, f)))"

fun completions :: "hbuf list \<Rightarrow> nat list \<Rightarrow> bool" where
  "completions bufs [] \<longleftrightarrow> True"
| "completions [] (r # rs) \<longleftrightarrow> False"
| "completions (b # bs) (r # rs) \<longleftrightarrow> 0 < r \<and> r \<le> hb_count b \<and>
     (case hin_buffer_continue_write (b # bs) (int r) of
        (ret, bufs') \<Rightarrow> if ret = 0 then rs = [] else completions bufs' rs)"

text \<open>
  C23: however the kernel splits the writes, the bytes sent followed by the bytes still in the
  chain are the text of the chain, in order.
\<close>

theorem transmit_in_order:
  assumes "completions bufs rs"
  shows "fst (transmit bufs rs) @ chain_text (snd (transmit bufs rs)) = chain_text bufs"
  using assms
proof (induction bufs rs rule: transmit.induct)
  case (3 b bs r rs)
  have r: "0 < r" "r \<le> hb_count b" using 3(2) by auto
  show ?case
  proof (cases "r = hb_count b")
    case True
    then show ?thesis using 3 r
      by (cases bs) (auto simp: hin_buffer_continue_write_def split: prod.splits)
  next
    case False
    let ?b = "b\<lparr>hb_mem := drop r (hb_mem b), hb_count := hb_count b - r\<rparr>"
    have c: "hin_buffer_continue_write (b # bs) (int r) = (int r, ?b # bs)"
      using r False by (simp add: hin_buffer_continue_write_def)
    have "fst (transmit (?b # bs) rs) @ chain_text (snd (transmit (?b # bs) rs)) = chain_text (?b # bs)"
      using 3(1) [OF c [symmetric]] 3(2) c r by simp
    moreover have "take (hb_count b) (hb_mem b) =
        take r (hb_mem b) @ take (hb_count b - r) (drop r (hb_mem b))"
      using r by (metis append_take_drop_id le_add_diff_inverse take_add)
    moreover have "transmit (b # bs) (r # rs) = (take r (hb_mem b) @ fst (transmit (?b # bs) rs),
        snd (transmit (?b # bs) rs))"
      using c r by (simp split: prod.splits)
    ultimately show ?thesis by simp
  qed
qed simp_all

theorem transmit_in_order_witness:
  "fst (transmit [\<lparr>hb_mem = ''abcd'', hb_count = 4\<rparr>, \<lparr>hb_mem = ''ef'', hb_count = 2\<rparr>] [1, 3, 2]) = ''abcdef''"
  using transmit_in_order [of "[\<lparr>hb_mem = ''abcd'', hb_count = 4\<rparr>, \<lparr>hb_mem = ''ef'', hb_count = 2\<rparr>]" "[1, 3, 2]"]
  by (simp add: hin_buffer_continue_write_def)

subsection \<open>The line buffer\<close>

text \<open>
  \<open>lb_base\<close> is the allocation, \<open>lb_count\<close> the bytes in use (\<open>lines->count\<close>), and \<open>lb_ptr\<close>,
  \<open>lb_req\<close> the window (\<open>ptr\<close>, \<open>count\<close>) of the pending read.  Bytes \<open>realloc\<close> adds are modelled
  as NUL: they are never read before the kernel writes them.
\<close>

record lines =
  lb_base :: string
  lb_sz :: int
  lb_count :: int
  lb_ptr :: int
  lb_req :: int
  lb_active :: bool

definition hin_lines_create_raw :: "nat \<Rightarrow> lines" where
  "hin_lines_create_raw sz =
     \<lparr>lb_base = replicate sz NUL, lb_sz = int sz, lb_count = 0, lb_ptr = 0, lb_req = int sz,
      lb_active = False\<rparr>"

definition hin_buffer_prepare :: "int \<Rightarrow> lines \<Rightarrow> lines" where
  "hin_buffer_prepare num b =
     (let min_sz = lb_count b + num;
          b = (if min_sz > lb_sz b
               then b\<lparr>lb_sz := min_sz,
                      lb_base := lb_base b @ replicate (nat min_sz - length (lb_base b)) NUL\<rparr>
               else b)
      in b\<lparr>lb_ptr := lb_count b, lb_req := num\<rparr>)"

text \<open>\<open>None\<close> is the \<open>memmove\<close> of a negative size.\<close>

definition hin_buffer_eat :: "int \<Rightarrow> lines \<Rightarrow> (int \<times> lines) option" where
  "hin_buffer_eat num b =
     (if num < 0 then Some (-1, b)
      else if lb_count b < num then None
      else
        let n = nat (lb_count b - num);
            base = take n (drop (nat num) (lb_base b)) @ drop n (lb_base b)
        in Some (0, b\<lparr>lb_base := base, lb_ptr := lb_count b - num, lb_count := lb_count b - num\<rparr>))"

text \<open>
  \<open>fd_ok\<close> is \<open>fd >= 0\<close> and \<open>req_ok\<close> the success of \<open>hin_request_read\<close>, which marks the buffer
  active.
\<close>

definition hin_lines_request :: "bool \<Rightarrow> bool \<Rightarrow> int \<Rightarrow> lines \<Rightarrow> int \<times> lines" where
  "hin_lines_request fd_ok req_ok minimum b =
     (let left = lb_sz b - lb_count b in
      if lb_active b then (0, b)
      else
        let new = (if minimum > 0 \<and> minimum > left then minimum - left
                   else if left < lb_sz b div 2 then int READ_SZ else left);
            b = hin_buffer_prepare new b
        in if fd_ok then (if req_ok then (0, b\<lparr>lb_active := True\<rparr>) else (-1, b))
           else (0, b))"

text \<open>The close callback is a parameter that maps its argument to its return value.\<close>

definition hin_lines_default_eat ::
  "bool \<Rightarrow> bool \<Rightarrow> (int \<Rightarrow> int) option \<Rightarrow> int \<Rightarrow> lines \<Rightarrow> (int \<times> lines) option" where
  "hin_lines_default_eat fd_ok req_ok close num b =
     (if num > 0 then map_option (\<lambda>(_, b). (0, b)) (hin_buffer_eat num b)
      else if num = 0 then Some (0, snd (hin_lines_request fd_ok req_ok 0 b))
      else case close of Some f \<Rightarrow> Some (f num, b) | None \<Rightarrow> Some (-1, b))"

text \<open>\<open>rc\<close> is the read callback on the bytes in use: how many of them it consumed.\<close>

definition hin_lines_read_callback ::
  "(string \<Rightarrow> int) \<Rightarrow> bool \<Rightarrow> bool \<Rightarrow> (int \<Rightarrow> int) option \<Rightarrow> int \<Rightarrow> lines \<Rightarrow> (int \<times> lines) option" where
  "hin_lines_read_callback rc fd_ok req_ok close ret b =
     (if ret \<le> 0 then Some (case close of Some f \<Rightarrow> f ret | None \<Rightarrow> -1, b)
      else
        let b = b\<lparr>lb_req := 0, lb_count := lb_count b + ret\<rparr>;
            num = rc (take (nat (lb_count b)) (lb_base b))
        in hin_lines_default_eat fd_ok req_ok close num b)"

definition hin_lines_reread ::
  "(string \<Rightarrow> int) \<Rightarrow> bool \<Rightarrow> bool \<Rightarrow> (int \<Rightarrow> int) option \<Rightarrow> lines \<Rightarrow> (int \<times> lines) option" where
  "hin_lines_reread rc fd_ok req_ok close b =
     (let b = b\<lparr>lb_req := 0\<rparr>;
          num = rc (take (nat (lb_count b)) (lb_base b))
      in hin_lines_default_eat fd_ok req_ok close num b)"

definition hin_lines_write ::
  "(string \<Rightarrow> int) \<Rightarrow> bool \<Rightarrow> bool \<Rightarrow> (int \<Rightarrow> int) option \<Rightarrow> string \<Rightarrow> lines \<Rightarrow> (int \<times> lines) option" where
  "hin_lines_write rc fd_ok req_ok close data b =
     (let b = hin_buffer_prepare (int (length data)) b;
          b = b\<lparr>lb_base := mem_write (nat (lb_ptr b)) data (lb_base b)\<rparr>
      in hin_lines_read_callback rc fd_ok req_ok close (int (length data)) b)"

text \<open>The kernel completes the pending read with the bytes \<open>d\<close>.\<close>

definition kernel_read :: "string \<Rightarrow> lines \<Rightarrow> lines" where
  "kernel_read d b = b\<lparr>lb_base := mem_write (nat (lb_ptr b)) d (lb_base b), lb_active := False\<rparr>"

definition lines_text :: "lines \<Rightarrow> string" where
  "lines_text b = take (nat (lb_count b)) (lb_base b)"

definition lines_wf :: "lines \<Rightarrow> bool" where
  "lines_wf b \<longleftrightarrow> 0 \<le> lb_count b \<and> lb_count b \<le> lb_sz b \<and> lb_sz b = int (length (lb_base b)) \<and>
     (lb_active b \<longrightarrow> lb_ptr b = lb_count b \<and> 0 \<le> lb_req b \<and> lb_ptr b + lb_req b \<le> lb_sz b)"

lemma prepare_wf:
  "lines_wf b \<Longrightarrow> 0 \<le> num \<Longrightarrow> lines_wf (hin_buffer_prepare num (b\<lparr>lb_active := a\<rparr>)) \<and>
   lines_text (hin_buffer_prepare num b) = lines_text b \<and>
   lb_ptr (hin_buffer_prepare num b) + num \<le> lb_sz (hin_buffer_prepare num b) \<and>
   lb_req (hin_buffer_prepare num b) = num"
  by (auto simp: lines_wf_def hin_buffer_prepare_def lines_text_def Let_def)

lemma request_wf:
  assumes "lines_wf b"
  shows "lines_wf (snd (hin_lines_request fd_ok req_ok m b)) \<and>
         lines_text (snd (hin_lines_request fd_ok req_ok m b)) = lines_text b"
  using assms
  by (auto simp: lines_wf_def hin_lines_request_def hin_buffer_prepare_def lines_text_def Let_def
      READ_SZ_def)

lemma eat_result:
  assumes "lines_wf b" "0 \<le> num" "num \<le> lb_count b" "\<not> lb_active b"
  shows "\<exists>b'. hin_buffer_eat num b = Some (0, b') \<and> lines_wf b' \<and>
           lines_text b' = drop (nat num) (lines_text b)"
  using assms
  by (auto simp: hin_buffer_eat_def lines_wf_def lines_text_def Let_def min_def drop_take
      nat_diff_distrib')

text \<open>
  C24: when a read of at most the requested size completes, the callback sees the bytes kept so
  far followed by the new ones, exactly the bytes it consumes are removed, the buffer stays
  inside its allocation, and a callback that consumes nothing gets another read.
\<close>

theorem lines_read_conserves:
  assumes "lines_wf b" "lb_active b" "d \<noteq> []" "int (length d) \<le> lb_req b"
    "\<And>s. 0 \<le> rc s \<and> rc s \<le> int (length s)"
  shows "\<exists>b'. hin_lines_read_callback rc True True close (int (length d)) (kernel_read d b) = Some (0, b')
            \<and> lines_wf b' \<and>
           lines_text b' = drop (nat (rc (lines_text b @ d))) (lines_text b @ d) \<and>
           (rc (lines_text b @ d) = 0 \<longrightarrow> lb_active b')"
proof -
  define c where "c = (kernel_read d b)\<lparr>lb_req := 0, lb_count := lb_count b + int (length d)\<rparr>"
  have fit: "nat (lb_ptr b) + length d \<le> length (lb_base b)"
    using assms(1,2,4) by (auto simp: lines_wf_def)
  have seen: "lines_text c = lines_text b @ d"
    using assms(1,2) fit mem_write_simps(3) [OF fit]
    by (simp add: c_def lines_text_def kernel_read_def lines_wf_def nat_add_distrib)
  have kc: "lb_count (kernel_read d b) = lb_count b" by (simp add: kernel_read_def)
  have wf: "lines_wf c" "\<not> lb_active c"
    using assms(1,2,4) fit by (auto simp: c_def lines_wf_def kernel_read_def)
  define n where "n = rc (lines_text b @ d)"
  have n: "0 \<le> n" "n \<le> lb_count c"
    using assms(1) assms(5) [of "lines_text b @ d"]
    by (auto simp: n_def c_def lines_wf_def lines_text_def kernel_read_def)
  have eq: "hin_lines_read_callback rc True True close (int (length d)) (kernel_read d b) =
      hin_lines_default_eat True True close n c"
    using assms(3) seen by (simp add: hin_lines_read_callback_def c_def lines_text_def n_def kc Let_def)
  show ?thesis
  proof (cases "n = 0")
    case True
    have "lb_active (snd (hin_lines_request True True 0 c))"
      by (simp add: hin_lines_request_def Let_def)
    then show ?thesis
      using True request_wf [OF wf(1)] seen unfolding eq n_def [symmetric]
      by (simp add: hin_lines_default_eat_def)
  next
    case False
    then show ?thesis
      using eat_result [OF wf(1) n wf(2)] n seen unfolding eq n_def [symmetric]
      by (auto simp: hin_lines_default_eat_def)
  qed
qed

theorem lines_read_conserves_witness:
  "\<exists>b'. hin_lines_read_callback (\<lambda>s. int (length s) div 2) True True None 4
          (kernel_read ''abcd'' (snd (hin_lines_request True True 0 (hin_lines_create_raw 8)))) = Some (0, b')
        \<and> lines_text b' = ''cd''"
proof -
  let ?b = "snd (hin_lines_request True True 0 (hin_lines_create_raw 8))"
  have "lines_text ?b = []" "lines_wf ?b" "lb_active ?b" "lb_req ?b = 8"
    by (simp_all add: hin_lines_request_def hin_lines_create_raw_def hin_buffer_prepare_def
        lines_wf_def lines_text_def)
  moreover have "\<And>s :: string. 0 \<le> int (length s) div 2 \<and> int (length s) div 2 \<le> int (length s)"
    by linarith
  ultimately show ?thesis
    using lines_read_conserves [of ?b "''abcd''" "\<lambda>s. int (length s) div 2" None]
    by fastforce
qed

end
