(* ===== verification/CacheCtl.thy ===== *)
theory CacheCtl
  imports HttpUtils Buffers Numbers
begin

text \<open>
  The \<open>Cache-Control\<close> part of \<open>http/utils/http_misc.c\<close>: reading the directives of a header
  (\<open>httpd_parse_cache_str\<close>) and printing them (\<open>header_cache_control\<close>).
\<close>

definition HIN_CACHE_DONE :: u32 where [flag_defs]: "HIN_CACHE_DONE = 0x1"
definition HIN_CACHE_ERROR :: u32 where [flag_defs]: "HIN_CACHE_ERROR = 0x2"
definition HIN_CACHE_PUBLIC :: u32 where [flag_defs]: "HIN_CACHE_PUBLIC = 0x4"
definition HIN_CACHE_PRIVATE :: u32 where [flag_defs]: "HIN_CACHE_PRIVATE = 0x8"
definition HIN_CACHE_NO_CACHE :: u32 where [flag_defs]: "HIN_CACHE_NO_CACHE = 0x10"
definition HIN_CACHE_NO_STORE :: u32 where [flag_defs]: "HIN_CACHE_NO_STORE = 0x20"
definition HIN_CACHE_NO_TRANSFORM :: u32 where [flag_defs]: "HIN_CACHE_NO_TRANSFORM = 0x40"
definition HIN_CACHE_IMMUTABLE :: u32 where [flag_defs]: "HIN_CACHE_IMMUTABLE = 0x80"
definition HIN_CACHE_MUST_REVALIDATE :: u32 where [flag_defs]: "HIN_CACHE_MUST_REVALIDATE = 0x100"
definition HIN_CACHE_PROXY_REVALIDATE :: u32 where [flag_defs]: "HIN_CACHE_PROXY_REVALIDATE = 0x200"
definition HIN_CACHE_MAX_AGE :: u32 where [flag_defs]: "HIN_CACHE_MAX_AGE = 0x400"

subsection \<open>Reading\<close>

definition starts :: "string_t \<Rightarrow> string \<Rightarrow> bool" where
  "starts s fmt \<longleftrightarrow> fst (match_string s fmt) > 0"

text \<open>One directive: the flags with the one it sets, and the age.\<close>

definition cache_opt :: "string_t \<Rightarrow> u32 \<times> int \<Rightarrow> u32 \<times> int" where
  "cache_opt opt st =
     (case st of (flags, age) \<Rightarrow>
        case match_string opt ''max-age=%s*(%d+)'' of (used, _, caps) \<Rightarrow>
          if used > 0 then (setf flags HIN_CACHE_MAX_AGE, atoi (sptr (hd caps)))
          else if starts opt ''public'' then (setf flags HIN_CACHE_PUBLIC, age)
          else if starts opt ''private'' then (setf flags HIN_CACHE_PRIVATE, age)
          else if starts opt ''immutable'' then (setf flags HIN_CACHE_IMMUTABLE, age)
          else if starts opt ''no-cache'' then (setf flags HIN_CACHE_NO_CACHE, age)
          else if starts opt ''no-store'' then (setf flags HIN_CACHE_NO_STORE, age)
          else if starts opt ''no-transform'' then (setf flags HIN_CACHE_NO_TRANSFORM, age)
          else if starts opt ''must-revalidate'' then (setf flags HIN_CACHE_MUST_REVALIDATE, age)
          else if starts opt ''proxy-revalidate'' then (setf flags HIN_CACHE_PROXY_REVALIDATE, age)
          else if starts opt ''no-store'' then (setf flags HIN_CACHE_NO_STORE, age)
          else (flags, age))"

lemma match_progress:
  "match_string s fmt = (used, s', caps) \<Longrightarrow> (0 < used \<longrightarrow> slen s' < slen s) \<and> slen s' \<le> slen s"
  by (auto simp: match_string_def match_string_virtual_def str_adv_def split: if_splits option.splits prod.splits)

function cache_loop :: "string_t \<Rightarrow> u32 \<times> int \<Rightarrow> u32 \<times> int" where
  "cache_loop source st =
     (case match_string source ''%s*([%w%-=]+)'' of (used, source1, caps) \<Rightarrow>
        if used > 0
        then (let st = cache_opt (hd caps) st
              in case match_string source1 ''%s*,%s*'' of (used, source2, _) \<Rightarrow>
                   if used \<le> 0 then st else cache_loop source2 st)
        else st)"
  by pat_completeness auto
termination
  by (relation "measure (\<lambda>(s, st). slen s)")
     (auto dest!: sym [of _ "match_string _ _"] match_progress)

declare cache_loop.simps [simp del]

text \<open>The flags, and the age (\<open>*max_age\<close> keeps its value \<open>age\<close> when there is none).\<close>

definition httpd_parse_cache_str :: "string \<Rightarrow> nat \<Rightarrow> int \<Rightarrow> u32 \<times> int" where
  "httpd_parse_cache_str str len age =
     (let len = (if len = 0 then length (takeWhile ((\<noteq>) NUL) str) else len)
      in cache_loop \<lparr>sptr = str, slen = len\<rparr> (0, age))"

subsection \<open>Printing\<close>

text \<open>\<open>num += header (buf, msg)\<close>, and the same under a condition.\<close>

definition header_add :: "string \<Rightarrow> nat \<times> hbuf list \<Rightarrow> (nat \<times> hbuf list) option" where
  "header_add msg st = map_option (\<lambda>(n, bufs). (fst st + n, bufs)) (header (snd st) msg)"

definition header_if :: "bool \<Rightarrow> string \<Rightarrow> nat \<times> hbuf list \<Rightarrow> (nat \<times> hbuf list) option" where
  "header_if c msg st = (if c then header_add msg st else Some st)"

text \<open>\<open>last->count -= n\<close> on the last buffer of the chain.\<close>

definition chain_drop :: "nat \<Rightarrow> hbuf list \<Rightarrow> hbuf list" where
  "chain_drop n bufs = butlast bufs @ [(last bufs)\<lparr>hb_count := hb_count (last bufs) - n\<rparr>]"

definition header_cache_control :: "hbuf list \<Rightarrow> u32 \<Rightarrow> int \<Rightarrow> (nat \<times> hbuf list) option" where
  "header_cache_control bufs flags max_age =
     Option.bind (header_add ''Cache-Control: '' (0, bufs)) (\<lambda>st.
     Option.bind (if has flags HIN_CACHE_PRIVATE then header_add ''private, '' st
                  else header_if (has flags HIN_CACHE_PUBLIC) ''public, '' st) (\<lambda>st.
     Option.bind (header_if (has flags HIN_CACHE_MAX_AGE) (''max-age='' @ print_int max_age @ '', '') st) (\<lambda>st.
     Option.bind (if has flags HIN_CACHE_IMMUTABLE then header_add ''immutable, '' st
                  else header_if (has flags HIN_CACHE_NO_CACHE) ''no-cache, '' st) (\<lambda>st.
     Option.bind (header_if (has flags HIN_CACHE_NO_STORE) ''no-store, '' st) (\<lambda>st.
     Option.bind (header_if (has flags HIN_CACHE_NO_TRANSFORM) ''no-transform, '' st) (\<lambda>st.
     Option.bind (header_if (has flags HIN_CACHE_MUST_REVALIDATE) ''must-revalidate, '' st) (\<lambda>st.
     Option.bind (header_if (has flags HIN_CACHE_PROXY_REVALIDATE) ''proxy-revalidate, '' st) (\<lambda>st.
     Option.bind (header (chain_drop 2 (snd st)) CRLF) (\<lambda>r. Some (fst st, snd r))))))))))"

subsection \<open>Printing appends a text\<close>

text \<open>
  \<open>prints bufs t r\<close>: the computation \<open>r\<close> returned, appended exactly \<open>t\<close> to the chain \<open>bufs\<close> and
  left room for taking two bytes back.
\<close>

definition prints :: "hbuf list \<Rightarrow> string \<Rightarrow> (nat \<times> hbuf list) option \<Rightarrow> bool" where
  "prints bufs t r \<longleftrightarrow>
     (\<exists>bufs'. r = Some (length t, bufs') \<and> chain_wf bufs' \<and> chain_text bufs' = chain_text bufs @ t \<and>
        (t \<noteq> [] \<longrightarrow> 2 \<le> hb_count (last bufs')))"

lemma vheader_last_count:
  "chain_wf bufs \<Longrightarrow> length msg < HIN_HTTPD_MAX_HEADER_LINE_SIZE \<Longrightarrow> vheader bufs msg = Some (n, bufs') \<Longrightarrow>
   bufs' \<noteq> [] \<and> length msg \<le> hb_count (last bufs')"
proof (induction bufs arbitrary: n bufs')
  case Nil
  then show ?case by (simp add: chain_wf_def)
next
  case (Cons b rest)
  show ?case
  proof (cases rest)
    case (Cons c cs)
    then show ?thesis
      using Cons.IH Cons.prems by (auto simp: vheader_step chain_wf_def split: Option.bind_splits)
  next
    case Nil
    have new: "vheader [new_buffer (length msg)] msg = Some (length msg,
       [(new_buffer (length msg))\<lparr>hb_mem := print_at 0 READ_SZ msg (hb_mem (new_buffer (length msg))),
          hb_count := length msg\<rparr>])"
      using Cons.prems(2) by (subst vheader_last)
        (simp_all add: READ_SZ_def HIN_HTTPD_MAX_HEADER_LINE_SIZE_def max_def)
    show ?thesis
    proof (cases "length msg < hb_free b")
      case True
      then show ?thesis using Cons.prems Nil vheader_last [of msg b] by auto
    next
      case False
      then have "vheader [b] msg = Option.bind (vheader [new_buffer (length msg)] msg)
          (\<lambda>(n, r). Some (n, b\<lparr>hb_mem := print_at (hb_count b) (hb_free b) msg (hb_mem b)\<rparr> # r))"
        using Cons.prems(2) by (subst vheader.simps) (simp add: Let_def)
      then show ?thesis using Cons.prems(3) Nil unfolding new by auto
    qed
  qed
qed

lemma prints_header:
  assumes "chain_wf bufs" "length msg < HIN_HTTPD_MAX_HEADER_LINE_SIZE" "2 \<le> length msg"
  shows "prints bufs msg (header bufs msg)"
proof -
  have "\<not> HIN_HTTPD_MAX_HEADER_LINE_SIZE < length msg" "length msg \<noteq> HIN_HTTPD_MAX_HEADER_LINE_SIZE"
    using assms(2) by auto
  then obtain bufs' where r: "vheader bufs msg = Some (length msg, bufs')" "chain_wf bufs'"
      "chain_text bufs' = chain_text bufs @ msg"
    using vheader_result [OF assms(1), of msg] by auto
  moreover have "2 \<le> hb_count (last bufs')"
    using vheader_last_count [OF assms(1,2) r(1)] assms(3) by linarith
  ultimately show ?thesis by (simp add: prints_def header_def)
qed

definition writes :: "hbuf list \<Rightarrow> string \<Rightarrow> (nat \<times> hbuf list) option \<Rightarrow> bool" where
  "writes bufs u r \<longleftrightarrow>
     (\<exists>st. r = Some st \<and> chain_wf (snd st) \<and> chain_text (snd st) = chain_text bufs @ u)"

lemma prints_bind:
  assumes "prints bufs t r" "\<And>st. prints bufs t (Some st) \<Longrightarrow> writes bufs u (f st)"
  shows "writes bufs u (Option.bind r f)"
proof -
  obtain st where st: "r = Some st" using assms(1) by (auto simp: prints_def)
  have "prints bufs t (Some st)" using assms(1) st by simp
  from assms(2) [OF this] show ?thesis by (simp add: st)
qed

lemma prints_add:
  assumes "prints bufs t (Some st)" "length msg < HIN_HTTPD_MAX_HEADER_LINE_SIZE" "2 \<le> length msg"
  shows "prints bufs (t @ msg) (header_add msg st)"
proof -
  have wf: "chain_wf (snd st)" "chain_text (snd st) = chain_text bufs @ t" "fst st = length t"
    using assms(1) by (auto simp: prints_def)
  show ?thesis
    using prints_header [OF wf(1) assms(2,3)] wf(2,3) assms(3)
    by (auto simp: prints_def header_add_def)
qed

lemma prints_if:
  assumes "prints bufs t (Some st)" "c \<Longrightarrow> length msg < HIN_HTTPD_MAX_HEADER_LINE_SIZE \<and> 2 \<le> length msg"
  shows "prints bufs (t @ (if c then msg else [])) (header_if c msg st)"
  using assms prints_add [OF assms(1), of msg] by (simp add: header_if_def)

lemma chain_drop_text:
  assumes "bufs \<noteq> []" "chain_wf bufs" "n \<le> hb_count (last bufs)"
  shows "chain_wf (chain_drop n bufs) \<and>
         chain_text (chain_drop n bufs) = take (length (chain_text bufs) - n) (chain_text bufs)"
proof -
  obtain bs b where bufs: "bufs = bs @ [b]" using assms(1) by (metis append_butlast_last_id)
  have "chain_text (bs @ cs) = chain_text bs @ chain_text cs" for cs by (simp add: chain_text_def)
  then show ?thesis using assms by (auto simp: bufs chain_drop_def chain_wf_def)
qed

lemma prints_cut:
  assumes "prints bufs t (Some st)" "2 \<le> length t"
  shows "prints (chain_drop 2 (snd st)) CRLF (header (chain_drop 2 (snd st)) CRLF) \<and>
         chain_text (chain_drop 2 (snd st)) = chain_text bufs @ take (length t - 2) t"
proof -
  have s: "chain_wf (snd st)" "chain_text (snd st) = chain_text bufs @ t" "2 \<le> hb_count (last (snd st))"
    "snd st \<noteq> []"
    using assms by (auto simp: prints_def chain_wf_def)
  have "length CRLF = 2" by simp
  with chain_drop_text [OF s(4,1,3)] s(2) assms(2) show ?thesis
    by (auto intro!: prints_header simp: HIN_HTTPD_MAX_HEADER_LINE_SIZE_def)
qed

subsection \<open>The printed directives\<close>

definition cache_words :: "u32 \<Rightarrow> int \<Rightarrow> string list" where
  "cache_words flags age =
     (if has flags HIN_CACHE_PRIVATE then [''private'']
      else if has flags HIN_CACHE_PUBLIC then [''public''] else []) @
     (if has flags HIN_CACHE_MAX_AGE then [''max-age='' @ print_int age] else []) @
     (if has flags HIN_CACHE_IMMUTABLE then [''immutable'']
      else if has flags HIN_CACHE_NO_CACHE then [''no-cache''] else []) @
     (if has flags HIN_CACHE_NO_STORE then [''no-store''] else []) @
     (if has flags HIN_CACHE_NO_TRANSFORM then [''no-transform''] else []) @
     (if has flags HIN_CACHE_MUST_REVALIDATE then [''must-revalidate''] else []) @
     (if has flags HIN_CACHE_PROXY_REVALIDATE then [''proxy-revalidate''] else [])"

definition comma_end :: "string list \<Rightarrow> string" where
  "comma_end ws = concat (map (\<lambda>w. w @ '', '') ws)"

lemma comma_end_simps [simp]:
  "comma_end [] = []" "comma_end (w # ws) = w @ '', '' @ comma_end ws"
  "comma_end (us @ ws) = comma_end us @ comma_end ws"
  by (simp_all add: comma_end_def)

lemma prints_choice:
  assumes "prints bufs t (Some st)" "\<And>m. m \<in> {m1, m2} \<Longrightarrow> length m < HIN_HTTPD_MAX_HEADER_LINE_SIZE \<and> 2 \<le> length m"
  shows "prints bufs (t @ (if c then m1 else if d then m2 else []))
           (if c then header_add m1 st else header_if d m2 st)"
  using assms prints_add [OF assms(1), of m1] prints_if [OF assms(1), of d m2] by simp

definition cache_header :: "u32 \<Rightarrow> int \<Rightarrow> string" where
  "cache_header flags age =
     (let t = ''Cache-Control: '' @ comma_end (cache_words flags age) in take (length t - 2) t @ CRLF)"

lemma cache_words_text:
  "(((((((''Cache-Control: '' @
     (if has flags HIN_CACHE_PRIVATE then ''private, '' else if has flags HIN_CACHE_PUBLIC then ''public, '' else [])) @
     (if has flags HIN_CACHE_MAX_AGE then ''max-age='' @ print_int age @ '', '' else [])) @
     (if has flags HIN_CACHE_IMMUTABLE then ''immutable, '' else if has flags HIN_CACHE_NO_CACHE then ''no-cache, '' else [])) @
     (if has flags HIN_CACHE_NO_STORE then ''no-store, '' else [])) @
     (if has flags HIN_CACHE_NO_TRANSFORM then ''no-transform, '' else [])) @
     (if has flags HIN_CACHE_MUST_REVALIDATE then ''must-revalidate, '' else [])) @
     (if has flags HIN_CACHE_PROXY_REVALIDATE then ''proxy-revalidate, '' else [])) =
   ''Cache-Control: '' @ comma_end (cache_words flags age)"
  by (simp add: cache_words_def)

lemma prints_cache_control:
  assumes "chain_wf bufs" "\<bar>age\<bar> < 10 ^ 20"
  shows "writes bufs (cache_header flags age) (header_cache_control bufs flags age)"
proof -
  have len: "length (print_int age) \<le> 21" using length_print_int [OF assms(2)] .
  note sz = HIN_HTTPD_MAX_HEADER_LINE_SIZE_def
  have start: "prints bufs [] (Some (0, bufs))" using assms(1) by (simp add: prints_def)
  show ?thesis
    unfolding header_cache_control_def
    apply (rule prints_bind [OF prints_add [OF start]], simp add: sz, simp)
    apply (rule prints_bind [OF prints_choice], assumption, force simp: sz)
    apply (rule prints_bind [OF prints_if], assumption, use len in \<open>simp add: sz\<close>)
    apply (rule prints_bind [OF prints_choice], assumption, force simp: sz)
    apply (rule prints_bind [OF prints_if], assumption, simp add: sz)+
    subgoal for st0 st1 st2 st3 st4 st5 st6 st
    proof -
      assume "prints bufs ((((((((([] @ ''Cache-Control: '') @
         (if has flags HIN_CACHE_PRIVATE then ''private, '' else if has flags HIN_CACHE_PUBLIC then ''public, '' else [])) @
         (if has flags HIN_CACHE_MAX_AGE then ''max-age='' @ print_int age @ '', '' else [])) @
         (if has flags HIN_CACHE_IMMUTABLE then ''immutable, '' else if has flags HIN_CACHE_NO_CACHE then ''no-cache, '' else [])) @
         (if has flags HIN_CACHE_NO_STORE then ''no-store, '' else [])) @
         (if has flags HIN_CACHE_NO_TRANSFORM then ''no-transform, '' else [])) @
         (if has flags HIN_CACHE_MUST_REVALIDATE then ''must-revalidate, '' else [])) @
         (if has flags HIN_CACHE_PROXY_REVALIDATE then ''proxy-revalidate, '' else []))) (Some st)"
      then have p: "prints bufs (''Cache-Control: '' @ comma_end (cache_words flags age)) (Some st)"
        using cache_words_text [of flags age] by (simp only: append_Nil)
      show ?thesis
        using prints_cut [OF p] unfolding cache_header_def Let_def
        by (auto simp: prints_def writes_def)
    qed
    done
qed

subsection \<open>Reading the printed directives\<close>

lemma star_specifier [simp]:
  "get_specifier CHR ''*'' = RUN_ALL OR RUN_ZERO" "after_spec (CHR ''*'' # r) = r"
  by (simp_all add: get_specifier_def after_spec_def flag_defs)

lemma star_step:
  assumes "set_mem [CHR ''%'', k] = P"
  shows "match_loop ic (CHR ''%'' # k # CHR ''*'' # r) p n st caps =
     (let m = length (takeWhile P (take n p)) in match_loop ic r (drop m p) (n - m) st caps)"
proof -
  have z: "has (RUN_ALL OR RUN_ZERO) RUN_ZERO" by (simp add: has_def flag_defs)
  have "match_pattern (take n p) [CHR ''%'', k] (RUN_ALL OR RUN_ZERO) = int (length (takeWhile P (take n p)))"
    using assms z by (simp add: match_pattern_pos Let_def)
  then show ?thesis by (simp add: match_loop_class Let_def)
qed

definition opt_char :: "char \<Rightarrow> bool" where
  "opt_char c \<longleftrightarrow> isalnum c \<or> c = CHR ''-'' \<or> c = CHR ''=''"

lemma space_mem: "set_mem ''%s'' = isspace" and digit_mem: "set_mem ''%d'' = isdigit"
  and opt_mem: "set_mem ''%w%-='' = opt_char"
  by (auto simp: set_mem_lit set_mem_esc class_of_def match_char_classes opt_char_def fun_eq_iff)

lemma opt_char_facts:
  "opt_char c \<Longrightarrow> \<not> isspace c" "\<not> opt_char (CHR '','')" "\<not> isspace (CHR '','')" "isspace (CHR '' '')"
  by (auto simp: opt_char_def ctype_defs)

definition opt_word :: "string \<Rightarrow> bool" where
  "opt_word w \<longleftrightarrow> w \<noteq> [] \<and> list_all opt_char w"

lemma takeWhile_hd: "w \<noteq> [] \<Longrightarrow> \<not> P (hd w) \<Longrightarrow> takeWhile P (take n (w @ r)) = []"
  by (cases w; cases n) auto

lemma opt_match:
  assumes "opt_word w" "length w \<le> n" "length w < n \<Longrightarrow> r \<noteq> [] \<and> \<not> opt_char (hd r)"
  shows "match_string \<lparr>sptr = w @ r, slen = n\<rparr> ''%s*([%w%-=]+)'' =
     (int (length w), \<lparr>sptr = r, slen = n - length w\<rparr>, [\<lparr>sptr = w @ r, slen = length w\<rparr>])"
proof -
  have w: "w \<noteq> []" "list_all opt_char w" using assms(1) by (simp_all add: opt_word_def)
  then have "\<not> isspace (hd w)" by (cases w) (auto simp: opt_char_facts)
  then have sp: "takeWhile isspace (take n (w @ r)) = []" using w(1) by (simp add: takeWhile_hd del: take_append)
  have se: "set_end CHR ''['' ''%w%-=]+)'' = Some (''%w%-='', ''+)'')" by simp
  have "match_loop False ''%s*([%w%-=]+)'' (w @ r) n None [] =
      match_loop False ''([%w%-=]+)'' (w @ r) n None []"
    using star_step [OF space_mem, of False "''([%w%-=]+)''" "w @ r" n None "[]"] sp
    by (simp del: take_append)
  also have "\<dots> = match_loop False '')'' r (n - length w) (Some (w @ r, n)) []"
    using set_step [OF se opt_mem _ w assms(2,3), of False "Some (w @ r, n)" "[]"] by simp
  also have "\<dots> = (Some (r, n - length w), [\<lparr>sptr = w @ r, slen = length w\<rparr>])"
    using assms(2) by simp
  finally have m: "match_loop False ''%s*([%w%-=]+)'' (w @ r) n None [] =
      (Some (r, n - length w), [\<lparr>sptr = w @ r, slen = length w\<rparr>])" .
  have "0 < n" using assms(2) w(1) by (cases w) auto
  then show ?thesis
    using assms(2) m by (simp add: match_string_def match_string_virtual_def str_adv_def)
qed

lemma comma_match:
  assumes "opt_word w"
  shows "match_string \<lparr>sptr = '', '' @ w @ r, slen = n + 2\<rparr> ''%s*,%s*'' = (2, \<lparr>sptr = w @ r, slen = n\<rparr>, [])"
proof -
  have "w \<noteq> []" "\<not> isspace (hd w)" using assms by (cases w; auto simp: opt_word_def opt_char_facts)+
  then have sp: "takeWhile isspace (take n (w @ r)) = []" by (simp add: takeWhile_hd del: take_append)
  have "match_loop False ''%s*,%s*'' ('', '' @ w @ r) (n + 2) None [] =
      match_loop False '',%s*'' ('', '' @ w @ r) (n + 2) None []"
    using star_step [OF space_mem, of False "'',%s*''" "'', '' @ w @ r" "n + 2" None "[]"] by (simp add: opt_char_facts)
  also have "\<dots> = match_loop False ''%s*'' ('' '' @ w @ r) (n + 1) None []"
    by (simp add: match_loop_lit)
  also have "\<dots> = (Some (w @ r, n), [])"
    using star_step [OF space_mem, of False "[]" "'' '' @ w @ r" "n + 1" None "[]"] sp
    by (simp add: opt_char_facts Let_def del: take_append)
  finally show ?thesis
    by (simp add: match_string_def match_string_virtual_def str_adv_def)
qed

lemma cache_loop_next:
  assumes "opt_word w" "opt_word w'"
  shows "cache_loop \<lparr>sptr = w @ '', '' @ w' @ r, slen = length w + (n + 2)\<rparr> st =
     cache_loop \<lparr>sptr = w' @ r, slen = n\<rparr> (cache_opt \<lparr>sptr = w @ '', '' @ w' @ r, slen = length w\<rparr> st)"
  using assms(1) opt_match [OF assms(1), of "length w + (n + 2)" "'', '' @ w' @ r"] comma_match [OF assms(2), of r n]
  by (subst cache_loop.simps) (simp add: opt_char_facts opt_word_def)

lemma cache_loop_last:
  assumes "opt_word w"
  shows "cache_loop \<lparr>sptr = w @ r, slen = length w\<rparr> st = cache_opt \<lparr>sptr = w @ r, slen = length w\<rparr> st"
  using assms opt_match [OF assms, of "length w" r]
  by (subst cache_loop.simps) (simp add: opt_word_def match_string_def [of _ "''%s*,%s*''"] match_string_virtual_def)

text \<open>The directives without a value.\<close>

definition directives :: "(string \<times> u32) list" where
  "directives =
     [(''public'', HIN_CACHE_PUBLIC), (''private'', HIN_CACHE_PRIVATE), (''immutable'', HIN_CACHE_IMMUTABLE),
      (''no-cache'', HIN_CACHE_NO_CACHE), (''no-store'', HIN_CACHE_NO_STORE),
      (''no-transform'', HIN_CACHE_NO_TRANSFORM), (''must-revalidate'', HIN_CACHE_MUST_REVALIDATE),
      (''proxy-revalidate'', HIN_CACHE_PROXY_REVALIDATE)]"

lemma starts_word:
  assumes "plain_fmt fmt" "fmt \<noteq> []" "w \<noteq> []"
  shows "starts \<lparr>sptr = w @ r, slen = length w\<rparr> fmt \<longleftrightarrow> take (length fmt) w = fmt"
  using match_string_plain [OF assms(1), of "\<lparr>sptr = w @ r, slen = length w\<rparr>"] assms(2)
  by (simp add: starts_def str_wf_def str_of_def)

lemma match_loop_prefix:
  "plain_fmt fmt \<Longrightarrow> n \<le> length p \<Longrightarrow>
   match_loop ic (fmt @ r) p n st caps =
     (if (let t = take (length fmt) (take n p)
          in if ic then map toupper t = map toupper fmt else t = fmt)
      then match_loop ic r (drop (length fmt) p) (n - length fmt) st caps else (None, caps))"
proof (induction fmt arbitrary: p n)
  case Nil
  then show ?case by simp
next
  case (Cons c f)
  have "match_loop ic ((c # f) @ r) p n st caps =
     (if n = 0 \<or> (if ic then toupper c \<noteq> toupper (at0 p) else c \<noteq> at0 p) then (None, caps)
      else match_loop ic (f @ r) (drop 1 p) (n - 1) st caps)"
    using Cons(2) unfolding append_Cons by (subst match_loop_lit) (auto simp: plain_fmt_def)
  then show ?case
    using Cons by (cases p; cases n) (auto simp: plain_fmt_def Let_def)
qed

lemma no_age:
  assumes "w \<noteq> []" "take 8 w \<noteq> ''max-age=''"
  shows "fst (match_string \<lparr>sptr = w @ r, slen = length w\<rparr> ''max-age=%s*(%d+)'') \<le> 0"
proof -
  have "match_loop False (''max-age='' @ ''%s*(%d+)'') (w @ r) (length w) None [] = (None, [])"
    using assms by (subst match_loop_prefix) (simp_all add: plain_fmt_def eval_nat_numeral)
  then show ?thesis using assms(1) by (simp add: match_string_def match_string_virtual_def)
qed

lemma cache_opt_directive:
  assumes "(w, m) \<in> set directives"
  shows "cache_opt \<lparr>sptr = w @ r, slen = length w\<rparr> (f, age) = (setf f m, age)"
proof -
  define S where "S = \<lparr>sptr = w @ r, slen = length w\<rparr>"
  have w: "w \<noteq> []" "take 8 w \<noteq> ''max-age=''" using assms by (auto simp: directives_def)
  obtain u s c where ms: "match_string S ''max-age=%s*(%d+)'' = (u, s, c)" "\<not> 0 < u"
    using no_age [OF w, of r] by (metis S_def fst_conv prod_cases3 not_le)
  have st: "plain_fmt fmt \<Longrightarrow> fmt \<noteq> [] \<Longrightarrow> starts S fmt \<longleftrightarrow> take (length fmt) w = fmt" for fmt
    using starts_word [OF _ _ w(1)] by (simp add: S_def)
  have "w = ''public'' \<and> m = HIN_CACHE_PUBLIC \<or> w = ''private'' \<and> m = HIN_CACHE_PRIVATE \<or>
      w = ''immutable'' \<and> m = HIN_CACHE_IMMUTABLE \<or> w = ''no-cache'' \<and> m = HIN_CACHE_NO_CACHE \<or>
      w = ''no-store'' \<and> m = HIN_CACHE_NO_STORE \<or> w = ''no-transform'' \<and> m = HIN_CACHE_NO_TRANSFORM \<or>
      w = ''must-revalidate'' \<and> m = HIN_CACHE_MUST_REVALIDATE \<or>
      w = ''proxy-revalidate'' \<and> m = HIN_CACHE_PROXY_REVALIDATE"
    using assms by (simp add: directives_def)
  then have "cache_opt S (f, age) = (setf f m, age)"
    by (elim disjE conjE) (simp_all add: cache_opt_def ms st plain_fmt_def)
  then show ?thesis by (simp add: S_def)
qed

lemma cache_opt_age:
  assumes "n < 2147483648" "r = [] \<or> \<not> isdigit (hd r)"
  shows "cache_opt \<lparr>sptr = ''max-age='' @ print_nat n @ r, slen = length (''max-age='' @ print_nat n)\<rparr> (f, age) =
         (setf f HIN_CACHE_MAX_AGE, int n)"
proof -
  let ?d = "print_nat n"
  have dig: "?d \<noteq> []" "list_all isdigit ?d" using print_nat_digits [of n] by (simp_all add: list_all_iff)
  have "\<not> isspace (hd ?d)" using hd_print_nat [of n] by (auto simp: isdigit_def isspace_def)
  then have sp: "takeWhile isspace (take (length ?d) (?d @ r)) = []" using dig(1) by (simp add: takeWhile_hd del: take_append)
  have "match_loop False ''max-age=%s*(%d+)'' (''max-age='' @ ?d @ r) (length (''max-age='' @ ?d)) None [] =
      match_loop False ''%s*(%d+)'' (?d @ r) (length ?d) None []"
    by (simp add: match_loop_lit)
  also have "\<dots> = match_loop False ''%d+)'' (?d @ r) (length ?d) (Some (?d @ r, length ?d)) []"
    using star_step [OF space_mem, of False "''(%d+)''" "?d @ r" "length ?d" None "[]"] sp by (simp del: take_append)
  also have "\<dots> = match_loop False '')'' r 0 (Some (?d @ r, length ?d)) []"
    using class_step [OF digit_mem dig, of "length ?d" r False "'')''"] by simp
  also have "\<dots> = (Some (r, 0), [\<lparr>sptr = ?d @ r, slen = length ?d\<rparr>])" by simp
  finally show ?thesis
    using atoi_print [OF assms] unfolding cache_opt_def match_string_def match_string_virtual_def by simp
qed

text \<open>A word with its effect on the flags and the age.\<close>

definition no_digit :: "string \<Rightarrow> bool" where
  "no_digit r \<longleftrightarrow> r = [] \<or> \<not> isdigit (hd r)"

definition set_flag :: "u32 \<Rightarrow> u32 \<times> int \<Rightarrow> u32 \<times> int" where
  "set_flag m st = (setf (fst st) m, snd st)"

definition set_age :: "nat \<Rightarrow> u32 \<times> int \<Rightarrow> u32 \<times> int" where
  "set_age n st = (setf (fst st) HIN_CACHE_MAX_AGE, int n)"

definition reads_as :: "string \<Rightarrow> (u32 \<times> int \<Rightarrow> u32 \<times> int) \<Rightarrow> bool" where
  "reads_as w g \<longleftrightarrow> opt_word w \<and>
     (\<forall>r st. no_digit r \<longrightarrow> cache_opt \<lparr>sptr = w @ r, slen = length w\<rparr> st = g st)"

lemma reads_asD:
  "reads_as w g \<Longrightarrow> no_digit r \<Longrightarrow> cache_opt \<lparr>sptr = w @ r, slen = length w\<rparr> st = g st"
  "reads_as w g \<Longrightarrow> opt_word w"
  unfolding reads_as_def by blast+

fun comma_join :: "string list \<Rightarrow> string" where
  "comma_join [] = []"
| "comma_join [w] = w"
| "comma_join (w # ws) = w @ '', '' @ comma_join ws"

lemma comma_join_end: "ws \<noteq> [] \<Longrightarrow> comma_end ws = comma_join ws @ '', ''"
  by (induction ws rule: comma_join.induct) auto

lemma comma_no_digit [simp]: "no_digit (CHR '','' # r)"
  by (simp add: no_digit_def isdigit_def code_def)

lemma cache_loop_words:
  assumes "ws \<noteq> []" "list_all (\<lambda>x. reads_as (fst x) (snd x)) ws" "no_digit r"
  shows "cache_loop \<lparr>sptr = comma_join (map fst ws) @ r, slen = length (comma_join (map fst ws))\<rparr> st =
     fold snd ws st"
  using assms(1,2)
proof (induction ws arbitrary: st rule: induct_list012)
  case (2 x)
  then show ?case using cache_loop_last [of "fst x" r st] assms(3)
    by (simp add: reads_asD)
next
  case (3 x y zs)
  obtain w g w' g' where x: "x = (w, g)" and y: "y = (w', g')" by (cases x; cases y)
  let ?rest = "comma_join (map fst (y # zs))"
  have "\<exists>u. ?rest = w' @ u" using y by (cases zs) auto
  then obtain u where u: "?rest = w' @ u" ..
  have ra: "reads_as w g" "reads_as w' g'" using 3 x y by auto
  note ow = reads_asD(2) [OF ra(1)] reads_asD(2) [OF ra(2)]
  have c: "cache_opt \<lparr>sptr = w @ '', '' @ ?rest @ r, slen = length w\<rparr> st = g st"
    by (rule reads_asD(1) [OF ra(1)]) simp
  have "cache_loop \<lparr>sptr = w @ '', '' @ ?rest @ r, slen = length w + (length ?rest + 2)\<rparr> st =
      cache_loop \<lparr>sptr = ?rest @ r, slen = length ?rest\<rparr> (g st)"
    using cache_loop_next [OF ow, of "u @ r" "length ?rest" st] c unfolding u by simp
  also have "\<dots> = fold snd (y # zs) (g st)"
    using 3 x y by (intro 3(2)) auto
  finally show ?case using x y by (simp add: add_ac)
qed simp

lemma reads_directive: "(w, m) \<in> set directives \<Longrightarrow> reads_as w (set_flag m)"
proof -
  assume w: "(w, m) \<in> set directives"
  then have "opt_word w" by (auto simp: directives_def opt_word_def opt_char_def ctype_defs)
  then show ?thesis using cache_opt_directive [OF w] by (auto simp: reads_as_def set_flag_def)
qed

lemma reads_age: "n < 2147483648 \<Longrightarrow> reads_as (''max-age='' @ print_nat n) (set_age n)"
proof -
  assume n: "n < 2147483648"
  have "opt_word (''max-age='' @ print_nat n)"
    using print_nat_digits [of n] by (auto simp: opt_word_def opt_char_def list_all_iff ctype_defs)
  then show ?thesis
    using cache_opt_age [OF n] unfolding reads_as_def no_digit_def set_age_def
    by (metis append_assoc fst_conv prod.collapse)
qed

text \<open>The directives \<open>header_cache_control\<close> prints, and what they set.\<close>

definition item_if :: "bool \<Rightarrow> string \<Rightarrow> 'a \<Rightarrow> (string \<times> 'a) list" where
  "item_if c w g = (if c then [(w, g)] else [])"

definition cache_items :: "u32 \<Rightarrow> nat \<Rightarrow> (string \<times> (u32 \<times> int \<Rightarrow> u32 \<times> int)) list" where
  "cache_items flags n =
     item_if (has flags HIN_CACHE_PRIVATE) ''private'' (set_flag HIN_CACHE_PRIVATE) @
     item_if (has flags HIN_CACHE_PUBLIC \<and> \<not> has flags HIN_CACHE_PRIVATE) ''public'' (set_flag HIN_CACHE_PUBLIC) @
     item_if (has flags HIN_CACHE_MAX_AGE) (''max-age='' @ print_nat n) (set_age n) @
     item_if (has flags HIN_CACHE_IMMUTABLE) ''immutable'' (set_flag HIN_CACHE_IMMUTABLE) @
     item_if (has flags HIN_CACHE_NO_CACHE \<and> \<not> has flags HIN_CACHE_IMMUTABLE) ''no-cache'' (set_flag HIN_CACHE_NO_CACHE) @
     item_if (has flags HIN_CACHE_NO_STORE) ''no-store'' (set_flag HIN_CACHE_NO_STORE) @
     item_if (has flags HIN_CACHE_NO_TRANSFORM) ''no-transform'' (set_flag HIN_CACHE_NO_TRANSFORM) @
     item_if (has flags HIN_CACHE_MUST_REVALIDATE) ''must-revalidate'' (set_flag HIN_CACHE_MUST_REVALIDATE) @
     item_if (has flags HIN_CACHE_PROXY_REVALIDATE) ''proxy-revalidate'' (set_flag HIN_CACHE_PROXY_REVALIDATE)"

lemma cache_items_words: "map fst (cache_items flags n) = cache_words flags (int n)"
  by (simp add: cache_items_def item_if_def cache_words_def print_int_def)

lemma item_if_ok: "(c \<Longrightarrow> reads_as w g) \<Longrightarrow> list_all (\<lambda>x. reads_as (fst x) (snd x)) (item_if c w g)"
  by (simp add: item_if_def)

lemma cache_items_ok:
  "n < 2147483648 \<Longrightarrow> list_all (\<lambda>x. reads_as (fst x) (snd x)) (cache_items flags n)"
  unfolding cache_items_def list_all_append
  by (intro conjI item_if_ok reads_directive reads_age) (simp_all add: directives_def)

lemma fold_item_flag:
  "has (fst (fold snd (item_if c w (set_flag m)) st)) k \<longleftrightarrow> has (fst st) k \<or> c \<and> has m k"
  "snd (fold snd (item_if c w (set_flag m)) st) = snd st"
  by (simp_all add: item_if_def set_flag_def)

lemma fold_item_age:
  "has (fst (fold snd (item_if c w (set_age n)) st)) k \<longleftrightarrow> has (fst st) k \<or> c \<and> has HIN_CACHE_MAX_AGE k"
  "snd (fold snd (item_if c w (set_age n)) st) = (if c then int n else snd st)"
  by (simp_all add: item_if_def set_age_def)

definition cache_kept :: "u32 \<Rightarrow> u32 \<Rightarrow> bool" where
  "cache_kept flags m \<longleftrightarrow> has flags m \<and> \<not> (m = HIN_CACHE_PUBLIC \<and> has flags HIN_CACHE_PRIVATE) \<and>
     \<not> (m = HIN_CACHE_NO_CACHE \<and> has flags HIN_CACHE_IMMUTABLE)"

definition cache_masks :: "u32 set" where
  "cache_masks = insert HIN_CACHE_MAX_AGE (snd ` set directives)"

lemma fold_cache_items:
  "snd (fold snd (cache_items flags n) (0, age)) = (if has flags HIN_CACHE_MAX_AGE then int n else age)"
  "\<forall>m\<in>cache_masks. has (fst (fold snd (cache_items flags n) (0, age))) m = cache_kept flags m"
proof -
  show "snd (fold snd (cache_items flags n) (0, age)) = (if has flags HIN_CACHE_MAX_AGE then int n else age)"
    unfolding cache_items_def fold_append o_apply by (simp only: fold_item_flag fold_item_age snd_conv)
  have "has (fst (fold snd (cache_items flags n) (0, age))) m =
      (has flags HIN_CACHE_PRIVATE \<and> has HIN_CACHE_PRIVATE m \<or>
       (has flags HIN_CACHE_PUBLIC \<and> \<not> has flags HIN_CACHE_PRIVATE) \<and> has HIN_CACHE_PUBLIC m \<or>
       has flags HIN_CACHE_MAX_AGE \<and> has HIN_CACHE_MAX_AGE m \<or>
       has flags HIN_CACHE_IMMUTABLE \<and> has HIN_CACHE_IMMUTABLE m \<or>
       (has flags HIN_CACHE_NO_CACHE \<and> \<not> has flags HIN_CACHE_IMMUTABLE) \<and> has HIN_CACHE_NO_CACHE m \<or>
       has flags HIN_CACHE_NO_STORE \<and> has HIN_CACHE_NO_STORE m \<or>
       has flags HIN_CACHE_NO_TRANSFORM \<and> has HIN_CACHE_NO_TRANSFORM m \<or>
       has flags HIN_CACHE_MUST_REVALIDATE \<and> has HIN_CACHE_MUST_REVALIDATE m \<or>
       has flags HIN_CACHE_PROXY_REVALIDATE \<and> has HIN_CACHE_PROXY_REVALIDATE m)" for m
    unfolding cache_items_def fold_append o_apply
    by (simp only: fold_item_flag fold_item_age fst_conv has_0) blast
  then show "\<forall>m\<in>cache_masks. has (fst (fold snd (cache_items flags n) (0, age))) m = cache_kept flags m"
    unfolding cache_masks_def directives_def cache_kept_def
    by (simp add: has_def [of "_ :: u32" "_ :: u32"] flag_defs)
qed

text \<open>
  C27: printing and reading \<open>Cache-Control\<close> are inverse: when at least one directive is printed,
  the header appended to the chain is the directives separated by commas, and reading them back
  gives the same flags and age, except that \<open>private\<close> hides \<open>public\<close> and \<open>immutable\<close> hides
  \<open>no-cache\<close>.
\<close>

theorem cache_control_roundtrip:
  assumes "chain_wf bufs" "n < 2147483648" "cache_words flags (int n) \<noteq> []" "no_digit rest"
  shows "\<exists>st. header_cache_control bufs flags (int n) = Some st \<and>
     chain_text (snd st) = chain_text bufs @ ''Cache-Control: '' @ comma_join (cache_words flags (int n)) @ CRLF \<and>
     (case httpd_parse_cache_str (comma_join (cache_words flags (int n)) @ rest)
             (length (comma_join (cache_words flags (int n)))) age of
        (flags', age') \<Rightarrow>
          age' = (if has flags HIN_CACHE_MAX_AGE then int n else age) \<and>
          (\<forall>m\<in>cache_masks. has flags' m = cache_kept flags m))"
proof -
  let ?ws = "cache_items flags n"
  let ?v = "comma_join (cache_words flags (int n))"
  have ne: "?ws \<noteq> []" using assms(3) cache_items_words [of flags n] by auto
  have "cache_header flags (int n) = ''Cache-Control: '' @ ?v @ CRLF"
    using comma_join_end [OF assms(3)] by (simp add: cache_header_def)
  moreover have "writes bufs (cache_header flags (int n)) (header_cache_control bufs flags (int n))"
    using assms(2) by (intro prints_cache_control [OF assms(1)]) simp
  moreover have loop: "cache_loop \<lparr>sptr = ?v @ rest, slen = length ?v\<rparr> (0, age) = fold snd ?ws (0, age)"
    using cache_loop_words [OF ne cache_items_ok [OF assms(2)] assms(4)] by (simp only: cache_items_words)
  moreover have "?v \<noteq> []"
  proof -
    obtain w ws where "cache_words flags (int n) = w # ws" using assms(3) by (cases "cache_words flags (int n)") auto
    moreover have "w \<noteq> []" using calculation cache_items_ok [OF assms(2), of flags] cache_items_words [of flags n]
      by (cases ?ws) (auto simp: reads_as_def opt_word_def)
    ultimately show ?thesis by (cases ws) auto
  qed
  ultimately show ?thesis
    using fold_cache_items [of flags n age]
    by (auto simp: writes_def httpd_parse_cache_str_def split: prod.split)
qed

theorem cache_control_roundtrip_witness:
  "\<exists>st. header_cache_control [new_buffer 0] (HIN_CACHE_PUBLIC OR HIN_CACHE_MAX_AGE) 60 = Some st \<and>
     chain_text (snd st) = ''Cache-Control: public, max-age='' @ print_nat 60 @ CRLF"
proof -
  have ws: "cache_words (HIN_CACHE_PUBLIC OR HIN_CACHE_MAX_AGE) (int 60) = [''public'', ''max-age='' @ print_nat 60]"
    by (simp add: cache_words_def print_int_def flag_defs has_def)
  have "chain_wf [new_buffer 0]" "no_digit []" by (simp_all add: chain_wf_def no_digit_def)
  note rt = cache_control_roundtrip [OF this(1) _ _ this(2), of 60 "HIN_CACHE_PUBLIC OR HIN_CACHE_MAX_AGE", unfolded ws]
  have "(60 :: nat) < 2147483648" "[''public'', ''max-age='' @ print_nat 60] \<noteq> []" by simp_all
  from rt [OF this] obtain st where "header_cache_control [new_buffer 0] (HIN_CACHE_PUBLIC OR HIN_CACHE_MAX_AGE) (int 60) = Some st"
    "chain_text (snd st) = chain_text [new_buffer 0] @ ''Cache-Control: '' @
       comma_join [''public'', ''max-age='' @ print_nat 60] @ CRLF"
    by blast
  then show ?thesis by simp
qed

end
