(* ===== verification/Hashtable.thy ===== *)
theory Hashtable
  imports Prelude
begin

text \<open>
  \<open>external/basic/basic_hashtable.c\<close>: the chained hash table keyed by a pair of 64-bit hashes.
  A bin is the list of the pairs reachable from its head pointer, so \<open>pair->next\<close> is the tail.
  A table pointer that may be NULL is an \<open>option\<close>.  The locale \<open>kv_store\<close> is the contract the
  cache, the virtual hosts, the children table and the inotify table rely on; it is
  interpreted on the operations of the code.
\<close>

record ht_pair =
  key1 :: u64
  key2 :: u64
  value1 :: u64
  value2 :: u64

record ht =
  ht_size :: int
  ht_seed :: u64
  ht_mask :: u64
  ht_table :: "ht_pair list list"

definition INT_MAX :: int where "INT_MAX = 2147483647"

text \<open>The doubling loop; \<open>None\<close> is the signed overflow of \<open>pow * 2\<close>, undefined in C.\<close>

partial_function (option) pow_loop :: "int \<Rightarrow> int \<Rightarrow> int option" where
  "pow_loop num pow =
     (if pow < num then (if INT_MAX < pow * 2 then None else pow_loop num (pow * 2))
      else Some pow)"

definition isPowerOfTwo :: "int \<Rightarrow> int option" where
  "isPowerOfTwo num =
     (if num \<le> 0 then Some 0
      else map_option (\<lambda>pow. if num = pow then 1 else 0) (pow_loop num 1))"

text \<open>\<open>alloc\<close> says whether \<open>calloc\<close> succeeds; the result pairs the return code with the table.\<close>

definition basic_ht_init :: "bool \<Rightarrow> ht \<Rightarrow> int \<Rightarrow> u64 \<Rightarrow> (int \<times> ht) option" where
  "basic_ht_init alloc h sz seed =
     (if sz < 1 then Some (-1, h)
      else case isPowerOfTwo sz of None \<Rightarrow> None
        | Some r \<Rightarrow>
            if r = 0 then Some (-1, h) else
            (let h = h\<lparr>ht_size := sz, ht_mask := word_of_int (sz - 1), ht_seed := seed\<rparr>
             in if alloc then Some (0, h\<lparr>ht_table := replicate (nat sz) []\<rparr>)
                else Some (-1, h)))"

definition basic_ht_create :: "bool \<Rightarrow> int \<Rightarrow> u64 \<Rightarrow> ht option option" where
  "basic_ht_create alloc sz seed =
     map_option (\<lambda>(ret, h). if ret < 0 then None else Some h)
       (basic_ht_init alloc \<lparr>ht_size = 0, ht_seed = 0, ht_mask = 0, ht_table = []\<rparr> sz seed)"

subsection \<open>Hashing\<close>

fun hash_loop :: "string \<Rightarrow> u64 \<Rightarrow> u64 \<Rightarrow> u64 \<times> u64" where
  "hash_loop [] h1 h2 = (h1, h2)"
| "hash_loop (c # s) h1 h2 =
     hash_loop s ((push_bit 5 h1 + h1) + word_of_int (schar c))
                 ((push_bit 3 h2 + h2) + word_of_int (schar c))"

definition basic_ht_hash :: "string \<Rightarrow> u64 \<Rightarrow> u64 \<times> u64" where
  "basic_ht_hash s seed = hash_loop s (5381 * seed) (6883 * seed)"

definition basic_ht_hash_continue :: "string \<Rightarrow> u64 \<Rightarrow> u64 \<Rightarrow> u64 \<times> u64" where
  "basic_ht_hash_continue s h1 h2 = hash_loop s h1 h2"

subsection \<open>Chains and the operations on a table\<close>

definition bin_of :: "ht \<Rightarrow> u64 \<Rightarrow> nat" where
  "bin_of h k1 = unat (k1 AND ht_mask h)"

abbreviation pair_is :: "u64 \<Rightarrow> u64 \<Rightarrow> ht_pair \<Rightarrow> bool" where
  "pair_is k1 k2 p \<equiv> key1 p = k1 \<and> key2 p = k2"

fun basic_ht_get_pair :: "ht option \<Rightarrow> u64 \<Rightarrow> u64 \<Rightarrow> ht_pair option" where
  "basic_ht_get_pair None k1 k2 = None"
| "basic_ht_get_pair (Some h) k1 k2 = find (pair_is k1 k2) (ht_table h ! bin_of h k1)"

fun chain_set :: "u64 \<Rightarrow> u64 \<Rightarrow> u64 \<Rightarrow> u64 \<Rightarrow> ht_pair list \<Rightarrow> ht_pair list" where
  "chain_set k1 k2 v1 v2 [] = [\<lparr>key1 = k1, key2 = k2, value1 = v1, value2 = v2\<rparr>]"
| "chain_set k1 k2 v1 v2 (p # ps) =
     (if pair_is k1 k2 p then p\<lparr>value1 := v1, value2 := v2\<rparr> # ps
      else p # chain_set k1 k2 v1 v2 ps)"

fun basic_ht_set_pair :: "ht option \<Rightarrow> u64 \<Rightarrow> u64 \<Rightarrow> u64 \<Rightarrow> u64 \<Rightarrow> int \<times> ht option" where
  "basic_ht_set_pair None k1 k2 v1 v2 = (-1, None)"
| "basic_ht_set_pair (Some h) k1 k2 v1 v2 =
     (let b = bin_of h k1 in
      (0, Some (h\<lparr>ht_table := (ht_table h)[b := chain_set k1 k2 v1 v2 (ht_table h ! b)]\<rparr>)))"

fun chain_del :: "u64 \<Rightarrow> u64 \<Rightarrow> ht_pair list \<Rightarrow> int \<times> ht_pair list" where
  "chain_del k1 k2 [] = (0, [])"
| "chain_del k1 k2 (p # ps) =
     (if pair_is k1 k2 p then (1, ps)
      else (case chain_del k1 k2 ps of (r, ps') \<Rightarrow> (r, p # ps')))"

fun basic_ht_delete_pair :: "ht option \<Rightarrow> u64 \<Rightarrow> u64 \<Rightarrow> int \<times> ht option" where
  "basic_ht_delete_pair None k1 k2 = (-1, None)"
| "basic_ht_delete_pair (Some h) k1 k2 =
     (let b = bin_of h k1 in
      case chain_del k1 k2 (ht_table h ! b) of
        (r, ps) \<Rightarrow> (r, Some (h\<lparr>ht_table := (ht_table h)[b := ps]\<rparr>)))"

text \<open>The iterator: \<open>it_pair\<close> is the bin and position of the pair it points at.\<close>

record ht_iter =
  it_bin :: nat
  it_pair :: "(nat \<times> nat) option"

fun iter_scan :: "ht_pair list list \<Rightarrow> nat \<Rightarrow> nat \<Rightarrow> ht_iter \<Rightarrow> ht_iter \<times> (nat \<times> nat) option" where
  "iter_scan t i 0 it = (it, None)"
| "iter_scan t i (Suc n) it =
     (if t ! i \<noteq> [] then (\<lparr>it_bin = i + 1, it_pair = Some (i, 0)\<rparr>, Some (i, 0))
      else iter_scan t (i + 1) n (it\<lparr>it_pair := None\<rparr>))"

fun basic_ht_iterate_pair :: "ht option \<Rightarrow> ht_iter \<Rightarrow> ht_iter \<times> (nat \<times> nat) option" where
  "basic_ht_iterate_pair None it = (it, None)"
| "basic_ht_iterate_pair (Some h) it =
     (case it_pair it of
        Some (b, j) \<Rightarrow>
          if Suc j < length (ht_table h ! b)
          then (it\<lparr>it_pair := Some (b, Suc j)\<rparr>, Some (b, Suc j))
          else iter_scan (ht_table h) (it_bin it) (nat (ht_size h) - it_bin it) it
      | None \<Rightarrow> iter_scan (ht_table h) (it_bin it) (nat (ht_size h) - it_bin it) it)"

text \<open>The callers' loop \<open>while ((pair = basic_ht_iterate_pair (ht, &iter)) != NULL)\<close>.\<close>

fun ht_collect :: "nat \<Rightarrow> ht \<Rightarrow> ht_iter \<Rightarrow> ht_pair list option" where
  "ht_collect 0 h it = None"
| "ht_collect (Suc n) h it =
     (case basic_ht_iterate_pair (Some h) it of
        (it', None) \<Rightarrow> Some []
      | (it', Some (b, j)) \<Rightarrow> map_option ((#) (ht_table h ! b ! j)) (ht_collect n h it'))"

definition ht_iter0 :: ht_iter where
  "ht_iter0 = \<lparr>it_bin = 0, it_pair = None\<rparr>"


subsection \<open>Powers of two\<close>

lemma pow_loop_step:
  "pow < num \<Longrightarrow> pow * 2 \<le> INT_MAX \<Longrightarrow> pow_loop num pow = pow_loop num (pow * 2)"
  by (subst pow_loop.simps) simp

lemma pow_loop_pow2:
  assumes "i + d \<le> 30" "num \<le> 2 ^ (i + d)" "\<forall>j<i + d. (2::int) ^ j < num"
  shows "pow_loop num (2 ^ i) = Some (2 ^ (i + d))"
  using assms
proof (induction d arbitrary: i)
  case 0
  then show ?case by (subst pow_loop.simps) simp
next
  case (Suc d)
  have "Suc i \<le> 30" using Suc.prems(1) by simp
  then have "(2::int) ^ Suc i \<le> 2 ^ 30" by (rule power_increasing) simp
  then have le: "(2::int) ^ i * 2 \<le> INT_MAX" unfolding INT_MAX_def by simp
  have "(2::int) ^ i < num" using Suc.prems(3) by simp
  from pow_loop_step [OF this le]
  have "pow_loop num (2 ^ i) = pow_loop num (2 ^ Suc i)" by (simp only: power_Suc2)
  also have "\<dots> = Some (2 ^ (i + Suc d))"
    using Suc.IH [of "Suc i"] Suc.prems by simp
  finally show ?case .
qed

lemma pow_bracket:
  assumes "0 < num" "num \<le> (2::int) ^ 30"
  obtains k where "k \<le> 30" "num \<le> 2 ^ k" "\<forall>j<k. (2::int) ^ j < num"
proof
  let ?k = "LEAST k. num \<le> (2::int) ^ k"
  show "?k \<le> 30" using assms(2) by (rule Least_le)
  show "num \<le> 2 ^ ?k" using assms(2) by (rule LeastI)
  show "\<forall>j<?k. (2::int) ^ j < num" using not_less_Least by (metis not_le)
qed

lemma isPowerOfTwo_total:
  assumes "num \<le> 2 ^ 30"
  shows "isPowerOfTwo num = Some (if 0 < num \<and> (\<exists>k. num = 2 ^ k) then 1 else 0)"
proof (cases "0 < num")
  case True
  then obtain k where k: "k \<le> 30" "num \<le> 2 ^ k" "\<forall>j<k. (2::int) ^ j < num"
    using pow_bracket assms by blast
  have "pow_loop num 1 = Some (2 ^ k)"
    using pow_loop_pow2 [of 0 k num] k by simp
  moreover have "m = k" if "num = 2 ^ m" for m
    using k(2,3) that by (metis nat_neq_iff not_le order_less_irrefl power_strict_increasing_iff
        one_less_numeral_iff semiring_norm(76))
  then have "(\<exists>m. num = 2 ^ m) \<longleftrightarrow> num = 2 ^ k" by blast
  ultimately show ?thesis using True by (simp add: isPowerOfTwo_def)
qed (simp add: isPowerOfTwo_def)

lemma pow_loop_overflow:
  assumes "(2::int) ^ 30 < num"
  shows "i \<le> 30 \<Longrightarrow> pow_loop num (2 ^ i) = None"
proof (induction "30 - i" arbitrary: i)
  case 0
  then show ?case using assms by (subst pow_loop.simps) (simp add: INT_MAX_def)
next
  case (Suc m)
  then have "i < 30" by simp
  have "(2::int) ^ i \<le> 2 ^ 30" using \<open>i < 30\<close> by (intro power_increasing) auto
  moreover have "pow_loop num (2 ^ i * 2) = None"
    using Suc.hyps(1) [of "Suc i"] Suc.hyps(2) \<open>i < 30\<close> by (simp add: mult.commute [of 2])
  ultimately show ?case using assms by (simp add: pow_loop.simps [of num "2 ^ i"])
qed

subsection \<open>Well-formed tables and their abstraction\<close>

definition ht_wf :: "ht \<Rightarrow> bool" where
  "ht_wf h \<longleftrightarrow> (\<exists>n\<le>30. ht_size h = 2 ^ n \<and> ht_mask h = mask n \<and>
     length (ht_table h) = 2 ^ n) \<and>
     (\<forall>b<length (ht_table h). \<forall>p\<in>set (ht_table h ! b). bin_of h (key1 p) = b) \<and>
     (\<forall>b<length (ht_table h). distinct (map (\<lambda>p. (key1 p, key2 p)) (ht_table h ! b)))"

definition ht_lookup :: "ht \<Rightarrow> u64 \<times> u64 \<Rightarrow> (u64 \<times> u64) option" where
  "ht_lookup h k = map_option (\<lambda>p. (value1 p, value2 p)) (basic_ht_get_pair (Some h) (fst k) (snd k))"

definition ht_put :: "ht \<Rightarrow> u64 \<times> u64 \<Rightarrow> u64 \<times> u64 \<Rightarrow> ht" where
  "ht_put h k v = the (snd (basic_ht_set_pair (Some h) (fst k) (snd k) (fst v) (snd v)))"

definition ht_del :: "ht \<Rightarrow> u64 \<times> u64 \<Rightarrow> ht" where
  "ht_del h k = the (snd (basic_ht_delete_pair (Some h) (fst k) (snd k)))"

lemma bin_of_less: "ht_wf h \<Longrightarrow> bin_of h k < length (ht_table h)"
  by (auto simp: ht_wf_def bin_of_def take_bit_eq_mask [symmetric] unsigned_take_bit_eq)

lemma bin_of_table [simp]: "bin_of (h\<lparr>ht_table := t\<rparr>) k = bin_of h k"
  by (simp add: bin_of_def)

lemma find_chain_set:
  "find (pair_is a b) (chain_set k1 k2 v1 v2 ps) =
   (if a = k1 \<and> b = k2
    then Some (case find (pair_is k1 k2) ps of
        None \<Rightarrow> \<lparr>key1 = k1, key2 = k2, value1 = v1, value2 = v2\<rparr>
      | Some p \<Rightarrow> p\<lparr>value1 := v1, value2 := v2\<rparr>)
    else find (pair_is a b) ps)"
  by (induction ps) auto

lemma keys_chain_set:
  "map (\<lambda>p. (key1 p, key2 p)) (chain_set k1 k2 v1 v2 ps) =
   (if (k1, k2) \<in> set (map (\<lambda>p. (key1 p, key2 p)) ps) then map (\<lambda>p. (key1 p, key2 p)) ps
    else map (\<lambda>p. (key1 p, key2 p)) ps @ [(k1, k2)])"
  by (induction ps) (auto simp: eq_commute)

lemma key1_chain_set:
  "p \<in> set (chain_set k1 k2 v1 v2 ps) \<Longrightarrow> key1 p = k1 \<or> key1 p \<in> key1 ` set ps"
  by (induction ps) (auto split: if_splits)

lemma chain_del_filter:
  "distinct (map (\<lambda>p. (key1 p, key2 p)) ps) \<Longrightarrow>
   chain_del k1 k2 ps = (if \<exists>p\<in>set ps. pair_is k1 k2 p then 1 else 0,
                         filter (\<lambda>p. key1 p = k1 \<longrightarrow> key2 p \<noteq> k2) ps)"
proof (induction ps)
  case (Cons p ps)
  show ?case
  proof (cases "pair_is k1 k2 p")
    case True
    then have "filter (\<lambda>p. key1 p = k1 \<longrightarrow> key2 p \<noteq> k2) ps = ps"
      using Cons.prems by (auto simp: filter_id_conv image_iff)
    then show ?thesis using True by simp
  next
    case False
    then show ?thesis using Cons by auto
  qed
qed simp

lemma find_filter_neq:
  "find (pair_is a b) (filter (\<lambda>p. key1 p = k1 \<longrightarrow> key2 p \<noteq> k2) ps) =
   (if a = k1 \<and> b = k2 then None else find (pair_is a b) ps)"
  by (induction ps) auto

lemma ht_wf_update:
  assumes "ht_wf h" "b < length (ht_table h)" "\<forall>p\<in>set ps. bin_of h (key1 p) = b"
    and "distinct (map (\<lambda>p. (key1 p, key2 p)) ps)"
  shows "ht_wf (h\<lparr>ht_table := (ht_table h)[b := ps]\<rparr>)"
  using assms by (auto simp: ht_wf_def nth_list_update)

lemma bin_nth_update:
  "ht_wf h \<Longrightarrow> (ht_table h)[bin_of h k := ps] ! bin_of h a =
     (if bin_of h k = bin_of h a then ps else ht_table h ! bin_of h a)"
  by (auto simp: nth_list_update bin_of_less)

lemma ht_wf_chain:
  "ht_wf h \<Longrightarrow> distinct (map (\<lambda>p. (key1 p, key2 p)) (ht_table h ! bin_of h k))"
  "ht_wf h \<Longrightarrow> p \<in> set (ht_table h ! bin_of h k) \<Longrightarrow> bin_of h (key1 p) = bin_of h k"
  using bin_of_less [of h k] by (auto simp: ht_wf_def)

lemma ht_wf_put:
  assumes "ht_wf h"
  shows "ht_wf (ht_put h k v)"
proof -
  let ?ps = "ht_table h ! bin_of h (fst k)"
  have "\<forall>p\<in>set (chain_set (fst k) (snd k) (fst v) (snd v) ?ps). bin_of h (key1 p) = bin_of h (fst k)"
    using key1_chain_set ht_wf_chain(2) [OF assms] by fastforce
  moreover have "distinct (map (\<lambda>p. (key1 p, key2 p)) (chain_set (fst k) (snd k) (fst v) (snd v) ?ps))"
    using ht_wf_chain(1) [OF assms, of "fst k"] by (auto simp: keys_chain_set)
  ultimately show ?thesis
    using assms by (simp add: ht_put_def Let_def ht_wf_update bin_of_less)
qed

lemma ht_del_eq:
  "ht_wf h \<Longrightarrow> ht_del h k = h\<lparr>ht_table := (ht_table h)[bin_of h (fst k) :=
     filter (\<lambda>p. key1 p = fst k \<longrightarrow> key2 p \<noteq> snd k) (ht_table h ! bin_of h (fst k))]\<rparr>"
  by (simp add: ht_del_def Let_def chain_del_filter ht_wf_chain)

lemma ht_wf_del: "ht_wf h \<Longrightarrow> ht_wf (ht_del h k)"
  by (auto simp: ht_del_eq ht_wf_chain bin_of_less distinct_map_filter intro!: ht_wf_update)

lemma ht_lookup_put: "ht_wf h \<Longrightarrow> ht_lookup (ht_put h k v) = (ht_lookup h)(k \<mapsto> v)"
proof (rule ext)
  fix k' :: "u64 \<times> u64"
  assume wf: "ht_wf h"
  obtain a b c d where eq: "k = (a, b)" "k' = (c, d)" by (meson surj_pair)
  show "ht_lookup (ht_put h k v) k' = ((ht_lookup h)(k \<mapsto> v)) k'"
    using wf unfolding eq
    by (cases "find (pair_is a b) (ht_table h ! bin_of h a)")
       (auto simp: ht_lookup_def ht_put_def Let_def bin_nth_update find_chain_set)
qed

lemma ht_lookup_del: "ht_wf h \<Longrightarrow> ht_lookup (ht_del h k) = (ht_lookup h)(k := None)"
proof (rule ext)
  fix k' :: "u64 \<times> u64"
  assume wf: "ht_wf h"
  obtain a b c d where eq: "k = (a, b)" "k' = (c, d)" by (meson surj_pair)
  show "ht_lookup (ht_del h k) k' = ((ht_lookup h)(k := None)) k'"
    using wf unfolding eq
    by (auto simp: ht_lookup_def ht_del_eq bin_nth_update find_filter_neq)
qed


subsection \<open>Iteration\<close>

lemma iter_scan_eq:
  "i + n = length t \<Longrightarrow>
   iter_scan t i n it =
     (case filter (\<lambda>b. t ! b \<noteq> []) [i..<length t] of
        [] \<Rightarrow> (it\<lparr>it_pair := if n = 0 then it_pair it else None\<rparr>, None)
      | b # _ \<Rightarrow> (\<lparr>it_bin = b + 1, it_pair = Some (b, 0)\<rparr>, Some (b, 0)))"
proof (induction n arbitrary: i it)
  case (Suc n)
  then have "[i..<length t] = i # [Suc i..<length t]" "Suc i + n = length t"
    by (simp_all add: upt_conv_Cons)
  with Suc.IH [of "Suc i"] show ?case by (simp split: list.splits)
qed simp

lemma concat_scan:
  "i \<le> length t \<Longrightarrow> concat (drop i t) =
     (case filter (\<lambda>b. t ! b \<noteq> []) [i..<length t] of
        [] \<Rightarrow> [] | b # _ \<Rightarrow> t ! b @ concat (drop (Suc b) t))"
proof (induction "length t - i" arbitrary: i)
  case (Suc m)
  then have "i < length t" by simp
  then have "[i..<length t] = i # [Suc i..<length t]" "drop i t = t ! i # drop (Suc i) t"
    by (simp_all add: upt_conv_Cons Cons_nth_drop_Suc)
  with Suc \<open>i < length t\<close> show ?case by (auto split: list.splits)
qed simp

definition iter_rest :: "ht \<Rightarrow> ht_iter \<Rightarrow> ht_pair list" where
  "iter_rest h it = (case it_pair it of None \<Rightarrow> []
     | Some (b, j) \<Rightarrow> drop (Suc j) (ht_table h ! b)) @ concat (drop (it_bin it) (ht_table h))"

definition iter_ok :: "ht \<Rightarrow> ht_iter \<Rightarrow> bool" where
  "iter_ok h it \<longleftrightarrow> nat (ht_size h) = length (ht_table h) \<and> it_bin it \<le> length (ht_table h) \<and>
     (\<forall>b j. it_pair it = Some (b, j) \<longrightarrow> j < length (ht_table h ! b))"

lemma iterate_pair_step:
  assumes "iter_ok h it"
  shows "case basic_ht_iterate_pair (Some h) it of
      (it', None) \<Rightarrow> iter_rest h it = []
    | (it', Some (b, j)) \<Rightarrow> iter_rest h it = ht_table h ! b ! j # iter_rest h it' \<and> iter_ok h it'"
proof -
  let ?t = "ht_table h"
  have scan: "case iter_scan ?t (it_bin it) (nat (ht_size h) - it_bin it) it of
      (it', None) \<Rightarrow> concat (drop (it_bin it) ?t) = []
    | (it', Some (b, j)) \<Rightarrow> concat (drop (it_bin it) ?t) = ?t ! b ! j # iter_rest h it' \<and> iter_ok h it'"
  proof (cases "filter (\<lambda>b. ?t ! b \<noteq> []) [it_bin it..<length ?t]")
    case Nil
    with assms show ?thesis by (simp add: iter_ok_def iter_scan_eq concat_scan)
  next
    case (Cons b bs)
    then have "b \<in> set (filter (\<lambda>b. ?t ! b \<noteq> []) [it_bin it..<length ?t])" by simp
    then have b: "b < length ?t" "?t ! b \<noteq> []" by auto
    then have "?t ! b = ?t ! b ! 0 # drop (Suc 0) (?t ! b)" by (simp add: Cons_nth_drop_Suc)
    with Cons b assms show ?thesis
      by (simp add: iter_ok_def iter_rest_def iter_scan_eq concat_scan [of "it_bin it" ?t])
  qed
  show ?thesis
  proof (cases "it_pair it")
    case None
    then have "iter_rest h it = concat (drop (it_bin it) ?t)" by (simp add: iter_rest_def)
    with None show ?thesis
      using scan by (simp split: prod.splits option.splits)
  next
    case (Some p)
    obtain b j where p: "it_pair it = Some (b, j)" using Some by (cases p) auto
    with assms have "j < length (?t ! b)" by (simp add: iter_ok_def)
    then show ?thesis
      using scan assms p
      by (auto simp: iter_rest_def iter_ok_def Cons_nth_drop_Suc [symmetric] split: prod.splits option.splits)
  qed
qed

lemma ht_collect_rest:
  "iter_ok h it \<Longrightarrow> length (iter_rest h it) < n \<Longrightarrow> ht_collect n h it = Some (iter_rest h it)"
proof (induction n arbitrary: it)
  case (Suc n)
  then show ?case
    using iterate_pair_step [OF Suc.prems(1)]
    by (auto split: prod.splits option.splits)
qed simp


subsection \<open>The contract of the table and its clients' lemmas\<close>

datatype ('k, 'v) kv_op = Put 'k 'v | Del 'k

locale kv_store =
  fixes lookup :: "'s \<Rightarrow> 'k \<Rightarrow> 'v option"
    and put :: "'s \<Rightarrow> 'k \<Rightarrow> 'v \<Rightarrow> 's"
    and del :: "'s \<Rightarrow> 'k \<Rightarrow> 's"
    and invar :: "'s \<Rightarrow> bool"
  assumes lookup_put: "invar s \<Longrightarrow> lookup (put s k v) = (lookup s)(k \<mapsto> v)"
    and lookup_del: "invar s \<Longrightarrow> lookup (del s k) = (lookup s)(k := None)"
    and invar_put: "invar s \<Longrightarrow> invar (put s k v)"
    and invar_del: "invar s \<Longrightarrow> invar (del s k)"
begin

definition step :: "'s \<Rightarrow> ('k, 'v) kv_op \<Rightarrow> 's" where
  "step s op = (case op of Put k v \<Rightarrow> put s k v | Del k \<Rightarrow> del s k)"

lemma step_refines:
  assumes "invar s"
  shows "invar (step s op)"
    and "lookup (step s op) =
      (case op of Put k v \<Rightarrow> (lookup s)(k \<mapsto> v) | Del k \<Rightarrow> (lookup s)(k := None))"
  using assms
  by (auto simp: step_def lookup_put lookup_del invar_put invar_del split: kv_op.split)

lemma run_refines:
  "invar s \<Longrightarrow> invar (fold (\<lambda>op s. step s op) ops s) \<and>
   lookup (fold (\<lambda>op s. step s op) ops s) =
     fold (\<lambda>op m. case op of Put k v \<Rightarrow> m(k \<mapsto> v) | Del k \<Rightarrow> m(k := None)) ops (lookup s)"
  by (induction ops arbitrary: s) (simp_all add: step_refines)

lemma put_get: "invar s \<Longrightarrow> lookup (put s k v) k = Some v"
  by (simp add: lookup_put)

lemma put_other: "invar s \<Longrightarrow> k' \<noteq> k \<Longrightarrow> lookup (put s k v) k' = lookup s k'"
  by (simp add: lookup_put)

lemma put_del_fresh: "invar s \<Longrightarrow> lookup s k = None \<Longrightarrow> lookup (del (put s k v) k) = lookup s"
  by (auto simp: lookup_put lookup_del invar_put fun_upd_idem)

end

interpretation hts: kv_store ht_lookup ht_put ht_del ht_wf
  by unfold_locales (simp_all add: ht_lookup_put ht_lookup_del ht_wf_put ht_wf_del)

definition ht_step :: "ht \<Rightarrow> (u64 \<times> u64, u64 \<times> u64) kv_op \<Rightarrow> ht" where
  "ht_step h op = (case op of Put k v \<Rightarrow> ht_put h k v | Del k \<Rightarrow> ht_del h k)"

definition map_step :: "('k \<rightharpoonup> 'v) \<Rightarrow> ('k, 'v) kv_op \<Rightarrow> ('k \<rightharpoonup> 'v)" where
  "map_step m op = (case op of Put k v \<Rightarrow> m(k \<mapsto> v) | Del k \<Rightarrow> m(k := None))"

lemma ht_step_eq: "ht_step = hts.step"
  by (auto simp: fun_eq_iff ht_step_def hts.step_def split: kv_op.split)

text \<open>
  C12: any sequence of \<open>basic_ht_set_pair\<close> and \<open>basic_ht_delete_pair\<close> calls on a well-formed
  table keeps it well formed and leaves exactly the contents the same updates give on a
  finite map, as \<open>basic_ht_get_pair\<close> sees them.
\<close>

theorem ht_run_refines_map:
  "ht_wf h \<Longrightarrow> ht_wf (fold (\<lambda>op h. ht_step h op) ops h) \<and>
   ht_lookup (fold (\<lambda>op h. ht_step h op) ops h) = fold (\<lambda>op m. map_step m op) ops (ht_lookup h)"
  unfolding ht_step_eq map_step_def by (rule hts.run_refines)

definition ht_example :: ht where
  "ht_example = \<lparr>ht_size = 2, ht_seed = 0, ht_mask = 1,
     ht_table = [[\<lparr>key1 = 4, key2 = 1, value1 = 7, value2 = 0\<rparr>,
                  \<lparr>key1 = 2, key2 = 9, value1 = 8, value2 = 0\<rparr>], []]\<rparr>"

lemma ht_wf_example: "ht_wf ht_example"
proof -
  have "\<exists>n\<le>30. (2::int) = 2 ^ n \<and> (1::u64) = mask n \<and> Suc (Suc 0) = 2 ^ n"
    by (rule exI [of _ 1]) simp
  then show ?thesis
    by (auto simp: ht_wf_def ht_example_def bin_of_def less_Suc_eq)
qed

theorem ht_run_refines_map_witness:
  "ht_lookup (fold (\<lambda>op h. ht_step h op) [Put (6, 1) (5, 5), Del (4, 1)] ht_example) (6, 1) = Some (5, 5)"
  using conjunct2 [OF ht_run_refines_map [OF ht_wf_example, of "[Put (6, 1) (5, 5), Del (4, 1)]"]]
  by (simp add: map_step_def)

lemma ht_init_pow2:
  assumes "k \<le> 30"
  shows "\<exists>h'. basic_ht_init True h (2 ^ k) seed = Some (0, h') \<and> ht_wf h' \<and>
     ht_lookup h' = Map.empty \<and> ht_seed h' = seed"
proof -
  let ?h = "h\<lparr>ht_size := 2 ^ k, ht_mask := word_of_int (2 ^ k - 1), ht_seed := seed,
     ht_table := replicate (nat (2 ^ k)) []\<rparr>"
  have le: "(2::int) ^ k \<le> 2 ^ 30" by (rule power_increasing) (use assms in simp_all)
  moreover have "\<not> (2::int) ^ k < 1" by (simp add: not_less)
  ultimately have "basic_ht_init True h (2 ^ k) seed = Some (0, ?h)"
    by (simp add: basic_ht_init_def isPowerOfTwo_total Let_def)
  moreover have "word_of_int (2 ^ k - 1) = (mask k :: u64)"
    by (simp add: mask_eq_exp_minus_1)
  then have wf: "ht_wf ?h"
    using assms by (auto simp: ht_wf_def nat_power_eq)
  moreover have "ht_lookup ?h = Map.empty"
    using bin_of_less [OF wf] by (auto simp: ht_lookup_def fun_eq_iff)
  ultimately show ?thesis by simp
qed

text \<open>
  C6: \<open>basic_ht_init\<close> with a size of at most 2 to the 30 never overflows; it returns 0 exactly
  when the size is a power of two (given memory), and then the table is well formed and empty.
\<close>

theorem ht_init_result:
  assumes "sz \<le> 2 ^ 30"
  shows "\<exists>h'. basic_ht_init True h sz seed =
     Some (if 0 < sz \<and> (\<exists>k. sz = 2 ^ k) then 0 else - 1, h') \<and>
     (0 < sz \<and> (\<exists>k. sz = 2 ^ k) \<longrightarrow> ht_wf h' \<and> ht_lookup h' = Map.empty \<and> ht_seed h' = seed)"
proof (cases "0 < sz \<and> (\<exists>k. sz = 2 ^ k)")
  case True
  then obtain k where k: "sz = 2 ^ k" by blast
  have "(2::int) ^ k \<le> 2 ^ 30" using assms k by simp
  then have "k \<le> 30" by (simp only: power_increasing_iff)
  with ht_init_pow2 [of k h seed] True k show ?thesis by auto
next
  case False
  then show ?thesis using assms by (auto simp: basic_ht_init_def isPowerOfTwo_total)
qed

theorem ht_init_result_witness:
  "fst (the (basic_ht_init True ht_example 1024 101)) = 0 \<and>
   fst (the (basic_ht_init True ht_example 1000 101)) = - 1"
proof -
  have a: "0 < (1024::int) \<and> (\<exists>k. (1024::int) = 2 ^ k)"
    by (intro conjI exI [of _ 10]) simp_all
  have "\<not> (\<exists>k. (1000::int) = 2 ^ k)"
  proof
    assume "\<exists>k. (1000::int) = 2 ^ k"
    then obtain k where k: "(1000::int) = 2 ^ k" by blast
    have "k < 10" using k power_strict_increasing_iff [of "2::int" k 10] by simp
    then have "k \<in> {0,1,2,3,4,5,6,7,8,9}" by auto
    with k show False by auto
  qed
  with a show ?thesis
    using ht_init_result [of 1024 ht_example 101] ht_init_result [of 1000 ht_example 101]
    by auto
qed

text \<open>
  Iterating a well-formed table from a zeroed iterator until \<open>basic_ht_iterate_pair\<close>
  returns NULL terminates and visits every stored pair exactly once, bin by bin.
\<close>

theorem ht_iterate_complete:
  assumes "ht_wf h" "length (concat (ht_table h)) < n"
  shows "ht_collect n h ht_iter0 = Some (concat (ht_table h))"
proof -
  have "iter_ok h ht_iter0" using assms(1)
    by (auto simp: iter_ok_def ht_iter0_def ht_wf_def nat_power_eq)
  moreover have "iter_rest h ht_iter0 = concat (ht_table h)"
    by (simp add: iter_rest_def ht_iter0_def)
  ultimately show ?thesis using ht_collect_rest assms(2) by metis
qed

theorem ht_iterate_complete_witness:
  "map_option (map key1) (ht_collect 3 ht_example ht_iter0) = Some [4, 2]"
proof -
  have "length (concat (ht_table ht_example)) < 3" by (simp add: ht_example_def)
  from ht_iterate_complete [OF ht_wf_example this] show ?thesis
    by (simp add: ht_example_def)
qed

text \<open>Hashing in two calls is hashing the concatenation, as the cache key code relies on.\<close>

lemma hash_loop_append: "hash_loop (s @ t) h1 h2 = (case hash_loop s h1 h2 of (a, b) \<Rightarrow> hash_loop t a b)"
  by (induction s arbitrary: h1 h2) simp_all

lemma hash_continue_append:
  "basic_ht_hash (s @ t) seed =
   (case basic_ht_hash s seed of (a, b) \<Rightarrow> basic_ht_hash_continue t a b)"
  by (simp add: basic_ht_hash_def basic_ht_hash_continue_def hash_loop_append)

end
