(* ===== verification/Vhost.thy ===== *)
theory Vhost
  imports Hashtable
begin

text \<open>
  The table of virtual hosts of \<open>http/server/vhost.c\<close>: a hash table from the two hashes of the
  name to the address of the host, created on first use.  The hosts are a heap indexed by
  address.
\<close>

definition HIN_HSTS_SUBDOMAINS :: u32 where [flag_defs]: "HIN_HSTS_SUBDOMAINS = 0x1"
definition HIN_HSTS_PRELOAD :: u32 where [flag_defs]: "HIN_HSTS_PRELOAD = 0x2"
definition HIN_HSTS_NO_REDIRECT :: u32 where [flag_defs]: "HIN_HSTS_NO_REDIRECT = 0x4"
definition HIN_HSTS_NO_HEADER :: u32 where [flag_defs]: "HIN_HSTS_NO_HEADER = 0x8"

record vhost =
  vh_disable :: u32
  vh_flags :: u32
  vh_timeout :: int
  vh_hsts :: int

record vhosts =
  vhost_ht :: "ht option"
  vhost_heap :: "u64 \<Rightarrow> vhost"

definition httpd_vhost_add :: "string \<Rightarrow> u64 \<Rightarrow> vhosts \<Rightarrow> vhosts" where
  "httpd_vhost_add name v vs =
     (let t = (case vhost_ht vs of
                 Some h \<Rightarrow> Some h
               | None \<Rightarrow> (case basic_ht_create True 1024 101 of Some r \<Rightarrow> r | None \<Rightarrow> None))
      in case t of
           None \<Rightarrow> vs
         | Some h \<Rightarrow>
             (case basic_ht_hash name (ht_seed h) of
                (h1, h2) \<Rightarrow> vs\<lparr>vhost_ht := snd (basic_ht_set_pair (Some h) h1 h2 0 v)\<rparr>))"

definition httpd_vhost_get :: "string \<Rightarrow> vhosts \<Rightarrow> u64 option" where
  "httpd_vhost_get name vs =
     (case vhost_ht vs of
        None \<Rightarrow> None
      | Some h \<Rightarrow>
          (case basic_ht_hash name (ht_seed h) of
             (h1, h2) \<Rightarrow> map_option value2 (basic_ht_get_pair (Some h) h1 h2)))"

text \<open>The state at the start.\<close>

definition vhosts0 :: vhosts where
  "vhosts0 = \<lparr>vhost_ht = None,
     vhost_heap = (\<lambda>_. \<lparr>vh_disable = 0, vh_flags = 0, vh_timeout = 0, vh_hsts = 0\<rparr>)\<rparr>"

definition vhosts_wf :: "vhosts \<Rightarrow> bool" where
  "vhosts_wf vs \<longleftrightarrow> (case vhost_ht vs of None \<Rightarrow> True | Some h \<Rightarrow> ht_wf h \<and> ht_seed h = 101)"

lemma ht_seed_put [simp]: "ht_seed (ht_put h k v) = ht_seed h"
  by (simp add: ht_put_def Let_def)

lemma vhost_add_table:
  assumes "vhosts_wf vs"
  shows "\<exists>h. ht_wf h \<and> ht_seed h = 101 \<and>
     (\<forall>name. httpd_vhost_get name vs = map_option snd (ht_lookup h (basic_ht_hash name 101))) \<and>
     httpd_vhost_add name v vs = vs\<lparr>vhost_ht := Some (ht_put h (basic_ht_hash name 101) (0, v))\<rparr>"
proof (cases "vhost_ht vs")
  case (Some h)
  then show ?thesis
    using assms
    by (auto simp: vhosts_wf_def httpd_vhost_get_def httpd_vhost_add_def ht_lookup_def ht_put_def
        Let_def option.map_comp comp_def split: prod.split intro!: exI [of _ h])
next
  case None
  obtain h where h: "basic_ht_init True \<lparr>ht_size = 0, ht_seed = 0, ht_mask = 0, ht_table = []\<rparr> 1024 101 = Some (0, h)"
    "ht_wf h" "ht_lookup h = Map.empty" "ht_seed h = 101"
    using ht_init_pow2 [of 10] by auto
  then show ?thesis
    using None by (auto simp: httpd_vhost_get_def httpd_vhost_add_def basic_ht_create_def ht_put_def
        Let_def split: prod.split intro!: exI [of _ h])
qed

text \<open>
  After a host is added under a name, looking the name up finds it, and every name whose
  hashes differ finds what it found before; the table stays well formed.
\<close>

theorem vhost_get_add:
  assumes "vhosts_wf vs"
  shows "vhosts_wf (httpd_vhost_add name v vs) \<and>
     httpd_vhost_get name (httpd_vhost_add name v vs) = Some v \<and>
     (\<forall>other. basic_ht_hash other 101 \<noteq> basic_ht_hash name 101 \<longrightarrow>
        httpd_vhost_get other (httpd_vhost_add name v vs) = httpd_vhost_get other vs)"
proof -
  let ?k = "basic_ht_hash name 101"
  obtain h where h: "ht_wf h" "ht_seed h = 101"
    and get: "\<And>name. httpd_vhost_get name vs = map_option snd (ht_lookup h (basic_ht_hash name 101))"
    and add: "httpd_vhost_add name v vs = vs\<lparr>vhost_ht := Some (ht_put h ?k (0, v))\<rparr>"
    using vhost_add_table [OF assms, of name v] by blast
  have new: "httpd_vhost_get other (httpd_vhost_add name v vs) =
      map_option snd (ht_lookup (ht_put h ?k (0, v)) (basic_ht_hash other 101))" for other
    using h(2) by (simp add: add httpd_vhost_get_def ht_lookup_def option.map_comp comp_def split: prod.split)
  show ?thesis
    using hts.put_get [OF h(1)] hts.put_other [OF h(1)] hts.invar_put [OF h(1)] h(2)
    by (simp only: new get) (simp add: vhosts_wf_def add)
qed

theorem vhost_get_add_witness:
  "httpd_vhost_get ''a.org'' (httpd_vhost_add ''a.org'' 7 vhosts0) = Some 7 \<and>
   httpd_vhost_get ''b.org'' (httpd_vhost_add ''a.org'' 7 vhosts0) = None"
proof -
  have "vhosts_wf vhosts0" by (simp add: vhosts_wf_def vhosts0_def)
  moreover have "basic_ht_hash ''b.org'' 101 \<noteq> basic_ht_hash ''a.org'' 101"
    by (simp add: basic_ht_hash_def schar_def code_def)
  moreover have "httpd_vhost_get ''b.org'' vhosts0 = None"
    by (simp add: httpd_vhost_get_def vhosts0_def)
  ultimately show ?thesis
    using vhost_get_add [of vhosts0 "''a.org''" 7] by metis
qed

end
