(* ===== verification/Pipes.thy ===== *)
theory Pipes
  imports Buffers
begin

text \<open>
  \<open>netcode/pipe.c\<close>: the asynchronous copy from one descriptor to another that carries every
  body.  A buffer is its text (the \<open>count\<close> bytes at \<open>ptr\<close>); the three lists are sequences
  (\<open>Dlist_Heap\<close>).  Parameters (\<open>pipe_env\<close>): whether the kernel accepts a request, and the
  data callbacks.  A pipe that was released is marked \<open>p_freed\<close>; using it again has no value.
\<close>

definition HIN_DONE :: u32 where [flag_defs]: "HIN_DONE = 0x1"
definition HIN_SOCKET :: u32 where [flag_defs]: "HIN_SOCKET = 0x2"
definition HIN_FILE :: u32 where [flag_defs]: "HIN_FILE = 0x4"
definition HIN_OFFSETS :: u32 where [flag_defs]: "HIN_OFFSETS = 0x8"
definition HIN_SSL :: u32 where [flag_defs]: "HIN_SSL = 0x10"
definition HIN_COUNT :: u32 where [flag_defs]: "HIN_COUNT = 0x20"
definition HIN_HASH :: u32 where [flag_defs]: "HIN_HASH = 0x40"
definition HIN_INACTIVE :: u32 where [flag_defs]: "HIN_INACTIVE = 0x400"
definition HIN_CONDENSE :: u32 where [flag_defs]: "HIN_CONDENSE = 0x1000"

record pbuf =
  pb_data :: string
  pb_sz :: int
  pb_req :: int
  pb_pos :: int
  pb_flags :: u32

definition pb_count :: "pbuf \<Rightarrow> int" where
  "pb_count b = int (length (pb_data b))"

record pdir =
  d_fd :: int
  d_flags :: u32
  d_pos :: int

datatype pipe_event = Finished | Out_error int | In_error int

record pipe =
  p_in :: pdir
  p_out :: pdir
  p_count :: int
  p_left :: int
  write_que :: "pbuf list"
  writing :: "pbuf list"
  reading :: "pbuf list"
  finish_cb :: bool
  out_error_cb :: bool
  in_error_cb :: bool
  p_flags :: u32
  p_hash :: u64
  p_freed :: bool
  p_log :: "pipe_event list"

text \<open>
  The environment: the success of a request as a function of the pipe and the buffer, and the
  two data callbacks.  A callback gets the pipe, the buffer, the number of bytes and the flush
  flag; a result other than 0 means that the caller releases the buffer.
\<close>

type_synonym data_cb = "pipe \<Rightarrow> pbuf \<Rightarrow> int \<Rightarrow> bool \<Rightarrow> int \<times> pipe"

record pipe_env =
  read_ok :: "pipe \<Rightarrow> pbuf \<Rightarrow> bool"
  write_ok :: "pipe \<Rightarrow> pbuf \<Rightarrow> bool"
  decode_cb :: "data_cb option"
  read_cb :: data_cb

definition in_has :: "pipe \<Rightarrow> u32 \<Rightarrow> bool" where "in_has p m \<longleftrightarrow> has (d_flags (p_in p)) m"
definition out_has :: "pipe \<Rightarrow> u32 \<Rightarrow> bool" where "out_has p m \<longleftrightarrow> has (d_flags (p_out p)) m"

definition in_set :: "u32 \<Rightarrow> pipe \<Rightarrow> pipe" where
  "in_set m p = p\<lparr>p_in := (p_in p)\<lparr>d_flags := setf (d_flags (p_in p)) m\<rparr>\<rparr>"

definition out_set :: "u32 \<Rightarrow> pipe \<Rightarrow> pipe" where
  "out_set m p = p\<lparr>p_out := (p_out p)\<lparr>d_flags := setf (d_flags (p_out p)) m\<rparr>\<rparr>"

definition out_clr :: "u32 \<Rightarrow> pipe \<Rightarrow> pipe" where
  "out_clr m p = p\<lparr>p_out := (p_out p)\<lparr>d_flags := clrf (d_flags (p_out p)) m\<rparr>\<rparr>"

definition log_ev :: "pipe_event \<Rightarrow> pipe \<Rightarrow> pipe" where
  "log_ev e p = p\<lparr>p_log := p_log p @ [e]\<rparr>"

definition out_error :: "int \<Rightarrow> pipe \<Rightarrow> pipe" where
  "out_error e p = (if out_error_cb p then log_ev (Out_error e) p else p)"

definition in_error :: "int \<Rightarrow> pipe \<Rightarrow> pipe" where
  "in_error e p = (if in_error_cb p then log_ev (In_error e) p else p)"

definition hin_pipe_close :: "pipe \<Rightarrow> pipe" where
  "hin_pipe_close p =
     (let p = in_set (HIN_DONE OR HIN_INACTIVE) p;
          p = out_set (HIN_DONE OR HIN_INACTIVE) p;
          p = (if finish_cb p then (log_ev Finished p)\<lparr>finish_cb := False\<rparr> else p);
          p = p\<lparr>out_error_cb := False, in_error_cb := False,
                 p_in := (p_in p)\<lparr>d_fd := -1\<rparr>, p_out := (p_out p)\<lparr>d_fd := -1\<rparr>,
                 write_que := []\<rparr>
      in if reading p \<noteq> [] \<or> writing p \<noteq> [] then p else p\<lparr>p_freed := True\<rparr>)"

definition hin_pipe_get_buffer :: "pipe \<Rightarrow> int \<Rightarrow> pbuf" where
  "hin_pipe_get_buffer p sz =
     \<lparr>pb_data = [], pb_sz = sz, pb_req = sz, pb_pos = 0, pb_flags = 0\<rparr>"

definition hin_pipe_append_raw :: "pipe \<Rightarrow> pbuf \<Rightarrow> pipe" where
  "hin_pipe_append_raw p b = p\<lparr>write_que := write_que p @ [b]\<rparr>"

definition hin_pipe_prepend_raw :: "pipe \<Rightarrow> pbuf \<Rightarrow> pipe" where
  "hin_pipe_prepend_raw p b = p\<lparr>write_que := b # write_que p\<rparr>"

definition hin_pipe_copy_raw :: data_cb where
  "hin_pipe_copy_raw p b num flush =
     (if num \<le> 0 then (1, p)
      else (0, hin_pipe_append_raw p (b\<lparr>pb_data := take (nat num) (pb_data b)\<rparr>)))"

definition hin_pipe_process_buffer :: "pipe_env \<Rightarrow> pipe \<Rightarrow> pbuf \<Rightarrow> pipe" where
  "hin_pipe_process_buffer e p b =
     (if out_has p HIN_INACTIVE then p
      else
        let p = (if in_has p HIN_OFFSETS
                 then p\<lparr>p_in := (p_in p)\<lparr>d_pos := d_pos (p_in p) + pb_count b\<rparr>\<rparr> else p);
            p = (if in_has p HIN_COUNT
                 then (let p = p\<lparr>p_left := p_left p - pb_count b\<rparr>
                       in if p_left p \<le> 0 then in_set HIN_DONE p else p)
                 else p);
            flush = in_has p HIN_DONE
        in case decode_cb e of
             Some f \<Rightarrow> snd (f p b (pb_count b) flush)
           | None \<Rightarrow> snd (read_cb e p b (pb_count b) flush))"

definition hin_pipe_write_process :: "pipe_env \<Rightarrow> pipe \<Rightarrow> pbuf list \<Rightarrow> pipe" where
  "hin_pipe_write_process e p bufs = foldl (hin_pipe_process_buffer e) p bufs"

definition que_bytes :: "pbuf list \<Rightarrow> int" where
  "que_bytes bs = sum_list (map pb_count bs)"

text \<open>Issue the next read into \<open>b\<close>; the flag says whether the pipe survived.\<close>

definition hin_pipe_read_next :: "pipe_env \<Rightarrow> pipe \<Rightarrow> pbuf \<Rightarrow> bool \<times> pipe" where
  "hin_pipe_read_next e p b =
     (if in_has p HIN_INACTIVE then (True, p)
      else
        let n = que_bytes (write_que p);
            req = (if has (p_flags p) HIN_CONDENSE \<and> write_que p \<noteq> [] \<and> n > 0 \<and> n < pb_sz b
                   then pb_sz b - n else pb_sz b);
            req = (if in_has p HIN_COUNT \<and> p_left p < int READ_SZ then p_left p else req);
            b = b\<lparr>pb_flags := d_flags (p_in p), pb_pos := d_pos (p_in p), pb_req := req\<rparr>;
            p = p\<lparr>reading := reading p @ [b]\<rparr>
        in if read_ok e p b then (True, p)
           else (False, hin_pipe_close (in_error 0 p)))"

text \<open>The merging loop of \<open>HIN_CONDENSE\<close>: the first buffer and the queue behind it.\<close>

fun condense :: "pbuf \<Rightarrow> pbuf list \<Rightarrow> pbuf \<times> pbuf list" where
  "condense b [] = (b, [])"
| "condense b (c # cs) =
     (let len = pb_sz b - pb_count b in
      if len > pb_count c then condense (b\<lparr>pb_data := pb_data b @ pb_data c\<rparr>) cs
      else if len = 0 then (b, c # cs)
      else
        let n = nat len;
            b = b\<lparr>pb_data := pb_data b @ take n (pb_data c)\<rparr>;
            c = c\<lparr>pb_data := drop n (pb_data c)\<rparr>
        in if pb_count c = 0 then condense b cs
           else (case condense b cs of (b, cs) \<Rightarrow> (b, c # cs)))"

definition hin_pipe_write_next :: "pipe_env \<Rightarrow> pipe \<Rightarrow> bool \<times> pipe" where
  "hin_pipe_write_next e p =
     (case write_que p of
        [] \<Rightarrow> (True, p)
      | b # rest \<Rightarrow>
          if has (p_flags p) HIN_CONDENSE \<and> pb_count b < pb_sz b \<and> rest = [] \<and> \<not> in_has p HIN_DONE
          then (True, p)
          else
            let (b, rest) = (if has (p_flags p) HIN_CONDENSE \<and> pb_count b < pb_sz b
                             then condense b rest else (b, rest));
                b = b\<lparr>pb_flags := d_flags (p_out p), pb_pos := d_pos (p_out p)\<rparr>;
                p = (if out_has p HIN_OFFSETS
                     then p\<lparr>p_out := (p_out p)\<lparr>d_pos := d_pos (p_out p) + pb_count b\<rparr>\<rparr> else p);
                p = p\<lparr>write_que := rest\<rparr>
            in if write_ok e p b
               then (True, out_clr HIN_DONE (p\<lparr>writing := writing p @ [b]\<rparr>))
               else (False, hin_pipe_close (out_error 0 p)))"

definition hin_pipe_advance :: "pipe_env \<Rightarrow> pipe \<Rightarrow> (bool \<times> pipe) option" where
  "hin_pipe_advance e p =
     (if p_freed p then None
      else Some
        (let p = (if in_has p HIN_COUNT \<and> p_left p \<le> 0 then in_set HIN_DONE p else p)
         in if write_que p = [] \<and> writing p = [] \<and> in_has p HIN_DONE \<and> out_has p HIN_DONE
            then (True, hin_pipe_close p)
            else
              let (ok, p) =
                (if \<not> in_has p (HIN_DONE OR HIN_INACTIVE) \<and> reading p = [] \<and>
                    que_bytes (write_que p) < int READ_SZ * 2
                 then hin_pipe_read_next e p (hin_pipe_get_buffer p (int READ_SZ))
                 else (True, p))
              in if \<not> ok then (False, p)
                 else if write_que p \<noteq> [] \<and> writing p = [] then hin_pipe_write_next e p
                 else (True, p)))"

definition hin_pipe_init :: "data_cb option \<Rightarrow> data_cb" where
  "hin_pipe_init cb = (case cb of None \<Rightarrow> hin_pipe_copy_raw | Some f \<Rightarrow> f)"

definition hin_pipe_start :: "pipe_env \<Rightarrow> pipe \<Rightarrow> (bool \<times> pipe) option" where
  "hin_pipe_start e p =
     (let p = (if has (p_flags p) HIN_HASH then p\<lparr>p_hash := 6883\<rparr> else p)
      in hin_pipe_advance e (out_set HIN_DONE p))"

definition hin_pipe_finish :: "pipe_env \<Rightarrow> pipe \<Rightarrow> (bool \<times> pipe) option" where
  "hin_pipe_finish e p =
     (let p = in_set HIN_DONE p;
          p = hin_pipe_process_buffer e p
                \<lparr>pb_data = [], pb_sz = 0, pb_req = 0, pb_pos = 0, pb_flags = 0\<rparr>;
          p = (if writing p = [] then out_set HIN_DONE p else p)
      in hin_pipe_advance e p)"

definition hash_bytes :: "string \<Rightarrow> u64 \<Rightarrow> u64" where
  "hash_bytes s h = foldl (\<lambda>h c. (push_bit 3 h + h) + of_nat (code c)) h s"

text \<open>Completion of the write at the head of \<open>writing\<close> with \<open>ret\<close>.\<close>

definition hin_pipe_write_callback :: "pipe_env \<Rightarrow> pipe \<Rightarrow> int \<Rightarrow> (int \<times> pipe) option" where
  "hin_pipe_write_callback e p ret =
     (case writing p of
        [] \<Rightarrow> None
      | b # ws \<Rightarrow>
          let p = out_set HIN_DONE p in
          if ret < 0 then Some (-1, hin_pipe_close (out_error (- ret) (p\<lparr>writing := ws\<rparr>)))
          else
            let p = p\<lparr>p_count := p_count p + ret\<rparr>;
                p = (if has (p_flags p) HIN_HASH
                     then p\<lparr>p_hash := hash_bytes (take (nat ret) (pb_data b)) (p_hash p)\<rparr> else p)
            in if ret < pb_count b
               then
                 let b = b\<lparr>pb_data := drop (nat ret) (pb_data b),
                            pb_pos := (if has (pb_flags b) HIN_OFFSETS then pb_pos b + ret else pb_pos b)\<rparr>
                 in if write_ok e p b then Some (0, p\<lparr>writing := b # ws\<rparr>)
                    else Some (-1, hin_pipe_close (out_error 0 (p\<lparr>writing := ws\<rparr>)))
               else
                 let p = p\<lparr>writing := ws\<rparr>;
                     p = (if write_que p \<noteq> [] then snd (hin_pipe_write_next e p) else p)
                 in map_option (\<lambda>(_, p). (1, p)) (hin_pipe_advance e p))"

text \<open>Completion of the read at the head of \<open>reading\<close>: an error code or the data (none at the end).\<close>

definition hin_pipe_read_callback :: "pipe_env \<Rightarrow> pipe \<Rightarrow> int + string \<Rightarrow> (int \<times> pipe) option" where
  "hin_pipe_read_callback e p res =
     (case reading p of
        [] \<Rightarrow> None
      | b # rs \<Rightarrow>
          let p = (case res of Inl err \<Rightarrow> in_error err (p\<lparr>reading := rs\<rparr>) | Inr d \<Rightarrow> p);
              data = (case res of Inl _ \<Rightarrow> [] | Inr d \<Rightarrow> d);
              p = (if data = [] then in_set HIN_DONE p else p);
              p = p\<lparr>reading := rs\<rparr>;
              p = hin_pipe_process_buffer e p (b\<lparr>pb_data := data\<rparr>);
              p = (if write_que p = [] then out_set HIN_DONE p else p)
          in map_option (\<lambda>(_, p). (0, p)) (hin_pipe_advance e p))"

subsection \<open>The pipe and the kernel\<close>

text \<open>
  The plain environment: requests are accepted and data is copied.  A state pairs the pipe
  with all bytes it was given (queued before the start or read), the bytes the kernel took, and
  whether a write failed.  The steps are the completions the kernel may deliver.
\<close>

definition plain_env :: pipe_env where
  "plain_env = \<lparr>read_ok = (\<lambda>_ _. True), write_ok = (\<lambda>_ _. True), decode_cb = None,
                read_cb = hin_pipe_init None\<rparr>"

record psys =
  the_pipe :: pipe
  got :: string
  sent :: string
  write_failed :: bool

inductive pipe_step :: "psys \<Rightarrow> psys \<Rightarrow> bool" where
  read_done: "\<not> p_freed (the_pipe s) \<Longrightarrow> reading (the_pipe s) = b # rs \<Longrightarrow> int (length d) \<le> pb_req b \<Longrightarrow>
    hin_pipe_read_callback plain_env (the_pipe s) (Inr d) = Some (r, p') \<Longrightarrow>
    pipe_step s (s\<lparr>the_pipe := p', got := got s @ (if out_has (the_pipe s) HIN_INACTIVE then [] else d)\<rparr>)"
| read_error: "\<not> p_freed (the_pipe s) \<Longrightarrow> reading (the_pipe s) = b # rs \<Longrightarrow>
    hin_pipe_read_callback plain_env (the_pipe s) (Inl err) = Some (r, p') \<Longrightarrow>
    pipe_step s (s\<lparr>the_pipe := p'\<rparr>)"
| write_done: "\<not> p_freed (the_pipe s) \<Longrightarrow> writing (the_pipe s) = b # ws \<Longrightarrow> n \<le> length (pb_data b) \<Longrightarrow>
    hin_pipe_write_callback plain_env (the_pipe s) (int n) = Some (r, p') \<Longrightarrow>
    pipe_step s (s\<lparr>the_pipe := p', sent := sent s @ take n (pb_data b)\<rparr>)"
| write_error: "\<not> p_freed (the_pipe s) \<Longrightarrow> writing (the_pipe s) = b # ws \<Longrightarrow> err < 0 \<Longrightarrow>
    hin_pipe_write_callback plain_env (the_pipe s) err = Some (r, p') \<Longrightarrow>
    pipe_step s (s\<lparr>the_pipe := p', write_failed := True\<rparr>)"

definition texts :: "pbuf list \<Rightarrow> string" where
  "texts bs = concat (map pb_data bs)"

lemma texts_simps [simp]:
  "texts [] = []" "texts (b # bs) = pb_data b @ texts bs" "texts (bs @ cs) = texts bs @ texts cs"
  by (simp_all add: texts_def)

lemma has_flags [simp]:
  "has HIN_DONE HIN_DONE" "\<not> has HIN_DONE HIN_INACTIVE" "\<not> has HIN_DONE HIN_COUNT"
  "\<not> has HIN_DONE HIN_OFFSETS" "has HIN_INACTIVE HIN_INACTIVE" "\<not> has HIN_INACTIVE HIN_DONE"
  "\<not> has HIN_INACTIVE HIN_COUNT" "\<not> has HIN_INACTIVE HIN_OFFSETS"
  "HIN_DONE AND HIN_INACTIVE = 0" "HIN_DONE AND HIN_COUNT = 0" "HIN_DONE AND HIN_OFFSETS = 0"
  by (simp_all add: has_def flag_defs)

lemmas dir_defs = in_has_def out_has_def in_set_def out_set_def out_clr_def log_ev_def
  out_error_def in_error_def

text \<open>A queued buffer: not empty and at most twice the read size, the limit of the queue.\<close>

definition queued :: "pbuf \<Rightarrow> bool" where
  "queued b \<longleftrightarrow> pb_data b \<noteq> [] \<and> pb_sz b \<le> int READ_SZ * 2"

text \<open>
  \<open>live\<close>: the pipe is open, at most one read and one write are pending, the bytes received are
  those sent followed by those in the lists, and the counters agree.  \<open>T\<close> is the limit
  of a counted pipe (bytes queued before the start and \<open>left\<close>).
\<close>

definition live :: "int \<Rightarrow> pipe \<Rightarrow> string \<Rightarrow> string \<Rightarrow> bool" where
  "live T p g s \<longleftrightarrow> \<not> p_freed p \<and> \<not> in_has p HIN_INACTIVE \<and> \<not> out_has p HIN_INACTIVE \<and>
     length (writing p) \<le> 1 \<and> length (reading p) \<le> 1 \<and> (writing p = [] \<longrightarrow> out_has p HIN_DONE) \<and>
     (in_has p HIN_DONE \<longrightarrow> reading p = []) \<and>
     (\<forall>b\<in>set (write_que p). queued b) \<and> (\<forall>b\<in>set (reading p). pb_sz b \<le> int READ_SZ * 2 \<and> 0 \<le> pb_req b) \<and> g = s @ texts (writing p) @ texts (write_que p) \<and>
     finish_cb p \<and> Finished \<notin> set (p_log p) \<and>
     (has (p_flags p) HIN_HASH \<longrightarrow> p_hash p = hash_bytes s 6883) \<and> p_count p = int (length s) \<and>
     (in_has p HIN_COUNT \<longrightarrow> p_left p = T - int (length g) \<and> 0 \<le> p_left p \<and>
        (\<forall>b\<in>set (reading p). pb_req b \<le> p_left p \<and> 0 < p_left p))"

definition closed :: "pipe \<Rightarrow> string \<Rightarrow> bool" where
  "closed p s \<longleftrightarrow> writing p = [] \<and> write_que p = [] \<and> in_has p HIN_DONE \<and> out_has p HIN_DONE \<and>
     in_has p HIN_INACTIVE \<and> out_has p HIN_INACTIVE \<and> length (reading p) \<le> 1 \<and>
     (p_freed p \<longleftrightarrow> reading p = []) \<and> \<not> finish_cb p \<and> \<not> in_error_cb p \<and> \<not> out_error_cb p \<and>
     length (filter ((=) Finished) (p_log p)) = 1 \<and>
     (has (p_flags p) HIN_HASH \<longrightarrow> p_hash p = hash_bytes s 6883) \<and> p_count p = int (length s)"

definition pipe_inv :: "int \<Rightarrow> psys \<Rightarrow> bool" where
  "pipe_inv T s \<longleftrightarrow>
     live T (the_pipe s) (got s) (sent s) \<and> \<not> write_failed s \<and>
       (reading (the_pipe s) \<noteq> [] \<or> writing (the_pipe s) \<noteq> []) \<or>
     closed (the_pipe s) (sent s) \<and> (\<exists>t. got s = sent s @ t \<and> (\<not> write_failed s \<longrightarrow> t = [])) \<and>
       (in_has (the_pipe s) HIN_COUNT \<longrightarrow> int (length (got s)) \<le> T)"

lemma condense_texts:
  "condense b cs = (b', cs') \<Longrightarrow> pb_count b \<le> pb_sz b \<Longrightarrow> (\<forall>c\<in>set cs. queued c) \<Longrightarrow>
   pb_data b' @ texts cs' = pb_data b @ texts cs \<and> (\<forall>c\<in>set cs'. queued c) \<and>
   length (pb_data b) \<le> length (pb_data b')"
proof (induction b cs arbitrary: b' cs' rule: condense.induct)
  case (1 b)
  then show ?case by simp
next
  case (2 b c cs)
  define len where "len = pb_sz b - pb_count b"
  define b1 where "b1 = b\<lparr>pb_data := pb_data b @ take (nat len) (pb_data c)\<rparr>"
  define c1 where "c1 = c\<lparr>pb_data := drop (nat len) (pb_data c)\<rparr>"
  have len: "0 \<le> len" using 2(5) by (simp add: len_def)
  consider (all) "len > pb_count c" | (full) "len \<le> pb_count c" "len = 0"
    | (last) "len \<le> pb_count c" "len \<noteq> 0" "pb_count c1 = 0"
    | (part) "len \<le> pb_count c" "len \<noteq> 0" "pb_count c1 \<noteq> 0" by linarith
  then show ?case
  proof cases
    case all
    have "condense (b\<lparr>pb_data := pb_data b @ pb_data c\<rparr>) cs = (b', cs')"
      using 2(4) all by (simp add: len_def)
    then show ?thesis
      using 2(1) [OF len_def all] 2(6) all by (auto simp: len_def pb_count_def)
  next
    case full
    then show ?thesis using 2(4,6) by (auto simp: len_def)
  next
    case last
    have "condense b1 cs = (b', cs')"
      using 2(4) last by (simp add: len_def b1_def c1_def Let_def)
    moreover have "pb_count b1 \<le> pb_sz b1" "pb_data c = take (nat len) (pb_data c)"
      using last len by (auto simp: b1_def c1_def pb_count_def len_def)
    ultimately show ?thesis
      using 2(2) [of len "nat len" b1 c1] 2(6) last
      by (auto simp: b1_def c1_def len_def)
  next
    case part
    obtain b2 cs2 where r: "condense b1 cs = (b2, cs2)" by (cases "condense b1 cs")
    have "b' = b2" "cs' = c1 # cs2"
      using 2(4) part r by (auto simp: len_def b1_def c1_def Let_def)
    moreover have full: "pb_count b1 = pb_sz b1"
      using part len by (auto simp: b1_def c1_def pb_count_def len_def)
    moreover have "b2 = b1" "cs2 = cs"
      using r full 2(6) by (cases cs; auto simp: pb_count_def queued_def)+
    moreover have "queued c1" using part 2(6) by (auto simp: pb_count_def queued_def c1_def split: if_splits)
    ultimately show ?thesis
      using 2(6) by (auto simp: b1_def c1_def)
  qed
qed

lemma close_closed:
  assumes "\<not> p_freed p" "length (reading p) \<le> 1" "writing p = []" "finish_cb p"
    "Finished \<notin> set (p_log p)" "has (p_flags p) HIN_HASH \<longrightarrow> p_hash p = hash_bytes s 6883"
    "p_count p = int (length s)"
  shows "closed (hin_pipe_close p) s \<and> in_has (hin_pipe_close p) HIN_COUNT = in_has p HIN_COUNT"
  using assms
  by (auto simp: hin_pipe_close_def closed_def dir_defs Let_def filter_empty_conv)

lemma plain_env_simps [simp]:
  "read_ok plain_env p b" "write_ok plain_env p b" "decode_cb plain_env = None"
  "read_cb plain_env = hin_pipe_copy_raw"
  by (simp_all add: plain_env_def hin_pipe_init_def)

lemma read_next_live:
  assumes "live T p g s" "\<not> in_has p HIN_DONE" "reading p = []" "in_has p HIN_COUNT \<longrightarrow> 0 < p_left p"
  shows "\<exists>p'. hin_pipe_read_next plain_env p (hin_pipe_get_buffer p (int READ_SZ)) = (True, p') \<and>
           live T p' g s \<and> reading p' \<noteq> [] \<and> write_que p' = write_que p \<and> writing p' = writing p \<and>
           p_in p' = p_in p"
  using assms by (auto simp: hin_pipe_read_next_def live_def dir_defs Let_def hin_pipe_get_buffer_def READ_SZ_def)

lemma write_next_live:
  assumes "live T p g s" "writing p = []" "write_que p \<noteq> []"
  shows "\<exists>p'. hin_pipe_write_next plain_env p = (True, p') \<and> live T p' g s \<and> reading p' = reading p \<and>
           p_in p' = p_in p \<and> (writing p' \<noteq> [] \<or> p' = p \<and> \<not> in_has p HIN_DONE \<and> que_bytes (write_que p) < int READ_SZ * 2)"
proof -
  obtain b rest where q: "write_que p = b # rest" using assms(3) by (cases "write_que p") auto
  show ?thesis
  proof (cases "has (p_flags p) HIN_CONDENSE \<and> pb_count b < pb_sz b")
    case True
    obtain b2 rest2 where c: "condense b rest = (b2, rest2)" by (cases "condense b rest")
    have "pb_data b2 @ texts rest2 = pb_data b @ texts rest" "\<forall>c\<in>set rest2. queued c"
      using condense_texts [OF c] True assms(1) q by (auto simp: live_def)
    then show ?thesis
      using True q c assms(1,2) 
      by (auto simp: hin_pipe_write_next_def Let_def dir_defs live_def que_bytes_def queued_def)
  next
    case False
    have "\<forall>c\<in>set rest. queued c" using assms(1) q by (auto simp: live_def)
    then show ?thesis
      using False q assms(1,2) 
      by (auto simp: hin_pipe_write_next_def Let_def dir_defs live_def que_bytes_def queued_def)
  qed
qed

lemma in_set_done_live:
  "live T p g s \<Longrightarrow> reading p = [] \<Longrightarrow> live T (in_set HIN_DONE p) g s"
  by (auto simp: live_def dir_defs)

lemma out_set_done_live: "live T p g s \<Longrightarrow> live T (out_set HIN_DONE p) g s"
  by (auto simp: live_def dir_defs)

lemma live_req:
  assumes "live T p g s" "in_has p HIN_COUNT"
  shows "int (length g) \<le> T"
proof -
  have "p_left p = T - int (length g) \<and> 0 \<le> p_left p"
    using assms unfolding live_def by (elim conjE) simp
  then show ?thesis by simp
qed

text \<open>After every \<open>hin_pipe_advance\<close> the pipe waits for a completion or is closed.\<close>

lemma advance_live:
  assumes "live T p g s"
  shows "\<exists>ok p'. hin_pipe_advance plain_env p = Some (ok, p') \<and>
           (live T p' g s \<and> (reading p' \<noteq> [] \<or> writing p' \<noteq> []) \<or>
            closed p' s \<and> g = s \<and> (in_has p' HIN_COUNT \<longrightarrow> int (length g) \<le> T))"
proof -
  define q where "q = (if in_has p HIN_COUNT \<and> p_left p \<le> 0 then in_set HIN_DONE p else p)"
  have "reading p = []" if "in_has p HIN_COUNT" "p_left p \<le> 0"
    using assms that by (cases "reading p") (auto simp: live_def)
  then have q: "live T q g s" using assms in_set_done_live by (auto simp: q_def)
  have qc: "\<not> in_has q HIN_DONE \<Longrightarrow> in_has q HIN_COUNT \<Longrightarrow> 0 < p_left q"
    by (auto simp: q_def dir_defs split: if_splits)
  have qi: "\<not> in_has q HIN_INACTIVE" using q by (simp add: live_def)
  have nf: "\<not> p_freed p" using assms(1) by (simp add: live_def)
  have adv: "hin_pipe_advance plain_env p = Some
       (if write_que q = [] \<and> writing q = [] \<and> in_has q HIN_DONE \<and> out_has q HIN_DONE
        then (True, hin_pipe_close q)
        else let (ok, p) =
                (if \<not> in_has q (HIN_DONE OR HIN_INACTIVE) \<and> reading q = [] \<and>
                    que_bytes (write_que q) < int READ_SZ * 2
                 then hin_pipe_read_next plain_env q (hin_pipe_get_buffer q (int READ_SZ))
                 else (True, q))
              in if \<not> ok then (False, p)
                 else if write_que p \<noteq> [] \<and> writing p = [] then hin_pipe_write_next plain_env p
                 else (True, p))"
    unfolding hin_pipe_advance_def Let_def q_def by (simp only: nf if_False)
  show ?thesis
  proof (cases "write_que q = [] \<and> writing q = [] \<and> in_has q HIN_DONE \<and> out_has q HIN_DONE")
    case True
    have gs: "g = s" using q True by (simp add: live_def)
    have "closed (hin_pipe_close q) s \<and> in_has (hin_pipe_close q) HIN_COUNT = in_has q HIN_COUNT"
      using q True by (intro close_closed) (auto simp: live_def)
    moreover have "in_has q HIN_COUNT \<longrightarrow> int (length g) \<le> T" using live_req [OF q] by simp
    ultimately show ?thesis using True adv gs by auto
  next
    case False
    obtain p2 where p2: "(if \<not> in_has q (HIN_DONE OR HIN_INACTIVE) \<and> reading q = [] \<and>
                    que_bytes (write_que q) < int READ_SZ * 2
                 then hin_pipe_read_next plain_env q (hin_pipe_get_buffer q (int READ_SZ))
                 else (True, q)) = (True, p2)" "live T p2 g s" "write_que p2 = write_que q"
        "writing p2 = writing q" "p_in p2 = p_in q"
        "reading p2 \<noteq> [] \<or> in_has q HIN_DONE \<or> int READ_SZ * 2 \<le> que_bytes (write_que q)"
      using read_next_live [OF q] q qc qi
      by (cases "\<not> in_has q (HIN_DONE OR HIN_INACTIVE) \<and> reading q = [] \<and>
                    que_bytes (write_que q) < int READ_SZ * 2") (auto simp: in_has_def)
    have nonempty: "write_que p2 \<noteq> []" if "int READ_SZ * 2 \<le> que_bytes (write_que q)"
      using that p2(3) by (auto simp: que_bytes_def READ_SZ_def)
    show ?thesis
    proof (cases "write_que p2 \<noteq> [] \<and> writing p2 = []")
      case True
      from write_next_live [OF p2(2)] True obtain p3 where p3:
        "hin_pipe_write_next plain_env p2 = (True, p3)" "live T p3 g s" "reading p3 = reading p2"
        "writing p3 \<noteq> [] \<or> p3 = p2 \<and> \<not> in_has p2 HIN_DONE \<and>
            que_bytes (write_que p2) < int READ_SZ * 2" by blast
      have "reading p3 \<noteq> [] \<or> writing p3 \<noteq> []" using p2(3,5,6) p3(4) by (auto simp: in_has_def)
      then show ?thesis using adv False p2 p3 True by auto
    next
      case no: False
      have "reading p2 \<noteq> [] \<or> writing p2 \<noteq> []"
        using no False p2 nonempty q by (auto simp: live_def)
      then show ?thesis using adv False p2 no by auto
    qed
  qed
qed

lemma process_live:
  assumes "live T p g s" "reading p = []" "pb_sz b \<le> int READ_SZ * 2" "pb_data b = d"
    "in_has p HIN_COUNT \<longrightarrow> int (length d) \<le> p_left p"
  shows "live T (hin_pipe_process_buffer plain_env p b) (g @ d) s \<and>
         reading (hin_pipe_process_buffer plain_env p b) = []"
  using assms
  by (auto simp: hin_pipe_process_buffer_def hin_pipe_copy_raw_def hin_pipe_append_raw_def live_def
      dir_defs Let_def pb_count_def queued_def)

lemma read_live:
  assumes "live T p g s" "reading p = b # rs" "int (length (case res of Inl _ \<Rightarrow> [] | Inr d \<Rightarrow> d)) \<le> pb_req b \<or> isl res"
  shows "\<exists>r p'. hin_pipe_read_callback plain_env p res = Some (r, p') \<and>
           (live T p' (g @ (case res of Inl _ \<Rightarrow> [] | Inr d \<Rightarrow> d)) s \<and> (reading p' \<noteq> [] \<or> writing p' \<noteq> []) \<or>
            closed p' s \<and> g @ (case res of Inl _ \<Rightarrow> [] | Inr d \<Rightarrow> d) = s \<and>
            (in_has p' HIN_COUNT \<longrightarrow> int (length (g @ (case res of Inl _ \<Rightarrow> [] | Inr d \<Rightarrow> d))) \<le> T))"
proof -
  define d where "d = (case res of Inl _ \<Rightarrow> [] | Inr d \<Rightarrow> d)"
  define p1 where "p1 = (case res of Inl err \<Rightarrow> in_error err (p\<lparr>reading := rs\<rparr>) | Inr d \<Rightarrow> p)"
  define p2 where "p2 = (if d = [] then in_set HIN_DONE p1 else p1)\<lparr>reading := rs\<rparr>"
  define p3 where "p3 = hin_pipe_process_buffer plain_env p2 (b\<lparr>pb_data := d\<rparr>)"
  define p4 where "p4 = (if write_que p3 = [] then out_set HIN_DONE p3 else p3)"
  have rs: "rs = []" using assms(1,2) by (simp add: live_def)
  have l2: "live T p2 g s" "reading p2 = []"
    using assms(1,2) rs by (auto simp: p2_def p1_def live_def dir_defs split: sum.splits)
  have "in_has p2 HIN_COUNT \<longrightarrow> int (length d) \<le> p_left p2"
    using assms rs
    by (auto simp: p2_def p1_def d_def live_def dir_defs split: sum.splits)
  moreover have "pb_sz b \<le> int READ_SZ * 2" using assms(1,2) by (simp add: live_def)
  ultimately have l3: "live T p3 (g @ d) s" "reading p3 = []"
    using process_live [OF l2, of "b\<lparr>pb_data := d\<rparr>" d] by (simp_all add: p3_def)
  have l4: "live T p4 (g @ d) s" "reading p4 = []"
    using l3 out_set_done_live [OF l3(1)] by (auto simp: p4_def out_set_def)
  have "hin_pipe_read_callback plain_env p res =
      map_option (\<lambda>(_, p). (0, p)) (hin_pipe_advance plain_env p4)"
    unfolding hin_pipe_read_callback_def Let_def p4_def p3_def p2_def p1_def d_def
    by (simp add: assms(2))
  then show ?thesis using advance_live [OF l4(1)] unfolding d_def [symmetric] by auto
qed

lemma hash_bytes_append: "hash_bytes (a @ b) h = hash_bytes b (hash_bytes a h)"
  by (simp add: hash_bytes_def)

text \<open>The bookkeeping of a completed write, before the buffer is resubmitted or released.\<close>

lemma write_count_live:
  assumes "live T p g s" "writing p = b # ws" "n \<le> length (pb_data b)"
    "ws2 = (if n < length (pb_data b) then [b\<lparr>pb_data := drop n (pb_data b), pb_pos := x\<rparr>] else [])"
  shows "live T (if has (p_flags p) HIN_HASH
       then (out_set HIN_DONE p)\<lparr>p_count := p_count p + int n,
              p_hash := hash_bytes (take n (pb_data b)) (p_hash p), writing := ws2\<rparr>
       else (out_set HIN_DONE p)\<lparr>p_count := p_count p + int n, writing := ws2\<rparr>)
     g (s @ take n (pb_data b))"
  using assms by (auto simp: live_def dir_defs hash_bytes_append)

lemma write_live:
  assumes "live T p g s" "writing p = b # ws" "n \<le> length (pb_data b)"
  shows "\<exists>r p'. hin_pipe_write_callback plain_env p (int n) = Some (r, p') \<and>
           (live T p' g (s @ take n (pb_data b)) \<and> (reading p' \<noteq> [] \<or> writing p' \<noteq> []) \<or>
            closed p' (s @ take n (pb_data b)) \<and> g = s @ take n (pb_data b) \<and>
            (in_has p' HIN_COUNT \<longrightarrow> int (length g) \<le> T))"
proof -
  have ws: "ws = []" using assms(1,2) by (simp add: live_def)
  define s2 where "s2 = s @ take n (pb_data b)"
  define p1 where "p1 = (out_set HIN_DONE p)\<lparr>p_count := p_count p + int n\<rparr>"
  define p2 where "p2 = (if has (p_flags p) HIN_HASH
     then p1\<lparr>p_hash := hash_bytes (take n (pb_data b)) (p_hash p)\<rparr> else p1)"
  have o: "out_set HIN_DONE p = p\<lparr>p_out := p_out (out_set HIN_DONE p)\<rparr>" by (simp add: out_set_def)
  show ?thesis
  proof (cases "n < length (pb_data b)")
    case True
    define b2 where "b2 = b\<lparr>pb_data := drop n (pb_data b),
       pb_pos := (if has (pb_flags b) HIN_OFFSETS then pb_pos b + int n else pb_pos b)\<rparr>"
    have "hin_pipe_write_callback plain_env p (int n) = Some (0, p2\<lparr>writing := [b2]\<rparr>)"
      using True assms(2) ws
      by (simp add: hin_pipe_write_callback_def p2_def p1_def b2_def Let_def pb_count_def out_set_def)
    moreover have "live T (p2\<lparr>writing := [b2]\<rparr>) g s2"
      using write_count_live [OF assms, of "[b2]" "pb_pos b2"] True
      by (auto simp: p2_def p1_def b2_def s2_def split: if_splits)
    ultimately show ?thesis by (auto simp: s2_def)
  next
    case False
    define p3 where "p3 = p2\<lparr>writing := []\<rparr>"
    define p4 where "p4 = (if write_que p3 \<noteq> [] then snd (hin_pipe_write_next plain_env p3) else p3)"
    have l3: "live T p3 g s2"
      using write_count_live [OF assms, of "[]"] False
      by (auto simp: p3_def p2_def p1_def s2_def split: if_splits)
    have w3: "writing p3 = []" by (simp add: p3_def)
    have l4: "live T p4 g s2 \<and> reading p4 = reading p3 \<and> p_in p4 = p_in p3"
      using write_next_live [OF l3 w3] l3 by (auto simp: p4_def)
    have "hin_pipe_write_callback plain_env p (int n) =
        map_option (\<lambda>(_, p). (1, p)) (hin_pipe_advance plain_env p4)"
      using False assms(2,3) ws
      by (simp add: hin_pipe_write_callback_def p4_def p3_def p2_def p1_def Let_def pb_count_def out_set_def)
    then show ?thesis using advance_live [of T p4 g s2] l4 by (auto simp: s2_def)
  qed
qed

subsection \<open>Reachable states\<close>

lemma advance_closed:
  assumes "closed (p\<lparr>reading := [b]\<rparr>) s" "\<not> p_freed p" "reading p = []"
  shows "\<exists>p'. hin_pipe_advance plain_env p = Some (True, p') \<and> closed p' s \<and>
           in_has p' HIN_COUNT = in_has p HIN_COUNT"
proof -
  define q where "q = (if in_has p HIN_COUNT \<and> p_left p \<le> 0 then in_set HIN_DONE p else p)"
  have q: "closed (q\<lparr>reading := [b]\<rparr>) s" "\<not> p_freed q" "reading q = []"
      "in_has q HIN_COUNT = in_has p HIN_COUNT"
    using assms by (auto simp: q_def closed_def dir_defs)
  have "hin_pipe_advance plain_env p = Some (True, hin_pipe_close q)"
    using assms q(1) unfolding hin_pipe_advance_def Let_def q_def
    by (simp add: closed_def in_has_def out_has_def)
  moreover have "closed (hin_pipe_close q) s \<and> in_has (hin_pipe_close q) HIN_COUNT = in_has q HIN_COUNT"
    using q(1-3) by (simp add: closed_def hin_pipe_close_def Let_def dir_defs)
  ultimately show ?thesis using q(4) by simp
qed

lemma read_closed:
  assumes "closed p s" "\<not> p_freed p" "reading p = b # rs"
  shows "\<exists>r p'. hin_pipe_read_callback plain_env p res = Some (r, p') \<and> closed p' s \<and>
           in_has p' HIN_COUNT = in_has p HIN_COUNT"
proof -
  define d where "d = (case res of Inl _ \<Rightarrow> [] | Inr d \<Rightarrow> d)"
  define q where "q = out_set HIN_DONE ((if d = [] then in_set HIN_DONE p else p)\<lparr>reading := []\<rparr>)"
  have rs: "rs = []" using assms(1,3) by (simp add: closed_def)
  have e: "(case res of Inl err \<Rightarrow> in_error err (p\<lparr>reading := rs\<rparr>) | Inr d \<Rightarrow> p)\<lparr>reading := rs\<rparr> = p\<lparr>reading := []\<rparr>"
    using assms(1) rs by (simp add: closed_def in_error_def split: sum.splits)
  have "hin_pipe_read_callback plain_env p res =
      map_option (\<lambda>(_, p). (0, p)) (hin_pipe_advance plain_env q)"
    using assms(1,3) rs
    by (cases res) (simp_all add: hin_pipe_read_callback_def closed_def Let_def q_def d_def
        hin_pipe_process_buffer_def dir_defs)
  moreover have "closed (q\<lparr>reading := [b]\<rparr>) s" "\<not> p_freed q" "reading q = []"
      "in_has q HIN_COUNT = in_has p HIN_COUNT"
    using assms by (auto simp: q_def closed_def dir_defs)
  ultimately show ?thesis using advance_closed [where p = q and b = b and s = s] by auto
qed

lemma write_error_closed:
  assumes "live T p g s" "writing p = b # ws" "err < 0"
  shows "\<exists>r p'. hin_pipe_write_callback plain_env p err = Some (r, p') \<and> closed p' s \<and>
           in_has p' HIN_COUNT = in_has p HIN_COUNT"
proof -
  define q where "q = out_error (- err) ((out_set HIN_DONE p)\<lparr>writing := ws\<rparr>)"
  have "hin_pipe_write_callback plain_env p err = Some (-1, hin_pipe_close q)"
    using assms(2,3) by (simp add: hin_pipe_write_callback_def q_def Let_def)
  moreover have "closed (hin_pipe_close q) s \<and> in_has (hin_pipe_close q) HIN_COUNT = in_has q HIN_COUNT"
    using assms by (intro close_closed) (auto simp: q_def live_def dir_defs)
  moreover have "in_has q HIN_COUNT = in_has p HIN_COUNT" by (auto simp: q_def dir_defs)
  ultimately show ?thesis by simp
qed

lemma closed_not_writing: "closed p s \<Longrightarrow> writing p = []"
  by (simp add: closed_def)

lemma live_not_inactive: "live T p g s \<Longrightarrow> \<not> out_has p HIN_INACTIVE"
  by (simp add: live_def)

lemma closed_inactive: "closed p s \<Longrightarrow> out_has p HIN_INACTIVE"
  by (simp add: closed_def)

lemma pipe_step_inv: "pipe_step s s' \<Longrightarrow> pipe_inv T s \<Longrightarrow> pipe_inv T s'"
proof (induction rule: pipe_step.induct)
  case (read_done s b rs d r p')
  show ?case
  proof (cases "live T (the_pipe s) (got s) (sent s)")
    case True
    then show ?thesis
      using read_live [OF True read_done(2), of "Inr d"] read_done live_not_inactive [OF True]
      by (auto simp: pipe_inv_def closed_inactive)
  next
    case False
    then have c: "closed (the_pipe s) (sent s)" using read_done by (simp add: pipe_inv_def)
    then show ?thesis
      using read_closed [OF c read_done(1,2), of "Inr d"] read_done False closed_inactive [OF c]
      by (auto simp: pipe_inv_def)
  qed
next
  case (read_error s b rs err r p')
  show ?case
  proof (cases "live T (the_pipe s) (got s) (sent s)")
    case True
    then show ?thesis
      using read_live [OF True read_error(2), of "Inl err"] read_error live_not_inactive [OF True]
      by (auto simp: pipe_inv_def closed_inactive)
  next
    case False
    then have c: "closed (the_pipe s) (sent s)" using read_error by (simp add: pipe_inv_def)
    then show ?thesis
      using read_closed [OF c read_error(1,2), of "Inl err"] read_error False
      by (auto simp: pipe_inv_def)
  qed
next
  case (write_done s b ws n r p')
  then have l: "live T (the_pipe s) (got s) (sent s)"
    using closed_not_writing by (fastforce simp: pipe_inv_def)
  then show ?case
    using write_live [OF l write_done(2,3)] write_done live_not_inactive [OF l] closed_inactive
    by (auto simp: pipe_inv_def)
next
  case (write_error s b ws err r p')
  then have l: "live T (the_pipe s) (got s) (sent s)"
    using closed_not_writing by (fastforce simp: pipe_inv_def)
  moreover have "\<exists>t. got s = sent s @ t" using l by (auto simp: live_def)
  ultimately show ?case
    using write_error_closed [OF l write_error(2,3)] write_error live_req [OF l]
    by (auto simp: pipe_inv_def)
qed

definition fresh :: "pipe \<Rightarrow> bool" where
  "fresh p \<longleftrightarrow> \<not> p_freed p \<and> \<not> in_has p (HIN_DONE OR HIN_INACTIVE) \<and> \<not> out_has p HIN_INACTIVE \<and>
     reading p = [] \<and> writing p = [] \<and> (\<forall>b\<in>set (write_que p). queued b) \<and> finish_cb p \<and> p_log p = [] \<and>
     p_count p = 0 \<and> (in_has p HIN_COUNT \<longrightarrow> 0 \<le> p_left p)"

text \<open>The bytes a counted pipe may carry: those queued before the start and \<open>left\<close> more.\<close>

definition pipe_limit :: "pipe \<Rightarrow> int" where
  "pipe_limit p = p_left p + int (length (texts (write_que p)))"

inductive pipe_reach :: "pipe \<Rightarrow> psys \<Rightarrow> bool" for p where
  start: "hin_pipe_start plain_env p = Some (ok, p1) \<Longrightarrow>
    pipe_reach p \<lparr>the_pipe = p1, got = texts (write_que p), sent = [], write_failed = False\<rparr>"
| step: "pipe_reach p s \<Longrightarrow> pipe_step s s' \<Longrightarrow> pipe_reach p s'"

lemma start_live:
  assumes "fresh p"
  shows "live (pipe_limit p) (out_set HIN_DONE (if has (p_flags p) HIN_HASH then p\<lparr>p_hash := 6883\<rparr> else p))
           (texts (write_que p)) []"
  using assms by (auto simp: fresh_def live_def dir_defs pipe_limit_def hash_bytes_def)

lemma pipe_reach_inv:
  assumes "pipe_reach p s" "fresh p"
  shows "pipe_inv (pipe_limit p) s"
  using assms
proof (induction rule: pipe_reach.induct)
  case (start ok p1)
  from advance_live [OF start_live [OF start(2)]] start(1) show ?case
    by (auto simp: pipe_inv_def hin_pipe_start_def Let_def)
next
  case (step s s')
  then show ?case using pipe_step_inv by blast
qed


definition pipe_ex :: pipe where
  "pipe_ex = \<lparr>p_in = \<lparr>d_fd = 3, d_flags = 0, d_pos = 0\<rparr>, p_out = \<lparr>d_fd = 4, d_flags = 0, d_pos = 0\<rparr>,
     p_count = 0, p_left = 0, write_que = [], writing = [], reading = [], finish_cb = True,
     out_error_cb = True, in_error_cb = True, p_flags = 0, p_hash = 0, p_freed = False, p_log = []\<rparr>"

lemma pipe_ex_fresh: "fresh pipe_ex"
  by (simp add: pipe_ex_def fresh_def dir_defs)




text \<open>
  When the write of the next buffer is refused inside the completion of the previous one
  and no read is pending, the pipe is released and then advanced: a use after free.
\<close>

theorem pipe_refused_write:
  assumes "live T p g s" "writing p = [b]" "write_que p = c # cs" "reading p = []"
    "\<not> has (p_flags p) HIN_CONDENSE" "\<forall>p b. \<not> write_ok e p b"
  shows "hin_pipe_write_callback e p (pb_count b) = None"
proof -
  have "p_freed (snd (hin_pipe_write_next e q))"
    if "write_que q = c # cs" "writing q = []" "reading q = []" "p_flags q = p_flags p" for q
    using assms(5,6) that
    by (auto simp: hin_pipe_write_next_def hin_pipe_close_def dir_defs Let_def)
  moreover have "hin_pipe_advance e q = None" if "p_freed q" for q
    using that by (simp add: hin_pipe_advance_def)
  ultimately show ?thesis
    using assms(2-4) by (simp add: hin_pipe_write_callback_def Let_def out_set_def pb_count_def)
qed

theorem pipe_refused_write_witness:
  "hin_pipe_write_callback (plain_env\<lparr>write_ok := \<lambda>_ _. False\<rparr>)
     (pipe_ex\<lparr>p_in := \<lparr>d_fd = 3, d_flags = HIN_DONE, d_pos = 0\<rparr>,
        writing := [\<lparr>pb_data = ''a'', pb_sz = 4096, pb_req = 0, pb_pos = 0, pb_flags = 0\<rparr>],
        write_que := [\<lparr>pb_data = ''b'', pb_sz = 4096, pb_req = 0, pb_pos = 0, pb_flags = 0\<rparr>]\<rparr>) 1 = None"
proof -
  let ?b = "\<lambda>d. \<lparr>pb_data = d, pb_sz = 4096, pb_req = 0, pb_pos = 0, pb_flags = 0\<rparr>"
  let ?p = "pipe_ex\<lparr>p_in := \<lparr>d_fd = 3, d_flags = HIN_DONE, d_pos = 0\<rparr>, writing := [?b ''a''],
      write_que := [?b ''b'']\<rparr>"
  have "live 0 ?p ''ab'' []"
    by (simp add: live_def pipe_ex_def dir_defs queued_def READ_SZ_def)
  from pipe_refused_write [OF this, of "?b ''a''" "?b ''b''" "[]" "plain_env\<lparr>write_ok := \<lambda>_ _. False\<rparr>"]
  show ?thesis by (simp add: pipe_ex_def pb_count_def)
qed

end
