(* ===== verification/Filters.thy ===== *)
theory Filters
  imports Pattern Pipes
begin

text \<open>
  \<open>http/utils/filters.c\<close>: the chunked transfer coding on pipes.  The decoder keeps the bytes
  left of the current chunk and the \<open>left_over\<close> correction of the next read; \<open>deflate\<close> (zlib) is
  a parameter.
\<close>

subsection \<open>Hexadecimal numbers\<close>

text \<open>\<open>printf ("%x")\<close> and \<open>strtol (s, NULL, 16)\<close> on a string that starts with a digit; \<open>strtol\<close>
  saturates at \<open>LONG_MAX\<close>.\<close>

fun print_hex :: "nat \<Rightarrow> string" where
  "print_hex n = (if n < 16 then [hex_digit n] else print_hex (n div 16) @ [hex_digit (n mod 16)])"

declare print_hex.simps [simp del]

definition LONG_MAX :: int where "LONG_MAX = 0x7FFFFFFFFFFFFFFF"

definition strtol16 :: "string \<Rightarrow> int" where
  "strtol16 s = min LONG_MAX (int (foldl (\<lambda>v c. v * 16 + hex_val c) 0 (takeWhile isxdigit s)))"

subsection \<open>The decoder\<close>

record decoder =
  chunk_sz :: int
  left_over :: int

text \<open>
  The outcome of a run over one buffer: the return value, the two fields at the end
  (\<open>None\<close> when \<open>left_over\<close> is not written), the data passed to \<open>read_callback\<close> in order, and
  whether the final chunk was found.
\<close>

record decoded =
  dc_ret :: int
  dc_chunk :: int
  dc_left :: "int option"
  dc_data :: "string list"
  dc_final :: bool

text \<open>The part of the loop body that consumes the data of a chunk: it stops or goes on.\<close>

definition decode_data :: "int \<Rightarrow> string_t \<Rightarrow> decoded + (string \<times> string_t)" where
  "decode_data cs source =
     (let consume = (if cs > int (slen source) then slen source else nat cs);
          data = take consume (sptr source);
          rest = str_adv consume source
      in if cs > int consume
         then Inl \<lparr>dc_ret = 1, dc_chunk = cs - int consume, dc_left = None, dc_data = [data], dc_final = False\<rparr>
         else if slen rest < 2
         then Inl \<lparr>dc_ret = 1, dc_chunk = 0, dc_left = Some (int (slen rest) - 2), dc_data = [data],
                   dc_final = False\<rparr>
         else case match_string rest CRLF of
           (used, rest', _) \<Rightarrow>
             if used < 0
             then Inl \<lparr>dc_ret = -1, dc_chunk = 0, dc_left = None, dc_data = [data], dc_final = False\<rparr>
             else Inr (data, rest'))"

definition size_line :: string where
  "size_line = ''(%x+)'' @ CRLF"

lemma match_string_progress:
  "match_string s fmt = (used, s', caps) \<Longrightarrow> 0 < used \<Longrightarrow> slen s' < slen s"
  by (auto simp: match_string_def match_string_virtual_def str_adv_def split: if_splits option.splits prod.splits)

lemma match_string_shorter: "match_string s fmt = (used, s', caps) \<Longrightarrow> slen s' \<le> slen s"
  by (auto simp: match_string_def match_string_virtual_def str_adv_def split: if_splits option.splits prod.splits)

lemma decode_data_shorter: "decode_data cs s = Inr (d, s') \<Longrightarrow> slen s' \<le> slen s"
  by (auto simp: decode_data_def Let_def str_adv_def split: if_splits prod.splits
      dest!: match_string_shorter)

lemma decode_data_step_shorter:
  "map_sum id (\<lambda>(d, s). ([d], s)) (decode_data cs s) = Inr (ds, s') \<Longrightarrow> slen s' \<le> slen s"
  by (cases "decode_data cs s") (auto dest: decode_data_shorter)

definition add_data :: "string list \<Rightarrow> decoded \<Rightarrow> decoded" where
  "add_data ds r = r\<lparr>dc_data := ds @ dc_data r\<rparr>"

function decode_loop :: "int \<Rightarrow> string_t \<Rightarrow> decoded" where
  "decode_loop cs source =
     (case (if cs > 0 then map_sum id (\<lambda>(d, s). ([d], s)) (decode_data cs source) else Inr ([], source)) of
        Inl r \<Rightarrow> r
      | Inr (ds, s) \<Rightarrow>
          (let cs = (if cs > 0 then 0 else cs) in
           case match_string s size_line of
             (err, s', caps) \<Rightarrow>
               if err \<le> 0
               then add_data ds \<lparr>dc_ret = (if slen s < 10 then 1 else -1), dc_chunk = cs,
                      dc_left = (if slen s < 10 then Some (int (slen s)) else None), dc_data = [],
                      dc_final = False\<rparr>
               else
                 let cs = strtol16 (sptr (hd caps))
                 in if cs = 0 \<and> slen (hd caps) > 0
                    then add_data ds \<lparr>dc_ret = 1, dc_chunk = 0, dc_left = None, dc_data = [], dc_final = True\<rparr>
                    else add_data ds (decode_loop cs s')))"
  by pat_completeness auto
termination
  by (relation "measure (\<lambda>(cs, s). slen s)")
     (auto dest!: sym [of _ "match_string _ _"] match_string_progress decode_data_step_shorter
       split: if_splits sum.splits)

declare decode_loop.simps [simp del]

text \<open>
  The filter: \<open>pre\<close> is the memory before the buffer, where the bytes of a positive \<open>left_over\<close>
  are taken from; a negative one skips bytes of the new data.  A negative length has no value.
\<close>

definition piece :: "string \<Rightarrow> pbuf" where
  "piece d = \<lparr>pb_data = d, pb_sz = int (length d), pb_req = int (length d), pb_pos = 0, pb_flags = 0\<rparr>"

definition hin_pipe_decode_chunked ::
  "data_cb \<Rightarrow> string \<Rightarrow> decoder \<Rightarrow> pipe \<Rightarrow> pbuf \<Rightarrow> int \<Rightarrow> bool \<Rightarrow> (int \<times> decoder \<times> pipe) option" where
  "hin_pipe_decode_chunked rcb pre dec p buffer num flush =
     (let lo = left_over dec;
          ptr = (if lo \<ge> 0 then drop (length pre - nat lo) pre @ pb_data buffer
                 else drop (nat (- lo)) (pb_data buffer))
      in if num + lo < 0 then None
         else
           let r = decode_loop (chunk_sz dec) \<lparr>sptr = ptr, slen = nat (num + lo)\<rparr>;
               dec = \<lparr>chunk_sz = dc_chunk r,
                      left_over = (case dc_left r of Some l \<Rightarrow> l | None \<Rightarrow> lo)\<rparr>;
               p = foldl (\<lambda>p d. snd (rcb p (piece d) (int (length d)) False)) p (dc_data r);
               p = (if dc_final r then in_set HIN_DONE (snd (rcb p buffer 0 True)) else p)
           in Some (dc_ret r, dec, p))"

subsection \<open>The encoders\<close>

definition chunk_end :: string where "chunk_end = ''0'' @ CRLF @ CRLF"

definition chunk_of :: "string \<Rightarrow> string" where
  "chunk_of d = print_hex (length d) @ CRLF @ d @ CRLF"

text \<open>The buffer has \<open>num + 50\<close> bytes, more than the size line and the two terminators need.\<close>

definition hin_pipe_copy_chunked :: data_cb where
  "hin_pipe_copy_chunked p buffer num flush =
     (let body = (if num > 0 then chunk_of (take (nat num) (pb_data buffer)) else []);
          tail = (if flush then chunk_end else [])
      in (1, hin_pipe_append_raw p
               \<lparr>pb_data = body @ tail, pb_sz = num + 50, pb_req = 0, pb_pos = 0, pb_flags = 0\<rparr>))"

text \<open>
  \<open>deflate\<close> is a function of the stream state, the input left, the room and the flush flag: the
  new state, the input left and the output.
\<close>

type_synonym 'z deflate = "'z \<Rightarrow> string \<Rightarrow> nat \<Rightarrow> bool \<Rightarrow> 'z \<times> string \<times> string"

partial_function (option) deflate_loop ::
  "'z deflate \<Rightarrow> bool \<Rightarrow> bool \<Rightarrow> 'z \<Rightarrow> string \<Rightarrow> pipe \<Rightarrow> ('z \<times> pipe) option" where
  "deflate_loop dfl chunked flush z inp p =
     (let room = (if chunked then READ_SZ - 18 else READ_SZ)
      in case dfl z inp room flush of
           (z, inp, out) \<Rightarrow>
             let left = room - length out;
                 msg = (if chunked
                        then chunk_of out @ (if flush \<and> left \<noteq> 0 then chunk_end else [])
                        else out);
                 p = (if out \<noteq> []
                      then hin_pipe_append_raw p
                             \<lparr>pb_data = msg, pb_sz = int READ_SZ, pb_req = 0, pb_pos = 0, pb_flags = 0\<rparr>
                      else p)
             in if left = 0 then deflate_loop dfl chunked flush z inp p else Some (z, p))"

definition hin_pipe_copy_deflate ::
  "'z deflate \<Rightarrow> bool \<Rightarrow> 'z \<Rightarrow> pipe \<Rightarrow> pbuf \<Rightarrow> int \<Rightarrow> bool \<Rightarrow> (int \<times> 'z \<times> pipe) option" where
  "hin_pipe_copy_deflate dfl chunked z p buffer num flush =
     map_option (\<lambda>(z, p). (1, z, p))
       (deflate_loop dfl chunked flush z (take (nat num) (pb_data buffer)) p)"

subsection \<open>Printing and reading sizes\<close>

lemma print_hex_digits: "\<forall>c\<in>set (print_hex n). isxdigit c"
  by (induction n rule: print_hex.induct) (subst print_hex.simps, auto)

lemma print_hex_nonempty [simp]: "print_hex n \<noteq> []"
  by (subst print_hex.simps) simp

lemma print_hex_value: "foldl (\<lambda>v c. v * 16 + hex_val c) 0 (print_hex n) = n"
proof (induction n rule: print_hex.induct)
  case (1 n)
  then show ?case by (subst print_hex.simps) simp
qed

lemma takeWhile_hex:
  "\<not> isxdigit c \<Longrightarrow> takeWhile isxdigit (print_hex n @ c # s) = print_hex n"
  using print_hex_digits [of n] by (simp add: takeWhile_append2 takeWhile_tail)

lemma CR_not_xdigit [simp]: "\<not> isxdigit CR"
  by (simp add: isxdigit_def isdigit_def code_def)

lemma strtol16_print:
  "int n \<le> LONG_MAX \<Longrightarrow> strtol16 (print_hex n @ CR # s) = int n"
  by (simp add: strtol16_def takeWhile_hex print_hex_value)

subsection \<open>Decoding one buffer\<close>

lemma set_mem_hex: "set_mem ''%x'' = isxdigit"
  by (rule ext, subst set_mem.simps)
     (simp add: get_pattern_def class_of_def match_char_def flag_defs has_def)

lemma takeWhile_hex_line:
  "k < N \<Longrightarrow> takeWhile isxdigit (take N (print_hex n @ CR # s)) = print_hex n"
  if "k = length (print_hex n)"
proof -
  assume "k < N"
  then have "take N (print_hex n @ CR # s) = print_hex n @ CR # take (N - k - 1) s"
    using that by (simp add: take_Cons' )
  then show ?thesis by (simp add: takeWhile_hex)
qed

lemma size_line_match:
  assumes "length (print_hex n) + 2 \<le> N"
  shows "match_string \<lparr>sptr = print_hex n @ CR # LF # R, slen = N\<rparr> size_line =
     (int (length (print_hex n) + 2), \<lparr>sptr = R, slen = N - (length (print_hex n) + 2)\<rparr>,
      [\<lparr>sptr = print_hex n @ CR # LF # R, slen = length (print_hex n)\<rparr>])"
proof -
  let ?k = "length (print_hex n)" and ?s = "print_hex n @ CR # LF # R"
  have k: "0 < ?k" by simp
  have m: "match_pattern (take N ?s) ''%x'' RUN_ALL = int ?k"
    using takeWhile_hex_line [of ?k n N "LF # R"] assms by (simp add: match_pattern_pos set_mem_hex)
  have "take N ?s = print_hex n @ take (N - ?k) (CR # LF # R)" using assms by simp
  with m have m: "match_pattern (print_hex n @ take (N - ?k) (CR # LF # R)) ''%x'' RUN_ALL = int ?k"
    by simp
  have sp: "get_specifier (CHR ''+'') = RUN_ALL" by (simp add: get_specifier_def)
  have as: "after_spec (CHR ''+'' # r) = r" for r
    by (simp add: after_spec_def sp flag_defs)
  have d: "drop (Suc ?k) ?s = LF # R" "drop ?k ?s = CR # LF # R" by simp_all
  have nz: "N \<noteq> ?k" "N - ?k - 1 \<noteq> 0" "N - Suc ?k \<noteq> 0" using assms by auto
  have "match_loop False size_line ?s N None [] = (Some (R, N - (?k + 2)), [\<lparr>sptr = ?s, slen = ?k\<rparr>])"
    using k assms nz
    by (simp add: size_line_def match_loop_class m sp as Let_def match_loop_lit d)
  then show ?thesis
    using assms by (simp add: match_string_def match_string_virtual_def str_adv_def)
qed

lemma crlf_match:
  "2 \<le> N \<Longrightarrow> match_string \<lparr>sptr = CR # LF # R, slen = N\<rparr> CRLF = (2, \<lparr>sptr = R, slen = N - 2\<rparr>, [])"
  by (simp add: match_string_def match_string_virtual_def match_loop_lit str_adv_def)

lemma add_data_simps [simp]:
  "add_data [] r = r" "dc_ret (add_data ds r) = dc_ret r" "dc_chunk (add_data ds r) = dc_chunk r"
  "dc_left (add_data ds r) = dc_left r" "dc_data (add_data ds r) = ds @ dc_data r"
  "dc_final (add_data ds r) = dc_final r"
  by (simp_all add: add_data_def)

lemma decode_loop_data:
  assumes "d \<noteq> []"
  shows "decode_loop (int (length d)) \<lparr>sptr = d @ CR # LF # R, slen = length d + 2 + n\<rparr> =
         add_data [d] (decode_loop 0 \<lparr>sptr = R, slen = n\<rparr>)"
proof -
  have "decode_data (int (length d)) \<lparr>sptr = d @ CR # LF # R, slen = length d + 2 + n\<rparr> =
      Inr (d, \<lparr>sptr = R, slen = n\<rparr>)"
    by (simp add: decode_data_def Let_def str_adv_def crlf_match)
  then show ?thesis
    using assms
    by (subst (1 2) decode_loop.simps) (simp add: Let_def add_data_def split: prod.splits)
qed

lemma decode_loop_size:
  assumes "int k \<le> LONG_MAX"
  shows "decode_loop 0 \<lparr>sptr = print_hex k @ CR # LF # R, slen = length (print_hex k) + 2 + n\<rparr> =
     (if k = 0 then \<lparr>dc_ret = 1, dc_chunk = 0, dc_left = None, dc_data = [], dc_final = True\<rparr>
      else decode_loop (int k) \<lparr>sptr = R, slen = n\<rparr>)"
  using assms by (subst decode_loop.simps) (simp add: size_line_match strtol16_print Let_def)

lemma chunk_end_eq: "chunk_end = print_hex 0 @ CR # LF # CRLF"
  by (simp add: chunk_end_def print_hex.simps [of 0] hex_digit_def char_of_def bit_0)

lemma decode_loop_encoded:
  assumes "\<forall>d\<in>set ds. d \<noteq> [] \<and> int (length d) \<le> LONG_MAX"
  shows "decode_loop 0 \<lparr>sptr = concat (map chunk_of ds) @ chunk_end,
           slen = length (concat (map chunk_of ds) @ chunk_end)\<rparr> =
         \<lparr>dc_ret = 1, dc_chunk = 0, dc_left = None, dc_data = ds, dc_final = True\<rparr>"
  using assms
proof (induction ds)
  case Nil
  then show ?case
    using decode_loop_size [of 0 CRLF 2] by (simp add: chunk_end_eq LONG_MAX_def)
next
  case (Cons d ds)
  let ?R = "concat (map chunk_of ds) @ chunk_end"
  have "decode_loop 0 \<lparr>sptr = print_hex (length d) @ CR # LF # d @ CR # LF # ?R,
      slen = length (print_hex (length d)) + 2 + (length d + 2 + length ?R)\<rparr> =
      add_data [d] (decode_loop 0 \<lparr>sptr = ?R, slen = length ?R\<rparr>)"
    using Cons.prems decode_loop_data [of d ?R "length ?R"]
    by (subst decode_loop_size) (simp_all del: length_append)
  with Cons show ?case by (simp add: chunk_of_def [of d] add_data_def algebra_simps)
qed

subsection \<open>Round trip on pipes\<close>

lemma copy_chunked_que:
  "write_que (snd (hin_pipe_copy_chunked p b num flush)) =
     write_que p @ [\<lparr>pb_data = (if num > 0 then chunk_of (take (nat num) (pb_data b)) else []) @
        (if flush then chunk_end else []), pb_sz = num + 50, pb_req = 0, pb_pos = 0, pb_flags = 0\<rparr>]"
  by (simp add: hin_pipe_copy_chunked_def hin_pipe_append_raw_def Let_def)

text \<open>The sender: the pieces in order, then the flush.\<close>

definition send_chunked :: "pipe \<Rightarrow> string list \<Rightarrow> pipe" where
  "send_chunked p ds =
     snd (hin_pipe_copy_chunked
            (foldl (\<lambda>p d. snd (hin_pipe_copy_chunked p (piece d) (int (length d)) False)) p ds)
            (piece []) 0 True)"

lemma send_chunked_text:
  "\<forall>d\<in>set ds. d \<noteq> [] \<Longrightarrow>
   texts (write_que (send_chunked p ds)) = texts (write_que p) @ concat (map chunk_of ds) @ chunk_end"
  unfolding send_chunked_def copy_chunked_que
proof (induction ds arbitrary: p)
  case Nil
  then show ?case by simp
next
  case (Cons d ds)
  then show ?case by (simp add: copy_chunked_que piece_def)
qed

lemma copy_raw_que:
  "texts (write_que (snd (hin_pipe_copy_raw p (piece d) (int (length d)) f))) = texts (write_que p) @ d"
  by (simp add: hin_pipe_copy_raw_def hin_pipe_append_raw_def piece_def)

lemma copy_raw_fold:
  "texts (write_que (foldl (\<lambda>p d. snd (hin_pipe_copy_raw p (piece d) (int (length d)) False)) p ds)) =
   texts (write_que p) @ concat ds"
  by (induction ds arbitrary: p) (simp_all add: copy_raw_que)



subsection \<open>Chunks across reads\<close>

lemma decode_loop_partial:
  assumes "int n < cs" "n \<le> length s"
  shows "decode_loop cs \<lparr>sptr = s, slen = n\<rparr> =
     \<lparr>dc_ret = 1, dc_chunk = cs - int n, dc_left = None, dc_data = [take n s], dc_final = False\<rparr>"
  using assms by (subst decode_loop.simps) (simp add: decode_data_def Let_def)

lemma decode_loop_exact:
  assumes "d \<noteq> []"
  shows "decode_loop (int (length d)) \<lparr>sptr = d, slen = length d\<rparr> =
     \<lparr>dc_ret = 1, dc_chunk = 0, dc_left = Some (-2), dc_data = [d], dc_final = False\<rparr>"
  using assms by (subst decode_loop.simps) (simp add: decode_data_def str_adv_def Let_def)

lemma decode_chunked_one:
  assumes "m \<le> length d" "lo = - int m"
    "decode_loop cs \<lparr>sptr = drop m d, slen = length d - m\<rparr> =
      \<lparr>dc_ret = ret, dc_chunk = cs', dc_left = l, dc_data = [x], dc_final = False\<rparr>"
  shows "hin_pipe_decode_chunked hin_pipe_copy_raw pre \<lparr>chunk_sz = cs, left_over = lo\<rparr> q
       (piece d) (int (length d)) flush =
     Some (ret, \<lparr>chunk_sz = cs', left_over = (case l of Some l \<Rightarrow> l | None \<Rightarrow> lo)\<rparr>,
           snd (hin_pipe_copy_raw q (piece x) (int (length x)) False))"
proof -
  have n: "nat (int (length d) + lo) = length d - m" "\<not> int (length d) + lo < 0"
    using assms(1,2) by auto
  show ?thesis
  proof (cases "m = 0")
    case True
    then show ?thesis
      using assms(2,3) by (simp add: hin_pipe_decode_chunked_def Let_def piece_def [of d] split: option.split)
  next
    case False
    then have "\<not> 0 \<le> lo" "nat (- lo) = m" using assms(2) by auto
    then show ?thesis
      using assms(3) n by (simp add: hin_pipe_decode_chunked_def Let_def piece_def [of d])
  qed
qed

text \<open>
  When a chunk ends exactly at the end of a read, the decoder skips the two bytes of its
  CRLF at the start of the next read, but never forgets the correction: two bytes of the data
  are lost at the start of every later read of the following chunks.
\<close>

theorem decode_loses_bytes:
  assumes "d1 \<noteq> []" "length d2 < k" "int k \<le> LONG_MAX" "2 \<le> length d3"
    "length d2 + length d3 - 2 < k"
  shows "\<exists>q1 q2 q3.
     hin_pipe_decode_chunked hin_pipe_copy_raw pre \<lparr>chunk_sz = int (length d1), left_over = 0\<rparr> q
       (piece d1) (int (length d1)) False = Some (1, \<lparr>chunk_sz = 0, left_over = -2\<rparr>, q1) \<and>
     hin_pipe_decode_chunked hin_pipe_copy_raw pre \<lparr>chunk_sz = 0, left_over = -2\<rparr> q1
       (piece (CRLF @ print_hex k @ CRLF @ d2)) (int (length (CRLF @ print_hex k @ CRLF @ d2))) False =
       Some (1, \<lparr>chunk_sz = int (k - length d2), left_over = -2\<rparr>, q2) \<and>
     hin_pipe_decode_chunked hin_pipe_copy_raw pre \<lparr>chunk_sz = int (k - length d2), left_over = -2\<rparr> q2
       (piece d3) (int (length d3)) False =
       Some (1, \<lparr>chunk_sz = int (k - length d2 - (length d3 - 2)), left_over = -2\<rparr>, q3) \<and>
     texts (write_que q3) = texts (write_que q) @ d1 @ d2 @ drop 2 d3"
proof -
  let ?send = "\<lambda>q d. snd (hin_pipe_copy_raw q (piece d) (int (length d)) False)"
  have 1: "hin_pipe_decode_chunked hin_pipe_copy_raw pre \<lparr>chunk_sz = int (length d1), left_over = 0\<rparr> q
       (piece d1) (int (length d1)) False = Some (1, \<lparr>chunk_sz = 0, left_over = -2\<rparr>, ?send q d1)"
    using decode_chunked_one [of 0 d1 0] decode_loop_exact [OF assms(1)] by simp
  have "decode_loop 0 \<lparr>sptr = print_hex k @ CR # LF # d2, slen = length (print_hex k) + 2 + length d2\<rparr> =
      \<lparr>dc_ret = 1, dc_chunk = int k - int (length d2), dc_left = None, dc_data = [d2], dc_final = False\<rparr>"
    using assms(2,3) by (subst decode_loop_size) (simp_all add: decode_loop_partial)
  then have 2: "hin_pipe_decode_chunked hin_pipe_copy_raw pre \<lparr>chunk_sz = 0, left_over = -2\<rparr> q1
       (piece (CRLF @ print_hex k @ CRLF @ d2)) (int (length (CRLF @ print_hex k @ CRLF @ d2))) False =
       Some (1, \<lparr>chunk_sz = int (k - length d2), left_over = -2\<rparr>, ?send q1 d2)" for q1
    using decode_chunked_one [of 2 "CRLF @ print_hex k @ CRLF @ d2" "-2" 0 1 "int k - int (length d2)" None d2]
      assms(2) by (simp add: of_nat_diff)
  have "decode_loop (int (k - length d2)) \<lparr>sptr = drop 2 d3, slen = length d3 - 2\<rparr> =
      \<lparr>dc_ret = 1, dc_chunk = int (k - length d2) - int (length d3 - 2), dc_left = None,
       dc_data = [drop 2 d3], dc_final = False\<rparr>"
    using assms(2,4,5) by (subst decode_loop_partial) auto
  then have 3: "hin_pipe_decode_chunked hin_pipe_copy_raw pre
       \<lparr>chunk_sz = int (k - length d2), left_over = -2\<rparr> q2 (piece d3) (int (length d3)) False =
       Some (1, \<lparr>chunk_sz = int (k - length d2 - (length d3 - 2)), left_over = -2\<rparr>, ?send q2 (drop 2 d3))" for q2
    using decode_chunked_one [of 2 d3 "-2" "int (k - length d2)" 1
        "int (k - length d2) - int (length d3 - 2)" None "drop 2 d3"] assms(2,4,5)
    by (simp add: of_nat_diff)
  show ?thesis
    by (intro exI conjI, rule 1, rule 2, rule 3) (simp only: copy_raw_que append_assoc)
qed

theorem decode_loses_bytes_witness:
  "\<exists>q3. texts (write_que q3) = ''abcXY'' \<and>
     (\<exists>q2. hin_pipe_decode_chunked hin_pipe_copy_raw [] \<lparr>chunk_sz = 9, left_over = -2\<rparr> q2
       (piece ''12XY'') 4 False = Some (1, \<lparr>chunk_sz = 7, left_over = -2\<rparr>, q3))"
  using decode_loses_bytes [of "''ab''" "''c''" 10 "''12XY''" "[]" pipe_ex]
  by (auto simp: LONG_MAX_def pipe_ex_def)

subsection \<open>Compression\<close>

text \<open>
  When \<open>deflate\<close> ends its output exactly at the end of a buffer, the extra call produces nothing
  and the final chunk is never sent.
\<close>

lemma deflate_no_end:
  assumes "dfl z inp (READ_SZ - 18) True = (z1, inp1, out)" "length out = READ_SZ - 18"
    "dfl z1 inp1 (READ_SZ - 18) True = (z2, inp2, [])"
  shows "\<exists>q. deflate_loop dfl True True z inp p = Some (z2, q) \<and>
           texts (write_que q) = texts (write_que p) @ chunk_of out"
proof -
  have "out \<noteq> []" using assms(2) by (auto simp: READ_SZ_def)
  then have 1: "deflate_loop dfl True True z inp p =
      deflate_loop dfl True True z1 inp1 (hin_pipe_append_raw p
        \<lparr>pb_data = chunk_of out, pb_sz = int READ_SZ, pb_req = 0, pb_pos = 0, pb_flags = 0\<rparr>)"
    using assms(1,2) by (subst deflate_loop.simps) (simp add: Let_def)
  have 2: "deflate_loop dfl True True z1 inp1 q = Some (z2, q)" for q
    using assms(3) by (subst deflate_loop.simps) (simp add: Let_def READ_SZ_def)
  show ?thesis by (simp add: 1 2 hin_pipe_append_raw_def)
qed

end
