(* ===== verification/Dlist_Heap.thy ===== *)
theory Dlist_Heap
  imports Prelude
begin

text \<open>
  \<open>external/basic/basic_lists.c\<close>: the intrusive doubly linked lists every queue of the program
  is kept in.  The heap maps the address of a node to its \<open>prev\<close> and \<open>next\<close> fields; the list
  head is a node too, its \<open>next\<close> the first and its \<open>prev\<close> the last element.  The locale
  \<open>seq_store\<close> is the contract the queues use: a head represents a sequence of addresses.
\<close>

type_synonym addr = nat

record dheap =
  dprev :: "addr \<Rightarrow> addr option"
  dnext :: "addr \<Rightarrow> addr option"

definition set_prev :: "addr \<Rightarrow> addr option \<Rightarrow> dheap \<Rightarrow> dheap" where
  "set_prev a v h = h\<lparr>dprev := (dprev h)(a := v)\<rparr>"

definition set_next :: "addr \<Rightarrow> addr option \<Rightarrow> dheap \<Rightarrow> dheap" where
  "set_next a v h = h\<lparr>dnext := (dnext h)(a := v)\<rparr>"

lemma set_fields [simp]:
  "dprev (set_prev a v h) = (dprev h)(a := v)" "dnext (set_prev a v h) = dnext h"
  "dnext (set_next a v h) = (dnext h)(a := v)" "dprev (set_next a v h) = dprev h"
  by (simp_all add: set_prev_def set_next_def)

text \<open>The loop \<open>while (last->next) last = last->next\<close>; it has no value on a cycle.\<close>

partial_function (option) chain_last :: "dheap \<Rightarrow> addr \<Rightarrow> addr option" where
  "chain_last h n = (case dnext h n of None \<Rightarrow> Some n | Some m \<Rightarrow> chain_last h m)"

definition when_set :: "addr option \<Rightarrow> (addr \<Rightarrow> dheap \<Rightarrow> dheap) \<Rightarrow> dheap \<Rightarrow> dheap" where
  "when_set p f h = (case p of None \<Rightarrow> h | Some a \<Rightarrow> f a h)"

definition basic_dlist_prepend :: "dheap \<Rightarrow> addr \<Rightarrow> addr \<Rightarrow> dheap option" where
  "basic_dlist_prepend h head new =
     (case chain_last h new of None \<Rightarrow> None
      | Some lst \<Rightarrow> Some
         (case dnext h head of
            None \<Rightarrow> set_prev head (Some lst) (set_next head (Some new) h)
          | Some first \<Rightarrow>
              (let h = set_next new (Some first) h;
                   h = when_set (dnext h head) (\<lambda>a. set_prev a (Some lst)) h
               in set_next head (Some new) h)))"

definition basic_dlist_append :: "dheap \<Rightarrow> addr \<Rightarrow> addr \<Rightarrow> dheap option" where
  "basic_dlist_append h head new =
     (case chain_last h new of None \<Rightarrow> None
      | Some lst \<Rightarrow> Some
         (case dnext h head of
            None \<Rightarrow> set_prev head (Some lst) (set_next head (Some new) h)
          | Some _ \<Rightarrow>
              (let h = set_prev new (dprev h head) h;
                   h = when_set (dprev h head) (\<lambda>a. set_next a (Some new)) h
               in set_prev head (Some lst) h)))"

definition basic_dlist_add_after :: "dheap \<Rightarrow> addr option \<Rightarrow> addr \<Rightarrow> addr \<Rightarrow> dheap option" where
  "basic_dlist_add_after h list elem new =
     (case chain_last h new of None \<Rightarrow> None
      | Some lst \<Rightarrow> Some
         (let h = set_next lst (dnext h elem) h;
              h = when_set (dnext h elem) (\<lambda>a. set_prev a (Some lst)) h;
              h = set_prev new (Some elem) h;
              h = set_next elem (Some new) h
          in when_set list (\<lambda>l h. if dprev h l = Some elem then set_prev l (Some lst) h else h) h))"

definition basic_dlist_add_before :: "dheap \<Rightarrow> addr option \<Rightarrow> addr \<Rightarrow> addr \<Rightarrow> dheap option" where
  "basic_dlist_add_before h list elem new =
     (case chain_last h new of None \<Rightarrow> None
      | Some lst \<Rightarrow> Some
         (let h = set_prev new (dprev h elem) h;
              h = when_set (dprev h elem) (\<lambda>a. set_next a (Some new)) h;
              h = set_next lst (Some elem) h;
              h = set_prev elem (Some lst) h
          in when_set list (\<lambda>l h. if dnext h l = Some elem then set_next l (Some new) h else h) h))"

definition basic_dlist_remove :: "dheap \<Rightarrow> addr \<Rightarrow> addr \<Rightarrow> dheap" where
  "basic_dlist_remove h head new =
     (let h = (if dnext h head = Some new then set_next head (dnext h new) h else h);
          h = (if dprev h head = Some new then set_prev head (dprev h new) h else h);
          h = when_set (dnext h new) (\<lambda>a h. set_prev a (dprev h new) h) h;
          h = when_set (dprev h new) (\<lambda>a h. set_next a (dnext h new) h) h
      in set_next new None (set_prev new None h))"

definition basic_dlist_ptr :: "int option \<Rightarrow> int \<Rightarrow> int option" where
  "basic_dlist_ptr new off = map_option (\<lambda>a. a - off) new"

subsection \<open>The sequence a head represents\<close>

definition first_or :: "addr list \<Rightarrow> addr option \<Rightarrow> addr option" where
  "first_or xs q = (if xs = [] then q else Some (hd xs))"

definition last_or :: "addr option \<Rightarrow> addr list \<Rightarrow> addr option" where
  "last_or p xs = (if xs = [] then p else Some (last xs))"

lemma first_last_or [simp]:
  "first_or [] q = q" "first_or (x # xs) q = Some x" "first_or (xs @ ys) q = first_or xs (first_or ys q)"
  "last_or p [] = p" "last_or p (xs @ [x]) = Some x" "last_or p (x # xs) = last_or (Some x) xs"
  "last_or p (xs @ ys) = last_or (last_or p xs) ys"
  by (auto simp: first_or_def last_or_def)

lemma first_or_not_in [simp]: "y \<notin> set xs \<Longrightarrow> first_or xs q = Some y \<longleftrightarrow> xs = [] \<and> q = Some y"
  by (auto simp: first_or_def)

lemma last_or_not_in [simp]: "y \<notin> set xs \<Longrightarrow> last_or p xs = Some y \<longleftrightarrow> xs = [] \<and> p = Some y"
  by (auto simp: last_or_def)

fun links :: "dheap \<Rightarrow> addr option \<Rightarrow> addr list \<Rightarrow> addr option \<Rightarrow> bool" where
  "links h p [] q \<longleftrightarrow> True"
| "links h p (x # xs) q \<longleftrightarrow> dprev h x = p \<and> dnext h x = first_or xs q \<and> links h (Some x) xs q"

definition dl_list :: "dheap \<Rightarrow> addr \<Rightarrow> addr list \<Rightarrow> bool" where
  "dl_list h head xs \<longleftrightarrow> distinct (head # xs) \<and> dnext h head = first_or xs None \<and>
     dprev h head = last_or None xs \<and> links h None xs None"

lemma links_append [simp]:
  "links h p (xs @ ys) q \<longleftrightarrow> links h p xs (first_or ys q) \<and> links h (last_or p xs) ys q"
  by (induction xs arbitrary: p) auto

lemma links_frame [simp]:
  "a \<notin> set xs \<Longrightarrow> links (set_prev a v h) p xs q = links h p xs q"
  "a \<notin> set xs \<Longrightarrow> links (set_next a v h) p xs q = links h p xs q"
  by (induction xs arbitrary: p) auto

lemma links_first:
  "links h p xs q \<Longrightarrow> distinct xs \<Longrightarrow> xs \<noteq> [] \<Longrightarrow> links (set_prev (hd xs) v h) v xs q"
  by (cases xs) auto

lemma links_last:
  "links h p xs q \<Longrightarrow> distinct xs \<Longrightarrow> xs \<noteq> [] \<Longrightarrow> links (set_next (last xs) v h) p xs v"
  by (cases xs rule: rev_cases) auto

lemma chain_last_links: "links h p xs None \<Longrightarrow> xs \<noteq> [] \<Longrightarrow> chain_last h (hd xs) = Some (last xs)"
proof (induction xs arbitrary: p)
  case Nil
  then show ?case by simp
next
  case (Cons x xs)
  then show ?case by (cases xs) (auto simp: chain_last.simps [of h x])
qed

text \<open>\<open>chain_of h ys\<close>: the free chain \<open>ys\<close>, linked among its nodes only.\<close>

definition chain_of :: "dheap \<Rightarrow> addr list \<Rightarrow> bool" where
  "chain_of h ys \<longleftrightarrow> ys \<noteq> [] \<and> distinct ys \<and> links h None ys None"

lemma chain_of_single: "chain_of h [y] \<longleftrightarrow> dprev h y = None \<and> dnext h y = None"
  by (auto simp: chain_of_def)

definition same_outside :: "addr set \<Rightarrow> dheap \<Rightarrow> dheap \<Rightarrow> bool" where
  "same_outside A h h' \<longleftrightarrow> (\<forall>a. a \<notin> A \<longrightarrow> dprev h' a = dprev h a \<and> dnext h' a = dnext h a)"

lemma append_chain:
  assumes "dl_list h head xs" "chain_of h ys" "set ys \<inter> set (head # xs) = {}"
  shows "\<exists>h'. basic_dlist_append h head (hd ys) = Some h' \<and> dl_list h' head (xs @ ys) \<and>
              same_outside (set (head # xs @ ys)) h h'"
proof -
  obtain y ys' where ys: "ys = y # ys'" using assms(2) by (cases ys) (auto simp: chain_of_def)
  have cl: "chain_last h y = Some (last ys)"
    using chain_last_links [of h None ys] assms(2) ys by (auto simp: chain_of_def)
  show ?thesis
  proof (cases xs rule: rev_cases)
    case Nil
    then show ?thesis
      using assms cl ys unfolding basic_dlist_append_def dl_list_def chain_of_def same_outside_def
      by (auto simp: last_or_def)
  next
    case (snoc zs z)
    have f: "dnext h head = Some (hd xs)" "dprev h head = Some z"
      using assms(1) snoc by (auto simp: dl_list_def first_or_def)
    then show ?thesis
      using assms cl ys snoc
      unfolding basic_dlist_append_def dl_list_def chain_of_def same_outside_def
      by (auto simp: when_set_def last_or_def first_or_def split: if_splits)
  qed
qed


lemma prepend_node:
  assumes "dl_list h head xs" "chain_of h [y]" "y \<notin> set (head # xs)"
  shows "\<exists>h'. basic_dlist_prepend h head y = Some h' \<and> dl_list h' head (y # xs) \<and>
              same_outside (set (head # y # xs)) h h'"
proof -
  have cl: "chain_last h y = Some y"
    using chain_last_links [of h None "[y]"] assms(2) by (auto simp: chain_of_def)
  show ?thesis
    using assms cl
    unfolding basic_dlist_prepend_def dl_list_def chain_of_def same_outside_def
    by (cases xs) (auto simp: when_set_def last_or_def first_or_def)
qed

lemma remove_node:
  assumes "dl_list h head (as @ y # bs)"
  shows "dl_list (basic_dlist_remove h head y) head (as @ bs) \<and>
         chain_of (basic_dlist_remove h head y) [y] \<and>
         same_outside (set (head # as @ y # bs)) h (basic_dlist_remove h head y)"
proof -
  note defs = basic_dlist_remove_def dl_list_def chain_of_def same_outside_def when_set_def Let_def
  consider (both) "as = []" "bs = []" | (first) b bs' where "as = []" "bs = b # bs'"
    | (final) as' a where "as = as' @ [a]" "bs = []"
    | (mid) as' a b bs' where "as = as' @ [a]" "bs = b # bs'"
    by (cases as rule: rev_cases; cases bs) auto
  then show ?thesis
  proof cases
    case both
    then show ?thesis using assms unfolding defs by auto
  next
    case first
    then show ?thesis using assms unfolding defs by auto
  next
    case final
    then show ?thesis using assms unfolding defs by auto
  next
    case mid
    then show ?thesis using assms unfolding defs by auto
  qed
qed

lemma chain_cases:
  assumes "chain_of h ys"
  obtains (one) y where "ys = [y]" "chain_last h (hd ys) = Some y"
    | (more) y m z where "ys = y # m @ [z]" "chain_last h (hd ys) = Some z"
proof -
  have "ys \<noteq> []" "chain_last h (hd ys) = Some (last ys)"
    using assms chain_last_links [of h None ys] by (auto simp: chain_of_def)
  then show ?thesis
    using one more by (cases ys; cases "tl ys" rule: rev_cases) auto
qed

text \<open>All of \<open>dl_list\<close> but its distinctness, which the two insertions get from \<open>distinct_splice\<close>.\<close>

definition dl_linked :: "dheap \<Rightarrow> addr \<Rightarrow> addr list \<Rightarrow> bool" where
  "dl_linked h head xs \<longleftrightarrow> dnext h head = first_or xs None \<and>
     dprev h head = last_or None xs \<and> links h None xs None"

lemma dl_list_linked: "dl_list h head xs \<longleftrightarrow> distinct (head # xs) \<and> dl_linked h head xs"
  by (auto simp: dl_list_def dl_linked_def)

lemma distinct_splice:
  assumes "dl_list h head (as @ bs)" "chain_of h ys" "set ys \<inter> set (head # as @ bs) = {}"
  shows "distinct (head # as @ ys @ bs)"
  using assms by (auto simp: dl_list_def chain_of_def)

lemma add_before_chain:
  assumes "dl_list h head (as @ e # bs)" "chain_of h ys" "set ys \<inter> set (head # as @ e # bs) = {}"
  shows "\<exists>h'. basic_dlist_add_before h (Some head) e (hd ys) = Some h' \<and>
              dl_list h' head (as @ ys @ e # bs) \<and>
              same_outside (set (head # as @ ys @ e # bs)) h h'"
proof -
  note defs = basic_dlist_add_before_def dl_linked_def chain_of_def same_outside_def when_set_def
    Let_def
  have d: "distinct (head # as @ ys @ e # bs)"
    using distinct_splice [OF assms] by simp
  have l: "dl_linked h head (as @ e # bs)" using assms(1) by (simp add: dl_list_linked)
  consider (first) "as = []" | (mid) as' a where "as = as' @ [a]" by (cases as rule: rev_cases) auto
  then have "\<exists>h'. basic_dlist_add_before h (Some head) e (hd ys) = Some h' \<and>
              dl_linked h' head (as @ ys @ e # bs) \<and>
              same_outside (set (head # as @ ys @ e # bs)) h h'"
  proof cases
    case first
    show ?thesis
      using assms(2)
    proof (cases rule: chain_cases)
      case one
      then show ?thesis using assms(2) d l first unfolding defs by auto
    next
      case more
      then show ?thesis using assms(2) d l first unfolding defs by auto
    qed
  next
    case mid
    show ?thesis
      using assms(2)
    proof (cases rule: chain_cases)
      case one
      then show ?thesis using assms(2) d l mid unfolding defs by auto
    next
      case more
      then show ?thesis using assms(2) d l mid unfolding defs by auto
    qed
  qed
  then show ?thesis using d by (auto simp: dl_list_linked)
qed

lemma add_after_chain:
  assumes "dl_list h head (as @ e # bs)" "chain_of h ys" "set ys \<inter> set (head # as @ e # bs) = {}"
  shows "\<exists>h'. basic_dlist_add_after h (Some head) e (hd ys) = Some h' \<and>
              dl_list h' head (as @ e # ys @ bs) \<and>
              same_outside (set (head # as @ e # ys @ bs)) h h'"
proof -
  note defs = basic_dlist_add_after_def dl_linked_def chain_of_def same_outside_def when_set_def
    Let_def
  have d: "distinct (head # as @ e # ys @ bs)"
    using distinct_splice [of h head "as @ [e]" bs ys] assms by simp
  have l: "dl_linked h head (as @ e # bs)" using assms(1) by (simp add: dl_list_linked)
  consider (final) "bs = []" | (mid) b bs' where "bs = b # bs'" by (cases bs) auto
  then have "\<exists>h'. basic_dlist_add_after h (Some head) e (hd ys) = Some h' \<and>
              dl_linked h' head (as @ e # ys @ bs) \<and>
              same_outside (set (head # as @ e # ys @ bs)) h h'"
  proof cases
    case final
    show ?thesis
      using assms(2)
    proof (cases rule: chain_cases)
      case one
      then show ?thesis using assms(2) d l final unfolding defs by auto
    next
      case more
      then show ?thesis using assms(2) d l final unfolding defs by auto
    qed
  next
    case mid
    show ?thesis
      using assms(2)
    proof (cases rule: chain_cases)
      case one
      then show ?thesis using assms(2) d l mid unfolding defs by auto
    next
      case more
      then show ?thesis using assms(2) d l mid unfolding defs by auto
    qed
  qed
  then show ?thesis using d by (auto simp: dl_list_linked)
qed

subsection \<open>The contract of the queues\<close>

datatype 'a queue_op = Push 'a | Drop 'a

fun run_ops :: "('h \<Rightarrow> 'a \<Rightarrow> 'h option) \<Rightarrow> ('h \<Rightarrow> 'a \<Rightarrow> 'h) \<Rightarrow> 'a queue_op list \<Rightarrow> 'h \<Rightarrow> 'h option" where
  "run_ops ins del [] h = Some h"
| "run_ops ins del (Push y # ops) h =
     (case ins h y of None \<Rightarrow> None | Some h' \<Rightarrow> run_ops ins del ops h')"
| "run_ops ins del (Drop y # ops) h = run_ops ins del ops (del h y)"

text \<open>The same operations on a list, and when they are legal: only absent nodes are appended
  and only present nodes removed.\<close>

fun list_ops :: "'a queue_op list \<Rightarrow> 'a list \<Rightarrow> 'a list" where
  "list_ops [] xs = xs"
| "list_ops (Push y # ops) xs = list_ops ops (xs @ [y])"
| "list_ops (Drop y # ops) xs = list_ops ops (remove1 y xs)"

fun legal_ops :: "'a set \<Rightarrow> 'a queue_op list \<Rightarrow> 'a list \<Rightarrow> bool" where
  "legal_ops U [] xs \<longleftrightarrow> True"
| "legal_ops U (Push y # ops) xs \<longleftrightarrow> y \<in> U \<and> y \<notin> set xs \<and> legal_ops U ops (xs @ [y])"
| "legal_ops U (Drop y # ops) xs \<longleftrightarrow> y \<in> set xs \<and> legal_ops U ops (remove1 y xs)"

locale seq_store =
  fixes rep :: "'h \<Rightarrow> 'a list \<Rightarrow> bool"
    and free :: "'h \<Rightarrow> 'a \<Rightarrow> bool"
    and ins :: "'h \<Rightarrow> 'a \<Rightarrow> 'h option"
    and del :: "'h \<Rightarrow> 'a \<Rightarrow> 'h"
  assumes rep_distinct: "rep h xs \<Longrightarrow> distinct xs"
    and ins_rep: "rep h xs \<Longrightarrow> free h y \<Longrightarrow> y \<notin> set xs \<Longrightarrow>
        \<exists>h'. ins h y = Some h' \<and> rep h' (xs @ [y]) \<and>
             (\<forall>z. free h z \<and> z \<notin> set (xs @ [y]) \<longrightarrow> free h' z)"
    and del_rep: "rep h xs \<Longrightarrow> y \<in> set xs \<Longrightarrow>
        rep (del h y) (remove1 y xs) \<and> free (del h y) y \<and>
        (\<forall>z. free h z \<and> z \<notin> set xs \<longrightarrow> free (del h y) z)"
begin

lemma run_rep:
  assumes "rep h xs" "\<forall>z. z \<in> U \<and> z \<notin> set xs \<longrightarrow> free h z" "legal_ops U ops xs"
  shows "\<exists>h'. run_ops ins del ops h = Some h' \<and> rep h' (list_ops ops xs)"
  using assms
proof (induction ops arbitrary: h xs)
  case Nil
  then show ?case by simp
next
  case (Cons op ops)
  show ?case
  proof (cases op)
    case (Push y)
    then have y: "y \<notin> set xs" "free h y" using Cons.prems by auto
    from ins_rep [OF Cons.prems(1) y(2,1)] obtain h' where
      h': "ins h y = Some h'" "rep h' (xs @ [y])" "\<forall>z. free h z \<and> z \<notin> set (xs @ [y]) \<longrightarrow> free h' z"
      by blast
    show ?thesis using Cons.IH [OF h'(2)] Cons.prems h' Push by auto
  next
    case (Drop y)
    then have y: "y \<in> set xs" using Cons.prems by simp
    note d = del_rep [OF Cons.prems(1) y]
    have "\<forall>z. z \<in> U \<and> z \<notin> set (remove1 y xs) \<longrightarrow> free (del h y) z"
      using d Cons.prems(2) rep_distinct [OF Cons.prems(1)] by auto
    then show ?thesis using Cons.IH [of "del h y" "remove1 y xs"] d Cons.prems Drop by auto
  qed
qed

end

definition dl_free :: "addr \<Rightarrow> dheap \<Rightarrow> addr \<Rightarrow> bool" where
  "dl_free head h y \<longleftrightarrow> y \<noteq> head \<and> chain_of h [y]"

lemma dl_free_frame: "same_outside A h h' \<Longrightarrow> z \<notin> A \<Longrightarrow> dl_free head h z \<Longrightarrow> dl_free head h' z"
  by (auto simp: dl_free_def chain_of_single same_outside_def)

interpretation dlq: seq_store "\<lambda>h. dl_list h head" "dl_free head"
  "\<lambda>h. basic_dlist_append h head" "\<lambda>h. basic_dlist_remove h head" for head
proof unfold_locales
  fix h xs y
  assume a: "dl_list h head xs" "dl_free head h y" "y \<notin> set xs"
  from append_chain [of h head xs "[y]"] a obtain h' where
    "basic_dlist_append h head y = Some h'" "dl_list h' head (xs @ [y])"
    "same_outside (set (head # xs @ [y])) h h'" by (auto simp: dl_free_def)
  then show "\<exists>h'. basic_dlist_append h head y = Some h' \<and> dl_list h' head (xs @ [y]) \<and>
      (\<forall>z. dl_free head h z \<and> z \<notin> set (xs @ [y]) \<longrightarrow> dl_free head h' z)"
    using dl_free_frame by (auto simp: dl_free_def)
next
  fix h xs y
  assume a: "dl_list h head xs" "y \<in> set xs"
  obtain as bs where s: "xs = as @ y # bs" "y \<notin> set as" using a(2) by (meson split_list_first)
  note r = remove_node [OF a(1) [unfolded s(1)]]
  have "y \<noteq> head" using a by (auto simp: dl_list_def)
  then show "dl_list (basic_dlist_remove h head y) head (remove1 y xs) \<and>
      dl_free head (basic_dlist_remove h head y) y \<and>
      (\<forall>z. dl_free head h z \<and> z \<notin> set xs \<longrightarrow> dl_free head (basic_dlist_remove h head y) z)"
    using r s dl_free_frame by (auto simp: dl_free_def remove1_append)
qed (simp add: dl_list_def)

definition heap0 :: dheap where
  "heap0 = \<lparr>dprev = (\<lambda>_. None), dnext = (\<lambda>_. None)\<rparr>"

lemma heap0_simps [simp]: "dl_list heap0 head []" "chain_of heap0 [y]"
  by (simp_all add: heap0_def dl_list_def chain_of_single)

text \<open>
  C26: any legal sequence of appends and removals of nodes on an empty queue terminates and
  leaves a well-linked queue that holds exactly the sequence of the same operations on lists.
\<close>

theorem dlist_run_refines:
  assumes "legal_ops {a. a \<noteq> head} ops []"
  shows "\<exists>h'. run_ops (\<lambda>h. basic_dlist_append h head) (\<lambda>h. basic_dlist_remove h head) ops heap0
               = Some h' \<and> dl_list h' head (list_ops ops [])"
  by (rule dlq.run_rep [of heap0 head "[]", OF _ _ assms]) (simp_all add: dl_free_def)

theorem dlist_run_refines_witness:
  "\<exists>h'. run_ops (\<lambda>h. basic_dlist_append h 0) (\<lambda>h. basic_dlist_remove h 0)
          [Push 1, Push 2, Push 3, Drop 2, Drop 1] heap0 = Some h' \<and> dl_list h' 0 [3]"
  using dlist_run_refines [of 0 "[Push 1, Push 2, Push 3, Drop 2, Drop 1]"] by simp

text \<open>
  A free chain of any length is spliced, in order, at the end of a queue or just before
  or just after one of its nodes, and no other node changes.
\<close>

theorem dlist_splices:
  assumes "dl_list h head (as @ e # bs)" "chain_of h ys" "set ys \<inter> set (head # as @ e # bs) = {}"
  shows "(\<exists>h'. basic_dlist_append h head (hd ys) = Some h' \<and> dl_list h' head (as @ e # bs @ ys) \<and>
            same_outside (set (head # as @ e # bs @ ys)) h h') \<and>
         (\<exists>h'. basic_dlist_add_before h (Some head) e (hd ys) = Some h' \<and>
            dl_list h' head (as @ ys @ e # bs) \<and> same_outside (set (head # as @ ys @ e # bs)) h h') \<and>
         (\<exists>h'. basic_dlist_add_after h (Some head) e (hd ys) = Some h' \<and>
            dl_list h' head (as @ e # ys @ bs) \<and> same_outside (set (head # as @ e # ys @ bs)) h h')"
  using append_chain [OF assms] add_before_chain [OF assms] add_after_chain [OF assms] by simp

definition heap_ex :: dheap where
  "heap_ex = \<lparr>dprev = (\<lambda>_. None)(0 := Some 2, 2 := Some 1, 4 := Some 3),
              dnext = (\<lambda>_. None)(0 := Some 1, 1 := Some 2, 3 := Some 4)\<rparr>"

lemma heap_ex_lists: "dl_list heap_ex 0 [1, 2]" "chain_of heap_ex [3, 4]"
  by (simp_all add: heap_ex_def dl_list_def chain_of_def)

theorem dlist_splices_witness:
  "\<exists>h'. basic_dlist_add_before heap_ex (Some 0) 2 3 = Some h' \<and> dl_list h' 0 [1, 3, 4, 2]"
  using dlist_splices [of heap_ex 0 "[1]" 2 "[]" "[3, 4]"] heap_ex_lists by auto

text \<open>
  Prepending puts one node in front of a non-empty queue, but of a chain of several nodes
  it keeps the first only: the link to the second is overwritten, and the back pointer of the
  old first element is set to a node that is no longer in the queue.
\<close>

theorem dlist_prepend_first_only:
  assumes "dl_list h head (x # xs)" "chain_of h (y # ys)"
    "set (y # ys) \<inter> set (head # x # xs) = {}"
  shows "\<exists>h'. basic_dlist_prepend h head y = Some h' \<and> dnext h' head = Some y \<and>
              dnext h' y = Some x \<and> dprev h' x = Some (last (y # ys)) \<and>
              (dl_list h' head (y # x # xs) \<longleftrightarrow> ys = [])"
proof -
  have cl: "chain_last h y = Some (last (y # ys))"
    using chain_last_links [of h None "y # ys"] assms(2) by (auto simp: chain_of_def)
  have l: "last (y # ys) = y \<longleftrightarrow> ys = []" "last (y # ys) \<notin> set (head # x # xs)"
    using assms(2,3) last_in_set [of "y # ys"] by (auto simp: chain_of_def)
  show ?thesis
    using assms cl l
    unfolding basic_dlist_prepend_def dl_list_def chain_of_def when_set_def Let_def
    by (auto simp: last_or_def first_or_def)
qed

theorem dlist_prepend_first_only_witness:
  "\<exists>h'. basic_dlist_prepend heap_ex 0 3 = Some h' \<and> \<not> dl_list h' 0 [3, 1, 2]"
  using dlist_prepend_first_only [of heap_ex 0 1 "[2]" 3 "[4]"] heap_ex_lists by auto

end
