(* ===== verification/Timers.thy ===== *)
theory Timers
  imports Dlist_Heap
begin

text \<open>
  \<open>system/timing.c\<close>: the list of timers.  A timer is its address; \<open>tlist\<close> is the sequence that
  the head \<open>timers\<close> represents (\<open>Dlist_Heap\<close> shows that the list operations implement it) and
  \<open>ttime\<close> the \<open>time\<close> fields.  An unlinked timer has neither a successor nor a predecessor.
  Callbacks are parameters: they return their result and the timers they leave.
\<close>

record timers =
  tlist :: "addr list"
  ttime :: "addr \<Rightarrow> int"

definition after :: "addr \<Rightarrow> addr list \<Rightarrow> addr list" where
  "after t xs = tl (dropWhile ((\<noteq>) t) xs)"

definition before :: "addr \<Rightarrow> addr list \<Rightarrow> addr list" where
  "before t xs = (if t \<in> set xs then rev (takeWhile ((\<noteq>) t) xs) else [])"

definition insert_before :: "addr \<Rightarrow> addr \<Rightarrow> addr list \<Rightarrow> addr list" where
  "insert_before b t xs = takeWhile ((\<noteq>) b) xs @ t # dropWhile ((\<noteq>) b) xs"

definition insert_after :: "addr \<Rightarrow> addr \<Rightarrow> addr list \<Rightarrow> addr list" where
  "insert_after b t xs = takeWhile ((\<noteq>) b) xs @ b # t # after b xs"

definition hin_timer_remove :: "addr \<Rightarrow> timers \<Rightarrow> timers" where
  "hin_timer_remove t ts =
     ts\<lparr>tlist := remove1 t (tlist ts), ttime := (ttime ts)(t := 0)\<rparr>"

definition hin_timer_update :: "addr \<Rightarrow> int \<Rightarrow> timers \<Rightarrow> timers" where
  "hin_timer_update t new ts =
     (if ttime ts t = new then ts
      else
        let xs = tlist ts;
            rest = remove1 t xs;
            ys =
              (if ttime ts t < new
               then case find (\<lambda>u. new \<le> ttime ts u) (after t xs) of
                      Some b \<Rightarrow> insert_before b t rest
                    | None \<Rightarrow> rest @ [t]
               else case find (\<lambda>u. ttime ts u \<le> new) (before t xs) of
                      Some b \<Rightarrow> insert_after b t rest
                    | None \<Rightarrow> t # rest)
        in ts\<lparr>tlist := ys, ttime := (ttime ts)(t := new)\<rparr>)"

definition next_of :: "addr \<Rightarrow> addr list \<Rightarrow> addr option" where
  "next_of t xs = (case after t xs of [] \<Rightarrow> None | u # _ \<Rightarrow> Some u)"

text \<open>
  The loop of \<open>hin_timer_check\<close>; the successor is read before the callback runs.  The first
  component of the result lists the timers whose callback ran.  A callback may keep the loop
  running forever by appending due timers.
\<close>

type_synonym timer_cb = "addr \<Rightarrow> int \<Rightarrow> timers \<Rightarrow> int \<times> timers"

partial_function (option) check_loop ::
  "timer_cb \<Rightarrow> int \<Rightarrow> addr option \<Rightarrow> timers \<Rightarrow> (addr list \<times> timers) option" where
  "check_loop cb tm elem ts =
     (case elem of
        None \<Rightarrow> Some ([], ts)
      | Some t \<Rightarrow>
          let nxt = next_of t (tlist ts)
          in if ttime ts t > tm then Some ([], ts)
             else
               let (ret, ts1) = cb t tm ts;
                   ts2 = (if ret = 0 \<and> ttime ts1 t \<le> tm then hin_timer_remove t ts1 else ts1)
               in Option.bind (check_loop cb tm nxt ts2) (\<lambda>(fired, ts3). Some (t # fired, ts3)))"

definition hin_timer_check :: "timer_cb \<Rightarrow> int \<Rightarrow> timers \<Rightarrow> (addr list \<times> timers) option" where
  "hin_timer_check cb tm ts = check_loop cb tm (first_or (tlist ts) None) ts"

definition hin_timer_flush :: "timer_cb \<Rightarrow> int \<Rightarrow> timers \<Rightarrow> (addr list \<times> timers) option" where
  "hin_timer_flush cb tm ts =
     hin_timer_check cb tm (ts\<lparr>ttime := (\<lambda>t. if t \<in> set (tlist ts) then 0 else ttime ts t)\<rparr>)"

subsection \<open>Order of the list\<close>

definition timers_wf :: "timers \<Rightarrow> bool" where
  "timers_wf ts \<longleftrightarrow> distinct (tlist ts)"

definition timers_sorted :: "timers \<Rightarrow> bool" where
  "timers_sorted ts \<longleftrightarrow> sorted (map (ttime ts) (tlist ts))"

lemma takeWhile_neq [simp]: "b \<notin> set as \<Longrightarrow> takeWhile ((\<noteq>) b) (as @ b # bs) = as"
  by (induction as) auto

lemma dropWhile_neq [simp]: "b \<notin> set as \<Longrightarrow> dropWhile ((\<noteq>) b) (as @ b # bs) = b # bs"
  by (induction as) auto

lemma splits_simps [simp]:
  assumes "b \<notin> set as"
  shows "after b (as @ b # bs) = bs" "before b (as @ b # bs) = rev as"
    "insert_before b t (as @ b # bs) = as @ t # b # bs"
    "insert_after b t (as @ b # bs) = as @ b # t # bs"
    "next_of b (as @ b # bs) = first_or bs None"
  using assms
  by (simp_all add: after_def before_def insert_before_def insert_after_def next_of_def first_or_def
      split: list.split)

lemma unlinked_simps [simp]:
  "t \<notin> set xs \<Longrightarrow> after t xs = []" "t \<notin> set xs \<Longrightarrow> before t xs = []"
  by (induction xs) (auto simp: after_def before_def)

lemma find_split:
  "find P xs = Some b \<Longrightarrow> \<exists>as bs. xs = as @ b # bs \<and> P b \<and> (\<forall>a\<in>set as. \<not> P a)"
  by (induction xs) (auto split: if_splits intro: exI [of _ "[]"], metis append_Cons set_ConsD)

lemma sorted_map_update:
  "t \<notin> set xs \<Longrightarrow> map (f(t := v)) xs = map f xs"
  by simp

lemma update_linked:
  assumes "timers_wf ts" "timers_sorted ts" "t \<in> set (tlist ts)"
  shows "timers_wf (hin_timer_update t new ts) \<and> timers_sorted (hin_timer_update t new ts) \<and>
         set (tlist (hin_timer_update t new ts)) = set (tlist ts) \<and>
         ttime (hin_timer_update t new ts) = (ttime ts)(t := new)"
proof -
  obtain as bs where xs: "tlist ts = as @ t # bs" "t \<notin> set as"
    using assms(3) by (meson split_list_first)
  have d: "distinct (as @ bs)" "t \<notin> set bs" and s: "sorted (map (ttime ts) (as @ t # bs))"
    using assms(1,2) xs by (auto simp: timers_wf_def timers_sorted_def)
  have rest: "remove1 t (as @ t # bs) = as @ bs" using xs(2) by (simp add: remove1_append)
  consider "ttime ts t = new" | "ttime ts t < new" | "ttime ts t > new" by linarith
  then show ?thesis
  proof cases
    case 1
    then show ?thesis using assms by (auto simp: hin_timer_update_def)
  next
    case 2
    show ?thesis
    proof (cases "find (\<lambda>u. new \<le> ttime ts u) bs")
      case None
      then have "hin_timer_update t new ts =
          ts\<lparr>tlist := as @ bs @ [t], ttime := (ttime ts)(t := new)\<rparr>"
        using 2 xs rest by (simp add: hin_timer_update_def)
      then show ?thesis using 2 xs d s None
        by (auto simp: timers_wf_def timers_sorted_def sorted_append find_None_iff)
    next
      case (Some b)
      then obtain cs ds where bs: "bs = cs @ b # ds" "new \<le> ttime ts b"
        "\<forall>c\<in>set cs. \<not> new \<le> ttime ts c" using find_split by metis
      have "b \<notin> set (as @ cs)" using d bs by auto
      then have ib: "insert_before b t (as @ bs) = as @ cs @ t # b # ds"
        using splits_simps(3) [of b "as @ cs" t ds] bs by simp
      then have "hin_timer_update t new ts =
          ts\<lparr>tlist := as @ cs @ t # b # ds, ttime := (ttime ts)(t := new)\<rparr>"
        using 2 xs rest Some by (simp add: hin_timer_update_def)
      then show ?thesis using 2 xs d s bs
        by (auto simp: timers_wf_def timers_sorted_def sorted_append)
    qed
  next
    case 3
    show ?thesis
    proof (cases "find (\<lambda>u. ttime ts u \<le> new) (rev as)")
      case None
      then have "hin_timer_update t new ts =
          ts\<lparr>tlist := t # as @ bs, ttime := (ttime ts)(t := new)\<rparr>"
        using 3 xs rest by (simp add: hin_timer_update_def)
      then show ?thesis using 3 xs d s None
        by (auto simp: timers_wf_def timers_sorted_def sorted_append find_None_iff)
    next
      case (Some b)
      then obtain cs ds where r: "rev as = cs @ b # ds" "ttime ts b \<le> new"
        "\<forall>c\<in>set cs. \<not> ttime ts c \<le> new" using find_split by metis
      then have as: "as = rev ds @ b # rev cs" by (metis rev_append rev_rev_ident rev.simps(2) append_assoc append_Cons append_Nil)
      have "b \<notin> set (rev ds)" using d as by auto
      then have ib: "insert_after b t (as @ bs) = rev ds @ b # t # rev cs @ bs"
        using splits_simps(4) [of b "rev ds" t "rev cs @ bs"] as by simp
      then have "hin_timer_update t new ts =
          ts\<lparr>tlist := rev ds @ b # t # rev cs @ bs, ttime := (ttime ts)(t := new)\<rparr>"
        using 3 xs rest Some by (simp add: hin_timer_update_def)
      then show ?thesis using 3 xs d s as r(2,3)
        by (auto simp: timers_wf_def timers_sorted_def sorted_append)
    qed
  qed
qed

text \<open>
  C29: setting a linked timer to any time keeps the list sorted and free of duplicates, keeps
  its members and changes no other time.
\<close>

theorem timer_update_sorted:
  assumes "timers_wf ts" "timers_sorted ts" "t \<in> set (tlist ts)"
  shows "timers_wf (hin_timer_update t new ts) \<and> timers_sorted (hin_timer_update t new ts) \<and>
         set (tlist (hin_timer_update t new ts)) = set (tlist ts) \<and>
         ttime (hin_timer_update t new ts) = (ttime ts)(t := new)"
  using assms by (rule update_linked)

definition timers_ex :: timers where
  "timers_ex = \<lparr>tlist = [1, 2, 3], ttime = (\<lambda>_. 0)(1 := 10, 2 := 20, 3 := 30)\<rparr>"

theorem timer_update_sorted_witness:
  "timers_sorted (hin_timer_update 1 25 timers_ex) \<and> tlist (hin_timer_update 1 25 timers_ex) = [2, 1, 3]"
  using timer_update_sorted [of timers_ex 1 25]
  by (simp add: timers_ex_def timers_wf_def timers_sorted_def hin_timer_update_def after_def
      insert_before_def)

subsection \<open>Running the due timers\<close>

text \<open>
  What the callbacks of the program do: nothing, remove their own timer, or postpone it.
\<close>

definition own_timer_cb :: "timer_cb \<Rightarrow> int \<Rightarrow> bool" where
  "own_timer_cb cb tm \<longleftrightarrow>
     (\<forall>t ts. cb t tm ts = (0, ts) \<or> (\<exists>r. cb t tm ts = (r, hin_timer_remove t ts)) \<or>
             (\<exists>new. tm < new \<and> cb t tm ts = (0, hin_timer_update t new ts)))"

lemma update_head:
  assumes "tlist ts = t # ds @ ns" "distinct (t # ds @ ns)" "\<forall>d\<in>set (t # ds). ttime ts d \<le> tm"
    "tm < new" "ns \<noteq> [] \<longrightarrow> tm < ttime ts (hd ns)"
  shows "\<exists>ns'. hin_timer_update t new ts = ts\<lparr>tlist := ds @ ns', ttime := (ttime ts)(t := new)\<rparr> \<and>
           distinct (ds @ ns') \<and> set ns' = insert t (set ns) \<and> tm < ((ttime ts)(t := new)) (hd ns')"
proof -
  have a: "after t (t # ds @ ns) = ds @ ns" using splits_simps(1) [of t "[]"] by simp
  have f: "find P (ds @ ns) = find P ns" if "\<forall>d\<in>set ds. \<not> P d" for P
    using that by (induction ds) auto
  have fn: "find (\<lambda>u. new \<le> ttime ts u) (ds @ ns) = find (\<lambda>u. new \<le> ttime ts u) ns"
    using assms(3,4) by (intro f) fastforce
  have lt: "ttime ts t < new" using assms(3,4) by auto
  show ?thesis
  proof (cases "find (\<lambda>u. new \<le> ttime ts u) ns")
    case None
    then have "hin_timer_update t new ts = ts\<lparr>tlist := ds @ ns @ [t], ttime := (ttime ts)(t := new)\<rparr>"
      using lt assms(1) a fn by (simp add: hin_timer_update_def)
    then show ?thesis using assms by (intro exI [of _ "ns @ [t]"]) (auto simp: hd_append)
  next
    case (Some b)
    then obtain cs es where ns: "ns = cs @ b # es" "new \<le> ttime ts b" using find_split by metis
    have "b \<notin> set (ds @ cs)" using assms(2) ns by auto
    then have "insert_before b t (ds @ ns) = ds @ cs @ t # b # es"
      using splits_simps(3) [of b "ds @ cs" t es] ns by simp
    then have "hin_timer_update t new ts =
        ts\<lparr>tlist := ds @ cs @ t # b # es, ttime := (ttime ts)(t := new)\<rparr>"
      using lt assms(1) a fn Some by (simp add: hin_timer_update_def)
    then show ?thesis using assms ns
      by (intro exI [of _ "cs @ t # b # es"]) (cases cs; auto)
  qed
qed

lemma check_loop_due:
  assumes "own_timer_cb cb tm" "tlist ts = ds @ ns" "timers_wf ts" "\<forall>d\<in>set ds. ttime ts d \<le> tm"
    "ns \<noteq> [] \<longrightarrow> tm < ttime ts (hd ns)"
  shows "\<exists>ts'. check_loop cb tm (first_or (ds @ ns) None) ts = Some (ds, ts') \<and> timers_wf ts' \<and>
           (\<forall>u\<in>set (tlist ts') - set ns. tm < ttime ts' u) \<and> set ns \<subseteq> set (tlist ts') \<and>
           (\<forall>u\<in>set ns. ttime ts' u = ttime ts u)"
  using assms(2-)
proof (induction ds arbitrary: ts ns)
  case Nil
  then show ?case
    by (cases ns) (auto simp: check_loop.simps [of cb tm _ ts])
next
  case (Cons t ds)
  have d: "distinct (t # ds @ ns)" using Cons.prems by (simp add: timers_wf_def)
  have nxt: "next_of t (tlist ts) = first_or (ds @ ns) None"
    using splits_simps(5) [of t "[]"] Cons.prems(1) by simp
  define ts2 where "ts2 = (let (ret, ts1) = cb t tm ts
    in if ret = 0 \<and> ttime ts1 t \<le> tm then hin_timer_remove t ts1 else ts1)"
  have step: "check_loop cb tm (first_or ((t # ds) @ ns) None) ts =
      Option.bind (check_loop cb tm (first_or (ds @ ns) None) ts2) (\<lambda>(fired, ts3). Some (t # fired, ts3))"
    using Cons.prems(3) nxt
    by (simp add: check_loop.simps [of cb tm "Some t"] ts2_def Let_def split: prod.splits)
  have rem: "hin_timer_remove t ts = ts\<lparr>tlist := ds @ ns, ttime := (ttime ts)(t := 0)\<rparr>"
    using Cons.prems(1) by (simp add: hin_timer_remove_def)
  consider (rem) "ts2 = hin_timer_remove t ts"
    | (upd) new where "tm < new" "ts2 = hin_timer_update t new ts"
  proof -
    have t: "ttime ts t \<le> tm" using Cons.prems(3) by simp
    have rr: "hin_timer_remove t (hin_timer_remove t ts) = hin_timer_remove t ts"
      using d Cons.prems(1) by (simp add: hin_timer_remove_def remove1_idem)
    have u: "ttime (hin_timer_update t new ts) t = new" for new
      by (auto simp: hin_timer_update_def Let_def)
    have "cb t tm ts = (0, ts) \<or> (\<exists>r. cb t tm ts = (r, hin_timer_remove t ts)) \<or>
             (\<exists>new. tm < new \<and> cb t tm ts = (0, hin_timer_update t new ts))"
      using assms(1) by (simp add: own_timer_cb_def)
    then show thesis
      using t rr u rem upd by (elim disjE exE conjE) (auto simp: ts2_def split: if_splits)
  qed
  then show ?case
  proof cases
    case rem
    have "\<exists>ts'. check_loop cb tm (first_or (ds @ ns) None) ts2 = Some (ds, ts') \<and> timers_wf ts' \<and>
           (\<forall>u\<in>set (tlist ts') - set ns. tm < ttime ts' u) \<and> set ns \<subseteq> set (tlist ts') \<and>
           (\<forall>u\<in>set ns. ttime ts' u = ttime ts2 u)"
      using Cons.prems d by (intro Cons.IH) (auto simp: rem timers_wf_def hin_timer_remove_def)
    moreover have "\<forall>u\<in>set ns. ttime ts2 u = ttime ts u" using rem d by (auto simp: hin_timer_remove_def)
    ultimately show ?thesis unfolding step by auto
  next
    case upd
    from update_head [OF Cons.prems(1) [simplified] d Cons.prems(3) upd(1) Cons.prems(4)]
    obtain ns' where u: "ts2 = ts\<lparr>tlist := ds @ ns', ttime := (ttime ts)(t := new)\<rparr>"
      "distinct (ds @ ns')" "set ns' = insert t (set ns)" "tm < ((ttime ts)(t := new)) (hd ns')"
      using upd(2) by auto
    have same: "\<forall>u\<in>set ns. ttime ts2 u = ttime ts u" "ttime ts2 t = new"
      using u(1) d by auto
    have "\<exists>ts'. check_loop cb tm (first_or (ds @ ns) None) ts2 = Some (ds, ts') \<and> timers_wf ts' \<and>
           (\<forall>u\<in>set (tlist ts') - set ns'. tm < ttime ts' u) \<and> set ns' \<subseteq> set (tlist ts') \<and>
           (\<forall>u\<in>set ns'. ttime ts' u = ttime ts2 u)"
    proof (cases ds)
      case Nil
      have "check_loop cb tm (first_or (ds @ ns) None) ts2 = Some ([], ts2)"
        using Nil Cons.prems(4) same(1) by (cases ns) (simp_all add: check_loop.simps [of cb tm _ ts2])
      then show ?thesis using Nil u(1,2) by (auto simp: timers_wf_def)
    next
      case (Cons x xs)
      then have f: "first_or (ds @ ns) None = first_or (ds @ ns') None" by simp
      show ?thesis
        unfolding f using d u Cons.prems(3) by (intro Cons.IH) (auto simp: timers_wf_def)
    qed
    then show ?thesis unfolding step using u(3) same upd(1) by fastforce
  qed
qed




text \<open>
  A timer that is not linked yet goes to the end of the list whatever its time is, so a
  timer due before one already listed is not run when it is due.
\<close>

theorem fresh_timer_starves:
  assumes "own_timer_cb cb tm" "timers_wf ts" "t \<notin> set (tlist ts)" "ttime ts t = 0"
    "0 < new" "new \<le> tm" "u \<in> set (tlist ts)" "tm < ttime ts u"
  shows "\<exists>fired ts'. hin_timer_check cb tm (hin_timer_update t new ts) = Some (fired, ts') \<and>
           t \<notin> set fired \<and> timers_wf (hin_timer_update t new ts) \<and>
           \<not> timers_sorted (hin_timer_update t new ts)"
proof -
  let ?ts = "hin_timer_update t new ts" and ?due = "\<lambda>u. ttime ts u \<le> tm"
  have eq: "?ts = ts\<lparr>tlist := tlist ts @ [t], ttime := (ttime ts)(t := new)\<rparr>"
    using assms(3-5) by (simp add: hin_timer_update_def remove1_idem)
  define ds ns where "ds = takeWhile ?due (tlist ts)" and "ns = dropWhile ?due (tlist ts)"
  have s: "tlist ts = ds @ ns" by (simp add: ds_def ns_def)
  have ne: "ns \<noteq> []" using assms(7,8) by (force simp: ns_def)
  have nt: "hd ns \<noteq> t" using ne s assms(3) hd_in_set [OF ne] by auto
  have "tm < ttime ts (hd ns)" using hd_dropWhile [of ?due "tlist ts"] ne by (simp add: ns_def not_le)
  moreover have "\<forall>d\<in>set ds. ttime ?ts d \<le> tm"
    using assms(6) by (auto simp: eq ds_def dest: set_takeWhileD)
  moreover have wf: "timers_wf ?ts" using assms(2,3) by (simp add: eq timers_wf_def)
  ultimately obtain ts' where "check_loop cb tm (first_or (ds @ ns @ [t]) None) ?ts = Some (ds, ts')"
    using check_loop_due [OF assms(1), of ?ts ds "ns @ [t]"] ne nt s by (auto simp: eq)
  moreover have "t \<notin> set ds" using assms(3) s by simp
  moreover have "\<not> timers_sorted ?ts"
    using assms(3,6-8) by (fastforce simp: eq timers_sorted_def sorted_append)
  ultimately show ?thesis using wf s by (simp add: hin_timer_check_def eq)
qed

theorem fresh_timer_starves_witness:
  "\<exists>fired ts'. hin_timer_check (\<lambda>t tm ts. (1, hin_timer_remove t ts)) 15
     (hin_timer_update 4 12 timers_ex) = Some (fired, ts') \<and> 4 \<notin> set fired"
  using fresh_timer_starves [of "\<lambda>t tm ts. (1, hin_timer_remove t ts)" 15 timers_ex 4 12 3]
  by (auto simp: own_timer_cb_def timers_wf_def timers_ex_def)

end
