(* ===== verification/Httpd.thy ===== *)
theory Httpd
  imports CacheCtl Vhost Filters Timers
begin

text \<open>
  The server side of a connection: its state (\<open>httpd_client_t\<close>), the responses of
  \<open>http/server/httpd_req.c\<close>, the errors of \<open>http/utils/http_misc.c\<close> and the response options of
  \<open>http/utils/filters.c\<close>.  What the code asks of the kernel is logged in order (\<open>h_log\<close>).  Time,
  \<open>strftime\<close>, \<open>strptime\<close>, the configuration and the Lua callbacks are parameters (\<open>http_env\<close>).
\<close>

definition HIN_REQ_HEADERS :: u32 where [flag_defs]: "HIN_REQ_HEADERS = 0x1"
definition HIN_REQ_DATA :: u32 where [flag_defs]: "HIN_REQ_DATA = 0x2"
definition HIN_REQ_POST :: u32 where [flag_defs]: "HIN_REQ_POST = 0x4"
definition HIN_REQ_CGI :: u32 where [flag_defs]: "HIN_REQ_CGI = 0x20"
definition HIN_REQ_FCGI :: u32 where [flag_defs]: "HIN_REQ_FCGI = 0x40"
definition HIN_REQ_END :: u32 where [flag_defs]: "HIN_REQ_END = 0x80"
definition HIN_REQ_STOPPING :: u32 where [flag_defs]: "HIN_REQ_STOPPING = 0x100"
definition HIN_REQ_ERROR :: u32 where [flag_defs]: "HIN_REQ_ERROR = 0x200"
definition HIN_REQ_ERROR_HANDLED :: u32 where [flag_defs]: "HIN_REQ_ERROR_HANDLED = 0x400"

definition HIN_HTTP_KEEPALIVE :: u32 where [flag_defs]: "HIN_HTTP_KEEPALIVE = 0x1"
definition HIN_HTTP_RANGE :: u32 where [flag_defs]: "HIN_HTTP_RANGE = 0x2"
definition HIN_HTTP_MODIFIED :: u32 where [flag_defs]: "HIN_HTTP_MODIFIED = 0x4"
definition HIN_HTTP_ETAG :: u32 where [flag_defs]: "HIN_HTTP_ETAG = 0x8"
definition HIN_HTTP_CACHE :: u32 where [flag_defs]: "HIN_HTTP_CACHE = 0x10"
definition HIN_HTTP_CHUNKED :: u32 where [flag_defs]: "HIN_HTTP_CHUNKED = 0x20"
definition HIN_HTTP_DEFLATE :: u32 where [flag_defs]: "HIN_HTTP_DEFLATE = 0x40"
definition HIN_HTTP_GZIP :: u32 where [flag_defs]: "HIN_HTTP_GZIP = 0x80"
definition HIN_HTTP_VER0 :: u32 where [flag_defs]: "HIN_HTTP_VER0 = 0x100"
definition HIN_HTTP_BANNER :: u32 where [flag_defs]: "HIN_HTTP_BANNER = 0x200"
definition HIN_HTTP_CHUNKED_UPLOAD :: u32 where [flag_defs]: "HIN_HTTP_CHUNKED_UPLOAD = 0x400"
definition HIN_HTTP_LOCAL_CACHE :: u32 where [flag_defs]: "HIN_HTTP_LOCAL_CACHE = 0x800"
definition HIN_HTTP_DATE :: u32 where [flag_defs]: "HIN_HTTP_DATE = 0x1000"
definition HIN_HTTP_POST :: u32 where [flag_defs]: "HIN_HTTP_POST = 0x2000"

definition HIN_HTTP_COMPRESS :: u32 where [flag_defs]: "HIN_HTTP_COMPRESS = HIN_HTTP_DEFLATE OR HIN_HTTP_GZIP"

definition HIN_HTTPD_SERVER_BANNER :: string where "HIN_HTTPD_SERVER_BANNER = ''hinsightd 0.9''"

text \<open>
  A virtual file: \<open>vn_forbidden\<close> is \<open>node->flags & BASIC_VFS_FORBIDDEN\<close>, \<open>vn_file\<close> what
  \<open>basic_vfs_get_file\<close> returns.  An item is what a response is sent from.
\<close>

record item =
  it_type :: int
  it_fd :: int
  it_modified :: int
  it_size :: int
  it_etag :: u64

record vnode =
  vn_forbidden :: bool
  vn_file :: "item option"

text \<open>The read callback of a pipe of a response, and whether it decodes chunks.\<close>

datatype copy_kind = Copy_raw | Copy_deflate | Copy_chunked

record http_pipe =
  hp_pipe :: pipe
  hp_read :: copy_kind
  hp_decode :: bool

datatype http_event =
    Write "hbuf list"
  | Run_pipe http_pipe
  | Close_request
  | Shutdown_read
  | Close_fd int
  | Timer_set int
  | Timer_off
  | Eat nat
  | Reread
  | More
  | Unref
  | Statx int
  | Openat string

record httpd =
  h_fd :: int
  h_cflags :: u32
  h_state :: u32
  h_peer :: u32
  h_disable :: u32
  h_status :: int
  h_method :: int
  h_pos :: int
  h_count :: int
  h_file :: "vnode option"
  h_cache :: int
  h_cache_flags :: u32
  h_modified_since :: int
  h_cache_key1 :: u64
  h_cache_key2 :: u64
  h_etag :: u64
  h_post_fd :: int
  h_post_sz :: int
  h_post_sep :: "string option"
  h_append_headers :: "string option"
  h_content_type :: "string option"
  h_hostname :: "string option"
  h_read_buffer :: bool
  h_headers :: string_t
  h_vhost :: u64
  h_file_fd :: int
  h_file_path :: "string option"
  h_log :: "http_event list"

record http_env =
  e_now :: int
  e_strftime :: "string \<Rightarrow> int \<Rightarrow> string"
  e_strptime :: "string \<Rightarrow> int option"
  e_verbose :: bool
  e_vhosts :: vhosts
  e_server_vhost :: u64
  e_server_callback :: "httpd \<Rightarrow> httpd option"
  e_finish_callback :: "httpd \<Rightarrow> httpd"
  e_tmpfile :: int

definition log_http :: "http_event \<Rightarrow> httpd \<Rightarrow> httpd" where
  "log_http ev h = h\<lparr>h_log := h_log h @ [ev]\<rparr>"

definition is_post :: "httpd \<Rightarrow> bool" where
  "is_post h \<longleftrightarrow> h_method h AND HIN_METHOD_POST \<noteq> 0"

subsection \<open>Printing headers\<close>

definition hdr :: "string \<Rightarrow> hbuf list \<Rightarrow> hbuf list option" where
  "hdr msg bufs = map_option snd (header bufs msg)"

definition hdr_if :: "bool \<Rightarrow> string \<Rightarrow> hbuf list \<Rightarrow> hbuf list option" where
  "hdr_if c msg bufs = (if c then hdr msg bufs else Some bufs)"

definition status_line :: "httpd \<Rightarrow> int \<Rightarrow> string" where
  "status_line h status =
     ''HTTP/1.'' @ (if has (h_peer h) HIN_HTTP_VER0 then ''0'' else ''1'') @ '' '' @
     print_int status @ '' '' @ http_status_name status @ CRLF"

definition http_date :: "http_env \<Rightarrow> string \<Rightarrow> int \<Rightarrow> hbuf list \<Rightarrow> hbuf list" where
  "http_date e name t bufs = snd (header_date bufs (e_strftime e name t))"

definition hsts_headers :: "vhost \<Rightarrow> hbuf list \<Rightarrow> hbuf list option" where
  "hsts_headers v bufs =
     (if vh_hsts v \<noteq> 0 \<and> \<not> has (vh_flags v) HIN_HSTS_NO_HEADER
      then Option.bind (hdr (''Strict-Transport-Security: max-age='' @ print_int (vh_hsts v)) bufs) (\<lambda>bufs.
           Option.bind (hdr_if (has (vh_flags v) HIN_HSTS_SUBDOMAINS) ''; includeSubDomains'' bufs) (\<lambda>bufs.
           Option.bind (hdr_if (has (vh_flags v) HIN_HSTS_PRELOAD) ''; preload'' bufs) (\<lambda>bufs.
           hdr CRLF bufs)))
      else Some bufs)"

definition httpd_write_common_headers :: "http_env \<Rightarrow> httpd \<Rightarrow> hbuf list \<Rightarrow> hbuf list option" where
  "httpd_write_common_headers e h bufs =
     (let bufs = (if \<not> has (h_disable h) HIN_HTTP_DATE then http_date e ''Date: '' (e_now e) bufs else bufs)
      in
      Option.bind (hdr_if (\<not> has (h_disable h) HIN_HTTP_BANNER)
                     (''Server: '' @ HIN_HTTPD_SERVER_BANNER @ CRLF) bufs) (\<lambda>bufs.
      Option.bind (if has (h_peer h) HIN_HTTP_DEFLATE then hdr (''Content-Encoding: deflate'' @ CRLF) bufs
                   else hdr_if (has (h_peer h) HIN_HTTP_GZIP) (''Content-Encoding: gzip'' @ CRLF) bufs) (\<lambda>bufs.
      Option.bind (hdr_if (has (h_peer h) HIN_HTTP_CHUNKED) (''Transfer-Encoding: chunked'' @ CRLF) bufs) (\<lambda>bufs.
      Option.bind (if \<not> has (h_disable h) HIN_HTTP_CACHE \<and> h_cache_flags h \<noteq> 0
                   then map_option snd (header_cache_control bufs (h_cache_flags h) (h_cache h))
                   else Some bufs) (\<lambda>bufs.
      Option.bind (if has (h_peer h) HIN_HTTP_KEEPALIVE then hdr (''Connection: keep-alive'' @ CRLF) bufs
                   else hdr (''Connection: close'' @ CRLF) bufs) (\<lambda>bufs.
      Option.bind (case h_content_type h of
                     Some t \<Rightarrow> hdr (''Content-Type: '' @ t @ CRLF) bufs | None \<Rightarrow> Some bufs) (\<lambda>bufs.
      Option.bind (hsts_headers (vhost_heap (e_vhosts e) (h_vhost h)) bufs) (\<lambda>bufs.
      case h_append_headers h of Some t \<Rightarrow> hdr t bufs | None \<Rightarrow> Some bufs))))))))"

subsection \<open>Responses\<close>

definition error_page :: "int \<Rightarrow> string" where
  "error_page status = ''<html><head></head><body><h1>Error '' @ print_int status @ '': '' @
     http_status_name status @ ''</h1></body></html>'' @ [LF]"

definition no_body_options :: "httpd \<Rightarrow> httpd" where
  "no_body_options h =
     (let h = h\<lparr>h_disable := setf (h_disable h) (HIN_HTTP_CHUNKED OR HIN_HTTP_COMPRESS OR HIN_HTTP_CACHE)\<rparr>
      in h\<lparr>h_peer := clrf (h_peer h) (h_disable h)\<rparr>)"

text \<open>The part of \<open>httpd_respond_text\<close> after the checks.\<close>

definition write_text :: "http_env \<Rightarrow> int \<Rightarrow> string option \<Rightarrow> httpd \<Rightarrow> httpd option" where
  "write_text e status body h =
     (let h = h\<lparr>h_status := status\<rparr>;
          body = (case body of None \<Rightarrow> error_page status | Some b \<Rightarrow> b);
          h = no_body_options h
      in
      Option.bind (hdr (status_line h status) [new_buffer 0]) (\<lambda>bufs.
      Option.bind (httpd_write_common_headers e h bufs) (\<lambda>bufs.
      Option.bind (hdr (''Content-Length: '' @ print_int (int (length body)) @ CRLF) bufs) (\<lambda>bufs.
      Option.bind (hdr CRLF bufs) (\<lambda>bufs.
      Option.bind (hdr_if (h_method h \<noteq> HIN_METHOD_HEAD) body bufs) (\<lambda>bufs.
      Some (log_http (Write bufs) h)))))))"

text \<open>
  \<open>httpd_respond_text\<close>, \<open>httpd_respond_fatal\<close> and \<open>httpd_error\<close> call each other: a POST is
  answered with an error.  \<open>msg\<close> is the formatted message; \<open>None\<close> is the endless recursion of
  \<open>header\<close>.
\<close>

function httpd_respond_text :: "http_env \<Rightarrow> int \<Rightarrow> string option \<Rightarrow> httpd \<Rightarrow> (int \<times> httpd) option"
and httpd_respond_fatal :: "http_env \<Rightarrow> int \<Rightarrow> string option \<Rightarrow> httpd \<Rightarrow> (int \<times> httpd) option"
and httpd_error :: "http_env \<Rightarrow> int \<Rightarrow> string \<Rightarrow> httpd \<Rightarrow> (int \<times> httpd) option"
where
  "httpd_respond_text e status body h =
     (if has (h_state h) HIN_REQ_DATA then Some (-1, h)
      else if is_post h
      then httpd_error e 405 ''POST on a raw resource''
             (h\<lparr>h_state := setf (h_state h) HIN_REQ_DATA, h_method := HIN_METHOD_GET\<rparr>)
      else map_option (\<lambda>h. (0, h))
             (write_text e status body (h\<lparr>h_state := setf (h_state h) HIN_REQ_DATA\<rparr>)))"
| "httpd_respond_fatal e status body h =
     (if has (h_state h) HIN_REQ_ERROR then Some (0, h)
      else map_option (\<lambda>(_, h). (0, h))
             (httpd_respond_text e status body
                (h\<lparr>h_state := setf (clrf (h_state h) (HIN_REQ_DATA OR HIN_REQ_POST)) HIN_REQ_ERROR,
                   h_method := HIN_METHOD_GET, h_peer := clrf (h_peer h) HIN_HTTP_KEEPALIVE\<rparr>)))"
| "httpd_error e status msg h =
     (if status = 0 then Some (0, h)
      else map_option (\<lambda>(_, h). (0, h))
             (httpd_respond_fatal e status
                (if e_verbose e
                 then Some (''<html><head></head><body><h1>Error '' @ print_int status @ '': '' @
                        http_status_name status @ ''</h1><p>'' @ msg @ ''</p></body></html>'' @ [LF])
                 else None) h))"
  by pat_completeness auto
termination
  by (relation "measure (\<lambda>x. case x of
        Inl (e, s, b, h) \<Rightarrow> if is_post h then 3 else 0
      | Inr (Inl (e, s, b, h)) \<Rightarrow> 1
      | Inr (Inr (e, s, m, h)) \<Rightarrow> 2)")
     (auto simp: is_post_def HIN_METHOD_POST_def HIN_METHOD_GET_def)

declare httpd_respond_text.simps [simp del] httpd_respond_fatal.simps [simp del] httpd_error.simps [simp del]

definition httpd_respond_error :: "http_env \<Rightarrow> int \<Rightarrow> string option \<Rightarrow> httpd \<Rightarrow> (int \<times> httpd) option" where
  "httpd_respond_error e status body h =
     (if has (h_state h) HIN_REQ_ERROR then Some (0, h)
      else httpd_respond_text e status body
             (h\<lparr>h_state := setf (clrf (h_state h) (HIN_REQ_DATA OR HIN_REQ_POST)) HIN_REQ_ERROR,
                h_method := HIN_METHOD_GET\<rparr>))"

definition httpd_respond_fatal_and_full ::
  "http_env \<Rightarrow> int \<Rightarrow> string option \<Rightarrow> httpd \<Rightarrow> (int \<times> httpd) option" where
  "httpd_respond_fatal_and_full e status body h =
     (if has (h_state h) HIN_REQ_ERROR then Some (0, h)
      else map_option (\<lambda>(_, h). (0, h))
             (httpd_respond_text e status body
                (h\<lparr>h_state := setf (clrf (h_state h) (HIN_REQ_DATA OR HIN_REQ_POST)) HIN_REQ_ERROR,
                   h_method := HIN_METHOD_GET, h_peer := clrf (h_peer h) HIN_HTTP_KEEPALIVE\<rparr>)))"

definition httpd_respond_buffer :: "http_env \<Rightarrow> int \<Rightarrow> hbuf list \<Rightarrow> httpd \<Rightarrow> (int \<times> httpd) option" where
  "httpd_respond_buffer e status data h =
     (if has (h_state h) HIN_REQ_DATA then Some (-1, h)
      else
        let h = h\<lparr>h_state := setf (h_state h) HIN_REQ_DATA, h_status := status\<rparr>;
            len = sum_list (map hb_count data);
            h = no_body_options h
        in
        Option.bind (hdr (status_line h status) [new_buffer 0]) (\<lambda>bufs.
        Option.bind (httpd_write_common_headers e h bufs) (\<lambda>bufs.
        Option.bind (hdr (''Content-Length: '' @ print_int (int len) @ CRLF) bufs) (\<lambda>bufs.
        Option.bind (hdr CRLF bufs) (\<lambda>bufs.
        Some (0, log_http (Write (if h_method h \<noteq> HIN_METHOD_HEAD then bufs @ data else bufs)) h))))))"

definition httpd_respond_redirect :: "http_env \<Rightarrow> int \<Rightarrow> string \<Rightarrow> httpd \<Rightarrow> (int \<times> httpd) option" where
  "httpd_respond_redirect e status location h =
     (let new = ''Location: '' @ location @ CRLF @ (case h_append_headers h of Some o' \<Rightarrow> o' | None \<Rightarrow> [])
      in map_option (\<lambda>(_, h). (0, h))
           (httpd_respond_text e (if status \<noteq> 0 then status else 302) (Some [])
              (h\<lparr>h_append_headers := Some new\<rparr>)))"

text \<open>A missing host name is printed as \<open>(null)\<close>; \<open>None\<close> also for a line feed past the headers.\<close>

definition httpd_respond_redirect_https :: "http_env \<Rightarrow> httpd \<Rightarrow> (int \<times> httpd) option" where
  "httpd_respond_redirect_https e h =
     (case hin_find_line (h_headers h) of
        None \<Rightarrow> None
      | Some (used, _, line) \<Rightarrow>
          if used = 0 then Some (-1, h)
          else case hin_http_parse_header_line line of
            (None, _) \<Rightarrow> Some (-1, h)
          | (Some (_, target, _), _) \<Rightarrow>
              map_option (\<lambda>(_, h). (0, h))
                (httpd_respond_redirect e 302
                   (''https://'' @ (case h_hostname h of Some n \<Rightarrow> n | None \<Rightarrow> ''(null)'') @ str_of target) h))"

subsection \<open>Response options of a pipe\<close>

definition httpd_request_chunked :: "httpd \<Rightarrow> bool \<times> httpd" where
  "httpd_request_chunked h =
     (if has (h_peer h) HIN_HTTP_VER0
      then (False, h\<lparr>h_peer := clrf (h_peer h) (HIN_HTTP_KEEPALIVE OR HIN_HTTP_CHUNKED)\<rparr>)
      else (True, if has (h_peer h) HIN_HTTP_KEEPALIVE
                  then h\<lparr>h_peer := setf (h_peer h) HIN_HTTP_CHUNKED\<rparr> else h))"

definition httpd_pipe_set_chunked :: "httpd \<Rightarrow> http_pipe \<Rightarrow> httpd \<times> http_pipe" where
  "httpd_pipe_set_chunked h p =
     (if has (h_peer h) HIN_HTTP_COMPRESS
      then (snd (httpd_request_chunked h), p\<lparr>hp_read := Copy_deflate\<rparr>)
      else if has (h_peer h) HIN_HTTP_CHUNKED
      then (case httpd_request_chunked h of
              (ok, h) \<Rightarrow> (h, if ok then p\<lparr>hp_read := Copy_chunked\<rparr> else p))
      else (h, p))"

definition httpd_pipe_set_http11_response_options :: "httpd \<Rightarrow> http_pipe \<Rightarrow> httpd \<times> http_pipe" where
  "httpd_pipe_set_http11_response_options h p =
     (let out = \<lparr>d_fd = h_fd h, d_flags = HIN_SOCKET OR (h_cflags h AND HIN_SSL), d_pos = 0\<rparr>;
          p = p\<lparr>hp_pipe := (hp_pipe p)\<lparr>p_out := out, out_error_cb := True, p_left := h_count h\<rparr>\<rparr>
      in if h_status h = 304 \<or> h_method h = HIN_METHOD_HEAD
         then (h\<lparr>h_peer := clrf (h_peer h) (HIN_HTTP_CHUNKED OR HIN_HTTP_COMPRESS)\<rparr>,
               p\<lparr>hp_pipe := (hp_pipe p)\<lparr>p_left := 0\<rparr>\<rparr>)
         else httpd_pipe_set_chunked h p)"

definition httpd_pipe_upload_chunked :: "httpd \<Rightarrow> http_pipe \<Rightarrow> http_pipe" where
  "httpd_pipe_upload_chunked h p =
     (if has (h_disable h) HIN_HTTP_CHUNKED_UPLOAD then p
      else if has (h_peer h) HIN_HTTP_CHUNKED_UPLOAD then p\<lparr>hp_decode := True, hp_read := Copy_chunked\<rparr>
      else p)"

text \<open>A pipe after \<open>calloc\<close> and \<open>hin_pipe_init\<close>.\<close>

definition new_pipe :: http_pipe where
  "new_pipe =
     \<lparr>hp_pipe = \<lparr>p_in = \<lparr>d_fd = 0, d_flags = 0, d_pos = 0\<rparr>, p_out = \<lparr>d_fd = 0, d_flags = 0, d_pos = 0\<rparr>,
        p_count = 0, p_left = 0, write_que = [], writing = [], reading = [], finish_cb = False,
        out_error_cb = False, in_error_cb = False, p_flags = 0, p_hash = 0, p_freed = False, p_log = []\<rparr>,
      hp_read = Copy_raw, hp_decode = False\<rparr>"

subsection \<open>Printed texts\<close>

definition appends :: "hbuf list \<Rightarrow> string \<Rightarrow> hbuf list option \<Rightarrow> bool" where
  "appends bufs t r \<longleftrightarrow> (\<exists>bufs'. r = Some bufs' \<and> chain_wf bufs' \<and> chain_text bufs' = chain_text bufs @ t)"

lemma appends_hdr:
  assumes "chain_wf bufs" "length msg < HIN_HTTPD_MAX_HEADER_LINE_SIZE"
  shows "appends bufs msg (hdr msg bufs)"
proof -
  have "\<not> HIN_HTTPD_MAX_HEADER_LINE_SIZE < length msg" "length msg \<noteq> HIN_HTTPD_MAX_HEADER_LINE_SIZE"
    using assms(2) by auto
  then show ?thesis
    using vheader_result [OF assms(1), of msg] by (auto simp: appends_def hdr_def header_def)
qed

lemma appends_long:
  assumes "chain_wf bufs" "HIN_HTTPD_MAX_HEADER_LINE_SIZE < length msg"
  shows "appends bufs [] (hdr msg bufs)"
  using vheader_result [OF assms(1), of msg] assms(2) by (auto simp: appends_def hdr_def header_def)

lemma appends_Some: "chain_wf bufs \<Longrightarrow> appends bufs [] (Some bufs)"
  by (simp add: appends_def)

lemma appends_if:
  "chain_wf bufs \<Longrightarrow> (c \<Longrightarrow> length msg < HIN_HTTPD_MAX_HEADER_LINE_SIZE) \<Longrightarrow>
   appends bufs (if c then msg else []) (hdr_if c msg bufs)"
  by (simp add: hdr_if_def appends_hdr appends_Some)

lemma appends_cond:
  "(c \<Longrightarrow> appends bufs t r) \<Longrightarrow> (\<not> c \<Longrightarrow> appends bufs u q) \<Longrightarrow>
   appends bufs (if c then t else u) (if c then r else q)"
  by simp

lemma appends_bind:
  assumes "appends bufs t r" "\<And>b. chain_wf b \<Longrightarrow> appends b u (f b)"
  shows "appends bufs (t @ u) (Option.bind r f)"
proof -
  obtain b where b: "r = Some b" "chain_wf b" "chain_text b = chain_text bufs @ t"
    using assms(1) by (auto simp: appends_def)
  then show ?thesis using assms(2) [OF b(2)] by (auto simp: appends_def)
qed

lemma appends_cache_control:
  "chain_wf bufs \<Longrightarrow> \<bar>age\<bar> < 10 ^ 20 \<Longrightarrow>
   appends bufs (cache_header flags age) (map_option snd (header_cache_control bufs flags age))"
  using prints_cache_control [of bufs age flags] by (auto simp: writes_def appends_def)

definition hsts_text :: "vhost \<Rightarrow> string" where
  "hsts_text v =
     (if vh_hsts v \<noteq> 0 \<and> \<not> has (vh_flags v) HIN_HSTS_NO_HEADER
      then (''Strict-Transport-Security: max-age='' @ print_int (vh_hsts v)) @
           (if has (vh_flags v) HIN_HSTS_SUBDOMAINS then ''; includeSubDomains'' else []) @
           (if has (vh_flags v) HIN_HSTS_PRELOAD then ''; preload'' else []) @ CRLF
      else [])"

definition common_text :: "http_env \<Rightarrow> httpd \<Rightarrow> string" where
  "common_text e h =
     (if \<not> has (h_disable h) HIN_HTTP_BANNER then ''Server: '' @ HIN_HTTPD_SERVER_BANNER @ CRLF else []) @
     (if has (h_peer h) HIN_HTTP_DEFLATE then ''Content-Encoding: deflate'' @ CRLF
      else if has (h_peer h) HIN_HTTP_GZIP then ''Content-Encoding: gzip'' @ CRLF else []) @
     (if has (h_peer h) HIN_HTTP_CHUNKED then ''Transfer-Encoding: chunked'' @ CRLF else []) @
     (if \<not> has (h_disable h) HIN_HTTP_CACHE \<and> h_cache_flags h \<noteq> 0
      then cache_header (h_cache_flags h) (h_cache h) else []) @
     (if has (h_peer h) HIN_HTTP_KEEPALIVE then ''Connection: keep-alive'' @ CRLF
      else ''Connection: close'' @ CRLF) @
     (case h_content_type h of Some t \<Rightarrow> ''Content-Type: '' @ t @ CRLF | None \<Rightarrow> []) @
     hsts_text (vhost_heap (e_vhosts e) (h_vhost h)) @
     (case h_append_headers h of Some t \<Rightarrow> t | None \<Rightarrow> [])"

definition date_text :: "http_env \<Rightarrow> httpd \<Rightarrow> string" where
  "date_text e h = (if \<not> has (h_disable h) HIN_HTTP_DATE then e_strftime e ''Date: '' (e_now e) else [])"

text \<open>The variable texts fit a line, and dates are shorter than 80 bytes.\<close>

definition texts_fit :: "http_env \<Rightarrow> httpd \<Rightarrow> bool" where
  "texts_fit e h \<longleftrightarrow> (\<forall>name t. length (e_strftime e name t) < 80) \<and>
     (\<forall>t. h_content_type h = Some t \<longrightarrow> length t < 4000) \<and>
     (\<forall>t. h_append_headers h = Some t \<longrightarrow> length t < 4096) \<and>
     \<bar>h_cache h\<bar> < 10 ^ 20 \<and> \<bar>vh_hsts (vhost_heap (e_vhosts e) (h_vhost h))\<bar> < 10 ^ 20"

lemma appends_hsts:
  assumes "chain_wf bufs" "\<bar>vh_hsts v\<bar> < 10 ^ 20"
  shows "appends bufs (hsts_text v) (hsts_headers v bufs)"
  unfolding hsts_text_def hsts_headers_def
  using length_print_int [OF assms(2)]
  by (intro appends_cond appends_bind appends_hdr appends_if appends_Some assms(1))
     (simp_all add: HIN_HTTPD_MAX_HEADER_LINE_SIZE_def)

text \<open>A first text leaves one buffer with room for a date.\<close>

lemma hdr_first:
  assumes "length msg < 4000"
  shows "\<exists>b. hdr msg [new_buffer n] = Some [b] \<and> chain_wf [b] \<and> chain_text [b] = msg \<and> 80 \<le> hb_free b"
proof -
  let ?b = "new_buffer n"
  let ?c = "?b\<lparr>hb_mem := print_at 0 (max READ_SZ n) msg (hb_mem ?b), hb_count := length msg\<rparr>"
  have r: "hdr msg [?b] = Some [?c]"
    using assms vheader_last [of msg ?b]
    by (simp add: hdr_def header_def READ_SZ_def HIN_HTTPD_MAX_HEADER_LINE_SIZE_def)
  have "0 + max READ_SZ n = length (hb_mem ?b)" by simp
  note p = print_at_simps [OF this, of msg]
  have "length msg \<le> max READ_SZ n" "80 \<le> max READ_SZ n - length msg" "length msg < max READ_SZ n"
    using assms by (auto simp: READ_SZ_def)
  then show ?thesis
    using r p by (intro exI [of _ ?c]) (simp add: chain_wf_def hb_free_def)
qed

lemma header_date_wf:
  assumes "chain_wf [b]" "length date < 80" "80 \<le> hb_free b"
  shows "chain_wf (snd (header_date [b] date)) \<and> chain_text (snd (header_date [b] date)) = chain_text [b] @ date"
proof -
  have "take (hb_count b + length date) (mem_write (hb_count b) (date @ [NUL]) (hb_mem b)) =
        take (hb_count b) (hb_mem b) @ date"
    using assms by (simp add: mem_write_def hb_free_def chain_wf_def)
  then show ?thesis
    using assms by (simp add: header_date_def HIN_HTTPD_MAX_HEADER_LINE_SIZE_def Let_def chain_wf_def
        hb_free_def mem_write_def)
qed

lemma length_status_name: "length (http_status_name n) \<le> 40"
proof -
  have "\<forall>x\<in>set status_names. length (snd x) \<le> 40" by (simp add: status_names_def)
  then show ?thesis
    by (auto simp: http_status_name_def dest!: map_of_SomeD split: option.split)
qed

lemma common_headers_appends:
  assumes "texts_fit e h" "chain_wf [b]" "80 \<le> hb_free b"
  shows "appends [b] (date_text e h @ common_text e h) (httpd_write_common_headers e h [b])"
proof -
  define bs where "bs = (if \<not> has (h_disable h) HIN_HTTP_DATE then http_date e ''Date: '' (e_now e) [b] else [b])"
  have fit: "\<And>t. h_content_type h = Some t \<Longrightarrow> length t < 4000" "\<And>t. h_append_headers h = Some t \<Longrightarrow> length t < 4096"
    "\<bar>h_cache h\<bar> < 10 ^ 20" "\<bar>vh_hsts (vhost_heap (e_vhosts e) (h_vhost h))\<bar> < 10 ^ 20"
    "length (e_strftime e ''Date: '' (e_now e)) < 80"
    using assms(1) by (auto simp: texts_fit_def)
  have bs: "chain_wf bs" "chain_text bs = chain_text [b] @ date_text e h"
    using header_date_wf [OF assms(2) fit(5) assms(3)] assms(2)
    by (auto simp: bs_def http_date_def date_text_def)
  have "appends bs (common_text e h) (httpd_write_common_headers e h [b])"
    unfolding httpd_write_common_headers_def Let_def bs_def [symmetric] common_text_def
    by (intro appends_bind appends_cond appends_if appends_hdr appends_Some appends_cache_control
          appends_hsts bs(1) fit(3,4))
       (use fit in \<open>auto simp: HIN_HTTPD_MAX_HEADER_LINE_SIZE_def HIN_HTTPD_SERVER_BANNER_def
          intro!: appends_hdr appends_Some split: option.splits\<close>)
  then show ?thesis using bs(2) by (simp add: appends_def)
qed

lemma appends_head:
  assumes "texts_fit e h" "length (print_int status) < 100"
  shows "\<exists>b. Option.bind (hdr (status_line h status) [new_buffer n]) (\<lambda>b. httpd_write_common_headers e h b) = Some b \<and>
     chain_wf b \<and> chain_text b = status_line h status @ date_text e h @ common_text e h"
proof -
  have "length (status_line h status) < 4000"
    using assms(2) length_status_name [of status] by (simp add: status_line_def)
  then obtain b where b: "hdr (status_line h status) [new_buffer n] = Some [b]" "chain_wf [b]"
      "chain_text [b] = status_line h status" "80 \<le> hb_free b"
    using hdr_first by blast
  from common_headers_appends [OF assms(1) b(2,4)] b(1,3) show ?thesis by (auto simp: appends_def)
qed

definition body_sent :: "httpd \<Rightarrow> string \<Rightarrow> string" where
  "body_sent h body =
     (if h_method h = HIN_METHOD_HEAD \<or> HIN_HTTPD_MAX_HEADER_LINE_SIZE < length body then [] else body)"

lemma write_text_result:
  assumes "texts_fit e (no_body_options (h\<lparr>h_status := status\<rparr>))" "length (print_int status) < 100"
    "length (case body of None \<Rightarrow> error_page status | Some b \<Rightarrow> b) \<noteq> HIN_HTTPD_MAX_HEADER_LINE_SIZE"
    "length (print_int (int (length (case body of None \<Rightarrow> error_page status | Some b \<Rightarrow> b)))) < 100"
  shows "\<exists>bufs. write_text e status body h = Some (log_http (Write bufs) (no_body_options (h\<lparr>h_status := status\<rparr>))) \<and>
     chain_wf bufs \<and>
     chain_text bufs =
       (let g = no_body_options (h\<lparr>h_status := status\<rparr>);
            text = (case body of None \<Rightarrow> error_page status | Some b \<Rightarrow> b)
        in status_line g status @ date_text e g @ common_text e g @
           ''Content-Length: '' @ print_int (int (length text)) @ CRLF @ CRLF @ body_sent h text)"
proof -
  define g where "g = no_body_options (h\<lparr>h_status := status\<rparr>)"
  define text' where "text' = (case body of None \<Rightarrow> error_page status | Some b \<Rightarrow> b)"
  have m: "h_method g = h_method h" by (simp add: g_def no_body_options_def Let_def)
  obtain b where b: "Option.bind (hdr (status_line g status) [new_buffer 0]) (\<lambda>b. httpd_write_common_headers e g b) = Some b"
      "chain_wf b" "chain_text b = status_line g status @ date_text e g @ common_text e g"
    using appends_head [of e g status] assms(1,2) by (auto simp: g_def)
  obtain b0 where b0: "hdr (status_line g status) [new_buffer 0] = Some b0" "httpd_write_common_headers e g b0 = Some b"
    using b(1) by (cases "hdr (status_line g status) [new_buffer 0]") auto
  have len: "length text' < HIN_HTTPD_MAX_HEADER_LINE_SIZE \<or> HIN_HTTPD_MAX_HEADER_LINE_SIZE < length text'"
    using assms(3) by (auto simp: text'_def)
  have body: "appends c (body_sent h text') (hdr_if (h_method g \<noteq> HIN_METHOD_HEAD) text' c)" if "chain_wf c" for c
    using appends_hdr [OF that, of text'] appends_long [OF that, of text'] appends_Some [OF that] len m
    by (auto simp: body_sent_def hdr_if_def)
  have "appends b ((''Content-Length: '' @ print_int (int (length text')) @ CRLF) @ CRLF @ body_sent h text')
     (Option.bind (hdr (''Content-Length: '' @ print_int (int (length text')) @ CRLF) b) (\<lambda>bufs.
      Option.bind (hdr CRLF bufs) (\<lambda>bufs. hdr_if (h_method g \<noteq> HIN_METHOD_HEAD) text' bufs)))"
    using assms(4) by (intro appends_bind appends_hdr b(2) body)
      (simp_all add: HIN_HTTPD_MAX_HEADER_LINE_SIZE_def text'_def)
  then obtain bufs where "chain_wf bufs"
      "chain_text bufs = chain_text b @ ''Content-Length: '' @ print_int (int (length text')) @ CRLF @ CRLF @ body_sent h text'"
      "Option.bind (hdr (''Content-Length: '' @ print_int (int (length text')) @ CRLF) b) (\<lambda>bufs.
       Option.bind (hdr CRLF bufs) (\<lambda>bufs. hdr_if (h_method g \<noteq> HIN_METHOD_HEAD) text' bufs)) = Some bufs"
    by (auto simp: appends_def)
  moreover from this(3) have "write_text e status body h = Some (log_http (Write bufs) g)"
    unfolding write_text_def Let_def g_def [symmetric] text'_def [symmetric]
    by (auto simp: b0 split: Option.bind_splits)
  ultimately show ?thesis by (intro exI [of _ bufs]) (simp add: g_def text'_def b(3) Let_def)
qed


definition httpd0 :: httpd where
  "httpd0 = \<lparr>h_fd = 5, h_cflags = 0, h_state = HIN_REQ_HEADERS, h_peer = 0, h_disable = 0, h_status = 0,
     h_method = 0, h_pos = 0, h_count = 0, h_file = None, h_cache = 0, h_cache_flags = 0,
     h_modified_since = 0, h_cache_key1 = 0, h_cache_key2 = 0, h_etag = 0, h_post_fd = 0,
     h_post_sz = 0, h_post_sep = None, h_append_headers = None, h_content_type = None,
     h_hostname = None, h_read_buffer = True, h_headers = null_str, h_vhost = 0, h_file_fd = 0,
     h_file_path = None, h_log = []\<rparr>"

definition env0 :: http_env where
  "env0 = \<lparr>e_now = 0, e_strftime = (\<lambda>name t. name @ CRLF), e_strptime = (\<lambda>s. None), e_verbose = False,
     e_vhosts = vhosts0, e_server_vhost = 0, e_server_callback = Some, e_finish_callback = id,
     e_tmpfile = 9\<rparr>"


subsection \<open>How often a request is answered\<close>

datatype response =
    Text int "string option"
  | Error_page int "string option"
  | Fatal int "string option"
  | Fatal_full int "string option"
  | Buffer int "hbuf list"
  | Redirect int string
  | Redirect_https
  | Failure int string

definition respond :: "http_env \<Rightarrow> response \<Rightarrow> httpd \<Rightarrow> (int \<times> httpd) option" where
  "respond e r h =
     (case r of
        Text s b \<Rightarrow> httpd_respond_text e s b h
      | Error_page s b \<Rightarrow> httpd_respond_error e s b h
      | Fatal s b \<Rightarrow> httpd_respond_fatal e s b h
      | Fatal_full s b \<Rightarrow> httpd_respond_fatal_and_full e s b h
      | Buffer s d \<Rightarrow> httpd_respond_buffer e s d h
      | Redirect s l \<Rightarrow> httpd_respond_redirect e s l h
      | Redirect_https \<Rightarrow> httpd_respond_redirect_https e h
      | Failure s m \<Rightarrow> httpd_error e s m h)"

fun respond_all :: "http_env \<Rightarrow> response list \<Rightarrow> httpd \<Rightarrow> httpd option" where
  "respond_all e [] h = Some h"
| "respond_all e (r # rs) h = Option.bind (respond e r h) (\<lambda>(_, h). respond_all e rs h)"

definition n_writes :: "httpd \<Rightarrow> nat" where
  "n_writes h = length (filter (\<lambda>ev. case ev of Write _ \<Rightarrow> True | _ \<Rightarrow> False) (h_log h))"

text \<open>The responses still possible; an error response counts as the last one.\<close>

definition budget :: "httpd \<Rightarrow> nat" where
  "budget h = (if has (h_state h) HIN_REQ_ERROR then 0 else if has (h_state h) HIN_REQ_DATA then 1 else 2)"

definition error_answered :: "httpd \<Rightarrow> bool" where
  "error_answered h \<longleftrightarrow> (has (h_state h) HIN_REQ_ERROR \<longrightarrow> has (h_state h) HIN_REQ_DATA)"

text \<open>\<open>answers h h'\<close>: what a response may do.\<close>

definition answers :: "httpd \<Rightarrow> httpd \<Rightarrow> bool" where
  "answers h h' \<longleftrightarrow> error_answered h' \<and> n_writes h' + budget h' \<le> n_writes h + budget h \<and>
     (has (h_state h) HIN_REQ_ERROR \<longrightarrow> has (h_state h') HIN_REQ_ERROR \<and> h_log h' = h_log h)"

lemma req_masks [simp]:
  "has HIN_REQ_DATA HIN_REQ_DATA" "has HIN_REQ_ERROR HIN_REQ_ERROR"
  "\<not> has HIN_REQ_DATA HIN_REQ_ERROR" "\<not> has HIN_REQ_ERROR HIN_REQ_DATA"
  "\<not> has (clrf f (HIN_REQ_DATA OR HIN_REQ_POST)) HIN_REQ_DATA"
  "has (clrf f (HIN_REQ_DATA OR HIN_REQ_POST)) HIN_REQ_ERROR = has f HIN_REQ_ERROR"
  by (simp_all add: has_clrf) (simp_all add: has_def flag_defs)

lemma write_text_log:
  assumes "write_text e status body h = Some h'"
  shows "\<exists>bufs. h_log h' = h_log h @ [Write bufs]" "h_state h' = h_state h"
  using assms
  by (auto simp: write_text_def Let_def log_http_def no_body_options_def split: Option.bind_splits)

lemma text_answers:
  assumes "httpd_respond_text e status body h = Some (r, h')" "\<not> is_post h" "error_answered h"
  shows "answers h h' \<and> (\<not> has (h_state h) HIN_REQ_DATA \<longrightarrow>
     h_state h' = setf (h_state h) HIN_REQ_DATA \<and> n_writes h' = n_writes h + 1)"
proof (cases "has (h_state h) HIN_REQ_DATA")
  case True
  then show ?thesis
    using assms by (subst (asm) httpd_respond_text.simps) (simp add: answers_def)
next
  case False
  let ?h = "h\<lparr>h_state := setf (h_state h) HIN_REQ_DATA\<rparr>"
  have "write_text e status body ?h = Some h'"
    using assms False by (subst (asm) httpd_respond_text.simps) auto
  from write_text_log [OF this] show ?thesis
    using False assms(3) by (auto simp: answers_def n_writes_def budget_def error_answered_def)
qed

lemma answers_state:
  assumes "\<not> has (h_state h) HIN_REQ_ERROR" "has (h_state h') HIN_REQ_ERROR" "has (h_state h') HIN_REQ_DATA"
    "n_writes h' = n_writes h + 1"
  shows "answers h h'"
  using assms by (simp add: answers_def error_answered_def budget_def)

lemma error_text:
  assumes "httpd_respond_text e status body h1 = Some (r, h')" "\<not> has (h_state h) HIN_REQ_ERROR"
    "h_state h1 = setf (clrf (h_state h) (HIN_REQ_DATA OR HIN_REQ_POST)) HIN_REQ_ERROR"
    "h_method h1 = HIN_METHOD_GET" "h_log h1 = h_log h"
  shows "answers h h'"
proof -
  have no: "\<not> has (h_state h1) HIN_REQ_DATA" "\<not> is_post h1" "n_writes h1 = n_writes h"
    using assms(3-5) by (simp_all add: is_post_def HIN_METHOD_GET_def HIN_METHOD_POST_def n_writes_def)
  have "write_text e status body (h1\<lparr>h_state := setf (h_state h1) HIN_REQ_DATA\<rparr>) = Some h'"
    using assms(1) no by (subst (asm) httpd_respond_text.simps) auto
  from write_text_log [OF this] show ?thesis
    using assms(2,3) no(3) by (intro answers_state) (auto simp: n_writes_def)
qed

lemma answers_refl: "error_answered h \<Longrightarrow> answers h h"
  by (simp add: answers_def)

lemma fatal_answers:
  assumes "httpd_respond_fatal e status body h = Some (r, h')" "error_answered h"
  shows "answers h h'"
  using assms error_text [of e status body _ _ h' h]
  by (subst (asm) httpd_respond_fatal.simps) (auto simp: answers_refl split: if_splits)

lemma error_answers:
  assumes "httpd_error e status msg h = Some (r, h')" "error_answered h"
  shows "answers h h'"
  using assms fatal_answers [of e status _ h _ h']
  by (subst (asm) httpd_error.simps) (auto simp: answers_refl split: if_splits)

lemma answers_same: "answers g h' \<Longrightarrow> h_state g = h_state h \<Longrightarrow> h_log g = h_log h \<Longrightarrow> answers h h'"
proof -
  assume a: "answers g h'" "h_state g = h_state h" "h_log g = h_log h"
  then have "n_writes g = n_writes h" "budget g = budget h" by (simp_all add: n_writes_def budget_def)
  with a show ?thesis by (simp add: answers_def)
qed

lemma respond_text_answers:
  assumes "httpd_respond_text e status body h = Some (r, h')" "error_answered h"
  shows "answers h h'"
proof (cases "is_post h \<and> \<not> has (h_state h) HIN_REQ_DATA")
  case False
  then show ?thesis
    using assms text_answers [OF assms(1) _ assms(2)]
    by (subst (asm) httpd_respond_text.simps) (auto simp: answers_refl split: if_splits)
next
  case True
  let ?h = "h\<lparr>h_state := setf (h_state h) HIN_REQ_DATA, h_method := HIN_METHOD_GET\<rparr>"
  have "httpd_error e 405 ''POST on a raw resource'' ?h = Some (r, h')"
    using assms(1) True by (subst (asm) httpd_respond_text.simps) simp
  moreover have "error_answered ?h" by (simp add: error_answered_def)
  ultimately have "answers ?h h'" by (rule error_answers)
  moreover have "n_writes ?h = n_writes h" "budget h = 2" "budget ?h = 1" "\<not> has (h_state h) HIN_REQ_ERROR"
    using True assms(2) by (auto simp: n_writes_def budget_def error_answered_def)
  ultimately show ?thesis by (simp add: answers_def)
qed

lemma respond_answers:
  assumes "respond e r h = Some (x, h')" "error_answered h"
  shows "answers h h'"
proof -
  have red: "answers h h'" if "httpd_respond_redirect e s l h = Some (y, h')" for s l y
    using that respond_text_answers [of e _ _ _ _ h'] assms(2)
    by (fastforce simp: httpd_respond_redirect_def Let_def error_answered_def intro: answers_same)
  have err: "answers h h'" if "httpd_respond_text e s b (h\<lparr>h_state := setf (clrf (h_state h) (HIN_REQ_DATA OR HIN_REQ_POST)) HIN_REQ_ERROR,
      h_method := HIN_METHOD_GET, h_peer := p\<rparr>) = Some (y, h')" "\<not> has (h_state h) HIN_REQ_ERROR" for s b p y
    using error_text [OF that(1,2)] by simp
  have page: "answers h h'" if "httpd_respond_text e s b (h\<lparr>h_state := setf (clrf (h_state h) (HIN_REQ_DATA OR HIN_REQ_POST)) HIN_REQ_ERROR,
      h_method := HIN_METHOD_GET\<rparr>) = Some (y, h')" "\<not> has (h_state h) HIN_REQ_ERROR" for s b y
    using error_text [OF that(1,2)] by simp
  show ?thesis
  proof (cases r)
    case (Error_page s b)
    then show ?thesis
      using assms page by (auto simp: respond_def httpd_respond_error_def answers_refl split: if_splits)
  next
    case (Buffer s d)
    then show ?thesis
      using assms by (auto simp: respond_def httpd_respond_buffer_def Let_def answers_def log_http_def n_writes_def
          budget_def no_body_options_def error_answered_def split: if_splits Option.bind_splits)
  next
    case Redirect_https
    then show ?thesis
      using assms red by (auto simp: respond_def httpd_respond_redirect_https_def answers_refl
          split: option.splits if_splits prod.splits)
  qed (use assms respond_text_answers fatal_answers error_answers red err in
      \<open>auto simp: respond_def httpd_respond_fatal_and_full_def answers_refl split: if_splits\<close>)
qed

lemma respond_all_answers:
  "respond_all e rs h = Some h' \<Longrightarrow> error_answered h \<Longrightarrow> answers h h'"
proof (induction rs arbitrary: h)
  case Nil
  then show ?case by (simp add: answers_refl)
next
  case (Cons r rs)
  then obtain x g where g: "respond e r h = Some (x, g)" "respond_all e rs g = Some h'"
    by (auto split: Option.bind_splits)
  have "answers h g" by (rule respond_answers [OF g(1) Cons.prems(2)])
  moreover from this have "answers g h'" using Cons.IH [OF g(2)] by (simp add: answers_def)
  ultimately show ?case by (auto simp: answers_def)
qed



end
