(* ===== verification/HttpdParse.thy ===== *)
theory HttpdParse
  imports Httpd
begin

text \<open>
  Reading a request: \<open>http/server/httpd_head.c\<close> and the switch of the virtual host
  (\<open>http/server/vhost.c\<close>).  A result \<open>None\<close> is an error path whose response does not return
  or a line feed one byte past the data.
\<close>

definition HIN_HTTPD_MAX_POST_SIZE :: int where "HIN_HTTPD_MAX_POST_SIZE = 4121440"

subsection \<open>Virtual hosts\<close>

definition httpd_client_ping :: "http_env \<Rightarrow> int \<Rightarrow> httpd \<Rightarrow> httpd" where
  "httpd_client_ping e timeout h = log_http (Timer_set (e_now e + timeout)) h"

definition httpd_vhost_switch :: "http_env \<Rightarrow> u64 \<Rightarrow> httpd \<Rightarrow> httpd" where
  "httpd_vhost_switch e v h =
     (let vh = vhost_heap (e_vhosts e) v
      in httpd_client_ping e (vh_timeout vh) (h\<lparr>h_vhost := v, h_disable := vh_disable vh\<rparr>))"

definition httpd_vhost_request :: "http_env \<Rightarrow> string \<Rightarrow> httpd \<Rightarrow> int \<times> httpd" where
  "httpd_vhost_request e name h =
     (case h_hostname h of
        Some n \<Rightarrow> (if n = name then 0 else -1, h)
      | None \<Rightarrow>
          let h = h\<lparr>h_hostname := Some name\<rparr>
          in case httpd_vhost_get name (e_vhosts e) of
               Some v \<Rightarrow> (0, httpd_vhost_switch e v h)
             | None \<Rightarrow> (-1, h))"

subsection \<open>One header line\<close>

definition COMMA :: string where "COMMA = ''%s*,%s*''"

lemma match_loop_shorter:
  "match_loop ic fmt p n st caps = (Some (p', n'), caps') \<Longrightarrow> n' \<le> n"
proof (induction ic fmt p n st caps rule: match_loop.induct)
  case (1 ic fmt p n st caps)
  show ?case
  proof (cases "\<exists>r. fmt = CHR ''%'' # r")
    case True
    then obtain r where f: "fmt = CHR ''%'' # r" by blast
    let ?k = "match_pattern (take n p) (take 2 fmt) (get_specifier (at0 (drop 2 fmt)))"
    have "\<not> ?k < 0" "match_loop ic (after_spec (drop 2 fmt)) (drop (nat ?k) p) (n - nat ?k) st caps = (Some (p', n'), caps')"
      using 1(6) f by (auto simp: match_loop_class Let_def split: if_splits)
    from 1(1) [OF f refl refl this] show ?thesis by simp
  next
    case False
    then show ?thesis
      using 1(6)
      by (subst (asm) match_loop.simps)
         (auto simp: Let_def split: list.splits if_splits option.splits dest: 1(2-5))
  qed
qed

lemma comma_progress:
  assumes "match_string s COMMA = (u, s', c)" "0 \<le> u"
  shows "slen s' < slen s"
proof -
  have lit: "n' < n" if m: "match_loop False (CHR '','' # r) p n None [] = (Some (p', n'), caps)" for r p n p' n' caps
  proof -
    have "n \<noteq> 0 \<and> match_loop False r (drop 1 p) (n - 1) None [] = (Some (p', n'), caps)"
      using m by (subst (asm) match_loop_lit) (auto split: if_splits)
    with match_loop_shorter show ?thesis by fastforce
  qed
  define m where "m = length (takeWhile isspace (take (slen s) (sptr s)))"
  have c: "match_loop False COMMA (sptr s) (slen s) None [] = match_loop False (CHR '','' # ''%s*'') (drop m (sptr s)) (slen s - m) None []"
    using star_step [OF space_mem, of False "'',%s*''" "sptr s" "slen s" None "[]"]
    by (simp add: COMMA_def m_def Let_def)
  obtain p' n' where r: "match_loop False COMMA (sptr s) (slen s) None [] = (Some (p', n'), c)"
      "s' = str_adv (slen s - n') s" "slen s \<noteq> 0"
    using assms by (auto simp: COMMA_def match_string_def match_string_virtual_def split: if_splits option.splits prod.splits)
  have "n' < slen s - m" using lit r(1) c by simp
  then show ?thesis using r by (simp add: str_adv_def)
qed

text \<open>\<open>matchi_string (line, fmt, ...) > 0\<close>: the rest of the line and the captures.\<close>

definition accepts :: "string_t \<Rightarrow> string \<Rightarrow> (string_t \<times> string_t list) option" where
  "accepts line fmt = (case matchi_string line fmt of (u, line', caps) \<Rightarrow>
     if u > 0 then Some (line', caps) else None)"

lemma accepts_shorter: "accepts line fmt = Some (line', caps) \<Longrightarrow> slen line' < slen line"
  by (auto simp: accepts_def matchi_string_def match_string_virtual_def str_adv_def
      split: if_splits option.splits prod.splits)

function encoding_loop :: "string_t \<Rightarrow> u32 \<Rightarrow> u32" where
  "encoding_loop line peer =
     (case match_string line ''([%w]+)'' of (u, line1, caps) \<Rightarrow>
        if u > 0
        then (let peer = (if accepts (hd caps) ''deflate'' \<noteq> None then setf peer HIN_HTTP_DEFLATE
                          else if accepts (hd caps) ''gzip'' \<noteq> None then setf peer HIN_HTTP_GZIP
                          else peer)
              in case match_string line1 COMMA of (u, line2, _) \<Rightarrow>
                   if u \<le> 0 then peer else encoding_loop line2 peer)
        else peer)"
  by pat_completeness auto
termination
  by (relation "measure (\<lambda>(s, p). slen s)")
     (auto dest!: sym [of _ "match_string _ _"] match_progress)

declare encoding_loop.simps [simp del]

definition connection_token :: "string_t \<Rightarrow> u32 \<Rightarrow> string_t \<times> u32" where
  "connection_token line peer =
     (case accepts line ''close'' of
        Some (line, _) \<Rightarrow> (line, clrf peer HIN_HTTP_KEEPALIVE)
      | None \<Rightarrow>
          case accepts line ''keep-alive'' of
            Some (line, _) \<Rightarrow> (line, setf peer HIN_HTTP_KEEPALIVE)
          | None \<Rightarrow>
              case match_string line ''%w+'' of (u, line', _) \<Rightarrow> (if u > 0 then line' else line, peer))"

lemma connection_token_shorter: "connection_token line peer = (line', p) \<Longrightarrow> slen line' \<le> slen line"
  by (auto simp: connection_token_def split: option.splits prod.splits if_splits
      dest!: accepts_shorter match_progress)

function connection_loop :: "string_t \<Rightarrow> u32 \<Rightarrow> u32" where
  "connection_loop line peer =
     (case connection_token line peer of (line1, peer) \<Rightarrow>
        case match_string line1 COMMA of (u, line2, _) \<Rightarrow>
          if u < 0 then peer else connection_loop line2 peer)"
  by pat_completeness auto
termination
  by (relation "measure (\<lambda>(s, p). slen s)")
     (auto dest!: sym [of _ "match_string _ _"] sym [of _ "connection_token _ _"] comma_progress
       connection_token_shorter)

declare connection_loop.simps [simp del]

text \<open>\<open>strtol (s, NULL, 16)\<close>, with the blanks, the sign and the prefix it accepts.\<close>

definition strtol_hex :: "string \<Rightarrow> int" where
  "strtol_hex s =
     (let s = dropWhile isspace s;
          neg = (at0 s = CHR ''-'');
          s = (if neg \<or> at0 s = CHR ''+'' then tl s else s);
          s = (if at0 s = CHR ''0'' \<and> toupper (at0 (drop 1 s)) = CHR ''X'' \<and> isxdigit (at0 (drop 2 s))
               then drop 2 s else s);
          v = int (foldl (\<lambda>v c. v * 16 + hex_val c) 0 (takeWhile isxdigit s))
      in if neg then max (- LONG_MAX - 1) (- v) else min LONG_MAX v)"

definition hin_date_str_to_time :: "http_env \<Rightarrow> string_t \<Rightarrow> int" where
  "hin_date_str_to_time e source =
     (case e_strptime e (sptr source) of None \<Rightarrow> 0 | Some t \<Rightarrow> if t = -1 then 0 else t)"

definition BOUNDARY_FMT :: string where
  "BOUNDARY_FMT = ''Content-Type:%s*multipart/form-data;%s*boundary=%'' @ [CHR 0x22] @ ''?([%-%w]+)%'' @ [CHR 0x22] @ ''?''"

definition httpd_parse_headers_line :: "http_env \<Rightarrow> httpd \<Rightarrow> string_t \<Rightarrow> (int \<times> httpd) option" where
  "httpd_parse_headers_line e h line =
     (case accepts line ''Accept-Encoding: '' of
        Some (line, _) \<Rightarrow> Some (1, h\<lparr>h_peer := encoding_loop line (h_peer h)\<rparr>)
      | None \<Rightarrow> case accepts line ''Host:%s*([%w.]+)'' of
        Some (_, caps) \<Rightarrow> Some (1, snd (httpd_vhost_request e (str_of (hd caps)) h))
      | None \<Rightarrow> case accepts line ''If-Modified-Since:%s*'' of
        Some (line, _) \<Rightarrow> Some (1, h\<lparr>h_modified_since := hin_date_str_to_time e line\<rparr>)
      | None \<Rightarrow> case accepts line (''If-None-Match:%s*'' @ [CHR 0x22]) of
        Some (line, _) \<Rightarrow> Some (1, h\<lparr>h_etag := word_of_int (strtol_hex (sptr line))\<rparr>)
      | None \<Rightarrow> case accepts line ''Connection:%s*'' of
        Some (line, _) \<Rightarrow> Some (1, h\<lparr>h_peer := connection_loop line (h_peer h)\<rparr>)
      | None \<Rightarrow> case accepts line ''Range:%s*'' of
        Some (line, _) \<Rightarrow>
          (case accepts line ''bytes=(%d+)-(%d*)'' of
             Some (_, caps) \<Rightarrow>
               Some (1, h\<lparr>h_pos := atoi (sptr (caps ! 0)),
                          h_count := (if slen (caps ! 1) > 0 then atoi (sptr (caps ! 1)) else -1)\<rparr>)
           | None \<Rightarrow> Some (1, h))
      | None \<Rightarrow>
          if h_method h = HIN_METHOD_POST
          then (case accepts line ''Content-Length: (%d+)'' of
                  Some (_, caps) \<Rightarrow>
                    Some (1, h\<lparr>h_post_sz := atoi (sptr (hd caps)), h_peer := setf (h_peer h) HIN_HTTP_POST\<rparr>)
                | None \<Rightarrow> case accepts line BOUNDARY_FMT of
                  Some (_, caps) \<Rightarrow> Some (1, h\<lparr>h_post_sep := Some (''--'' @ str_of (hd caps))\<rparr>)
                | None \<Rightarrow> case accepts line ''Transfer-Encoding:%s*'' of
                  Some (line, _) \<Rightarrow>
                    if accepts line ''chunked'' \<noteq> None
                    then Some (1, h\<lparr>h_peer := setf (h_peer h) (HIN_HTTP_CHUNKED_UPLOAD OR HIN_HTTP_POST)\<rparr>)
                    else if accepts line ''identity'' \<noteq> None then Some (1, h)
                    else map_option (\<lambda>(_, h). (-1, h))
                           (httpd_error e 0 (''doesn'' @ [CHR 0x27] @ ''t accept post with transfer encoding'') h)
                | None \<Rightarrow> Some (1, h))
          else Some (1, h))"

subsection \<open>The request\<close>

lemma find_line_loop_progress:
  "find_line_loop s i l = Some (u, s', line) \<Longrightarrow> u \<noteq> 0 \<Longrightarrow> slen s' < slen s"
proof (induction s i l rule: find_line_loop.induct)
  case (1 s i l)
  then show ?case
    by (subst (asm) find_line_loop.simps) (auto simp: Let_def split: if_splits)
qed

lemma find_line_progress: "hin_find_line s = Some (u, s', line) \<Longrightarrow> u \<noteq> 0 \<Longrightarrow> slen s' < slen s"
  unfolding hin_find_line_def by (rule find_line_loop_progress)

text \<open>Is there an empty line?\<close>

function blank_line :: "string_t \<Rightarrow> bool option" where
  "blank_line source =
     (if slen source = 0 then Some False
      else case hin_find_line source of
        None \<Rightarrow> None
      | Some (u, source', line) \<Rightarrow>
          if u = 0 then Some False
          else if slen line = 0 then Some True
          else blank_line source')"
  by pat_completeness auto
termination
  by (relation "measure slen") (auto dest!: sym [of _ "hin_find_line _"] find_line_progress)

declare blank_line.simps [simp del]

text \<open>The loop over the header lines: the result, the client and the source.\<close>

function header_lines :: "http_env \<Rightarrow> httpd \<Rightarrow> string_t \<Rightarrow> (int \<times> httpd \<times> string_t) option" where
  "header_lines e h source =
     (case hin_find_line source of
        None \<Rightarrow> None
      | Some (u, source', line) \<Rightarrow>
          if u = 0 \<or> slen line = 0 then Some (1, h, source')
          else case httpd_parse_headers_line e h line of
            None \<Rightarrow> None
          | Some (r, h) \<Rightarrow> if r < 0 then Some (-1, h, source') else header_lines e h source')"
  by pat_completeness auto
termination
  by (relation "measure (\<lambda>(e, h, s). slen s)") (auto dest!: sym [of _ "hin_find_line _"] find_line_progress)

declare header_lines.simps [simp del]

definition request_line :: "string_t \<Rightarrow> (int \<times> string_t \<times> int) option" where
  "request_line line = fst (hin_http_parse_header_line line)"

definition bad_line_msg :: "string_t \<Rightarrow> string" where
  "bad_line_msg line = ''parsing request line '' @ [CHR 0x27] @ str_of line @ [CHR 0x27]"

text \<open>The checks after the last header line.\<close>

definition finish_headers :: "http_env \<Rightarrow> httpd \<Rightarrow> int \<Rightarrow> string_t \<Rightarrow> (int \<times> httpd \<times> string_t) option" where
  "finish_headers e h used source =
     (let h = (if has (h_peer h) HIN_HTTP_CHUNKED_UPLOAD then h\<lparr>h_post_sz := 0\<rparr> else h);
          h = (if h_post_sz h < 0 then h\<lparr>h_post_sz := 0\<rparr> else h);
          fail = (\<lambda>status msg. map_option (\<lambda>(_, h). (-1, h, source)) (httpd_error e status msg h))
      in if has (h_peer h AND h_disable h) HIN_HTTP_POST
         then fail 403 ''post disabled''
         else if h_method h = HIN_METHOD_POST \<and> \<not> has (h_peer h) HIN_HTTP_POST
         then fail 411 ''post missing size''
         else if h_post_sz h \<ge> HIN_HTTPD_MAX_POST_SIZE
         then fail 413 (''post size '' @ print_int (h_post_sz h) @ '' >= '' @
                print_int HIN_HTTPD_MAX_POST_SIZE)
         else Some (used, h, source))"

text \<open>
  \<open>httpd_parse_headers\<close>: the bytes used, the client, the source.  \<open>HIN_HTTPD_OVERLOAD_ERROR\<close> and
  \<open>HIN_HTTPD_ERROR_MISSING_HOSTNAME\<close> are off in the configuration.
\<close>

definition httpd_parse_headers :: "http_env \<Rightarrow> httpd \<Rightarrow> string_t \<Rightarrow> (int \<times> httpd \<times> string_t) option" where
  "httpd_parse_headers e h source =
     (case blank_line source of
        None \<Rightarrow> None
      | Some False \<Rightarrow> Some (0, h, source)
      | Some True \<Rightarrow>
          (case hin_find_line source of
             None \<Rightarrow> None
           | Some (u, source1, line) \<Rightarrow>
               let (method, version, ok) =
                 (case request_line line of Some (m, p, v) \<Rightarrow> (m, v, u \<noteq> 0) | None \<Rightarrow> (0, 0, False))
               in if \<not> ok \<or> version = 0 \<or> method = 0
                  then
                    let status = (400 :: int);
                        status = (if version = 0 then 505 else status);
                        status = (if method = 0 then 501 else status)
                    in map_option (\<lambda>(_, h). (-1, h, source1)) (httpd_error e status (bad_line_msg line) h)
                  else
                    let h = h\<lparr>h_peer := setf (h_peer h) (if version = 0x10 then HIN_HTTP_VER0 else HIN_HTTP_KEEPALIVE)\<rparr>;
                        h = h\<lparr>h_count := -1, h_method := method\<rparr>
                    in case header_lines e h source1 of
                         None \<Rightarrow> None
                       | Some (r, h, source2) \<Rightarrow>
                           if r < 0
                           then (if h_status h = 200
                                 then map_option (\<lambda>(_, h). (-1, h, source)) (httpd_error e 400 (''shouldn'' @ [CHR 0x27] @ ''t happen'') h)
                                 else Some (-1, h, source))
                           else
                             finish_headers e h
                               (int (length (sptr source)) - int (length (sptr source2))) source2))"

definition httpd_parse_req :: "http_env \<Rightarrow> httpd \<Rightarrow> string_t \<Rightarrow> (int \<times> httpd \<times> string_t) option" where
  "httpd_parse_req e h source =
     map_option (\<lambda>(used, h, source).
         if used \<le> 0 then (used, h, source)
         else (used, h\<lparr>h_peer := clrf (h_peer h) (h_disable h), h_state := clrf (h_state h) HIN_REQ_HEADERS\<rparr>, source))
       (httpd_parse_headers e h source)"

subsection \<open>How much of the input a request uses\<close>

text \<open>The length of the header block: up to the end of the first empty line.\<close>

function head_len :: "string \<Rightarrow> nat option" where
  "head_len t =
     (if LF \<notin> set t then None
      else let l = takeWhile ((\<noteq>) LF) t
           in if l = [] \<or> l = [CR] then Some (length l + 1)
              else map_option (\<lambda>k. length l + 1 + k) (head_len (drop (length l + 1) t)))"
  by pat_completeness auto
termination
proof (relation "measure length")
  fix t l :: string
  assume "\<not> LF \<notin> set t"
  then have "t \<noteq> []" by auto
  then show "(drop (length l + 1) t, t) \<in> measure length" by (cases t) auto
qed simp

declare head_len.simps [simp del]

text \<open>No line feed in the byte after the string, which \<open>hin_find_line\<close> reads too.\<close>

definition ends_clean :: "string_t \<Rightarrow> bool" where
  "ends_clean s \<longleftrightarrow> str_wf s \<and> at0 (drop (slen s) (sptr s)) \<noteq> LF"

lemma ends_clean_adv: "ends_clean s \<Longrightarrow> k \<le> slen s \<Longrightarrow> ends_clean (str_adv k s)"
  by (simp add: ends_clean_def) (simp add: str_adv_def)

lemma strip_len_0: "strip_len l = 0 \<longleftrightarrow> l = [] \<or> l = [CR]"
  by (cases l rule: rev_cases) (auto simp: strip_len_def)

lemma find_line_text:
  assumes "ends_clean s"
  shows "hin_find_line s =
     (if LF \<in> set (str_of s)
      then let l = takeWhile ((\<noteq>) LF) (str_of s)
           in Some (1, str_adv (length l + 1) s, \<lparr>sptr = sptr s, slen = strip_len l\<rparr>)
      else Some (0, s, \<lparr>sptr = sptr s, slen = 0\<rparr>))"
  using find_line_loop_spec [of s 0 0] assms
  by (simp add: hin_find_line_def ends_clean_def strip_len_def Let_def)

lemma takeWhile_LF: "LF \<in> set t \<Longrightarrow> length (takeWhile ((\<noteq>) LF) t) + 1 \<le> length t"
  by (induction t) auto

lemma line_adv:
  assumes "ends_clean s" "LF \<in> set (str_of s)" "l = takeWhile ((\<noteq>) LF) (str_of s)"
  shows "ends_clean (str_adv (length l + 1) s)" "length l + 1 \<le> slen s"
proof -
  show "length l + 1 \<le> slen s"
    using takeWhile_LF [OF assms(2)] assms(1,3) by (simp add: ends_clean_def)
  then show "ends_clean (str_adv (length l + 1) s)" by (rule ends_clean_adv [OF assms(1)])
qed

lemma head_len_le: "head_len t = Some k \<Longrightarrow> k \<le> length t"
proof (induction t arbitrary: k rule: head_len.induct)
  case (1 t)
  let ?l = "takeWhile ((\<noteq>) LF) t"
  have LF: "LF \<in> set t" using 1(2) by (subst (asm) head_len.simps) (auto split: if_splits)
  note len = takeWhile_LF [OF LF]
  show ?case
  proof (cases "?l = [] \<or> ?l = [CR]")
    case True
    then show ?thesis using 1(2) LF len by (subst (asm) head_len.simps) (auto simp: Let_def)
  next
    case False
    then obtain j where "head_len (drop (length ?l + 1) t) = Some j" "k = length ?l + 1 + j"
      using 1(2) LF by (subst (asm) head_len.simps) (auto simp: Let_def)
    with 1(1) [OF _ refl False] LF len show ?thesis by fastforce
  qed
qed

lemma blank_line_text: "ends_clean s \<Longrightarrow> blank_line s = Some (head_len (str_of s) \<noteq> None)"
proof (induction s rule: blank_line.induct)
  case (1 s)
  let ?l = "takeWhile ((\<noteq>) LF) (str_of s)"
  show ?case
  proof (cases "LF \<in> set (str_of s)")
    case False
    then show ?thesis using 1(2)
      by (subst blank_line.simps, subst head_len.simps) (simp add: find_line_text)
  next
    case True
    have s0: "slen s \<noteq> 0" using line_adv [OF 1(2) True refl] by linarith
    have "strip_len ?l \<noteq> 0 \<Longrightarrow> blank_line (str_adv (length ?l + 1) s) = Some (head_len (str_of (str_adv (length ?l + 1) s)) \<noteq> None)"
      using 1(1) [OF s0 _ refl refl, of 1 "str_adv (length ?l + 1) s" "\<lparr>sptr = sptr s, slen = strip_len ?l\<rparr>"]
        1(2) True line_adv [OF 1(2) True refl] by (simp add: find_line_text Let_def)
    then show ?thesis
      using True s0 1(2) by (subst blank_line.simps, subst head_len.simps) (auto simp: find_line_text Let_def strip_len_0)
  qed
qed

lemma header_lines_end:
  "ends_clean s \<Longrightarrow> header_lines e h s = Some (r, h', s') \<Longrightarrow> 0 \<le> r \<Longrightarrow> head_len (str_of s) = Some k \<Longrightarrow>
   s' = str_adv k s"
proof (induction e h s arbitrary: k rule: header_lines.induct)
  case (1 e h s)
  let ?l = "takeWhile ((\<noteq>) LF) (str_of s)"
  let ?s = "str_adv (length ?l + 1) s" and ?line = "\<lparr>sptr = sptr s, slen = strip_len ?l\<rparr>"
  have LF: "LF \<in> set (str_of s)" using 1(5) by (subst (asm) head_len.simps) (auto split: if_splits)
  note adv = line_adv [OF 1(2) LF refl]
  have fl: "hin_find_line s = Some (1, ?s, ?line)" using 1(2) LF by (simp add: find_line_text Let_def)
  have adv_adv: "str_adv a (str_adv b s) = str_adv (b + a) s" for a b by (simp add: str_adv_def add_ac)
  show ?case
  proof (cases "?l = [] \<or> ?l = [CR]")
    case True
    then have "k = length ?l + 1" using 1(5) LF by (subst (asm) head_len.simps) (auto simp: Let_def)
    moreover have "header_lines e h s = Some (1, h, ?s)"
      using fl True by (subst header_lines.simps) (simp add: strip_len_0)
    ultimately show ?thesis using 1(3) by simp
  next
    case False
    then have ne: "strip_len ?l \<noteq> 0" by (simp add: strip_len_0)
    obtain j where j: "head_len (str_of ?s) = Some j" "k = length ?l + 1 + j"
      using 1(5) LF False by (subst (asm) head_len.simps) (auto simp: Let_def)
    have "header_lines e h s = (case httpd_parse_headers_line e h ?line of
        None \<Rightarrow> None | Some (r, h) \<Rightarrow> if r < 0 then Some (-1, h, ?s) else header_lines e h ?s)"
      by (subst header_lines.simps) (simp add: fl ne del: One_nat_def add_Suc_right)
    then obtain r1 h1 where p: "httpd_parse_headers_line e h ?line = Some (r1, h1)" "\<not> r1 < 0"
        "header_lines e h1 ?s = Some (r, h', s')"
      using 1(3,4) by (auto split: option.splits if_splits)
    have "s' = str_adv j ?s"
      by (rule 1(1) [OF fl refl refl _ p(1) refl p(2) adv(1) p(3) 1(4) j(1)]) (use ne in simp)
    then show ?thesis using j(2) adv_adv by simp
  qed
qed



subsection \<open>Header lines\<close>

lemma accepts_prefix:
  assumes "plain_fmt f" "f \<noteq> []" "str_wf s"
  shows "accepts s (f @ r) =
     (if map toupper (take (length f) (str_of s)) = map toupper f
      then (case match_loop True r (drop (length f) (sptr s)) (slen s - length f) None [] of
              (Some (p, n), caps) \<Rightarrow> if n < slen s then Some (str_adv (slen s - n) s, caps) else None
            | (None, _) \<Rightarrow> None)
      else None)"
proof (cases "slen s = 0")
  case True
  then show ?thesis using assms(2)
    by (auto simp: accepts_def matchi_string_def match_string_virtual_def str_of_def)
next
  case False
  have c: "has PATTERN_CASE PATTERN_CASE" by (simp add: flag_defs has_def)
  show ?thesis
    using False c match_loop_prefix [OF assms(1), of "slen s" "sptr s" True r None "[]"] assms(3)
    by (auto simp: accepts_def matchi_string_def match_string_virtual_def str_of_def str_wf_def
        split: option.splits prod.splits)
qed

lemma accepts_prefix_no:
  assumes "plain_fmt f" "f \<noteq> []" "str_wf s" "map toupper (take (length f) (str_of s)) \<noteq> map toupper f"
  shows "accepts s (f @ r) = None"
  using accepts_prefix [OF assms(1-3)] assms(4) by simp

lemma accepts_other:
  assumes "str_wf s" "str_of s = c # cs" "plain_fmt f" "f = d # ds" "toupper c \<noteq> toupper d"
  shows "accepts s (f @ r) = None"
  using assms by (intro accepts_prefix_no) auto

text \<open>\<open>Range: bytes=a-b\<close> in front of \<open>rest\<close>.\<close>

definition range_line :: "nat \<Rightarrow> nat \<Rightarrow> string \<Rightarrow> string_t" where
  "range_line a b rest =
     \<lparr>sptr = ''Range: bytes='' @ print_nat a @ ''-'' @ print_nat b @ rest,
      slen = length (''Range: bytes='' @ print_nat a @ ''-'' @ print_nat b)\<rparr>"

lemma digits_list [simp]: "list_all isdigit (print_nat n)"
  using print_nat_digits [of n] by (simp add: list_all_iff)

lemma bytes_match:
  assumes "no_digit rest"
  shows "accepts \<lparr>sptr = ''bytes='' @ print_nat a @ ''-'' @ print_nat b @ rest,
       slen = length (''bytes='' @ print_nat a @ ''-'' @ print_nat b)\<rparr> ''bytes=(%d+)-(%d*)'' =
     Some (\<lparr>sptr = rest, slen = 0\<rparr>,
       [\<lparr>sptr = print_nat a @ ''-'' @ print_nat b @ rest, slen = length (print_nat a)\<rparr>,
        \<lparr>sptr = print_nat b @ rest, slen = length (print_nat b)\<rparr>])"
proof -
  let ?A = "print_nat a" and ?B = "print_nat b"
  let ?s = "\<lparr>sptr = ''bytes='' @ ?A @ ''-'' @ ?B @ rest, slen = length (''bytes='' @ ?A @ ''-'' @ ?B)\<rparr>"
  let ?n = "length ?A + 1 + length ?B"
  have nd: "\<not> isdigit (CHR ''-'')" by (simp add: isdigit_def code_def)
  have tb: "takeWhile isdigit ?B = ?B"
    using print_nat_digits [of b] by (simp add: takeWhile_eq_all_conv)
  have "match_loop True ''(%d+)-(%d*)'' (?A @ ''-'' @ ?B @ rest) ?n None [] =
      match_loop True '')-(%d*)'' (''-'' @ ?B @ rest) (1 + length ?B) (Some (?A @ ''-'' @ ?B @ rest, ?n)) []"
    using class_step [OF digit_mem, of ?A ?n "''-'' @ ?B @ rest" True "'')-(%d*)''"] nd by simp
  also have "\<dots> = match_loop True ''%d*)'' (?B @ rest) (length ?B) (Some (?B @ rest, length ?B))
      [\<lparr>sptr = ?A @ ''-'' @ ?B @ rest, slen = length ?A\<rparr>]"
    by (simp add: match_loop_lit)
  also have "\<dots> = (Some (rest, 0), [\<lparr>sptr = ?A @ ''-'' @ ?B @ rest, slen = length ?A\<rparr>,
      \<lparr>sptr = ?B @ rest, slen = length ?B\<rparr>])"
    using star_step [OF digit_mem, of True "'')''" "?B @ rest" "length ?B"] tb by (simp add: Let_def)
  finally show ?thesis
    using accepts_prefix [of "''bytes=''" ?s "''(%d+)-(%d*)''"]
    by (simp add: plain_fmt_def str_wf_def str_of_def str_adv_def)
qed

text \<open>
  C29: \<open>Range: bytes=a-b\<close> makes \<open>a\<close> the start and \<open>b\<close>, the position of the last byte, the number
  of bytes; the right number is \<open>b - a + 1\<close>.
\<close>

theorem range_end_is_count:
  assumes "a < 2147483648" "b < 2147483648" "no_digit rest"
  shows "httpd_parse_headers_line e h (range_line a b rest) =
     Some (1, h\<lparr>h_pos := int a, h_count := int b\<rparr>)"
proof -
  let ?A = "print_nat a" and ?B = "print_nat b"
  define s where "s = range_line a b rest"
  define t where "t = ''bytes='' @ ?A @ ''-'' @ ?B"
  have wf: "str_wf s" "str_of s = ''Range: '' @ t" by (simp_all add: s_def t_def range_line_def str_wf_def str_of_def)
  have no: "accepts s (f @ r) = None" if "plain_fmt f" "f = d # ds" "toupper d \<noteq> CHR ''R''" for f r d ds
    using accepts_other [OF wf(1) _ that(1,2), of "CHR ''R''" "tl (str_of s)" r] that(3) wf(2)
    by (simp add: toupper_def islower_def code_def)
  have up: "toupper (CHR ''A'') = CHR ''A''" "toupper (CHR ''H'') = CHR ''H''" "toupper (CHR ''I'') = CHR ''I''"
    "toupper (CHR ''C'') = CHR ''C''" by (simp_all add: toupper_def islower_def code_def)
  note skip = no [of "''Accept-Encoding: ''" _ _ "[]"] no [of "''Host:''" _ _ "''%s*([%w.]+)''"]
    no [of "''If-Modified-Since:''" _ _ "''%s*''"] no [of "''If-None-Match:''" _ _ "''%s*'' @ [CHR 0x22]"]
    no [of "''Connection:''" _ _ "''%s*''"]
  have sp: "takeWhile isspace (take (length ('' '' @ t)) ('' '' @ t @ rest)) = '' ''"
    by (simp add: t_def isspace_def code_def)
  have "accepts s ''Range:%s*'' = Some (\<lparr>sptr = t @ rest, slen = length t\<rparr>, [])"
    using accepts_prefix [of "''Range:''" s "''%s*''"] wf sp
      star_step [OF space_mem, of True "[]" "'' '' @ t @ rest" "length ('' '' @ t)" None "[]"]
    by (simp add: plain_fmt_def s_def range_line_def t_def str_adv_def Let_def)
  moreover have "accepts \<lparr>sptr = t @ rest, slen = length t\<rparr> ''bytes=(%d+)-(%d*)'' =
     Some (\<lparr>sptr = rest, slen = 0\<rparr>,
       [\<lparr>sptr = ?A @ ''-'' @ ?B @ rest, slen = length ?A\<rparr>, \<lparr>sptr = ?B @ rest, slen = length ?B\<rparr>])"
    using bytes_match [OF assms(3), of a b] by (simp add: t_def)
  moreover have "atoi (?A @ ''-'' @ ?B @ rest) = int a" "atoi (?B @ rest) = int b"
    using assms atoi_print [of a "''-'' @ ?B @ rest"] atoi_print [of b rest]
    by (simp_all add: no_digit_def isdigit_def code_def)
  ultimately show ?thesis
    using skip unfolding s_def [symmetric] httpd_parse_headers_line_def
    by (simp add: plain_fmt_def up)
qed

theorem range_end_is_count_witness:
  "httpd_parse_headers_line env0 httpd0 (range_line 100 199 []) =
     Some (1, httpd0\<lparr>h_pos := 100, h_count := 199\<rparr>)"
  using range_end_is_count [of 100 199 "[]" env0 httpd0] by (simp add: no_digit_def)

abbreviation QUOTE :: char where "QUOTE \<equiv> CHR 0x22"

lemma quote_facts [simp]: "\<not> isxdigit QUOTE" "toupper QUOTE = QUOTE"
  by (simp_all add: isxdigit_def isdigit_def toupper_def islower_def code_def)

lemma strtol_hex_print:
  "strtol_hex (print_hex n @ QUOTE # r) = min LONG_MAX (int n)"
proof -
  let ?s = "print_hex n @ QUOTE # r"
  obtain c cs where c: "print_hex n = c # cs" by (cases "print_hex n") auto
  have x: "isxdigit c" "\<forall>d\<in>set cs. isxdigit d" using print_hex_digits [of n] c by simp_all
  have first: "\<not> isspace c" "c \<noteq> CHR ''-''" "c \<noteq> CHR ''+''"
    using x(1) by (auto simp: ctype_defs)
  have "toupper (at0 (cs @ QUOTE # r)) \<noteq> CHR ''X''"
  proof (cases cs)
    case Nil
    then show ?thesis by simp
  next
    case (Cons d ds)
    then have "isxdigit d" using x(2) by simp
    then have "d \<noteq> CHR ''x''" "d \<noteq> CHR ''X''" by (auto simp: ctype_defs)
    moreover have "toupper d = CHR ''X'' \<Longrightarrow> d = CHR ''x'' \<or> d = CHR ''X''"
    proof -
      assume u: "toupper d = CHR ''X''"
      show "d = CHR ''x'' \<or> d = CHR ''X''"
      proof (cases "islower d")
        case True
        then have "code d - 32 = 88" "97 \<le> code d" using u code_lt [of d]
          by (auto simp: toupper_def islower_def code_def dest!: arg_cong [of _ _ "of_char :: char \<Rightarrow> nat"])
        then have "code d = 120" by simp
        then have "d = char_of (120 :: nat)" by (metis char_of_code)
        then show ?thesis by (simp add: char_of_def bit_simps)
      qed (use u in \<open>simp add: toupper_def\<close>)
    qed
    ultimately show ?thesis using Cons by auto
  qed
  then have "strtol_hex ?s = min LONG_MAX (int (foldl (\<lambda>v c. v * 16 + hex_val c) 0 (takeWhile isxdigit ?s)))"
    using c first by (simp add: strtol_hex_def Let_def)
  then show ?thesis by (simp add: takeWhile_hex print_hex_value)
qed

text \<open>The header line for a tag, in front of \<open>rest\<close>.\<close>

definition etag_line :: "u64 \<Rightarrow> string \<Rightarrow> string_t" where
  "etag_line tag rest =
     \<lparr>sptr = ''If-None-Match: '' @ [QUOTE] @ print_hex (unat tag) @ [QUOTE] @ rest,
      slen = length (''If-None-Match: '' @ [QUOTE] @ print_hex (unat tag) @ [QUOTE])\<rparr>"

text \<open>
  An entity tag printed in a response (\<open>ETag: "%llx"\<close>) and sent back in \<open>If-None-Match\<close> is
  read back as the same tag below 2 to the 63; above, every tag is read as the same number.
\<close>

theorem etag_roundtrip:
  "httpd_parse_headers_line e h (etag_line tag rest) =
     Some (1, h\<lparr>h_etag := (if unat tag < 2 ^ 63 then tag else 0x7FFFFFFFFFFFFFFF)\<rparr>)"
proof -
  define s where "s = etag_line tag rest"
  define t where "t = QUOTE # print_hex (unat tag) @ [QUOTE]"
  have wf: "str_wf s" "str_of s = ''If-None-Match: '' @ t"
    by (simp_all add: s_def etag_line_def t_def str_wf_def str_of_def)
  have up: "toupper (CHR ''I'') = CHR ''I''" "toupper (CHR ''f'') = char_of (70 :: nat)" "toupper (CHR ''-'') = CHR ''-''"
    "toupper (CHR ''N'') = CHR ''N''" "toupper (CHR ''M'') = CHR ''M''"
    "toupper (CHR ''A'') = CHR ''A''" "toupper (CHR ''H'') = CHR ''H''"
    by (simp_all add: toupper_def islower_def code_def)
  have a: "accepts s (''Accept-Encoding: '' @ []) = None" "accepts s (''Host:'' @ ''%s*([%w.]+)'') = None"
    "accepts s (''If-Modified-Since:'' @ ''%s*'') = None"
    by (rule accepts_prefix_no; use wf in \<open>simp add: plain_fmt_def up\<close>)+
  have sp: "takeWhile isspace (take (length ('' '' @ t)) ('' '' @ t @ rest)) = '' ''"
    by (simp add: t_def isspace_def code_def)
  have "accepts s (''If-None-Match:'' @ ''%s*'' @ [QUOTE]) =
      Some (\<lparr>sptr = print_hex (unat tag) @ QUOTE # rest, slen = length t - 1\<rparr>, [])"
    using accepts_prefix [of "''If-None-Match:''" s "''%s*'' @ [QUOTE]"] wf sp
      star_step [OF space_mem, of True "[QUOTE]" "'' '' @ t @ rest" "length ('' '' @ t)" None "[]"]
    by (simp add: plain_fmt_def s_def etag_line_def t_def str_adv_def Let_def match_loop_lit)
  then have "httpd_parse_headers_line e h s =
      Some (1, h\<lparr>h_etag := word_of_int (min LONG_MAX (int (unat tag)))\<rparr>)"
    using a unfolding httpd_parse_headers_line_def by (simp add: strtol_hex_print)
  moreover have "word_of_int (min LONG_MAX (int (unat tag))) =
      (if unat tag < 2 ^ 63 then tag else 0x7FFFFFFFFFFFFFFF)"
  proof -
    have "min LONG_MAX (int n) = (if n < 2 ^ 63 then int n else LONG_MAX)" for n
      by (simp add: LONG_MAX_def min_def)
    from this [of "unat tag"] have "min LONG_MAX (uint tag) = (if unat tag < 2 ^ 63 then uint tag else LONG_MAX)"
      by simp
    moreover have "word_of_int LONG_MAX = (0x7FFFFFFFFFFFFFFF :: u64)" by (simp add: LONG_MAX_def)
    ultimately show ?thesis by simp
  qed
  ultimately show ?thesis by (simp add: s_def)
qed

text \<open>The host name ends at the first character that is not alphanumeric or a dot, as a hyphen.\<close>

lemma host_stops:
  assumes "name \<noteq> []" "list_all (\<lambda>c. isalnum c \<or> c = CHR ''.'') name" "\<not> isalnum c" "c \<noteq> CHR ''.''"
    "h_hostname h = None" "httpd_vhost_get name (e_vhosts e) = None"
  shows "httpd_parse_headers_line e h (mk_str (''Host: '' @ name @ c # cs)) =
     Some (1, h\<lparr>h_hostname := Some name\<rparr>)"
proof -
  define s where "s = mk_str (''Host: '' @ name @ c # cs)"
  have wf: "str_wf s" "str_of s = ''Host: '' @ name @ c # cs" "sptr s = ''Host: '' @ name @ c # cs"
    "slen s = 6 + (length name + 1 + length cs)"
    by (simp_all add: s_def mk_str_def str_wf_def str_of_def)
  have up: "toupper (CHR ''H'') = CHR ''H''" "toupper (CHR ''A'') = CHR ''A''"
    by (simp_all add: toupper_def islower_def code_def)
  have a: "accepts s (''Accept-Encoding: '' @ []) = None"
    by (rule accepts_prefix_no; use wf in \<open>simp add: plain_fmt_def up\<close>)
  have mem: "set_mem ''%w.'' = (\<lambda>c. isalnum c \<or> c = CHR ''.'')"
    by (auto simp: set_mem_lit set_mem_esc class_of_def match_char_classes)
  have se: "set_end CHR ''['' ''%w.]+)'' = Some (''%w.'', ''+)'')" by simp
  let ?n = "length name + 1 + length cs" and ?p = "name @ c # cs"
  have ns: "takeWhile isspace (take ?n ?p) = []"
    using assms(1,2) by (cases name) (auto simp: ctype_defs)
  have "match_loop True ''%s*([%w.]+)'' ('' '' @ ?p) (1 + ?n) None [] = match_loop True ''([%w.]+)'' ?p ?n None []"
    using star_step [OF space_mem, of True "''([%w.]+)''" "'' '' @ ?p" "1 + ?n" None "[]"] ns
    by (simp add: isspace_def code_def del: take_append)
  also have "\<dots> = match_loop True '')'' (c # cs) (1 + length cs) (Some (?p, ?n)) []"
    using set_step [OF se mem, of name ?n "c # cs" True "Some (?p, ?n)" "[]"] assms(1-4) by simp
  also have "\<dots> = (Some (c # cs, 1 + length cs), [\<lparr>sptr = ?p, slen = length name\<rparr>])" by simp
  finally have "accepts s (''Host:'' @ ''%s*([%w.]+)'') = Some (\<lparr>sptr = c # cs, slen = 1 + length cs\<rparr>,
      [\<lparr>sptr = ?p, slen = length name\<rparr>])"
    using accepts_prefix [of "''Host:''" s "''%s*([%w.]+)''"] wf
    by (simp add: plain_fmt_def str_adv_def eval_nat_numeral)
  then show ?thesis
    using a assms(5,6) unfolding s_def [symmetric] httpd_parse_headers_line_def
    by (simp add: httpd_vhost_request_def str_of_def)
qed

end
