(* ===== verification/HttpdLife.thy ===== *)
theory HttpdLife
  imports HttpdParse
begin

text \<open>
  The life of a request: \<open>http/server/httpd.c\<close>, the completion callbacks of
  \<open>httpd_req.c\<close> and \<open>httpd_read.c\<close>, the timeout of \<open>http_misc.c\<close> and the read callback.  The
  rereading of the line buffer (\<open>hin_lines_reread\<close>, theory \<open>Buffers\<close>), which calls the read
  callback again, is the event \<open>Reread\<close>.
\<close>

definition HIN_HTTPD_MAX_HEADER_SIZE :: nat where "HIN_HTTPD_MAX_HEADER_SIZE = 65000"

definition httpd_client_clean :: "httpd \<Rightarrow> httpd" where
  "httpd_client_clean h =
     (let h = (if h_file_fd h \<noteq> 0 then log_http (Close_fd (h_file_fd h)) h else h);
          h = (if h_post_fd h \<noteq> 0 then log_http (Close_fd (h_post_fd h)) h else h);
          h = h\<lparr>h_file_fd := 0, h_post_fd := 0\<rparr>;
          h = h\<lparr>h_peer := 0, h_disable := 0, h_status := 0, h_method := 0, h_pos := 0, h_count := 0,
                h_cache := 0, h_modified_since := 0, h_cache_flags := 0, h_etag := 0, h_post_sz := 0,
                h_post_sep := None, h_file_path := None, h_append_headers := None, h_hostname := None,
                h_content_type := None, h_file := None, h_headers := null_str\<rparr>
      in log_http Timer_off h)"

definition httpd_client_start_request :: "http_env \<Rightarrow> httpd \<Rightarrow> httpd" where
  "httpd_client_start_request e h =
     httpd_vhost_switch e (e_server_vhost e)
       (h\<lparr>h_state := HIN_REQ_HEADERS OR (h_state h AND HIN_REQ_STOPPING)\<rparr>)"

definition httpd_client_reread :: "httpd \<Rightarrow> httpd" where
  "httpd_client_reread h = (if has (h_state h) HIN_REQ_STOPPING then h else log_http Reread h)"

definition httpd_client_shutdown :: "httpd \<Rightarrow> int \<times> httpd" where
  "httpd_client_shutdown h =
     (if has (h_state h) HIN_REQ_STOPPING then (-1, h)
      else (0, log_http Close_request (h\<lparr>h_state := setf (h_state h) HIN_REQ_STOPPING\<rparr>)))"

text \<open>The branch for a cache object, whose \<open>type\<close> differs, is \<open>hin_cache_finish\<close> (theory \<open>Cache\<close>).\<close>

definition httpd_client_finish_request :: "http_env \<Rightarrow> int option \<Rightarrow> httpd \<Rightarrow> httpd" where
  "httpd_client_finish_request e pipe_count h =
     (let h = (case pipe_count of Some c \<Rightarrow> h\<lparr>h_count := c\<rparr> | None \<Rightarrow> h);
          h = h\<lparr>h_state := clrf (h_state h) HIN_REQ_DATA\<rparr>
      in if has (h_state h) HIN_REQ_POST then h
         else
           let keep = has (h_peer h) HIN_HTTP_KEEPALIVE \<and> \<not> has (h_state h) HIN_REQ_STOPPING;
               h = e_finish_callback e h;
               h = (if h_read_buffer h then log_http (Eat (slen (h_headers h))) h else h);
               h = (if h_file h \<noteq> None then log_http Unref h else h)
           in if keep then httpd_client_reread (httpd_client_start_request e (httpd_client_clean h))
              else snd (httpd_client_shutdown (h\<lparr>h_state := setf (h_state h) HIN_REQ_END\<rparr>)))"

definition httpd_client_close_callback :: "int \<Rightarrow> httpd \<Rightarrow> int \<times> httpd" where
  "httpd_client_close_callback ret h =
     (if ret < 0 then (-1, h) else (1, httpd_client_clean (h\<lparr>h_read_buffer := False\<rparr>)))"

definition httpd_client_buffer_close_callback :: "httpd \<Rightarrow> int \<times> httpd" where
  "httpd_client_buffer_close_callback h = (0, snd (httpd_client_shutdown h))"

definition httpd_client_buffer_eat_callback :: "int \<Rightarrow> httpd \<Rightarrow> int \<times> httpd" where
  "httpd_client_buffer_eat_callback num h = (0, if num = 0 then log_http More h else h)"

definition httpd_client_accept :: "http_env \<Rightarrow> httpd \<Rightarrow> httpd" where
  "httpd_client_accept e h =
     log_http More ((httpd_client_start_request e h)\<lparr>h_read_buffer := True\<rparr>)"

definition httpd_timeout_callback :: "http_env \<Rightarrow> httpd \<Rightarrow> int \<times> httpd" where
  "httpd_timeout_callback e h =
     (if has (h_state h) (HIN_REQ_HEADERS OR HIN_REQ_POST OR HIN_REQ_END)
      then (1, snd (httpd_client_shutdown (log_http Shutdown_read (log_http Timer_off h))))
      else (0, log_http (Timer_set (e_now e + 5)) h))"

text \<open>Completion of a write of a raw response; the first component keeps what is left of the chain.\<close>

definition http_raw_response_callback :: "http_env \<Rightarrow> hbuf list \<Rightarrow> int \<Rightarrow> httpd \<Rightarrow> int \<times> hbuf list \<times> httpd" where
  "http_raw_response_callback e bufs ret h =
     (case hin_buffer_continue_write bufs ret of
        (n, bufs') \<Rightarrow>
          if \<not> ret < 0 \<and> n > 0 then (0, bufs', h\<lparr>h_count := h_count h + ret\<rparr>)
          else (1, bufs',
                httpd_client_finish_request e None
                  (h\<lparr>h_count := h_count h + ret, h_state := clrf (h_state h) HIN_REQ_ERROR\<rparr>)))"

subsection \<open>Request bodies\<close>

definition post_done :: "http_env \<Rightarrow> pipe \<Rightarrow> httpd \<Rightarrow> httpd" where
  "post_done e p h =
     (let h = h\<lparr>h_state := clrf (h_state h) HIN_REQ_POST\<rparr>
      in if has (h_state h) HIN_REQ_DATA then h
         else httpd_client_finish_request e (Some (p_count p)) h)"

definition httpd_client_start_post :: "http_env \<Rightarrow> httpd \<Rightarrow> int \<times> httpd" where
  "httpd_client_start_post e h =
     (let h = (if has (h_state h) HIN_REQ_CGI then h\<lparr>h_post_fd := e_tmpfile e\<rparr> else h)
      in if has (h_state h) HIN_REQ_CGI \<and> h_post_fd h < 0 then (-1, h)
         else if has (h_state h) HIN_REQ_FCGI then (0, h)
         else (0, h\<lparr>h_state := setf (h_state h) HIN_REQ_POST\<rparr>))"

text \<open>\<open>penv\<close> are the callbacks of the pipe for the chosen options.\<close>

definition httpd_client_handle_post ::
  "(http_pipe \<Rightarrow> pipe_env) \<Rightarrow> string_t \<Rightarrow> httpd \<Rightarrow> nat \<times> httpd" where
  "httpd_client_handle_post penv source h =
     (let consume = slen source
      in if has (h_state h) HIN_REQ_ERROR then (consume, h)
         else
           let p = new_pipe;
               p = p\<lparr>hp_pipe := (hp_pipe p)
                     \<lparr>p_in := \<lparr>d_fd = h_fd h, d_flags = HIN_SOCKET OR (h_cflags h AND HIN_SSL), d_pos = 0\<rparr>,
                      p_out := \<lparr>d_fd = h_post_fd h, d_flags = HIN_OFFSETS, d_pos = 0\<rparr>,
                      finish_cb := True\<rparr>\<rparr>;
               p = (if has (h_peer h) HIN_HTTP_CHUNKED_UPLOAD then httpd_pipe_upload_chunked h p
                    else if h_post_sz h \<noteq> 0
                    then p\<lparr>hp_pipe := in_set HIN_COUNT ((hp_pipe p)\<lparr>p_left := h_post_sz h\<rparr>)\<rparr>
                    else p);
               p = (if consume \<noteq> 0
                    then p\<lparr>hp_pipe := hin_pipe_write_process (penv p) (hp_pipe p) [piece (str_of source)]\<rparr>
                    else p)
           in (consume, log_http (Run_pipe p) h))"

text \<open>\<open>hin_client_deflate_init\<close>; \<open>zlib\<close> says whether \<open>deflateInit2\<close> succeeds.\<close>

definition hin_client_deflate_init :: "bool \<Rightarrow> httpd \<Rightarrow> int \<times> httpd" where
  "hin_client_deflate_init zlib h =
     (if has (h_peer h) HIN_HTTP_DEFLATE
      then (let h = h\<lparr>h_peer := setf (clrf (h_peer h) HIN_HTTP_COMPRESS) HIN_HTTP_DEFLATE\<rparr>
            in if zlib then (0, snd (httpd_request_chunked h)) else (-1, h))
      else if has (h_peer h) HIN_HTTP_GZIP
      then (let h = h\<lparr>h_peer := setf (clrf (h_peer h) HIN_HTTP_COMPRESS) HIN_HTTP_GZIP\<rparr>
            in if zlib then (0, snd (httpd_request_chunked h)) else (-1, h))
      else (-1, h))"

definition httpd_client_read_callback ::
  "http_env \<Rightarrow> (http_pipe \<Rightarrow> pipe_env) \<Rightarrow> bool \<Rightarrow> string_t \<Rightarrow> httpd \<Rightarrow> (int \<times> httpd) option" where
  "httpd_client_read_callback e penv zlib lines h =
     (let fail = (\<lambda>status msg h. map_option (\<lambda>(_, h). (-1, h)) (httpd_error e status msg h))
      in if slen lines \<ge> HIN_HTTPD_MAX_HEADER_SIZE
         then map_option (\<lambda>(_, h). (-1, h)) (httpd_respond_fatal e 413 None h)
         else case httpd_parse_req e h lines of
           None \<Rightarrow> None
         | Some (used, h, source) \<Rightarrow>
             if used \<le> 0 then Some (used, h)
             else if has (h_peer h) HIN_HTTP_CHUNKED_UPLOAD
             then fail 411 ''chunked upload currently disabled serverwide'' h
             else
               let used = (if is_post h then used + min (int (slen source)) (h_post_sz h) else used);
                   h = h\<lparr>h_headers := \<lparr>sptr = sptr lines, slen = nat used\<rparr>, h_status := 200\<rparr>
               in case e_server_callback e h of
                    None \<Rightarrow> None
                  | Some h \<Rightarrow>
                      let h = (if is_post h then snd (httpd_client_start_post e h) else h);
                          h = h\<lparr>h_peer := clrf (h_peer h) (h_disable h)\<rparr>
                      in if has (h_state h) HIN_REQ_END then fail 0 ''forced shutdown'' h
                         else if has (h_peer h AND h_disable h) HIN_HTTP_CHUNKED_UPLOAD
                         then fail 411 ''chunked upload disabled'' h
                         else if \<not> has (h_state h) HIN_REQ_DATA then fail 500 ''missing request'' h
                         else
                           let h = (if has (h_state h) HIN_REQ_ERROR then h
                                    else if has (h_state h) HIN_REQ_CGI \<and> has (h_state h) HIN_REQ_POST
                                    then snd (httpd_client_handle_post penv source h) else h);
                               h = (if has (h_peer h) HIN_HTTP_COMPRESS
                                    then snd (hin_client_deflate_init zlib h) else h)
                           in Some (used, h))"

subsection \<open>Between requests\<close>

lemma life_masks [simp]:
  "\<not> has (clrf f HIN_REQ_DATA) HIN_REQ_DATA" "has (clrf f HIN_REQ_DATA) HIN_REQ_POST = has f HIN_REQ_POST"
  "has (clrf f HIN_REQ_DATA) HIN_REQ_STOPPING = has f HIN_REQ_STOPPING"
  "has HIN_REQ_POST HIN_REQ_POST" "has (clrf f HIN_REQ_ERROR) HIN_REQ_POST = has f HIN_REQ_POST"
  "\<not> has HIN_REQ_HEADERS HIN_REQ_STOPPING"
  by (simp_all add: has_clrf) (simp_all add: has_def flag_defs)

text \<open>What a connection carries from one request to the next.\<close>

definition fresh_request :: "http_env \<Rightarrow> httpd \<Rightarrow> httpd" where
  "fresh_request e h = h
     \<lparr>h_state := HIN_REQ_HEADERS, h_peer := 0, h_disable := vh_disable (vhost_heap (e_vhosts e) (e_server_vhost e)),
      h_status := 0, h_method := 0, h_pos := 0, h_count := 0, h_file := None, h_cache := 0,
      h_cache_flags := 0, h_modified_since := 0, h_etag := 0, h_post_fd := 0, h_post_sz := 0,
      h_post_sep := None, h_append_headers := None, h_content_type := None, h_hostname := None,
      h_headers := null_str, h_vhost := e_server_vhost e, h_file_fd := 0, h_file_path := None\<rparr>"

lemma clrf_and_0: "\<not> has f m \<Longrightarrow> clrf f k AND m = 0"
proof -
  assume "\<not> has f m"
  then have "f AND m = 0" by (simp add: has_def)
  then have "NOT k AND (f AND m) = 0" by simp
  then show ?thesis by (simp add: clrf_def ac_simps)
qed

lemma log_http_simps [simp]:
  "h_log (log_http ev h) = h_log h @ [ev]" "h_state (log_http ev h) = h_state h"
  "h_read_buffer (log_http ev h) = h_read_buffer h"
  by (simp_all add: log_http_def)

lemma log_http_upd: "log_http ev h = h\<lparr>h_log := h_log h @ [ev]\<rparr>"
  by (simp add: log_http_def)

lemma clean_eq:
  "\<exists>log. httpd_client_clean h = h\<lparr>h_peer := 0, h_disable := 0, h_status := 0, h_method := 0, h_pos := 0,
      h_count := 0, h_file := None, h_cache := 0, h_cache_flags := 0, h_modified_since := 0, h_etag := 0,
      h_post_fd := 0, h_post_sz := 0, h_post_sep := None, h_append_headers := None, h_content_type := None,
      h_hostname := None, h_headers := null_str, h_file_fd := 0, h_file_path := None, h_log := log\<rparr>"
  by (rule exI [of _ "h_log (httpd_client_clean h)"]) (simp add: httpd_client_clean_def Let_def log_http_upd)

lemma restart_fresh:
  assumes "h_state h AND HIN_REQ_STOPPING = 0"
  shows "\<exists>log. httpd_client_reread (httpd_client_start_request e (httpd_client_clean h)) =
     (fresh_request e h)\<lparr>h_log := log\<rparr> \<and> last log = Reread"
proof -
  obtain log where c: "httpd_client_clean h = h\<lparr>h_peer := 0, h_disable := 0, h_status := 0, h_method := 0, h_pos := 0,
      h_count := 0, h_file := None, h_cache := 0, h_cache_flags := 0, h_modified_since := 0, h_etag := 0,
      h_post_fd := 0, h_post_sz := 0, h_post_sep := None, h_append_headers := None, h_content_type := None,
      h_hostname := None, h_headers := null_str, h_file_fd := 0, h_file_path := None, h_log := log\<rparr>"
    using clean_eq by blast
  let ?log = "log @ [Timer_set (e_now e + vh_timeout (vhost_heap (e_vhosts e) (e_server_vhost e))), Reread]"
  show ?thesis
    unfolding c
    by (intro exI [of _ ?log])
       (simp add: httpd_client_start_request_def httpd_vhost_switch_def httpd_client_ping_def Let_def
          httpd_client_reread_def log_http_upd fresh_request_def assms)
qed



text \<open>
  A POST that is answered without a gateway never finishes: after the response is written
  the request waits for a body nobody reads; nothing is closed and no request is read until the
  timer fires.
\<close>

theorem post_response_hangs:
  assumes "\<not> has (h_state h) HIN_REQ_CGI" "\<not> has (h_state h) HIN_REQ_FCGI"
    "hin_buffer_continue_write bufs ret = (n, bufs')" "ret < 0 \<or> n \<le> 0"
  shows "\<exists>g. http_raw_response_callback e bufs ret (snd (httpd_client_start_post e h)) = (1, bufs', g) \<and>
     h_log g = h_log h \<and> has (h_state g) HIN_REQ_POST \<and> fst (httpd_timeout_callback e g) = 1"
  using assms
  by (auto simp: http_raw_response_callback_def httpd_client_start_post_def httpd_client_finish_request_def
      httpd_timeout_callback_def Let_def)

theorem post_response_hangs_witness:
  "\<exists>g. http_raw_response_callback env0 [new_buffer 0] 0 (snd (httpd_client_start_post env0
       (httpd0\<lparr>h_state := HIN_REQ_DATA OR HIN_REQ_ERROR\<rparr>))) = (1, [new_buffer 0], g) \<and>
     h_log g = [] \<and> has (h_state g) HIN_REQ_POST"
proof -
  have "\<not> has (HIN_REQ_DATA OR HIN_REQ_ERROR) HIN_REQ_CGI" "\<not> has (HIN_REQ_DATA OR HIN_REQ_ERROR) HIN_REQ_FCGI"
    by (simp_all add: has_def flag_defs)
  moreover have "hin_buffer_continue_write [new_buffer 0] 0 = (0, [new_buffer 0])"
    by (simp add: hin_buffer_continue_write_def)
  ultimately show ?thesis
    using post_response_hangs [of "httpd0\<lparr>h_state := HIN_REQ_DATA OR HIN_REQ_ERROR\<rparr>" "[new_buffer 0]" 0 0 "[new_buffer 0]" env0]
    by (auto simp: httpd0_def)
qed

end
