(* ===== verification/HttpdFile.thy ===== *)
theory HttpdFile
  imports HttpdLife
begin

text \<open>
  Serving a file: \<open>http/server/httpd_file.c\<close>.  The virtual file and the item are those of theory
  \<open>Httpd\<close>; the results of \<open>openat\<close> and \<open>statx\<close> are arguments of the completion callbacks.
\<close>

text \<open>\<open>HIN_HTTPD_MAX_COMPRESS_SIZE\<close> is 0 in the configuration: no limit.\<close>

definition HIN_HTTPD_MAX_COMPRESS_SIZE :: int where "HIN_HTTPD_MAX_COMPRESS_SIZE = 0"

definition httpd_close_filefd :: "httpd \<Rightarrow> httpd" where
  "httpd_close_filefd h =
     (if h_file_fd h \<le> 0 then h else (log_http (Close_fd (h_file_fd h)) h)\<lparr>h_file_fd := 0\<rparr>)"

text \<open>The buffers of the head as the first buffers of the pipe.\<close>

definition head_bufs :: "hbuf list \<Rightarrow> pbuf list" where
  "head_bufs bufs = map (\<lambda>b. \<lparr>pb_data = take (hb_count b) (hb_mem b), pb_sz = int (hb_sz b), pb_req = 0,
                              pb_pos = 0, pb_flags = 0\<rparr>) bufs"

text \<open>The part of a file a request asks for, and the status.\<close>

definition file_range :: "item \<Rightarrow> httpd \<Rightarrow> httpd" where
  "file_range it h =
     (let sz = it_size it;
          h = (if h_count h < 0 then h\<lparr>h_count := sz - h_pos h\<rparr> else h)
      in if h_pos h \<noteq> 0 \<or> h_count h \<noteq> sz
         then (if h_status h \<noteq> 200 \<or> has (h_disable h) HIN_HTTP_RANGE
               then h\<lparr>h_pos := 0, h_count := sz\<rparr> else h\<lparr>h_status := 206\<rparr>)
         else h)"

definition file_status :: "item \<Rightarrow> httpd \<Rightarrow> httpd" where
  "file_status it h =
     (let h = (if has (h_disable h) HIN_HTTP_MODIFIED then h\<lparr>h_modified_since := 0\<rparr> else h);
          h = (if has (h_disable h) HIN_HTTP_ETAG then h\<lparr>h_etag := 0\<rparr> else h);
          h = (if h_modified_since h \<noteq> 0 \<and> h_modified_since h < it_modified it
               then h\<lparr>h_status := 304\<rparr> else h)
      in if h_etag h \<noteq> 0 \<and> h_etag h = it_etag it then h\<lparr>h_status := 304\<rparr>
         else if h_etag h \<noteq> 0 \<and> h_status h = 304 then h\<lparr>h_status := 200\<rparr>
         else h)"

definition file_head :: "http_env \<Rightarrow> item \<Rightarrow> httpd \<Rightarrow> hbuf list option" where
  "file_head e it h =
     (let sz = it_size it in
      Option.bind (hdr (status_line h (h_status h)) [new_buffer 0]) (\<lambda>bufs.
      Option.bind (httpd_write_common_headers e h bufs) (\<lambda>bufs.
      let bufs = (if \<not> has (h_disable h) HIN_HTTP_MODIFIED \<and> it_modified it \<noteq> 0
                  then http_date e ''Last-Modified: '' (it_modified it) bufs else bufs)
      in
      Option.bind (hdr_if (\<not> has (h_disable h) HIN_HTTP_ETAG \<and> it_etag it \<noteq> 0)
                     (''ETag: '' @ [QUOTE] @ print_hex (unat (it_etag it)) @ [QUOTE] @ CRLF) bufs) (\<lambda>bufs.
      Option.bind (hdr_if (\<not> has (h_peer h) HIN_HTTP_CHUNKED)
                     (''Content-Length: '' @ print_int sz @ CRLF) bufs) (\<lambda>bufs.
      Option.bind (hdr_if (\<not> has (h_disable h) HIN_HTTP_RANGE \<and> \<not> has (h_peer h) HIN_HTTP_CHUNKED)
                     (''Accept-Ranges: bytes'' @ CRLF) bufs) (\<lambda>bufs.
      Option.bind (hdr_if (h_status h = 206)
                     (''Content-Range: bytes '' @ print_int (h_pos h) @ ''-'' @
                      print_int (h_pos h + h_count h - 1) @ ''/'' @ print_int sz @ CRLF) bufs) (\<lambda>bufs.
      hdr CRLF bufs)))))))"

definition file_pipe :: "item \<Rightarrow> httpd \<Rightarrow> http_pipe" where
  "file_pipe it h =
     (let p = hp_pipe new_pipe
      in new_pipe\<lparr>hp_pipe := p\<lparr>p_in := \<lparr>d_fd = it_fd it, d_flags = HIN_OFFSETS OR HIN_COUNT, d_pos = h_pos h\<rparr>,
                               finish_cb := True, p_flags := setf (p_flags p) HIN_CONDENSE\<rparr>\<rparr>)"

definition range_msg :: "item \<Rightarrow> httpd \<Rightarrow> string" where
  "range_msg it h = ''out of range '' @ (case h_file_path h of Some p \<Rightarrow> p | None \<Rightarrow> ''(null)'') @ '' '' @
     print_int (h_pos h) @ ''+'' @ print_int (h_count h) @ ''>'' @ print_int (it_size it)"

definition httpd_send_file :: "http_env \<Rightarrow> item \<Rightarrow> httpd \<Rightarrow> (int \<times> httpd) option" where
  "httpd_send_file e it h =
     (let h = file_range it h
      in if h_pos h < 0 \<or> h_pos h > it_size it \<or> h_pos h + h_count h > it_size it
         then map_option (\<lambda>(_, h). (0, httpd_close_filefd h)) (httpd_error e 416 (range_msg it h) h)
         else
           let h = file_status it h;
               h = (if HIN_HTTPD_MAX_COMPRESS_SIZE \<noteq> 0 \<and> it_size it > HIN_HTTPD_MAX_COMPRESS_SIZE
                    then h\<lparr>h_disable := setf (h_disable h) HIN_HTTP_COMPRESS\<rparr> else h);
               h = h\<lparr>h_peer := clrf (h_peer h) (h_disable h)\<rparr>
           in case httpd_pipe_set_http11_response_options h (file_pipe it h) of
                (h, p) \<Rightarrow>
                  Option.bind (file_head e it h) (\<lambda>bufs.
                    let p = p\<lparr>hp_pipe := foldl hin_pipe_append_raw (hp_pipe p) (head_bufs bufs)\<rparr>
                    in Some (0, log_http (Run_pipe p) h)))"

definition done_file :: "http_env \<Rightarrow> pipe \<Rightarrow> httpd \<Rightarrow> httpd" where
  "done_file e p h = httpd_client_finish_request e (Some (p_count p)) h"

text \<open>The entity tag of a file: seconds, nanoseconds and size, in 64 bits.\<close>

definition file_etag :: "int \<Rightarrow> int \<Rightarrow> int \<Rightarrow> u64" where
  "file_etag sec nsec sz = word_of_int (sec * 0xffff) + word_of_int (nsec * 0xff) + word_of_int sz"

definition strerror_msg :: "httpd \<Rightarrow> string \<Rightarrow> string" where
  "strerror_msg h err = ''can'' @ [CHR 0x27] @ ''t open '' @ [CHR 0x27] @
     (case h_file_path h of Some p \<Rightarrow> p | None \<Rightarrow> ''(null)'') @ [CHR 0x27] @ '': '' @ err"

text \<open>\<open>Inl\<close> is an error with its text, \<open>Inr\<close> the times and the size.\<close>

definition httpd_statx_callback ::
  "http_env \<Rightarrow> string + int \<times> int \<times> int \<Rightarrow> httpd \<Rightarrow> (int \<times> httpd) option" where
  "httpd_statx_callback e res h =
     (case res of
        Inl err \<Rightarrow> map_option (\<lambda>(_, h). (1, httpd_close_filefd h)) (httpd_error e 404 (strerror_msg h err) h)
      | Inr (sec, nsec, sz) \<Rightarrow>
          map_option (\<lambda>(_, h). (0, h))
            (httpd_send_file e \<lparr>it_type = 0, it_fd = h_file_fd h, it_modified = sec, it_size = sz,
                                it_etag = file_etag sec nsec sz\<rparr> h))"

text \<open>\<open>hin_server_error_callback\<close> of \<open>lua/lua.c\<close>: the data bit it tests was just cleared.\<close>

definition hin_server_error_callback :: "httpd \<Rightarrow> int \<times> httpd" where
  "hin_server_error_callback h =
     (if has (h_state h) HIN_REQ_ERROR_HANDLED then (0, h)
      else
        let h = h\<lparr>h_state := clrf (setf (h_state h) HIN_REQ_ERROR_HANDLED) (HIN_REQ_DATA OR HIN_REQ_ERROR)\<rparr>
        in (if has (h_state h) HIN_REQ_DATA then 1 else 0, h))"

definition httpd_open_filefd_callback :: "http_env \<Rightarrow> string + int \<Rightarrow> httpd \<Rightarrow> (int \<times> httpd) option" where
  "httpd_open_filefd_callback e res h =
     (case res of
        Inl err \<Rightarrow>
          (case hin_server_error_callback h of
             (r, h) \<Rightarrow> if r = 0 then map_option (\<lambda>(_, h). (-1, h)) (httpd_error e 404 (strerror_msg h err) h)
                       else Some (-1, h))
      | Inr fd \<Rightarrow> Some (0, log_http (Statx fd) (h\<lparr>h_file_fd := fd\<rparr>)))"

definition httpd_handle_file_request ::
  "http_env \<Rightarrow> string option \<Rightarrow> int \<Rightarrow> int \<Rightarrow> httpd \<Rightarrow> (int \<times> httpd) option" where
  "httpd_handle_file_request e fpath pos count h =
     (let fail = (\<lambda>status msg h. map_option (\<lambda>(_, h). (0, h)) (httpd_error e status msg h))
      in if has (h_state h) HIN_REQ_DATA then Some (-1, h)
         else
           let h = h\<lparr>h_state := setf (h_state h) HIN_REQ_DATA, h_peer := clrf (h_peer h) HIN_HTTP_CHUNKED\<rparr>
           in if h_method h = HIN_METHOD_POST then fail 405 ''post on a file resource'' h
              else case h_file h of
                Some node \<Rightarrow>
                  (case vn_file node of
                     None \<Rightarrow> fail 404 (''can'' @ [CHR 0x27] @ ''t open'') h
                   | Some file \<Rightarrow>
                       if vn_forbidden node then fail 403 (''can'' @ [CHR 0x27] @ ''t open'') h
                       else map_option (\<lambda>(_, h). (0, h)) (httpd_send_file e (file\<lparr>it_type := 0\<rparr>) h))
              | None \<Rightarrow>
                  (case fpath of
                     None \<Rightarrow> fail 404 ''no file path given'' h
                   | Some p \<Rightarrow>
                       Some (0, log_http (Openat p) (h\<lparr>h_file_path := Some p, h_pos := pos, h_count := count\<rparr>))))"

subsection \<open>Ranges\<close>

definition in_file :: "item \<Rightarrow> httpd \<Rightarrow> bool" where
  "in_file it h \<longleftrightarrow> 0 \<le> h_pos h \<and> h_pos h \<le> it_size it \<and> h_pos h + h_count h \<le> it_size it"

lemma file_range_count:
  "in_file it (file_range it h) \<Longrightarrow> 0 \<le> h_count (file_range it h)"
  by (auto simp: in_file_def file_range_def Let_def split: if_splits)

lemma file_status_range [simp]:
  "h_pos (file_status it h) = h_pos h" "h_count (file_status it h) = h_count h"
  "h_log (file_status it h) = h_log h" "h_method (file_status it h) = h_method h"
  by (simp_all add: file_status_def Let_def)

lemma append_raw_fold [simp]:
  "p_in (foldl hin_pipe_append_raw p bs) = p_in p" "p_left (foldl hin_pipe_append_raw p bs) = p_left p"
  "write_que (foldl hin_pipe_append_raw p bs) = write_que p @ bs"
  by (induction bs arbitrary: p) (simp_all add: hin_pipe_append_raw_def)

lemma request_chunked_same [simp]:
  "h_count (snd (httpd_request_chunked h)) = h_count h" "h_pos (snd (httpd_request_chunked h)) = h_pos h"
  "h_log (snd (httpd_request_chunked h)) = h_log h"
  by (simp_all add: httpd_request_chunked_def)

lemma options_pipe:
  assumes "httpd_pipe_set_http11_response_options h p = (g, q)"
  shows "p_in (hp_pipe q) = p_in (hp_pipe p)" "write_que (hp_pipe q) = write_que (hp_pipe p)"
    "p_left (hp_pipe q) = (if h_status h = 304 \<or> h_method h = HIN_METHOD_HEAD then 0 else h_count h)"
    "h_log g = h_log h"
  using assms
  by (auto simp: httpd_pipe_set_http11_response_options_def httpd_pipe_set_chunked_def Let_def
      split: if_splits prod.splits dest: arg_cong [of _ _ snd])
     (metis request_chunked_same(3) snd_conv)+

lemma send_file_pipe:
  assumes "httpd_send_file e it h = Some (r, h')" "in_file it (file_range it h)"
  shows "\<exists>p. h_log h' = h_log h @ [Run_pipe p] \<and> d_pos (p_in (hp_pipe p)) = h_pos (file_range it h) \<and>
     (p_left (hp_pipe p) = 0 \<or> p_left (hp_pipe p) = h_count (file_range it h))"
proof -
  let ?r = "file_range it h"
  have ok: "\<not> (h_pos ?r < 0 \<or> h_pos ?r > it_size it \<or> h_pos ?r + h_count ?r > it_size it)"
    using assms(2) by (auto simp: in_file_def)
  define g where "g = (file_status it ?r)\<lparr>h_peer := clrf (h_peer (file_status it ?r)) (h_disable (file_status it ?r))\<rparr>"
  obtain k q where k: "httpd_pipe_set_http11_response_options g (file_pipe it g) = (k, q)" by fastforce
  have log: "h_log ?r = h_log h" by (simp add: file_range_def Let_def)
  show ?thesis
    using assms(1) ok k options_pipe [OF k] log
    by (auto simp: httpd_send_file_def Let_def HIN_HTTPD_MAX_COMPRESS_SIZE_def g_def [symmetric] log_http_def
        split: Option.bind_splits)
       (auto simp: g_def file_pipe_def new_pipe_def Let_def)
qed

text \<open>Errors queue at most one response and no pipe.\<close>

definition only_writes :: "httpd \<Rightarrow> httpd \<Rightarrow> bool" where
  "only_writes h h' \<longleftrightarrow> h_log h' = h_log h \<or> (\<exists>bufs. h_log h' = h_log h @ [Write bufs])"

lemma get_not_post: "\<not> is_post (h\<lparr>h_method := HIN_METHOD_GET\<rparr>)"
  by (simp add: is_post_def HIN_METHOD_GET_def HIN_METHOD_POST_def)

lemma text_writes:
  assumes "httpd_respond_text e status body h = Some (r, h')" "\<not> is_post h"
  shows "only_writes h h'"
  using assms write_text_log(1) [of e status body "h\<lparr>h_state := setf (h_state h) HIN_REQ_DATA\<rparr>" h']
  by (subst (asm) httpd_respond_text.simps) (auto simp: only_writes_def split: if_splits)

lemma error_writes:
  assumes "httpd_error e status msg h = Some (r, h')"
  shows "only_writes h h'"
proof -
  have fatal: "only_writes h h'" if ans: "httpd_respond_fatal e status b h = Some (x, h')" for b x
  proof (cases "has (h_state h) HIN_REQ_ERROR")
    case True
    then show ?thesis using ans by (subst (asm) httpd_respond_fatal.simps) (simp add: only_writes_def)
  next
    case False
    let ?h = "h\<lparr>h_state := setf (clrf (h_state h) (HIN_REQ_DATA OR HIN_REQ_POST)) HIN_REQ_ERROR,
        h_method := HIN_METHOD_GET, h_peer := clrf (h_peer h) HIN_HTTP_KEEPALIVE\<rparr>"
    have "\<exists>y. httpd_respond_text e status b ?h = Some (y, h')"
      using ans False by (subst (asm) httpd_respond_fatal.simps) (auto simp: bind_eq_Some_conv)
    then obtain y where "httpd_respond_text e status b ?h = Some (y, h')" ..
    moreover have "\<not> is_post ?h" by (simp add: is_post_def HIN_METHOD_GET_def HIN_METHOD_POST_def)
    ultimately have "only_writes ?h h'" by (rule text_writes)
    then show ?thesis by (simp add: only_writes_def)
  qed
  show ?thesis
  proof (cases "status = 0")
    case True
    then show ?thesis using assms by (subst (asm) httpd_error.simps) (simp add: only_writes_def)
  next
    case False
    then show ?thesis using assms fatal by (subst (asm) httpd_error.simps) auto
  qed
qed

lemma close_filefd_pipes: "Run_pipe p \<in> set (h_log (httpd_close_filefd h)) \<longleftrightarrow> Run_pipe p \<in> set (h_log h)"
  by (simp add: httpd_close_filefd_def)

text \<open>The head of a response, when the file has no date to print.\<close>

definition file_head_text :: "http_env \<Rightarrow> item \<Rightarrow> httpd \<Rightarrow> string" where
  "file_head_text e it h =
     status_line h (h_status h) @ date_text e h @ common_text e h @
     (if \<not> has (h_disable h) HIN_HTTP_ETAG \<and> it_etag it \<noteq> 0
      then ''ETag: '' @ [QUOTE] @ print_hex (unat (it_etag it)) @ [QUOTE] @ CRLF else []) @
     (if \<not> has (h_peer h) HIN_HTTP_CHUNKED then ''Content-Length: '' @ print_int (it_size it) @ CRLF else []) @
     (if \<not> has (h_disable h) HIN_HTTP_RANGE \<and> \<not> has (h_peer h) HIN_HTTP_CHUNKED
      then ''Accept-Ranges: bytes'' @ CRLF else []) @
     (if h_status h = 206
      then ''Content-Range: bytes '' @ print_int (h_pos h) @ ''-'' @ print_int (h_pos h + h_count h - 1) @
           ''/'' @ print_int (it_size it) @ CRLF else []) @ CRLF"

lemma length_print_hex: "n < 16 ^ Suc k \<Longrightarrow> length (print_hex n) \<le> Suc k"
proof (induction k arbitrary: n)
  case 0
  then show ?case by (subst print_hex.simps) simp
next
  case (Suc k)
  have "n div 16 < 16 ^ Suc k" using Suc.prems by (simp add: less_mult_imp_div_less)
  with Suc.IH show ?case by (subst print_hex.simps) simp
qed

lemma file_head_result:
  assumes "texts_fit e h" "has (h_disable h) HIN_HTTP_MODIFIED \<or> it_modified it = 0"
    "\<bar>h_status h\<bar> < 10 ^ 20" "\<bar>it_size it\<bar> < 10 ^ 19" "\<bar>h_pos h\<bar> < 10 ^ 19" "\<bar>h_count h\<bar> < 10 ^ 19"
  shows "\<exists>bufs. file_head e it h = Some bufs \<and> chain_text bufs = file_head_text e it h"
proof -
  have len: "length (print_int (h_status h)) \<le> 21" "length (print_int (it_size it)) \<le> 21"
    "length (print_int (h_pos h)) \<le> 21" "length (print_int (h_pos h + h_count h - 1)) \<le> 21"
    using assms(3-6) by (auto intro!: length_print_int)
  have "unat (it_etag it) < 16 ^ Suc 15" using unsigned_less [of "it_etag it"] by simp
  then have hex: "length (print_hex (unat (it_etag it))) \<le> 16" using length_print_hex [of _ 15] by simp
  obtain b where b: "Option.bind (hdr (status_line h (h_status h)) [new_buffer 0]) (\<lambda>b. httpd_write_common_headers e h b) = Some b"
      "chain_wf b" "chain_text b = status_line h (h_status h) @ date_text e h @ common_text e h"
    using appends_head [OF assms(1), of "h_status h"] len(1) by auto
  obtain b0 where b0: "hdr (status_line h (h_status h)) [new_buffer 0] = Some b0" "httpd_write_common_headers e h b0 = Some b"
    using b(1) by (cases "hdr (status_line h (h_status h)) [new_buffer 0]") auto
  define rest where "rest = (\<lambda>bufs.
      Option.bind (hdr_if (\<not> has (h_disable h) HIN_HTTP_ETAG \<and> it_etag it \<noteq> 0)
                     (''ETag: '' @ [QUOTE] @ print_hex (unat (it_etag it)) @ [QUOTE] @ CRLF) bufs) (\<lambda>bufs.
      Option.bind (hdr_if (\<not> has (h_peer h) HIN_HTTP_CHUNKED)
                     (''Content-Length: '' @ print_int (it_size it) @ CRLF) bufs) (\<lambda>bufs.
      Option.bind (hdr_if (\<not> has (h_disable h) HIN_HTTP_RANGE \<and> \<not> has (h_peer h) HIN_HTTP_CHUNKED)
                     (''Accept-Ranges: bytes'' @ CRLF) bufs) (\<lambda>bufs.
      Option.bind (hdr_if (h_status h = 206)
                     (''Content-Range: bytes '' @ print_int (h_pos h) @ ''-'' @
                      print_int (h_pos h + h_count h - 1) @ ''/'' @ print_int (it_size it) @ CRLF) bufs) (\<lambda>bufs.
      hdr CRLF bufs)))))"
  have "file_head e it h = rest b"
    using b0 assms(2) by (auto simp: file_head_def rest_def Let_def)
  moreover have "appends b
     ((if \<not> has (h_disable h) HIN_HTTP_ETAG \<and> it_etag it \<noteq> 0
      then ''ETag: '' @ [QUOTE] @ print_hex (unat (it_etag it)) @ [QUOTE] @ CRLF else []) @
     (if \<not> has (h_peer h) HIN_HTTP_CHUNKED then ''Content-Length: '' @ print_int (it_size it) @ CRLF else []) @
     (if \<not> has (h_disable h) HIN_HTTP_RANGE \<and> \<not> has (h_peer h) HIN_HTTP_CHUNKED
      then ''Accept-Ranges: bytes'' @ CRLF else []) @
     (if h_status h = 206
      then ''Content-Range: bytes '' @ print_int (h_pos h) @ ''-'' @ print_int (h_pos h + h_count h - 1) @
           ''/'' @ print_int (it_size it) @ CRLF else []) @ CRLF) (rest b)"
    unfolding rest_def using len hex
    by (intro appends_bind appends_if appends_hdr b(2)) (simp_all add: HIN_HTTPD_MAX_HEADER_LINE_SIZE_def)
  ultimately show ?thesis using b(3) by (auto simp: appends_def file_head_text_def)
qed


definition item0 :: item where
  "item0 = \<lparr>it_type = 0, it_fd = 7, it_modified = 0, it_size = 100, it_etag = 0\<rparr>"

lemma send_file_sends:
  assumes "file_range it h = r" "in_file it r" "file_status it r = r" "HIN_HTTPD_MAX_COMPRESS_SIZE = 0"
    "r\<lparr>h_peer := clrf (h_peer r) (h_disable r)\<rparr> = r"
    "httpd_pipe_set_http11_response_options r (file_pipe it r) = (r, q)" "file_head e it r = Some bufs"
  shows "\<exists>h'. httpd_send_file e it h = Some (0, h')"
  using assms(2,4) by (simp add: httpd_send_file_def assms(1,3,5-7) Let_def in_file_def)


end
