(* ===== verification/Vfs.thy ===== *)
theory Vfs
  imports HttpdFile
begin

text \<open>
  \<open>external/basic/vfs\<close> and the part of \<open>lua/lua_vfs.c\<close> that answers a request with a file: the
  tree of the files on disk, read lazily.  Nodes, directories and open files are objects at
  addresses (numbers, 0 is no address); an address without object is memory that was freed.
  An operation that reads such memory, a null pointer or an object as another type is
  \<open>None\<close>.  The system calls are a parameter: what a directory lists, what \<open>statx\<close> says of a
  path, the descriptors of \<open>openat\<close> and the watches of \<open>inotify\<close>.
\<close>

definition BASIC_ENT_DIR :: int where "BASIC_ENT_DIR = 1"
definition BASIC_ENT_FILE :: int where "BASIC_ENT_FILE = 2"
definition BASIC_ENT_UNKNOWN :: int where "BASIC_ENT_UNKNOWN = 3"
definition BASIC_VFS_FORBIDDEN :: u32 where [flag_defs]: "BASIC_VFS_FORBIDDEN = 1"

datatype inode = Dir nat | File nat

record vfs_node =
  nd_type :: int
  nd_refcount :: int
  nd_flags :: u32
  nd_parent :: "nat option"
  nd_inode :: "inode option"
  nd_name :: string

record vfs_dir =
  dr_num :: nat
  dr_used :: nat
  dr_max :: nat
  dr_entries :: "nat option list"
  dr_parent :: "nat option"
  dr_path :: string

record vfs_file =
  fl_refcount :: int
  fl_fd :: int
  fl_parent :: nat
  fl_modified :: int
  fl_size :: int
  fl_etag :: u64

record vfs =
  vf_ht :: ht
  vf_inotify :: int
  vf_root :: nat
  vf_nodes :: "nat \<rightharpoonup> vfs_node"
  vf_dirs :: "nat \<rightharpoonup> vfs_dir"
  vf_files :: "nat \<rightharpoonup> vfs_file"
  vf_next :: nat
  vf_closed :: "int list"

datatype dirent_type = DT_DIR | DT_REG | DT_LNK | DT_other

text \<open>\<open>os_statx\<close>: whether the path is a directory, seconds, nanoseconds and size.\<close>

record vfs_os =
  os_readdir :: "string \<Rightarrow> (string \<times> dirent_type) list option"
  os_statx :: "string \<Rightarrow> (bool \<times> int \<times> int \<times> int) option"
  os_open :: "string \<Rightarrow> int"
  os_inotify :: int
  os_watch :: "string \<Rightarrow> int"

definition put_node :: "nat \<Rightarrow> vfs_node \<Rightarrow> vfs \<Rightarrow> vfs" where
  "put_node n nd s = s\<lparr>vf_nodes := (vf_nodes s)(n \<mapsto> nd)\<rparr>"

definition put_dir :: "nat \<Rightarrow> vfs_dir \<Rightarrow> vfs \<Rightarrow> vfs" where
  "put_dir d dr s = s\<lparr>vf_dirs := (vf_dirs s)(d \<mapsto> dr)\<rparr>"

definition put_file :: "nat \<Rightarrow> vfs_file \<Rightarrow> vfs \<Rightarrow> vfs" where
  "put_file f fl s = s\<lparr>vf_files := (vf_files s)(f \<mapsto> fl)\<rparr>"

subsection \<open>References\<close>

definition basic_vfs_unref_file :: "nat \<Rightarrow> vfs \<Rightarrow> (int \<times> vfs) option" where
  "basic_vfs_unref_file f s =
     Option.bind (vf_files s f) (\<lambda>fl.
       let fl = fl\<lparr>fl_refcount := fl_refcount fl - 1\<rparr>
       in if fl_refcount fl > 0 then Some (0, put_file f fl s)
          else if fl_fd fl < 0 then Some (-1, put_file f fl s)
          else Some (0, put_file f (fl\<lparr>fl_fd := -1\<rparr>) (s\<lparr>vf_closed := vf_closed s @ [fl_fd fl]\<rparr>)))"

definition basic_vfs_ref_file :: "vfs_os \<Rightarrow> nat \<Rightarrow> vfs \<Rightarrow> (int \<times> vfs) option" where
  "basic_vfs_ref_file os f s =
     Option.bind (vf_files s f) (\<lambda>fl.
       let fl = fl\<lparr>fl_refcount := fl_refcount fl + 1\<rparr>
       in if fl_fd fl \<ge> 0 then Some (0, put_file f fl s)
          else
            Option.bind (vf_nodes s (fl_parent fl)) (\<lambda>node.
            Option.bind (nd_parent node) (\<lambda>d.
            Option.bind (vf_dirs s d) (\<lambda>dir.
              let fd = os_open os (dr_path dir @ nd_name node);
                  s = put_file f (fl\<lparr>fl_fd := fd\<rparr>) s
              in if fd < 0
                 then Some (-1, put_node (fl_parent fl) (node\<lparr>nd_flags := setf (nd_flags node) BASIC_VFS_FORBIDDEN\<rparr>) s)
                 else Some (0, s)))))"

definition file_inode :: "vfs_node \<Rightarrow> nat option" where
  "file_inode nd = (case nd_inode nd of Some (File f) \<Rightarrow> Some f | _ \<Rightarrow> None)"

definition basic_vfs_ref :: "vfs_os \<Rightarrow> nat \<Rightarrow> vfs \<Rightarrow> vfs option" where
  "basic_vfs_ref os n s =
     Option.bind (vf_nodes s n) (\<lambda>nd.
       let nd = nd\<lparr>nd_refcount := nd_refcount nd + 1\<rparr>; s = put_node n nd s
       in if nd_type nd = BASIC_ENT_FILE
          then Option.bind (file_inode nd) (\<lambda>f. map_option snd (basic_vfs_ref_file os f s))
          else Some s)"

definition basic_vfs_unref :: "nat \<Rightarrow> vfs \<Rightarrow> vfs option" where
  "basic_vfs_unref n s =
     Option.bind (vf_nodes s n) (\<lambda>nd.
       let nd = nd\<lparr>nd_refcount := nd_refcount nd - 1\<rparr>; s = put_node n nd s
       in if nd_type nd = BASIC_ENT_FILE
          then Option.bind (file_inode nd) (\<lambda>f. map_option snd (basic_vfs_unref_file f s))
          else Some s)"

subsection \<open>Directories\<close>

fun search_entries :: "vfs \<Rightarrow> nat option list \<Rightarrow> string \<Rightarrow> nat option option" where
  "search_entries s [] name = Some None"
| "search_entries s (None # es) name = search_entries s es name"
| "search_entries s (Some n # es) name =
     Option.bind (vf_nodes s n) (\<lambda>nd.
       if nd_name nd = name then Some (Some n) else search_entries s es name)"

definition basic_vfs_search_dir :: "vfs \<Rightarrow> nat option \<Rightarrow> string \<Rightarrow> nat option option" where
  "basic_vfs_search_dir s d name =
     (case d of
        None \<Rightarrow> Some None
      | Some d \<Rightarrow> Option.bind (vf_dirs s d) (\<lambda>dr. search_entries s (take (dr_num dr) (dr_entries dr)) name))"

text \<open>
  The slot of a new entry and the new \<open>num\<close>.  The search for a hole is never reached, because
  \<open>used\<close> counts the deleted entries too.
\<close>

definition free_slot :: "vfs_dir \<Rightarrow> nat \<times> nat" where
  "free_slot dr =
     (let i = dr_num dr in
      if dr_used dr + 1 < dr_num dr + 1
      then (if dr_max dr > 0 \<and> dr_entries dr ! i = None then (i, 0) else (i + 1, 1))
      else (i, dr_num dr + 1))"

definition basic_vfs_add :: "nat \<Rightarrow> int \<Rightarrow> string \<Rightarrow> vfs \<Rightarrow> (nat \<times> vfs) option" where
  "basic_vfs_add d type name s =
     Option.bind (basic_vfs_search_dir s (Some d) name) (\<lambda>found.
       case found of
         Some n \<Rightarrow> Some (n, s)
       | None \<Rightarrow>
           Option.bind (vf_dirs s d) (\<lambda>dr.
           case free_slot dr of (i, num) \<Rightarrow>
             let dr = dr\<lparr>dr_used := dr_used dr + 1, dr_num := num\<rparr>;
                 dr = (if num \<ge> dr_max dr
                       then dr\<lparr>dr_max := dr_max dr + 20, dr_entries := dr_entries dr @ replicate 20 None\<rparr>
                       else dr);
                 n = vf_next s;
                 nd = \<lparr>nd_type = type, nd_refcount = 0, nd_flags = 0, nd_parent = Some d, nd_inode = None,
                       nd_name = name\<rparr>
             in if i < length (dr_entries dr)
                then Some (n, put_dir d (dr\<lparr>dr_entries := (dr_entries dr)[i := Some n]\<rparr>)
                                (put_node n nd (s\<lparr>vf_next := n + 1\<rparr>)))
                else None))"

definition basic_vfs_stat :: "vfs_os \<Rightarrow> nat \<Rightarrow> string \<Rightarrow> vfs \<Rightarrow> (inode option \<times> vfs) option" where
  "basic_vfs_stat os n p s =
     Option.bind (vf_nodes s n) (\<lambda>nd.
       if nd_inode nd \<noteq> None then Some (nd_inode nd, s)
       else case os_statx os p of
           None \<Rightarrow> Some (None, s)
         | Some (is_dir, sec, nsec, sz) \<Rightarrow>
             if is_dir then Some (None, put_node n (nd\<lparr>nd_type := BASIC_ENT_DIR\<rparr>) s)
             else
               let f = vf_next s;
                   fl = \<lparr>fl_refcount = 0, fl_fd = -1, fl_parent = n, fl_modified = sec, fl_size = sz,
                         fl_etag = file_etag sec nsec sz\<rparr>;
                   nd = nd\<lparr>nd_type := BASIC_ENT_FILE, nd_inode := Some (File f)\<rparr>
               in Some (Some (File f), put_node n nd (put_file f fl (s\<lparr>vf_next := f + 1\<rparr>))))"

definition basic_vfs_get_file :: "vfs_os \<Rightarrow> nat \<Rightarrow> vfs \<Rightarrow> (inode option \<times> vfs) option" where
  "basic_vfs_get_file os n s =
     Option.bind (vf_nodes s n) (\<lambda>nd.
       if nd_type nd \<noteq> BASIC_ENT_FILE then Some (None, s)
       else if nd_inode nd \<noteq> None then Some (nd_inode nd, s)
       else Option.bind (nd_parent nd) (\<lambda>d.
            Option.bind (vf_dirs s d) (\<lambda>dir.
            basic_vfs_stat os n (dr_path dir @ ''/'' @ nd_name nd) s)))"

definition basic_vfs_add_inotify :: "vfs_os \<Rightarrow> nat \<Rightarrow> vfs \<Rightarrow> (int \<times> vfs) option" where
  "basic_vfs_add_inotify os d s =
     (let s = (if vf_inotify s \<le> 0 then s\<lparr>vf_inotify := os_inotify os\<rparr> else s)
      in if vf_inotify s < 0 then Some (-1, s)
         else Option.bind (vf_dirs s d) (\<lambda>dr.
              let watch = os_watch os (dr_path dr)
              in if watch < 0 then Some (-1, s)
                 else Some (0, s\<lparr>vf_ht := the (snd (basic_ht_set_pair (Some (vf_ht s)) 0 (word_of_int watch) 0 (word_of_nat d)))\<rparr>)))"

definition entry_type :: "dirent_type \<Rightarrow> int" where
  "entry_type t = (case t of DT_DIR \<Rightarrow> BASIC_ENT_DIR | DT_REG \<Rightarrow> BASIC_ENT_FILE | DT_LNK \<Rightarrow> 0
                   | DT_other \<Rightarrow> BASIC_ENT_UNKNOWN)"

fun add_entries :: "vfs_os \<Rightarrow> nat \<Rightarrow> (string \<times> dirent_type) list \<Rightarrow> vfs \<Rightarrow> vfs option" where
  "add_entries os d [] s = Some s"
| "add_entries os d ((name, t) # es) s =
     (let type = entry_type t in
      if name = ''.'' \<or> name = ''..'' \<or> type = BASIC_ENT_UNKNOWN then add_entries os d es s
      else
        Option.bind (basic_vfs_add d type name s) (\<lambda>(n, s).
        if type \<noteq> BASIC_ENT_DIR
        then Option.bind (basic_vfs_get_file os n s) (\<lambda>(_, s). add_entries os d es s)
        else add_entries os d es s))"

definition basic_vfs_stat_dir :: "vfs_os \<Rightarrow> nat \<Rightarrow> string \<Rightarrow> vfs \<Rightarrow> (int \<times> vfs) option" where
  "basic_vfs_stat_dir os d p s =
     Option.bind (vf_dirs s d) (\<lambda>dr.
       let s = put_dir d (dr\<lparr>dr_path := p\<rparr>) s
       in case os_readdir os p of
            None \<Rightarrow> Some (-1, s)
          | Some es \<Rightarrow>
              Option.bind (basic_vfs_add_inotify os d s) (\<lambda>(_, s).
              map_option (\<lambda>s. (0, s)) (add_entries os d es s)))"

definition empty_dir :: vfs_dir where
  "empty_dir = \<lparr>dr_num = 0, dr_used = 0, dr_max = 0, dr_entries = [], dr_parent = None, dr_path = []\<rparr>"

definition basic_vfs_get_dir :: "vfs_os \<Rightarrow> nat option \<Rightarrow> vfs \<Rightarrow> (nat option \<times> vfs) option" where
  "basic_vfs_get_dir os node s =
     (case node of
        None \<Rightarrow> Some (None, s)
      | Some n \<Rightarrow>
          Option.bind (vf_nodes s n) (\<lambda>nd.
            if nd_type nd \<noteq> BASIC_ENT_DIR then Some (None, s)
            else case nd_inode nd of
                Some (Dir d) \<Rightarrow> Some (Some d, s)
              | Some (File _) \<Rightarrow> None
              | None \<Rightarrow>
                  Option.bind (nd_parent nd) (\<lambda>pd.
                  Option.bind (vf_dirs s pd) (\<lambda>parent.
                    let d = vf_next s;
                        s = put_dir d (empty_dir\<lparr>dr_parent := nd_parent nd\<rparr>) (s\<lparr>vf_next := d + 1\<rparr>);
                        s = put_node n (nd\<lparr>nd_inode := Some (Dir d)\<rparr>) s
                    in Option.bind (basic_vfs_stat_dir os d (dr_path parent @ nd_name nd @ ''/'') s) (\<lambda>(ret, s).
                       if ret < 0
                       then Option.bind (vf_nodes s n) (\<lambda>nd.
                            Some (Some d, put_node n (nd\<lparr>nd_flags := setf (nd_flags nd) BASIC_VFS_FORBIDDEN\<rparr>) s))
                       else Some (Some d, s))))))"

subsection \<open>Paths\<close>

text \<open>The loop of \<open>basic_vfs_ref_path\<close>: the node found, if any, and the rest of the path.\<close>

function ref_loop ::
  "vfs_os \<Rightarrow> string_t \<Rightarrow> nat option \<Rightarrow> vfs \<Rightarrow> ((nat \<times> string_t) option \<times> vfs) option" where
  "ref_loop os source dir s =
     (case match_string source ''([^/%z]+)'' of (used, source1, caps) \<Rightarrow>
        if used \<le> 0 then Some (None, s)
        else Option.bind (basic_vfs_search_dir s dir (str_of (hd caps))) (\<lambda>found.
          case found of
            None \<Rightarrow> Some (None, s)
          | Some n \<Rightarrow>
              Option.bind (vf_nodes s n) (\<lambda>nd.
                case match_string source1 ''/'' of (slash, source2, _) \<Rightarrow>
                  if nd_type nd \<noteq> BASIC_ENT_DIR
                  then map_option (Pair (Some (n, source1))) (basic_vfs_ref os n s)
                  else if slash \<le> 0 \<or> slen source2 = 0
                  then map_option (Pair (Some (n, source2))) (basic_vfs_ref os n s)
                  else Option.bind (basic_vfs_get_dir os (Some n) s) (\<lambda>(d, s).
                         if d = None then Some (None, s) else ref_loop os source2 d s))))"
  by pat_completeness auto
termination
  by (relation "measure (\<lambda>(os, source, dir, s). slen source)")
     (auto dest!: sym [of _ "match_string _ _"] match_progress)

declare ref_loop.simps [simp del]

text \<open>The result is the node and the path that is left, which is the given one on failure.\<close>

definition basic_vfs_ref_path ::
  "vfs_os \<Rightarrow> nat option \<Rightarrow> string_t \<Rightarrow> vfs \<Rightarrow> (nat option \<times> string_t \<times> vfs) option" where
  "basic_vfs_ref_path os dir_node p s =
     (if slen p = 0 then Some (None, p, s)
      else case match_string p ''/'' of (slash, source, _) \<Rightarrow>
        let current = (if slash > 0 then Some (vf_root s) else dir_node)
        in case current of
             None \<Rightarrow> Some (None, p, s)
           | Some n \<Rightarrow>
               Option.bind (vf_nodes s n) (\<lambda>nd.
                 if nd_type nd \<noteq> BASIC_ENT_DIR then Some (None, p, s)
                 else Option.bind (basic_vfs_get_dir os current s) (\<lambda>(d, s).
                      map_option (\<lambda>(r, s). case r of None \<Rightarrow> (None, p, s) | Some (n, rest) \<Rightarrow> (Some n, rest, s))
                        (ref_loop os source d s))))"

subsection \<open>Releasing nodes and events\<close>

definition drop_node :: "nat \<Rightarrow> vfs \<Rightarrow> vfs" where
  "drop_node n s = s\<lparr>vf_nodes := (vf_nodes s)(n := None)\<rparr>"

definition drop_inode :: "inode option \<Rightarrow> vfs \<Rightarrow> vfs" where
  "drop_inode i s =
     (case i of None \<Rightarrow> s
      | Some (Dir d) \<Rightarrow> s\<lparr>vf_dirs := (vf_dirs s)(d := None)\<rparr>
      | Some (File f) \<Rightarrow> s\<lparr>vf_files := (vf_files s)(f := None)\<rparr>)"

text \<open>\<open>basic_vfs_node_free\<close> of the nodes of a list, from left to right.\<close>

partial_function (option) free_nodes :: "nat option list \<Rightarrow> vfs \<Rightarrow> vfs option" where
  "free_nodes es s =
     (case es of
        [] \<Rightarrow> Some s
      | e # es \<Rightarrow>
          (case e of
             None \<Rightarrow> free_nodes es s
           | Some n \<Rightarrow>
               Option.bind (vf_nodes s n) (\<lambda>nd.
                 if nd_inode nd = None then free_nodes es (drop_node n s)
                 else if nd_type nd = 0 \<or> nd_type nd = BASIC_ENT_FILE
                 then Option.bind (basic_vfs_unref n s) (\<lambda>s. free_nodes es (drop_node n (drop_inode (nd_inode nd) s)))
                 else if nd_type nd = BASIC_ENT_DIR
                 then (case nd_inode nd of
                         Some (Dir d) \<Rightarrow>
                           Option.bind (vf_dirs s d) (\<lambda>dr.
                           Option.bind (free_nodes (take (dr_max dr) (dr_entries dr)) s) (\<lambda>s.
                           free_nodes es (drop_node n (drop_inode (nd_inode nd) s))))
                       | _ \<Rightarrow> None)
                 else free_nodes es (drop_node n s))))"

definition basic_vfs_node_free :: "nat \<Rightarrow> vfs \<Rightarrow> vfs option" where
  "basic_vfs_node_free n s = free_nodes [Some n] s"

text \<open>The index of the first entry with a name among the first \<open>num\<close>.\<close>

fun entry_index :: "vfs \<Rightarrow> nat option list \<Rightarrow> string \<Rightarrow> nat \<Rightarrow> (nat \<times> nat) option option" where
  "entry_index s [] name i = Some None"
| "entry_index s (None # es) name i = entry_index s es name (i + 1)"
| "entry_index s (Some n # es) name i =
     Option.bind (vf_nodes s n) (\<lambda>nd.
       if nd_name nd = name then Some (Some (i, n)) else entry_index s es name (i + 1))"

definition basic_vfs_delete :: "nat \<Rightarrow> string \<Rightarrow> vfs \<Rightarrow> (int \<times> vfs) option" where
  "basic_vfs_delete d name s =
     Option.bind (vf_dirs s d) (\<lambda>dr.
     Option.bind (entry_index s (take (dr_num dr) (dr_entries dr)) name 0) (\<lambda>found.
       case found of
         None \<Rightarrow> Some (0, s)
       | Some (i, n) \<Rightarrow>
           Option.bind (basic_vfs_node_free n s) (\<lambda>s.
           Option.bind (vf_dirs s d) (\<lambda>dr.
             Some (1, put_dir d (dr\<lparr>dr_entries := (dr_entries dr)[i := None]\<rparr>) s)))))"

record vfs_event =
  ev_wd :: int
  ev_create :: bool
  ev_modify :: bool
  ev_moved_to :: bool
  ev_delete :: bool
  ev_moved_from :: bool
  ev_name :: string

definition watched_dir :: "int \<Rightarrow> vfs \<Rightarrow> nat option" where
  "watched_dir wd s = map_option (\<lambda>p. unat (value2 p)) (basic_ht_get_pair (Some (vf_ht s)) 0 (word_of_int wd))"

definition event_change :: "vfs_os \<Rightarrow> nat \<Rightarrow> vfs_event \<Rightarrow> vfs \<Rightarrow> vfs option" where
  "event_change os d ev s =
     Option.bind (vf_dirs s d) (\<lambda>dr.
     Option.bind (basic_vfs_add d 0 (ev_name ev) s) (\<lambda>(n, s).
     Option.bind (vf_nodes s n) (\<lambda>nd.
       let s = (if ev_modify ev then put_node n (nd\<lparr>nd_inode := None\<rparr>) (drop_inode (nd_inode nd) s) else s)
       in map_option snd (basic_vfs_stat os n (dr_path dr @ ''/'' @ ev_name ev) s))))"

definition basic_vfs_event_single :: "vfs_os \<Rightarrow> vfs_event \<Rightarrow> vfs \<Rightarrow> vfs option" where
  "basic_vfs_event_single os ev s =
     (let dir = watched_dir (ev_wd ev) s in
      Option.bind (if ev_create ev \<or> ev_modify ev \<or> ev_moved_to ev
                   then Option.bind dir (\<lambda>d. event_change os d ev s) else Some s) (\<lambda>s.
      if ev_delete ev \<or> ev_moved_from ev
      then Option.bind dir (\<lambda>d. map_option snd (basic_vfs_delete d (ev_name ev) s)) else Some s))"

fun basic_vfs_event :: "vfs_os \<Rightarrow> vfs_event list \<Rightarrow> vfs \<Rightarrow> vfs option" where
  "basic_vfs_event os [] s = Some s"
| "basic_vfs_event os (ev # evs) s = Option.bind (basic_vfs_event_single os ev s) (basic_vfs_event os evs)"

text \<open>The root has address 1 and its directory address 2.\<close>

definition basic_vfs_init :: "vfs_os \<Rightarrow> string \<Rightarrow> vfs option" where
  "basic_vfs_init os cwd =
     Option.bind (basic_ht_init True \<lparr>ht_size = 0, ht_seed = 0, ht_mask = 0, ht_table = []\<rparr> 1024 0) (\<lambda>(_, h).
       let s = \<lparr>vf_ht = h, vf_inotify = 0, vf_root = 0, vf_nodes = Map.empty, vf_dirs = Map.empty,
                vf_files = Map.empty, vf_next = 3, vf_closed = []\<rparr>;
           s = put_node 1 \<lparr>nd_type = BASIC_ENT_DIR, nd_refcount = 0, nd_flags = 0, nd_parent = None,
                 nd_inode = Some (Dir 2), nd_name = []\<rparr> s;
           s = put_dir 2 empty_dir s
       in Option.bind (basic_vfs_stat_dir os 2 ''/'' s) (\<lambda>(_, s).
          map_option (\<lambda>(_, _, s). s) (basic_vfs_ref_path os None (mk_str cwd) (s\<lparr>vf_root := 1\<rparr>))))"

definition basic_vfs_clean :: "vfs \<Rightarrow> vfs option" where
  "basic_vfs_clean s = basic_vfs_node_free (vf_root s) s"

subsection \<open>Answering a request with a file\<close>

definition hin_search_dir :: "vfs_os \<Rightarrow> nat \<Rightarrow> string \<Rightarrow> vfs \<Rightarrow> (nat option \<times> vfs) option" where
  "hin_search_dir os node name s =
     Option.bind (basic_vfs_get_dir os (Some node) s) (\<lambda>(dir, s).
     Option.bind (basic_vfs_search_dir s dir name) (\<lambda>new.
       case new of
         None \<Rightarrow> Some (None, s)
       | Some n \<Rightarrow>
           Option.bind (vf_nodes s n) (\<lambda>nd.
             if nd_type nd = BASIC_ENT_FILE
             then Option.bind (basic_vfs_ref os n s) (\<lambda>s.
                  map_option (Pair (Some n)) (basic_vfs_unref node s))
             else Some (None, s))))"

text \<open>\<open>cwd\<close> is \<open>cwd_dir\<close> of the virtual host.\<close>

definition get_path_node ::
  "vfs_os \<Rightarrow> nat option \<Rightarrow> string_t \<Rightarrow> vfs \<Rightarrow> (nat option \<times> string_t \<times> vfs) option" where
  "get_path_node os cwd p s =
     (case match_string p ''/'' of (_, p, _) \<Rightarrow>
        if slen p > 0 then basic_vfs_ref_path os cwd p s else Some (cwd, p, s))"

text \<open>What \<open>httpd_handle_file_request\<close> reads of a node.\<close>

definition node_view :: "vfs \<Rightarrow> nat \<Rightarrow> vnode option" where
  "node_view s n =
     Option.bind (vf_nodes s n) (\<lambda>nd. Some
       \<lparr>vn_forbidden = has (nd_flags nd) BASIC_VFS_FORBIDDEN,
        vn_file = Option.bind (file_inode nd) (\<lambda>f. map_option (\<lambda>fl.
          \<lparr>it_type = 0, it_fd = fl_fd fl, it_modified = fl_modified fl, it_size = fl_size fl,
           it_etag = fl_etag fl\<rparr>) (vf_files s f))\<rparr>)"

text \<open>
  \<open>old\<close> is the node the request has already; the result tells the node it has afterwards.
  A request line that does not parse leaves the path uninitialised.
\<close>

definition hin_send_raw_path ::
  "http_env \<Rightarrow> vfs_os \<Rightarrow> nat option \<Rightarrow> nat option \<Rightarrow> httpd \<Rightarrow> vfs \<Rightarrow> (int \<times> nat option \<times> httpd \<times> vfs) option" where
  "hin_send_raw_path e os cwd old h s =
     (case hin_http_parse_header_line (h_headers h) of
        (None, _) \<Rightarrow> None
      | (Some (_, p, _), _) \<Rightarrow>
          Option.bind (get_path_node os cwd p s) (\<lambda>(found, _, s).
          case found of
            None \<Rightarrow> Some (-1, old, h, s)
          | Some node \<Rightarrow>
              Option.bind (vf_nodes s node) (\<lambda>nd.
              Option.bind (if nd_type nd = BASIC_ENT_DIR then hin_search_dir os node ''index.html'' s
                           else Some (Some node, s)) (\<lambda>(new, s).
              case new of
                None \<Rightarrow> Some (-1, Some node, h\<lparr>h_file := node_view s node\<rparr>, s)
              | Some node \<Rightarrow>
                  Option.bind (basic_vfs_get_file os node s) (\<lambda>(file, s).
                  if file = None then Some (-1, old, h, s)
                  else
                    Option.bind (case old of None \<Rightarrow> Some s | Some o' \<Rightarrow> basic_vfs_unref o' s) (\<lambda>s.
                    Option.bind (httpd_handle_file_request e None 0 0 (h\<lparr>h_file := node_view s node\<rparr>)) (\<lambda>(_, h).
                    Some (1, Some node, h, s))))))))"

subsection \<open>Well-formed trees\<close>

text \<open>
  Every object is below the next address, an entry of a directory has it as its parent, a
  directory has the path of its parent extended by its name, and no name is a dot name.  What
  is said of an object holds as long as it is not freed.
\<close>

definition plain_name :: "string \<Rightarrow> bool" where
  "plain_name nm \<longleftrightarrow> nm \<noteq> ''.'' \<and> nm \<noteq> ''..''"

definition inode_below :: "nat \<Rightarrow> inode option \<Rightarrow> bool" where
  "inode_below k i \<longleftrightarrow> (case i of None \<Rightarrow> True | Some (Dir d) \<Rightarrow> d < k | Some (File f) \<Rightarrow> f < k)"

definition node_ok :: "vfs \<Rightarrow> nat \<Rightarrow> vfs_node \<Rightarrow> bool" where
  "node_ok s n nd \<longleftrightarrow> n < vf_next s \<and> inode_below (vf_next s) (nd_inode nd) \<and>
     (\<forall>pd. nd_parent nd = Some pd \<longrightarrow> pd < vf_next s \<and> plain_name (nd_name nd) \<and>
       (\<forall>d dr pdr. nd_inode nd = Some (Dir d) \<longrightarrow> vf_dirs s d = Some dr \<longrightarrow> vf_dirs s pd = Some pdr \<longrightarrow>
          dr_path dr = dr_path pdr @ nd_name nd @ ''/''))"

definition dir_ok :: "vfs \<Rightarrow> nat \<Rightarrow> vfs_dir \<Rightarrow> bool" where
  "dir_ok s d dr \<longleftrightarrow> d < vf_next s \<and>
     (\<forall>m. Some m \<in> set (dr_entries dr) \<longrightarrow> m < vf_next s \<and>
       (\<forall>nd. vf_nodes s m = Some nd \<longrightarrow> nd_parent nd = Some d))"

definition vfs_wf :: "vfs \<Rightarrow> bool" where
  "vfs_wf s \<longleftrightarrow> (\<forall>n nd. vf_nodes s n = Some nd \<longrightarrow> node_ok s n nd) \<and>
     (\<forall>d dr. vf_dirs s d = Some dr \<longrightarrow> dir_ok s d dr)"

text \<open>Paths, names and parents never change while an object lives.\<close>

definition kept :: "vfs \<Rightarrow> vfs \<Rightarrow> bool" where
  "kept s s' \<longleftrightarrow> vf_next s \<le> vf_next s' \<and> vf_root s' = vf_root s \<and>
     (\<forall>n nd. vf_nodes s n = Some nd \<longrightarrow>
       (\<exists>nd'. vf_nodes s' n = Some nd' \<and> nd_parent nd' = nd_parent nd \<and> nd_name nd' = nd_name nd \<and>
         (\<forall>d. nd_inode nd = Some (Dir d) \<longrightarrow> nd_inode nd' = Some (Dir d)))) \<and>
     (\<forall>d dr. vf_dirs s d = Some dr \<longrightarrow> (\<exists>dr'. vf_dirs s' d = Some dr' \<and> dr_path dr' = dr_path dr))"

lemma wf_node: "vfs_wf s \<Longrightarrow> vf_nodes s n = Some nd \<Longrightarrow> node_ok s n nd"
  and wf_dir: "vfs_wf s \<Longrightarrow> vf_dirs s d = Some dr \<Longrightarrow> dir_ok s d dr"
  by (simp_all add: vfs_wf_def)

lemma kept_refl: "kept s s"
  by (simp add: kept_def)

lemma kept_trans: "kept s s1 \<Longrightarrow> kept s1 s2 \<Longrightarrow> kept s s2"
proof -
  assume a: "kept s s1" and b: "kept s1 s2"
  have "\<exists>nd'. vf_nodes s2 n = Some nd' \<and> nd_parent nd' = nd_parent nd \<and> nd_name nd' = nd_name nd \<and>
      (\<forall>d. nd_inode nd = Some (Dir d) \<longrightarrow> nd_inode nd' = Some (Dir d))"
    if n: "vf_nodes s n = Some nd" for n nd
  proof -
    obtain nd1 where n1: "vf_nodes s1 n = Some nd1" "nd_parent nd1 = nd_parent nd" "nd_name nd1 = nd_name nd"
      "\<forall>d. nd_inode nd = Some (Dir d) \<longrightarrow> nd_inode nd1 = Some (Dir d)"
      using a n unfolding kept_def by blast
    then obtain nd2 where "vf_nodes s2 n = Some nd2" "nd_parent nd2 = nd_parent nd1" "nd_name nd2 = nd_name nd1"
      "\<forall>d. nd_inode nd1 = Some (Dir d) \<longrightarrow> nd_inode nd2 = Some (Dir d)"
      using b unfolding kept_def by blast
    with n1 show ?thesis by auto
  qed
  moreover have "\<exists>dr'. vf_dirs s2 d = Some dr' \<and> dr_path dr' = dr_path dr" if "vf_dirs s d = Some dr" for d dr
    using a b that unfolding kept_def by metis
  ultimately show ?thesis using a b unfolding kept_def by auto
qed

lemma kept_node:
  assumes "kept s s'" "vf_nodes s n = Some nd"
  obtains x where "vf_nodes s' n = Some x" "nd_parent x = nd_parent nd" "nd_name x = nd_name nd"
    "\<And>d. nd_inode nd = Some (Dir d) \<Longrightarrow> nd_inode x = Some (Dir d)"
  using assms unfolding kept_def by blast

lemma kept_dir:
  assumes "kept s s'" "vf_dirs s d = Some dr"
  obtains x where "vf_dirs s' d = Some x" "dr_path x = dr_path dr"
  using assms unfolding kept_def by blast

lemma put_simps [simp]:
  "vf_nodes (put_node n nd s) = (vf_nodes s)(n \<mapsto> nd)" "vf_dirs (put_node n nd s) = vf_dirs s"
  "vf_next (put_node n nd s) = vf_next s" "vf_root (put_node n nd s) = vf_root s"
  "vf_nodes (put_dir d dr s) = vf_nodes s" "vf_dirs (put_dir d dr s) = (vf_dirs s)(d \<mapsto> dr)"
  "vf_next (put_dir d dr s) = vf_next s" "vf_root (put_dir d dr s) = vf_root s"
  "vf_nodes (put_file f fl s) = vf_nodes s" "vf_dirs (put_file f fl s) = vf_dirs s"
  "vf_next (put_file f fl s) = vf_next s" "vf_root (put_file f fl s) = vf_root s"
  "vf_files (put_node n nd s) = vf_files s" "vf_files (put_dir d dr s) = vf_files s"
  "vf_files (put_file f fl s) = (vf_files s)(f \<mapsto> fl)"
  by (simp_all add: put_node_def put_dir_def put_file_def)

text \<open>A step that keeps the directories and, of each node, all but its type, flags and count.\<close>

definition same_tree :: "vfs \<Rightarrow> vfs \<Rightarrow> bool" where
  "same_tree s s' \<longleftrightarrow> vf_next s \<le> vf_next s' \<and> vf_root s' = vf_root s \<and> vf_dirs s' = vf_dirs s \<and>
     (\<forall>n. vf_nodes s' n = None \<longleftrightarrow> vf_nodes s n = None) \<and>
     (\<forall>n nd nd'. vf_nodes s n = Some nd \<longrightarrow> vf_nodes s' n = Some nd' \<longrightarrow>
       nd_parent nd' = nd_parent nd \<and> nd_name nd' = nd_name nd \<and>
       (nd_inode nd' = nd_inode nd \<or> nd_inode nd = None \<and> (\<exists>f<vf_next s'. nd_inode nd' = Some (File f))))"

lemma inode_below_mono: "inode_below k i \<Longrightarrow> k \<le> l \<Longrightarrow> inode_below l i"
  by (auto simp: inode_below_def split: option.splits inode.splits)

lemma same_tree_wf:
  assumes "vfs_wf s" "same_tree s s'"
  shows "vfs_wf s' \<and> kept s s'"
proof -
  have le: "vf_next s \<le> vf_next s'" and dirs: "vf_dirs s' = vf_dirs s" and dom: "\<And>n. vf_nodes s' n = None \<longleftrightarrow> vf_nodes s n = None"
    using assms(2) by (simp_all add: same_tree_def)
  have old: "\<exists>nd. vf_nodes s n = Some nd \<and> nd_parent nd' = nd_parent nd \<and> nd_name nd' = nd_name nd \<and>
      (nd_inode nd' = nd_inode nd \<or> nd_inode nd = None \<and> (\<exists>f<vf_next s'. nd_inode nd' = Some (File f)))"
    if n: "vf_nodes s' n = Some nd'" for n nd'
  proof -
    obtain nd where "vf_nodes s n = Some nd" using dom [of n] n by (cases "vf_nodes s n") simp_all
    then show ?thesis using n assms(2) unfolding same_tree_def by blast
  qed
  have "node_ok s' n nd'" if n: "vf_nodes s' n = Some nd'" for n nd'
  proof -
    obtain nd where nd: "vf_nodes s n = Some nd" "nd_parent nd' = nd_parent nd" "nd_name nd' = nd_name nd"
      "nd_inode nd' = nd_inode nd \<or> nd_inode nd = None \<and> (\<exists>f<vf_next s'. nd_inode nd' = Some (File f))"
      using old [OF n] by blast
    have ok: "node_ok s n nd" by (rule wf_node [OF assms(1) nd(1)])
    have "inode_below (vf_next s') (nd_inode nd')"
      using nd(4) ok inode_below_mono [OF _ le] by (auto simp: node_ok_def inode_below_def)
    moreover have "nd_inode nd = Some (Dir d)" if "nd_inode nd' = Some (Dir d)" for d
      using nd(4) that by auto
    moreover note ok [unfolded node_ok_def]
    ultimately show ?thesis unfolding node_ok_def nd(2,3) dirs using le by (auto intro: less_le_trans)
  qed
  moreover have "dir_ok s' d dr" if "vf_dirs s' d = Some dr" for d dr
  proof -
    have ok: "dir_ok s d dr" using wf_dir [OF assms(1), of d dr] that dirs by simp
    have "nd_parent nd' = Some d" if m: "Some m \<in> set (dr_entries dr)" "vf_nodes s' m = Some nd'" for m nd'
      using ok old [OF m(2)] m(1) unfolding dir_ok_def by auto
    then show ?thesis using ok le unfolding dir_ok_def by (auto intro: less_le_trans)
  qed
  moreover have "kept s s'"
  proof -
    have "\<exists>nd'. vf_nodes s' n = Some nd' \<and> nd_parent nd' = nd_parent nd \<and> nd_name nd' = nd_name nd \<and>
        (\<forall>d. nd_inode nd = Some (Dir d) \<longrightarrow> nd_inode nd' = Some (Dir d))"
      if n: "vf_nodes s n = Some nd" for n nd
    proof -
      obtain nd' where "vf_nodes s' n = Some nd'" using dom [of n] n by (cases "vf_nodes s' n") simp_all
      then show ?thesis using n assms(2) unfolding same_tree_def by fastforce
    qed
    moreover have "vf_root s' = vf_root s" using assms(2) by (simp add: same_tree_def)
    ultimately show ?thesis using dirs le unfolding kept_def by simp
  qed
  ultimately show ?thesis unfolding vfs_wf_def by blast
qed

lemma same_tree_refl [simp]: "same_tree s s"
  by (simp add: same_tree_def)

lemma same_tree_file [simp]:
  "same_tree s (put_file f fl s)" "same_tree s (s\<lparr>vf_closed := c\<rparr>)" "same_tree s (put_file f fl (s\<lparr>vf_closed := c\<rparr>))"
  by (simp_all add: same_tree_def)

lemma same_tree_node:
  assumes "vf_nodes s n = Some nd" "nd_parent nd' = nd_parent nd" "nd_name nd' = nd_name nd"
    "vf_next s \<le> vf_next t" "vf_root t = vf_root s" "vf_dirs t = vf_dirs s" "vf_nodes t = vf_nodes s"
    "nd_inode nd' = nd_inode nd \<or> nd_inode nd = None \<and> (\<exists>f<vf_next t. nd_inode nd' = Some (File f))"
  shows "same_tree s (put_node n nd' t)"
  using assms by (auto simp: same_tree_def)

lemma same_tree_trans:
  assumes "same_tree s t" "same_tree t u"
  shows "same_tree s u"
proof -
  have "nd_parent nu = nd_parent nd \<and> nd_name nu = nd_name nd \<and>
      (nd_inode nu = nd_inode nd \<or> nd_inode nd = None \<and> (\<exists>f<vf_next u. nd_inode nu = Some (File f)))"
    if n: "vf_nodes s n = Some nd" "vf_nodes u n = Some nu" for n nd nu
  proof -
    obtain nt where nt: "vf_nodes t n = Some nt"
      using assms(1) n(1) by (cases "vf_nodes t n") (auto simp: same_tree_def)
    have le: "vf_next t \<le> vf_next u" using assms(2) by (simp add: same_tree_def)
    have "nd_parent nt = nd_parent nd \<and> nd_name nt = nd_name nd \<and>
        (nd_inode nt = nd_inode nd \<or> nd_inode nd = None \<and> (\<exists>f<vf_next t. nd_inode nt = Some (File f)))"
      "nd_parent nu = nd_parent nt \<and> nd_name nu = nd_name nt \<and>
        (nd_inode nu = nd_inode nt \<or> nd_inode nt = None \<and> (\<exists>f<vf_next u. nd_inode nu = Some (File f)))"
      using assms n nt unfolding same_tree_def by blast+
    then show ?thesis using le by (auto intro: less_le_trans)
  qed
  then show ?thesis using assms by (auto simp: same_tree_def)
qed

lemma unref_file_same: "basic_vfs_unref_file f s = Some (r, s') \<Longrightarrow> same_tree s s'"
  by (auto simp: basic_vfs_unref_file_def Let_def bind_eq_Some_conv split: if_splits)

lemma ref_file_same: "basic_vfs_ref_file os f s = Some (r, s') \<Longrightarrow> same_tree s s'"
  by (auto simp: basic_vfs_ref_file_def Let_def bind_eq_Some_conv split: if_splits intro!: same_tree_node)

lemma bump_same: "vf_nodes s n = Some nd \<Longrightarrow> same_tree s (put_node n (nd\<lparr>nd_refcount := k\<rparr>) s)"
  by (rule same_tree_node) (simp_all, blast?)

lemma unref_same: "basic_vfs_unref n s = Some s' \<Longrightarrow> same_tree s s'"
  by (auto simp: basic_vfs_unref_def Let_def bind_eq_Some_conv split: if_splits
      dest!: unref_file_same intro: bump_same same_tree_trans [OF bump_same])

lemma ref_same: "basic_vfs_ref os n s = Some s' \<Longrightarrow> same_tree s s'"
  by (auto simp: basic_vfs_ref_def Let_def bind_eq_Some_conv split: if_splits
      dest!: ref_file_same intro: bump_same same_tree_trans [OF bump_same])

lemma stat_same: "basic_vfs_stat os n p s = Some (r, s') \<Longrightarrow> same_tree s s'"
  by (auto simp: basic_vfs_stat_def Let_def bind_eq_Some_conv split: if_splits option.splits prod.splits
      intro!: same_tree_node)

lemma get_file_same: "basic_vfs_get_file os n s = Some (r, s') \<Longrightarrow> same_tree s s'"
  by (auto simp: basic_vfs_get_file_def bind_eq_Some_conv dest: stat_same split: if_splits)

lemmas same_wf = same_tree_wf [OF _ unref_same] same_tree_wf [OF _ ref_same] same_tree_wf [OF _ stat_same]
  same_tree_wf [OF _ get_file_same]

subsection \<open>Reading directories keeps the tree well formed\<close>

lemma search_entries_mem:
  "search_entries s es name = Some (Some n) \<Longrightarrow> Some n \<in> set es \<and> (\<exists>nd. vf_nodes s n = Some nd \<and> nd_name nd = name)"
  by (induction s es name rule: search_entries.induct) (auto simp: bind_eq_Some_conv split: if_splits)

lemma search_dir_mem:
  assumes "basic_vfs_search_dir s (Some d) name = Some (Some n)"
  obtains dr nd where "vf_dirs s d = Some dr" "Some n \<in> set (dr_entries dr)" "vf_nodes s n = Some nd" "nd_name nd = name"
  using assms search_entries_mem by (fastforce simp: basic_vfs_search_dir_def bind_eq_Some_conv dest: in_set_takeD)

lemma add_cases:
  assumes "basic_vfs_add d type name s = Some (n, s')"
  obtains "s' = s"
  | dr dr' nd where "vf_dirs s d = Some dr" "n = vf_next s" "nd_parent nd = Some d" "nd_inode nd = None" "nd_name nd = name"
      "set (dr_entries dr') \<subseteq> {Some n, None} \<union> set (dr_entries dr)" "dr_path dr' = dr_path dr"
      "s' = put_dir d dr' (put_node n nd (s\<lparr>vf_next := n + 1\<rparr>))"
proof (cases "basic_vfs_search_dir s (Some d) name")
  case None
  then show thesis using assms by (simp add: basic_vfs_add_def)
next
  case (Some found)
  show thesis
  proof (cases found)
    case None
    then obtain dr where dr: "vf_dirs s d = Some dr"
      using assms Some by (auto simp: basic_vfs_add_def bind_eq_Some_conv)
    obtain i num where i: "free_slot dr = (i, num)" by (cases "free_slot dr")
    define dr1 where "dr1 = dr\<lparr>dr_used := dr_used dr + 1, dr_num := num\<rparr>"
    define dr2 where "dr2 = (if num \<ge> dr_max dr1
      then dr1\<lparr>dr_max := dr_max dr1 + 20, dr_entries := dr_entries dr1 @ replicate 20 None\<rparr> else dr1)"
    define nd where "nd = \<lparr>nd_type = type, nd_refcount = 0, nd_flags = 0, nd_parent = Some d, nd_inode = None, nd_name = name\<rparr>"
    have "n = vf_next s \<and>
        s' = put_dir d (dr2\<lparr>dr_entries := (dr_entries dr2)[i := Some n]\<rparr>) (put_node n nd (s\<lparr>vf_next := n + 1\<rparr>))"
      using assms Some None dr i by (auto simp: basic_vfs_add_def Let_def dr1_def dr2_def nd_def split: if_splits)
    moreover have "set (dr_entries dr2) \<subseteq> {None} \<union> set (dr_entries dr)" "dr_path dr2 = dr_path dr"
      by (auto simp: dr2_def dr1_def)
    ultimately show thesis
      using that(2) [OF dr, of nd "dr2\<lparr>dr_entries := (dr_entries dr2)[i := Some n]\<rparr>"] set_update_subset_insert [of "dr_entries dr2" i "Some n"]
      by (auto simp: nd_def)
  next
    case (Some m)
    then show thesis using assms that(1) \<open>basic_vfs_search_dir s (Some d) name = Some found\<close>
      by (simp add: basic_vfs_add_def)
  qed
qed

lemma add_wf:
  assumes "vfs_wf s" "plain_name name" "basic_vfs_add d type name s = Some (n, s')"
  shows "vfs_wf s' \<and> kept s s'"
  using assms(3)
proof (cases rule: add_cases)
  case 1
  then show ?thesis using assms(1) by (simp add: kept_refl)
next
  case (2 dr dr' nd)
  have "d < vf_next s" using wf_dir [OF assms(1) 2(1)] by (simp add: dir_ok_def)
  have fresh: "vf_nodes s n = None" using wf_node [OF assms(1), of n] 2(2) by (cases "vf_nodes s n") (auto simp: node_ok_def)
  have N: "vf_nodes s' = (vf_nodes s)(n \<mapsto> nd)" "vf_dirs s' = (vf_dirs s)(d \<mapsto> dr')" "vf_next s' = Suc n"
    "vf_root s' = vf_root s" by (simp_all add: 2(8))
  have path: "\<exists>dr0. vf_dirs s d0 = Some dr0 \<and> dr_path dr0 = dr_path x" if "vf_dirs s' d0 = Some x" for d0 x
    using that 2(1,7) by (auto simp: N split: if_splits)
  have "node_ok s' m x" if m: "vf_nodes s' m = Some x" for m x
  proof (cases "m = n")
    case True
    then have x: "x = nd" using m by (simp add: N)
    show ?thesis using \<open>d < vf_next s\<close> 2(2-5) assms(2) by (simp add: x True node_ok_def N inode_below_def)
  next
    case False
    then have ok: "node_ok s m x" using m wf_node [OF assms(1)] by (simp add: N)
    have "inode_below (vf_next s') (nd_inode x)"
      using ok 2(2) inode_below_mono [of "vf_next s" "nd_inode x" "vf_next s'"] by (simp add: node_ok_def N)
    moreover have "dr_path a = dr_path b @ nd_name x @ ''/''"
      if "nd_parent x = Some pd" "nd_inode x = Some (Dir e)" "vf_dirs s' e = Some a" "vf_dirs s' pd = Some b" for pd e a b
      using path [OF that(3)] path [OF that(4)] ok that(1,2) unfolding node_ok_def by metis
    ultimately show ?thesis using ok 2(2) unfolding node_ok_def N(3) by auto
  qed
  moreover have "dir_ok s' e x" if e: "vf_dirs s' e = Some x" for e x
  proof (cases "e = d")
    case True
    then have x: "x = dr'" using e by (simp add: N)
    show ?thesis using wf_dir [OF assms(1) 2(1)] 2(2,3,6) fresh unfolding dir_ok_def x True N by auto
  next
    case False
    then show ?thesis using e wf_dir [OF assms(1), of e x] 2(2) fresh unfolding dir_ok_def N by auto
  qed
  moreover have "kept s s'"
    using fresh 2(1,2,7) unfolding kept_def N by auto
  ultimately show ?thesis unfolding vfs_wf_def by blast
qed

lemma add_inotify_same: "basic_vfs_add_inotify os d s = Some (r, s') \<Longrightarrow> same_tree s s'"
  by (auto simp: basic_vfs_add_inotify_def Let_def bind_eq_Some_conv same_tree_def split: if_splits)

lemma add_entries_wf:
  "vfs_wf s \<Longrightarrow> add_entries os d es s = Some s' \<Longrightarrow> vfs_wf s' \<and> kept s s'"
proof (induction os d es s rule: add_entries.induct)
  case (1 os d s)
  then show ?case by (simp add: kept_refl)
next
  case (2 os d name t es s)
  show ?case
  proof (cases "name = ''.'' \<or> name = ''..'' \<or> entry_type t = BASIC_ENT_UNKNOWN")
    case True
    then show ?thesis using 2(1) [OF refl True 2(4)] 2(5) by simp
  next
    case False
    then have plain: "plain_name name" by (simp add: plain_name_def)
    obtain n s1 where s1: "basic_vfs_add d (entry_type t) name s = Some (n, s1)"
      "(if entry_type t \<noteq> BASIC_ENT_DIR
        then Option.bind (basic_vfs_get_file os n s1) (\<lambda>(_, s). add_entries os d es s)
        else add_entries os d es s1) = Some s'"
      using 2(5) False by (auto simp: Let_def bind_eq_Some_conv split: prod.splits)
    have wf1: "vfs_wf s1" "kept s s1" using add_wf [OF 2(4) plain s1(1)] by simp_all
    show ?thesis
    proof (cases "entry_type t \<noteq> BASIC_ENT_DIR")
      case True
      then obtain x s2 where s2: "basic_vfs_get_file os n s1 = Some (x, s2)" "add_entries os d es s2 = Some s'"
        using s1(2) by (auto simp: bind_eq_Some_conv)
      have "vfs_wf s2" "kept s1 s2" using same_wf(4) [OF wf1(1) s2(1)] by simp_all
      with 2(2) [OF refl False s1(1) refl True s2(1) refl _ s2(2)] wf1(2) show ?thesis
        by (blast intro: kept_trans)
    next
      case False
      with 2(3) [OF refl _ s1(1) refl False wf1(1)] s1(2) wf1(2) show ?thesis
        using \<open>\<not> (name = ''.'' \<or> name = ''..'' \<or> entry_type t = BASIC_ENT_UNKNOWN)\<close>
        by (simp add: kept_trans)
    qed
  qed
qed

text \<open>A directory that is read for the first time.\<close>

lemma new_dir_wf:
  assumes "vfs_wf s" "vf_nodes s n = Some nd" "nd_parent nd = Some pd" "vf_dirs s pd = Some parent"
    and "d = vf_next s" "dr_entries dr = [] \<and> nd_inode nd = None" "dr_path dr = dr_path parent @ nd_name nd @ ''/''"
    and "s' = put_dir d dr (put_node n (nd\<lparr>nd_inode := Some (Dir d)\<rparr>) t)"
    and "vf_nodes t = vf_nodes s" "\<And>e. e \<noteq> d \<Longrightarrow> vf_dirs t e = vf_dirs s e" "vf_next t = d + 1" "vf_root t = vf_root s"
  shows "vfs_wf s' \<and> kept s s'"
proof -
  have fresh: "vf_dirs s d = None" using wf_dir [OF assms(1), of d] assms(5) by (cases "vf_dirs s d") (auto simp: dir_ok_def)
  have N: "vf_nodes s' = (vf_nodes s)(n \<mapsto> nd\<lparr>nd_inode := Some (Dir d)\<rparr>)" "vf_dirs s' d = Some dr"
    "\<And>e. e \<noteq> d \<Longrightarrow> vf_dirs s' e = vf_dirs s e" "vf_next s' = d + 1" "vf_root s' = vf_root s"
    using assms(8-12) by simp_all
  have ok: "node_ok s n nd" by (rule wf_node [OF assms(1,2)])
  have pd: "pd < d" using ok assms(3,5) by (simp add: node_ok_def)
  have "node_ok s' m x" if m: "vf_nodes s' m = Some x" for m x
  proof (cases "m = n")
    case True
    then have x: "x = nd\<lparr>nd_inode := Some (Dir d)\<rparr>" using m by (simp add: N)
    have "vf_dirs s' pd = Some parent" using pd assms(4) N(3) [of pd] by simp
    moreover have "n < d" "plain_name (nd_name nd)" using ok assms(3,5) by (simp_all add: node_ok_def)
    ultimately show ?thesis using assms(3,7) pd unfolding node_ok_def x True by (simp add: N inode_below_def)
  next
    case False
    then have okm: "node_ok s m x" using m wf_node [OF assms(1)] by (simp add: N)
    have "inode_below (vf_next s') (nd_inode x)"
      using okm assms(5) inode_below_mono [of "vf_next s" "nd_inode x" "vf_next s'"] by (simp add: node_ok_def N)
    moreover have "e \<noteq> d" if "nd_inode x = Some (Dir e)" for e
      using okm that assms(5) by (auto simp: node_ok_def inode_below_def)
    moreover have "p \<noteq> d" if "nd_parent x = Some p" for p using okm that assms(5) by (auto simp: node_ok_def)
    ultimately show ?thesis using okm assms(5) N(3) unfolding node_ok_def N(4) by auto
  qed
  moreover have "dir_ok s' e x" if e: "vf_dirs s' e = Some x" for e x
  proof (cases "e = d")
    case True
    then show ?thesis using e assms(6) by (simp add: dir_ok_def N)
  next
    case False
    then have "dir_ok s e x" using e wf_dir [OF assms(1), of e x] N(3) by simp
    then show ?thesis using assms(2,5) unfolding dir_ok_def N by auto
  qed
  moreover have "kept s s'"
  proof -
    have "\<exists>x'. vf_dirs s' e = Some x' \<and> dr_path x' = dr_path x" if "vf_dirs s e = Some x" for e x
      using that fresh N(3) [of e] by (cases "e = d") auto
    then show ?thesis using assms(2,5,6) unfolding kept_def N by auto
  qed
  ultimately show ?thesis unfolding vfs_wf_def by blast
qed

lemma get_dir_wf:
  assumes "vfs_wf s" "basic_vfs_get_dir os node s = Some (r, s')"
  shows "vfs_wf s' \<and> kept s s' \<and> (\<forall>d. r = Some d \<longrightarrow> (\<exists>n nd. node = Some n \<and> vf_nodes s' n = Some nd \<and> nd_inode nd = Some (Dir d)))"
proof (cases "\<exists>n nd. node = Some n \<and> vf_nodes s n = Some nd \<and> nd_type nd = BASIC_ENT_DIR \<and> nd_inode nd = None")
  case False
  have "s' = s \<and> (\<forall>d. r = Some d \<longrightarrow> (\<exists>n nd. node = Some n \<and> vf_nodes s n = Some nd \<and> nd_inode nd = Some (Dir d)))"
  proof (cases node)
    case None
    then show ?thesis using assms(2) by (simp add: basic_vfs_get_dir_def)
  next
    case (Some n)
    then obtain nd where nd: "vf_nodes s n = Some nd" using assms(2) by (auto simp: basic_vfs_get_dir_def bind_eq_Some_conv)
    then have "nd_type nd \<noteq> BASIC_ENT_DIR \<or> nd_inode nd \<noteq> None" using False Some by auto
    then show ?thesis using assms(2) Some nd
      by (cases "nd_inode nd") (auto simp: basic_vfs_get_dir_def split: if_splits inode.splits)
  qed
  then show ?thesis using assms(1) kept_refl by auto
next
  case True
  then obtain n nd where nd: "node = Some n" "vf_nodes s n = Some nd" "nd_type nd = BASIC_ENT_DIR" "nd_inode nd = None"
    by blast
  define d where "d = vf_next s"
  obtain pd parent where pd: "nd_parent nd = Some pd" "vf_dirs s pd = Some parent"
    using assms(2) nd by (auto simp: basic_vfs_get_dir_def bind_eq_Some_conv)
  define nd1 where "nd1 = nd\<lparr>nd_inode := Some (Dir d)\<rparr>"
  define path where "path = dr_path parent @ nd_name nd @ ''/''"
  define s0 where "s0 = put_node n nd1 (put_dir d (empty_dir\<lparr>dr_parent := nd_parent nd\<rparr>) (s\<lparr>vf_next := d + 1\<rparr>))"
  have "Option.bind (basic_vfs_stat_dir os d path s0) (\<lambda>(ret, s).
      if ret < 0 then Option.bind (vf_nodes s n) (\<lambda>nd.
        Some (Some d, put_node n (nd\<lparr>nd_flags := setf (nd_flags nd) BASIC_VFS_FORBIDDEN\<rparr>) s))
      else Some (Some d, s)) = Some (r, s')"
    using assms(2) nd pd unfolding s0_def nd1_def d_def path_def by (simp add: basic_vfs_get_dir_def Let_def)
  then obtain ret s2 where s2: "basic_vfs_stat_dir os d path s0 = Some (ret, s2)"
    "(if ret < 0 then Option.bind (vf_nodes s2 n) (\<lambda>nd.
        Some (Some d, put_node n (nd\<lparr>nd_flags := setf (nd_flags nd) BASIC_VFS_FORBIDDEN\<rparr>) s2))
      else Some (Some d, s2)) = Some (r, s')"
    by (auto simp: bind_eq_Some_conv)
  define s1 where "s1 = put_dir d (empty_dir\<lparr>dr_parent := nd_parent nd, dr_path := path\<rparr>) s0"
  have wf1: "vfs_wf s1 \<and> kept s s1"
    by (rule new_dir_wf [OF assms(1) nd(2) pd d_def, of "empty_dir\<lparr>dr_parent := nd_parent nd, dr_path := path\<rparr>" s1
          "put_dir d (empty_dir\<lparr>dr_parent := nd_parent nd\<rparr>) (s\<lparr>vf_next := d + 1\<rparr>)"])
       (simp_all add: empty_dir_def path_def s1_def s0_def nd1_def nd(4))
  have n1: "vf_nodes s1 n = Some nd1" by (simp add: s1_def s0_def)
  have dir0: "vf_dirs s0 d = Some (empty_dir\<lparr>dr_parent := nd_parent nd\<rparr>)" by (simp add: s0_def)
  have wf2: "vfs_wf s2 \<and> kept s1 s2 \<and> (\<exists>x. vf_nodes s2 n = Some x \<and> nd_inode x = Some (Dir d))"
  proof (cases "os_readdir os path")
    case None
    then have "s2 = s1" using s2(1) dir0 by (simp add: basic_vfs_stat_dir_def Let_def s1_def)
    then show ?thesis using wf1 n1 kept_refl by (simp add: nd1_def)
  next
    case (Some es)
    then obtain x t where t: "basic_vfs_add_inotify os d s1 = Some (x, t)" "add_entries os d es t = Some s2"
      using s2(1) dir0 by (auto simp: basic_vfs_stat_dir_def Let_def s1_def bind_eq_Some_conv)
    have wt: "vfs_wf t" "kept s1 t" using same_tree_wf [OF _ add_inotify_same [OF t(1)]] wf1 by simp_all
    have w2: "vfs_wf s2" "kept t s2" using add_entries_wf [OF wt(1) t(2)] by simp_all
    have k: "kept s1 s2" by (rule kept_trans [OF wt(2) w2(2)])
    from kept_node [OF k n1] show ?thesis using w2(1) k by (auto simp: nd1_def)
  qed
  then obtain x where x: "vf_nodes s2 n = Some x" "nd_inode x = Some (Dir d)" by blast
  let ?s3 = "put_node n (x\<lparr>nd_flags := setf (nd_flags x) BASIC_VFS_FORBIDDEN\<rparr>) s2"
  have "same_tree s2 ?s3" using x(1) by (intro same_tree_node) auto
  then have wf3: "vfs_wf ?s3 \<and> kept s2 ?s3" using same_tree_wf wf2 by blast
  have ks: "kept s s2" using wf1 wf2 kept_trans by blast
  show ?thesis
  proof (cases "ret < 0")
    case True
    then have "s' = ?s3" "r = Some d" using s2(2) x(1) by simp_all
    then show ?thesis using wf3 kept_trans [OF ks] x(2) nd(1) by simp
  next
    case False
    then show ?thesis using s2(2) wf2 ks x nd(1) by auto
  qed
qed

subsection \<open>Paths stay below the directory they start from\<close>

text \<open>A directory \<open>d\<close> whose path extends \<open>P\<close> by plain names.\<close>

definition below :: "string \<Rightarrow> string \<Rightarrow> bool" where
  "below P q \<longleftrightarrow> (\<exists>comps. q = P @ concat (map (\<lambda>c. c @ ''/'') comps) \<and> list_all plain_name comps)"

lemma below_refl: "below P P"
  unfolding below_def by (rule exI [of _ "[]"]) simp

lemma below_step:
  assumes "below P q" "plain_name c"
  shows "below P (q @ c @ ''/'')"
proof -
  obtain comps where "q = P @ concat (map (\<lambda>c. c @ ''/'') comps)" "list_all plain_name comps"
    using assms(1) unfolding below_def by blast
  then show ?thesis using assms(2) unfolding below_def by (intro exI [of _ "comps @ [c]"]) simp
qed

definition dir_below :: "vfs \<Rightarrow> string \<Rightarrow> nat \<Rightarrow> bool" where
  "dir_below s P d \<longleftrightarrow> (\<exists>dr. vf_dirs s d = Some dr \<and> below P (dr_path dr))"

lemma dir_below_kept: "dir_below s P d \<Longrightarrow> kept s s' \<Longrightarrow> dir_below s' P d"
  unfolding dir_below_def by (metis kept_dir)

text \<open>A node that lies below \<open>P\<close>: its parent does, and its own name is plain.\<close>

definition node_below :: "vfs \<Rightarrow> string \<Rightarrow> nat \<Rightarrow> bool" where
  "node_below s P n \<longleftrightarrow> (\<exists>nd pd. vf_nodes s n = Some nd \<and> nd_parent nd = Some pd \<and> plain_name (nd_name nd) \<and> dir_below s P pd)"

lemma node_below_kept:
  assumes "node_below s P n" "kept s s'"
  shows "node_below s' P n"
proof -
  obtain nd pd where nd: "vf_nodes s n = Some nd" "nd_parent nd = Some pd" "plain_name (nd_name nd)" "dir_below s P pd"
    using assms(1) unfolding node_below_def by blast
  obtain x where "vf_nodes s' n = Some x" "nd_parent x = nd_parent nd" "nd_name x = nd_name nd"
    by (rule kept_node [OF assms(2) nd(1)])
  with nd dir_below_kept [OF nd(4) assms(2)] show ?thesis unfolding node_below_def by auto
qed

lemma entry_below:
  assumes "vfs_wf s" "dir_below s P d" "basic_vfs_search_dir s (Some d) name = Some (Some n)"
  shows "node_below s P n"
proof -
  obtain dr nd where m: "vf_dirs s d = Some dr" "Some n \<in> set (dr_entries dr)" "vf_nodes s n = Some nd"
    by (rule search_dir_mem [OF assms(3)])
  then have p: "nd_parent nd = Some d" using wf_dir [OF assms(1)] unfolding dir_ok_def by blast
  then have "plain_name (nd_name nd)" using wf_node [OF assms(1) m(3)] by (simp add: node_ok_def)
  with m(3) p assms(2) show ?thesis unfolding node_below_def by blast
qed

lemma child_dir_below:
  assumes "vfs_wf s" "node_below s P n" "vf_nodes s n = Some nd" "nd_inode nd = Some (Dir d)" "vf_dirs s d \<noteq> None"
  shows "dir_below s P d"
proof -
  obtain pd pdr where p: "nd_parent nd = Some pd" "plain_name (nd_name nd)" "vf_dirs s pd = Some pdr" "below P (dr_path pdr)"
    using assms(2,3) unfolding node_below_def dir_below_def by auto
  obtain dr where dr: "vf_dirs s d = Some dr" using assms(5) by blast
  have "dr_path dr = dr_path pdr @ nd_name nd @ ''/''"
    using wf_node [OF assms(1,3)] p assms(4) dr unfolding node_ok_def by blast
  then show ?thesis using dr below_step [OF p(4,2)] unfolding dir_below_def by simp
qed

lemma ref_loop_below:
  assumes "vfs_wf s" "vf_dirs s d \<noteq> None \<longrightarrow> dir_below s P d" "ref_loop os source (Some d) s = Some (r, s')"
  shows "vfs_wf s' \<and> kept s s' \<and> (\<forall>n rest. r = Some (n, rest) \<longrightarrow> node_below s' P n)"
  using assms
proof (induction os source "Some d" s arbitrary: d r s' rule: ref_loop.induct)
  case (1 os source s)
  obtain used source1 caps where m: "match_string source ''([^/%z]+)'' = (used, source1, caps)" by (metis surj_pair)
  obtain slash source2 xs where m2: "match_string source1 ''/'' = (slash, source2, xs)" by (metis surj_pair)
  note eq = 1(4) [unfolded ref_loop.simps [of os source] m prod.case]
  show ?case
  proof (cases "used \<le> 0")
    case True
    then show ?thesis using 1(2) eq by (auto simp: kept_refl)
  next
    case used: False
    with eq obtain found where found: "basic_vfs_search_dir s (Some d) (str_of (hd caps)) = Some found"
      by (cases "basic_vfs_search_dir s (Some d) (str_of (hd caps))") simp_all
    then have db: "dir_below s P d" using 1(3) by (auto simp: basic_vfs_search_dir_def bind_eq_Some_conv)
    show ?thesis
    proof (cases found)
      case None
      then show ?thesis using 1(2) eq used found by (auto simp: kept_refl)
    next
      case (Some n)
      then obtain nd where nd: "vf_nodes s n = Some nd" using eq used found by (cases "vf_nodes s n") simp_all
      have nb: "node_below s P n" using entry_below [OF 1(2) db] found Some by simp
      note eq' = eq [unfolded found Some bind.bind_lunit option.case nd m2 prod.case]
      show ?thesis
      proof (cases "nd_type nd \<noteq> BASIC_ENT_DIR \<or> slash \<le> 0 \<or> slen source2 = 0")
        case True
        then obtain rest where "r = Some (n, rest)" "basic_vfs_ref os n s = Some s'"
          using eq' used by (auto split: if_splits)
        then show ?thesis using same_wf(2) [OF 1(2)] node_below_kept [OF nb] by blast
      next
        case False
        then obtain e t where t: "basic_vfs_get_dir os (Some n) s = Some (e, t)"
          "(if e = None then Some (None, t) else ref_loop os source2 e t) = Some (r, s')"
          using eq' used by (auto simp: bind_eq_Some_conv)
        have wt: "vfs_wf t" "kept s t" "\<And>d. e = Some d \<Longrightarrow> (\<exists>x. vf_nodes t n = Some x \<and> nd_inode x = Some (Dir d))"
          using get_dir_wf [OF 1(2) t(1)] by auto
        show ?thesis
        proof (cases e)
          case None
          then show ?thesis using wt t(2) by auto
        next
          case (Some d')
          have f: "\<not> nd_type nd \<noteq> BASIC_ENT_DIR" "\<not> (slash \<le> 0 \<or> slen source2 = 0)"
            "basic_vfs_get_dir os (Some n) s = Some (Some d', t)" "Some d' \<noteq> None"
            using False t(1) Some by simp_all
          have "vf_dirs t d' \<noteq> None \<longrightarrow> dir_below t P d'"
            using wt(3) [OF Some] child_dir_below [OF wt(1) node_below_kept [OF nb wt(2)]] by blast
          moreover have "ref_loop os source2 (Some d') t = Some (r, s')" using t(2) Some by simp
          ultimately have "vfs_wf s' \<and> kept t s' \<and> (\<forall>n rest. r = Some (n, rest) \<longrightarrow> node_below s' P n)"
            by (rule 1(1) [OF m [symmetric] refl used found \<open>found = Some n\<close> nd m2 [symmetric] refl f(1-3) refl f(4) wt(1)])
          then show ?thesis using kept_trans [OF wt(2)] by blast
        qed
      qed
    qed
  qed
qed

lemma slash_match:
  assumes "str_wf p"
  shows "match_string p ''/'' =
     (if take 1 (str_of p) = ''/'' then (1, str_adv 1 p, []) else (-1, p, []))"
  using match_string_plain [of "''/''" p] assms by (simp add: plain_fmt_def)

lemma ref_path_below:
  assumes "vfs_wf s" "vf_nodes s n0 = Some nd" "nd_inode nd = Some (Dir d)" "vf_dirs s d = Some dr"
    and "str_wf p" "take 1 (str_of p) \<noteq> ''/''" "basic_vfs_ref_path os (Some n0) p s = Some (r, rest, s')"
  shows "vfs_wf s' \<and> kept s s' \<and> (\<forall>n. r = Some n \<longrightarrow> node_below s' (dr_path dr) n)"
proof (cases "slen p = 0 \<or> nd_type nd \<noteq> BASIC_ENT_DIR")
  case True
  then show ?thesis using assms(1,2,5-7) by (auto simp: basic_vfs_ref_path_def slash_match kept_refl split: if_splits)
next
  case False
  have "basic_vfs_get_dir os (Some n0) s = Some (Some d, s)"
    using assms(2,3) False by (simp add: basic_vfs_get_dir_def)
  then have "map_option (\<lambda>(r, s). case r of None \<Rightarrow> (None, p, s) | Some (n, rest) \<Rightarrow> (Some n, rest, s))
      (ref_loop os p (Some d) s) = Some (r, rest, s')"
    using assms(2,5-7) False by (simp add: basic_vfs_ref_path_def slash_match)
  then obtain x t where t: "ref_loop os p (Some d) s = Some (x, t)"
    "(case x of None \<Rightarrow> (None, p, t) | Some (n, rest) \<Rightarrow> (Some n, rest, t)) = (r, rest, s')"
    by auto
  then have x: "ref_loop os p (Some d) s = Some (x, s')" "r = map_option fst x"
    by (cases x; auto)+
  have "dir_below s (dr_path dr) d" using assms(4) below_refl by (auto simp: dir_below_def)
  with ref_loop_below [OF assms(1) _ x(1), of "dr_path dr"] x(2) show ?thesis by auto
qed

text \<open>
  C5: a path of a request that does not start with two slashes leads to a node below the
  directory of the virtual host: the path of its parent extends that of the directory by names
  that are not dot names, and so does its own name.
\<close>

theorem path_stays_below_cwd:
  assumes "vfs_wf s" "vf_nodes s cwd = Some nd" "nd_inode nd = Some (Dir d)" "vf_dirs s d = Some dr"
    and "str_wf p" "take 2 (str_of p) \<noteq> ''//''" "get_path_node os (Some cwd) p s = Some (Some n, rest, s')"
  shows "vfs_wf s' \<and> (n = cwd \<or> node_below s' (dr_path dr) n)"
proof -
  define q where "q = (if take 1 (str_of p) = ''/'' then str_adv 1 p else p)"
  have q: "str_wf q" "take 1 (str_of q) \<noteq> ''/''"
  proof -
    show "str_wf q" using assms(5) by (simp add: q_def)
    show "take 1 (str_of q) \<noteq> ''/''"
    proof (cases "take 1 (str_of p) = ''/''")
      case True
      then obtain t where t: "str_of p = CHR ''/'' # t" by (cases "str_of p") auto
      then have "str_of q = t" using True by (simp add: q_def)
      then show ?thesis using assms(6) t by (cases t) auto
    qed (simp add: q_def)
  qed
  have eq: "(if slen q > 0 then basic_vfs_ref_path os (Some cwd) q s else Some (Some cwd, q, s)) = Some (Some n, rest, s')"
    using assms(7) by (simp add: get_path_node_def slash_match [OF assms(5)] q_def split: if_splits)
  show ?thesis
  proof (cases "slen q > 0")
    case True
    then show ?thesis using eq ref_path_below [OF assms(1-4) q, of os "Some n" rest s'] by simp
  next
    case False
    then show ?thesis using eq assms(1) by simp
  qed
qed

text \<open>
  C31: a path that starts with two slashes is looked up from the root of the file system,
  whatever the directory of the virtual host is: every file of the machine can be named.
\<close>

theorem double_slash_escapes:
  assumes "length q = n" "0 < n" "hd q \<noteq> CHR ''/''"
  shows "get_path_node os cwd \<lparr>sptr = ''//'' @ q @ tail, slen = n + 2\<rparr> s =
     map_option (\<lambda>(r, rest, s'). (r, if r = None then \<lparr>sptr = ''/'' @ q @ tail, slen = n + 1\<rparr> else rest, s'))
       (get_path_node os (Some (vf_root s)) \<lparr>sptr = ''/'' @ q @ tail, slen = n + 1\<rparr> s)"
proof -
  let ?p = "\<lparr>sptr = ''//'' @ q @ tail, slen = n + 2\<rparr>" and ?p1 = "\<lparr>sptr = ''/'' @ q @ tail, slen = n + 1\<rparr>"
    and ?q = "\<lparr>sptr = q @ tail, slen = n\<rparr>"
  have wf: "str_wf ?p" "str_wf ?p1" "str_wf ?q" using assms(1) by (simp_all add: str_wf_def)
  have t: "take 1 (str_of ?p) = ''/''" "take 1 (str_of ?p1) = ''/''" "take 1 (str_of ?q) \<noteq> ''/''"
    using assms by (simp_all add: str_of_def) (cases q; auto)
  have a: "str_adv 1 ?p = ?p1" "str_adv 1 ?p1 = ?q" by (simp_all add: str_adv_def)
  have m: "match_string ?p ''/'' = (1, ?p1, [])" "match_string ?p1 ''/'' = (1, ?q, [])" "match_string ?q ''/'' = (-1, ?q, [])"
    using slash_match [OF wf(1)] slash_match [OF wf(2)] slash_match [OF wf(3)] t a by simp_all
  have l: "slen ?p1 = n + 1" "slen ?q = n" by simp_all
  show ?thesis
    unfolding get_path_node_def m prod.case l basic_vfs_ref_path_def
    using assms(2)
    by (auto simp: option.map_comp intro!: option.map_cong0 split: bind_splits option.splits prod.splits)
qed

subsection \<open>Every operation keeps the tree well formed\<close>

text \<open>Freeing objects and emptying entries only removes what the invariant speaks of.\<close>

definition shrinks :: "vfs \<Rightarrow> vfs \<Rightarrow> bool" where
  "shrinks s s' \<longleftrightarrow> vf_next s \<le> vf_next s' \<and>
     (\<forall>n nd'. vf_nodes s' n = Some nd' \<longrightarrow> (\<exists>nd. vf_nodes s n = Some nd \<and> nd_parent nd' = nd_parent nd \<and>
        nd_name nd' = nd_name nd \<and> (nd_inode nd' = nd_inode nd \<or> nd_inode nd' = None))) \<and>
     (\<forall>d dr'. vf_dirs s' d = Some dr' \<longrightarrow> (\<exists>dr. vf_dirs s d = Some dr \<and> dr_path dr' = dr_path dr \<and>
        set (dr_entries dr') \<subseteq> insert None (set (dr_entries dr))))"

lemma shrinks_refl [simp]: "shrinks s s"
  unfolding shrinks_def by auto

lemma shrinks_trans: "shrinks s t \<Longrightarrow> shrinks t u \<Longrightarrow> shrinks s u"
  unfolding shrinks_def by (fastforce intro: le_trans)

lemma shrinks_wf:
  assumes "vfs_wf s" "shrinks s s'"
  shows "vfs_wf s'"
proof -
  have le: "vf_next s \<le> vf_next s'" using assms(2) by (simp add: shrinks_def)
  have "node_ok s' n nd'" if n: "vf_nodes s' n = Some nd'" for n nd'
  proof -
    obtain nd where nd: "vf_nodes s n = Some nd" "nd_parent nd' = nd_parent nd" "nd_name nd' = nd_name nd"
      "nd_inode nd' = nd_inode nd \<or> nd_inode nd' = None"
      using n assms(2) unfolding shrinks_def by blast
    have ok: "node_ok s n nd" by (rule wf_node [OF assms(1) nd(1)])
    have "inode_below (vf_next s') (nd_inode nd')"
      using nd(4) ok inode_below_mono [OF _ le] by (auto simp: node_ok_def inode_below_def)
    moreover have "dr_path dr' = dr_path pdr' @ nd_name nd' @ ''/''"
      if m: "nd_parent nd' = Some pd" "nd_inode nd' = Some (Dir d)" "vf_dirs s' d = Some dr'" "vf_dirs s' pd = Some pdr'" for d pd dr' pdr'
    proof -
      obtain dr pdr where "vf_dirs s d = Some dr" "dr_path dr' = dr_path dr" "vf_dirs s pd = Some pdr" "dr_path pdr' = dr_path pdr"
        using m(3,4) assms(2) unfolding shrinks_def by blast
      moreover have "nd_inode nd = Some (Dir d)" using nd(4) m(2) by auto
      ultimately show ?thesis using ok m(1) nd(2,3) unfolding node_ok_def by auto
    qed
    ultimately show ?thesis using ok nd(2,3) le unfolding node_ok_def by auto
  qed
  moreover have "dir_ok s' d dr'" if d: "vf_dirs s' d = Some dr'" for d dr'
  proof -
    obtain dr where dr: "vf_dirs s d = Some dr" "set (dr_entries dr') \<subseteq> insert None (set (dr_entries dr))"
      using d assms(2) unfolding shrinks_def by blast
    have ok: "dir_ok s d dr" by (rule wf_dir [OF assms(1) dr(1)])
    have "nd_parent nd' = Some d" if m: "Some m \<in> set (dr_entries dr')" "vf_nodes s' m = Some nd'" for m nd'
    proof -
      obtain nd where "vf_nodes s m = Some nd" "nd_parent nd' = nd_parent nd"
        using m(2) assms(2) unfolding shrinks_def by blast
      then show ?thesis using ok dr(2) m(1) unfolding dir_ok_def by auto
    qed
    then show ?thesis using ok dr(2) le unfolding dir_ok_def by fastforce
  qed
  ultimately show ?thesis unfolding vfs_wf_def by blast
qed

lemma drop_shrinks [simp]: "shrinks s (drop_node n s)" "shrinks s (drop_inode i s)"
  by (auto simp: shrinks_def drop_node_def drop_inode_def split: option.splits inode.splits if_splits)

lemma unref_file_tree:
  "basic_vfs_unref_file f s = Some (r, s') \<Longrightarrow> vf_next s' = vf_next s \<and> vf_nodes s' = vf_nodes s \<and> vf_dirs s' = vf_dirs s"
  by (auto simp: basic_vfs_unref_file_def Let_def bind_eq_Some_conv split: if_splits)

lemma unref_shrinks:
  assumes "basic_vfs_unref n s = Some s'"
  shows "shrinks s s'"
proof -
  obtain nd t where "vf_nodes s n = Some nd" "t = put_node n (nd\<lparr>nd_refcount := nd_refcount nd - 1\<rparr>) s"
    "vf_next s' = vf_next t \<and> vf_nodes s' = vf_nodes t \<and> vf_dirs s' = vf_dirs t"
    using assms by (auto simp: basic_vfs_unref_def Let_def bind_eq_Some_conv dest!: unref_file_tree split: if_splits)
  then show ?thesis by (auto simp: shrinks_def)
qed

lemma free_nodes_shrinks: "free_nodes es s = Some s' \<Longrightarrow> shrinks s s'"
proof (rule free_nodes.raw_induct [of "\<lambda>es s r. shrinks s r"], goal_cases)
  case (1 rec es s s')
  then have rec: "rec es s = Some s' \<Longrightarrow> shrinks s s'" for es s s' by blast
  note eq = 1(3)
  show ?case
  proof (cases es)
    case Nil
    then show ?thesis using eq by simp
  next
    case (Cons e es')
    show ?thesis
    proof (cases e)
      case None
      then show ?thesis using eq Cons rec by simp
    next
      case (Some n)
      then obtain nd where nd: "vf_nodes s n = Some nd" using eq Cons by (auto simp: bind_eq_Some_conv)
      have drop: "shrinks t (drop_node n (drop_inode i t))" for t i
        using shrinks_trans [OF drop_shrinks(2) drop_shrinks(1)] .
      from eq Cons Some nd show ?thesis
        by (auto simp: bind_eq_Some_conv split: if_splits option.splits inode.splits dest!: rec unref_shrinks
            intro: shrinks_trans [OF drop_shrinks(1)] shrinks_trans [OF shrinks_trans [OF _ drop]])
    qed
  qed
qed simp

lemma delete_shrinks: "basic_vfs_delete d name s = Some (r, s') \<Longrightarrow> shrinks s s'"
proof -
  have empty: "shrinks s (put_dir d (dr\<lparr>dr_entries := (dr_entries dr)[i := None]\<rparr>) s)" if "vf_dirs s d = Some dr" for s dr i
    using that set_update_subset_insert [of "dr_entries dr" i None] by (auto simp: shrinks_def)
  assume "basic_vfs_delete d name s = Some (r, s')"
  then show ?thesis
    by (auto simp: basic_vfs_delete_def basic_vfs_node_free_def bind_eq_Some_conv split: option.splits
        dest!: free_nodes_shrinks intro: shrinks_trans [OF _ empty])
qed

lemma event_change_wf:
  assumes "vfs_wf s" "plain_name (ev_name ev)" "event_change os d ev s = Some s'"
  shows "vfs_wf s'"
proof -
  obtain dr n t nd x where t: "basic_vfs_add d 0 (ev_name ev) s = Some (n, t)" "vf_nodes t n = Some nd" "vf_dirs s d = Some dr"
    "basic_vfs_stat os n (dr_path dr @ ''/'' @ ev_name ev)
      (if ev_modify ev then put_node n (nd\<lparr>nd_inode := None\<rparr>) (drop_inode (nd_inode nd) t) else t) = Some (x, s')"
    using assms(3) by (auto simp: event_change_def bind_eq_Some_conv Let_def)
  have wt: "vfs_wf t" using add_wf [OF assms(1,2) t(1)] by simp
  have "shrinks t (put_node n (nd\<lparr>nd_inode := None\<rparr>) (drop_inode (nd_inode nd) t))"
    using t(2) by (auto simp: shrinks_def drop_inode_def split: option.splits inode.splits if_splits)
  then show ?thesis using same_wf(3) [OF _ t(4)] wt shrinks_wf by (auto split: if_splits)
qed

lemma event_single_wf:
  assumes "vfs_wf s" "plain_name (ev_name ev)" "basic_vfs_event_single os ev s = Some s'"
  shows "vfs_wf s'"
proof -
  let ?dir = "watched_dir (ev_wd ev) s"
  obtain t where t: "(if ev_create ev \<or> ev_modify ev \<or> ev_moved_to ev
      then Option.bind ?dir (\<lambda>d. event_change os d ev s) else Some s) = Some t"
    "(if ev_delete ev \<or> ev_moved_from ev
      then Option.bind ?dir (\<lambda>d. map_option snd (basic_vfs_delete d (ev_name ev) t)) else Some t) = Some s'"
    using assms(3) unfolding basic_vfs_event_single_def Let_def bind_eq_Some_conv by blast
  have "vfs_wf t" using t(1) assms(1) event_change_wf [OF assms(1,2)] by (cases ?dir) (auto split: if_splits)
  then show ?thesis using t(2) delete_shrinks shrinks_wf by (cases ?dir) (fastforce split: if_splits)+
qed

lemma ref_path_wf:
  assumes "vfs_wf s" "basic_vfs_ref_path os cur p s = Some (r, rest, s')"
  shows "vfs_wf s'"
proof -
  have loop: "vfs_wf s'" if l: "ref_loop os q d s = Some (x, s')" "vfs_wf s" for q d s x s'
  proof (cases d)
    case None
    then show ?thesis using l
      by (subst (asm) ref_loop.simps) (auto simp: basic_vfs_search_dir_def split: prod.splits if_splits)
  next
    case (Some e)
    have "vf_dirs s e \<noteq> None \<longrightarrow> dir_below s (dr_path (the (vf_dirs s e))) e"
      using below_refl by (auto simp: dir_below_def)
    then show ?thesis using ref_loop_below [OF l(2)] l(1) Some by blast
  qed
  obtain slash q xs where m: "match_string p ''/'' = (slash, q, xs)" by (metis surj_pair)
  show ?thesis
  proof (cases "slen p = 0")
    case True
    then show ?thesis using assms by (simp add: basic_vfs_ref_path_def)
  next
    case False
    define c where "c = (if slash > 0 then Some (vf_root s) else cur)"
    have eq: "(case c of None \<Rightarrow> Some (None, p, s)
             | Some n \<Rightarrow>
               Option.bind (vf_nodes s n) (\<lambda>nd.
                 if nd_type nd \<noteq> BASIC_ENT_DIR then Some (None, p, s)
                 else Option.bind (basic_vfs_get_dir os c s) (\<lambda>(d, s).
                      map_option (\<lambda>(r, s). case r of None \<Rightarrow> (None, p, s) | Some (n, rest) \<Rightarrow> (Some n, rest, s))
                        (ref_loop os q d s)))) = Some (r, rest, s')"
      using assms(2) False unfolding basic_vfs_ref_path_def m prod.case Let_def c_def by simp
    show ?thesis
    proof (cases "\<exists>n nd. c = Some n \<and> vf_nodes s n = Some nd \<and> nd_type nd = BASIC_ENT_DIR")
      case True
      then obtain n nd where n: "c = Some n" "vf_nodes s n = Some nd" "nd_type nd = BASIC_ENT_DIR" by blast
      obtain d t where t: "basic_vfs_get_dir os c s = Some (d, t)"
        "map_option (\<lambda>(r, s). case r of None \<Rightarrow> (None, p, s) | Some (n, rest) \<Rightarrow> (Some n, rest, s))
          (ref_loop os q d t) = Some (r, rest, s')"
        using eq n by (auto simp: bind_eq_Some_conv)
      obtain x u where u: "ref_loop os q d t = Some (x, u)" using t(2) by (cases "ref_loop os q d t") auto
      then have "u = s'" using t(2) by (cases x) auto
      then show ?thesis using loop [OF u] get_dir_wf [OF assms(1) t(1)] by blast
    next
      case False
      then have "s' = s" using eq by (auto simp: bind_eq_Some_conv split: option.splits if_splits)
      then show ?thesis using assms(1) by simp
    qed
  qed
qed

text \<open>The operations a running server performs on the tree; the kernel reports plain names.\<close>

inductive vfs_step :: "vfs \<Rightarrow> vfs \<Rightarrow> bool" where
  "basic_vfs_ref_path os cur p s = Some (r, rest, s') \<Longrightarrow> vfs_step s s'"
| "basic_vfs_ref os n s = Some s' \<Longrightarrow> vfs_step s s'"
| "basic_vfs_unref n s = Some s' \<Longrightarrow> vfs_step s s'"
| "basic_vfs_get_dir os node s = Some (d, s') \<Longrightarrow> vfs_step s s'"
| "basic_vfs_get_file os n s = Some (f, s') \<Longrightarrow> vfs_step s s'"
| "basic_vfs_event_single os ev s = Some s' \<Longrightarrow> plain_name (ev_name ev) \<Longrightarrow> vfs_step s s'"

lemma vfs_step_wf: "vfs_step s s' \<Longrightarrow> vfs_wf s \<Longrightarrow> vfs_wf s'"
proof (induction rule: vfs_step.induct)
  case (1 os cur p s r rest s')
  then show ?case by (intro ref_path_wf [OF 1(2,1)])
next
  case (2 os n s s')
  then show ?case using same_wf(2) [OF 2(2,1)] by simp
next
  case (3 n s s')
  then show ?case using same_wf(1) [OF 3(2,1)] by simp
next
  case (4 os node s d s')
  then show ?case using get_dir_wf [OF 4(2,1)] by simp
next
  case (5 os n s f s')
  then show ?case using same_wf(4) [OF 5(2,1)] by simp
next
  case (6 os ev s s')
  then show ?case by (intro event_single_wf [OF 6(3,2,1)])
qed

lemma init_wf:
  assumes "basic_vfs_init os cwd = Some s"
  shows "vfs_wf s"
proof -
  obtain h where h: "basic_ht_init True \<lparr>ht_size = 0, ht_seed = 0, ht_mask = 0, ht_table = []\<rparr> 1024 0 = Some (0, h)"
    using ht_init_pow2 [of 10] by auto
  define s0 where "s0 = put_dir 2 empty_dir (put_node 1 \<lparr>nd_type = BASIC_ENT_DIR, nd_refcount = 0, nd_flags = 0,
      nd_parent = None, nd_inode = Some (Dir 2), nd_name = []\<rparr>
      \<lparr>vf_ht = h, vf_inotify = 0, vf_root = 0, vf_nodes = Map.empty, vf_dirs = Map.empty,
       vf_files = Map.empty, vf_next = 3, vf_closed = []\<rparr>)"
  define s1 where "s1 = put_dir 2 (empty_dir\<lparr>dr_path := ''/''\<rparr>) s0"
  have w1: "vfs_wf s1"
    by (auto simp: vfs_wf_def s1_def s0_def node_ok_def dir_ok_def empty_dir_def inode_below_def split: if_splits)
  obtain r s2 where s2: "basic_vfs_stat_dir os 2 ''/'' s0 = Some (r, s2)"
    "map_option (\<lambda>(_, _, s). s) (basic_vfs_ref_path os None (mk_str cwd) (s2\<lparr>vf_root := 1\<rparr>)) = Some s"
    using assms by (auto simp: basic_vfs_init_def h Let_def s0_def bind_eq_Some_conv)
  have d0: "vf_dirs s0 2 = Some empty_dir" by (simp add: s0_def)
  have "vfs_wf s2"
  proof (cases "os_readdir os ''/''")
    case None
    then show ?thesis using s2(1) w1 by (auto simp: basic_vfs_stat_dir_def d0 Let_def s1_def)
  next
    case (Some es)
    then obtain x t where t: "basic_vfs_add_inotify os 2 s1 = Some (x, t)" "add_entries os 2 es t = Some s2"
      using s2(1) d0 by (auto simp: basic_vfs_stat_dir_def Let_def s1_def bind_eq_Some_conv)
    have "vfs_wf t" using same_tree_wf [OF w1 add_inotify_same [OF t(1)]] by simp
    then show ?thesis using add_entries_wf [OF _ t(2)] by blast
  qed
  then have "vfs_wf (s2\<lparr>vf_root := 1\<rparr>)" by (simp add: vfs_wf_def node_ok_def dir_ok_def)
  then show ?thesis using s2(2) ref_path_wf by auto
qed

text \<open>
  C13: in every state a server reaches, the tree is well formed: entries know their parent,
  directories carry the path of their parent extended by their name, no entry is a dot name.
\<close>

theorem vfs_reachable_wf:
  assumes "basic_vfs_init os cwd = Some s0" "vfs_step\<^sup>*\<^sup>* s0 s"
  shows "vfs_wf s"
  using assms(2) init_wf [OF assms(1)] by (induction rule: rtranclp_induct) (auto intro: vfs_step_wf)

text \<open>
  Deleting a file on disk frees its node although a request has a reference to it; the
  release of that reference reads freed memory.
\<close>

theorem delete_frees_in_use:
  assumes "vf_dirs s d = Some dr" "vf_nodes s n = Some nd" "nd_name nd = name" "nd_inode nd = Some (File f)"
    "nd_type nd = BASIC_ENT_FILE" "vf_files s f \<noteq> None" "nd_refcount nd > 0" "dr_num dr > 0"
    "dr_entries dr ! 0 = Some n" "dr_entries dr \<noteq> []"
  shows "\<exists>s'. basic_vfs_delete d name s = Some (1, s') \<and> vf_nodes s' n = None \<and> basic_vfs_unref n s' = None"
proof -
  obtain es where es: "take (dr_num dr) (dr_entries dr) = Some n # es"
    using assms(8-10) by (cases "dr_entries dr"; cases "dr_num dr") auto
  obtain fl where "vf_files s f = Some fl" using assms(6) by blast
  then have "basic_vfs_unref n s \<noteq> None"
    using assms(2,4,5) by (simp add: basic_vfs_unref_def Let_def file_inode_def basic_vfs_unref_file_def)
  then obtain t where t: "basic_vfs_unref n s = Some t" by blast
  have td: "vf_dirs t = vf_dirs s" using unref_same [OF t] by (simp add: same_tree_def)
  have "basic_vfs_node_free n s = Some (drop_node n (drop_inode (nd_inode nd) t))"
    using assms(2,4,5) t unfolding basic_vfs_node_free_def
    by (subst free_nodes.simps) (simp, subst free_nodes.simps, simp)
  then show ?thesis
    using assms(1-4) es td
    by (simp add: basic_vfs_delete_def drop_inode_def drop_node_def basic_vfs_unref_def)
qed

text \<open>Two directories: \<open>/etc\<close> with a file \<open>pw\<close> and \<open>/www\<close> with a file \<open>a\<close>.\<close>

definition node_of :: "int \<Rightarrow> nat option \<Rightarrow> inode \<Rightarrow> string \<Rightarrow> vfs_node" where
  "node_of type pd i nm = \<lparr>nd_type = type, nd_refcount = 0, nd_flags = 0, nd_parent = pd, nd_inode = Some i, nd_name = nm\<rparr>"

definition dir_of :: "nat option list \<Rightarrow> string \<Rightarrow> vfs_dir" where
  "dir_of es q = \<lparr>dr_num = length es, dr_used = length es, dr_max = 20, dr_entries = es, dr_parent = None, dr_path = q\<rparr>"

definition vfs1 :: vfs where
  "vfs1 = \<lparr>vf_ht = ht_example, vf_inotify = 5, vf_root = 1,
     vf_nodes = [1 \<mapsto> node_of 1 None (Dir 2) [], 3 \<mapsto> node_of 1 (Some 2) (Dir 4) ''etc'',
       5 \<mapsto> node_of 2 (Some 4) (File 6) ''pw'', 7 \<mapsto> node_of 1 (Some 2) (Dir 8) ''www'',
       9 \<mapsto> node_of 2 (Some 8) (File 10) ''a''],
     vf_dirs = [2 \<mapsto> dir_of [Some 3, Some 7] ''/'', 4 \<mapsto> dir_of [Some 5] ''/etc/'', 8 \<mapsto> dir_of [Some 9] ''/www/''],
     vf_files = [6 \<mapsto> \<lparr>fl_refcount = 0, fl_fd = -1, fl_parent = 5, fl_modified = 0, fl_size = 3, fl_etag = 0\<rparr>,
       10 \<mapsto> \<lparr>fl_refcount = 0, fl_fd = -1, fl_parent = 9, fl_modified = 0, fl_size = 3, fl_etag = 0\<rparr>],
     vf_next = 11, vf_closed = []\<rparr>"

definition os1 :: vfs_os where
  "os1 = \<lparr>os_readdir = (\<lambda>_. None), os_statx = (\<lambda>_. None), os_open = (\<lambda>_. 9), os_inotify = 5, os_watch = (\<lambda>_. 1)\<rparr>"

lemma vfs1_wf: "vfs_wf vfs1"
  by (auto simp: vfs_wf_def vfs1_def node_ok_def dir_ok_def node_of_def dir_of_def inode_below_def plain_name_def
      split: if_splits)

lemma lookup_a: "map_option fst (get_path_node os1 (Some 7) (mk_str ''/a'') vfs1) = Some (Some 9)"
  by code_simp

lemma lookup_pw: "map_option fst (get_path_node os1 (Some 1) (mk_str ''/etc/pw'') vfs1) = Some (Some 5)"
  by code_simp

theorem path_stays_below_cwd_witness:
  "\<exists>rest s'. get_path_node os1 (Some 7) (mk_str ''/a'') vfs1 = Some (Some 9, rest, s') \<and> node_below s' ''/www/'' 9"
proof -
  obtain rest s' where r: "get_path_node os1 (Some 7) (mk_str ''/a'') vfs1 = Some (Some 9, rest, s')"
    using lookup_a by auto
  have w: "vf_nodes vfs1 7 = Some (node_of 1 (Some 2) (Dir 8) ''www'')" "vf_dirs vfs1 8 = Some (dir_of [Some 9] ''/www/'')"
    by (simp_all add: vfs1_def)
  from path_stays_below_cwd [OF vfs1_wf w(1) _ w(2) _ _ r] r show ?thesis
    by (simp add: node_of_def dir_of_def)
qed

theorem double_slash_escapes_witness:
  "\<exists>rest s'. get_path_node os1 (Some 7) \<lparr>sptr = ''//etc/pw HTTP/1.1'', slen = 8\<rparr> vfs1 = Some (Some 5, rest, s') \<and>
     \<not> node_below s' ''/www/'' 5"
proof -
  have e: "get_path_node os1 (Some 7) \<lparr>sptr = ''//'' @ ''etc/pw'' @ '' HTTP/1.1'', slen = 6 + 2\<rparr> vfs1 =
     map_option (\<lambda>(r, rest, s'). (r, if r = None then \<lparr>sptr = ''/'' @ ''etc/pw'' @ '' HTTP/1.1'', slen = 6 + 1\<rparr> else rest, s'))
       (get_path_node os1 (Some (vf_root vfs1)) \<lparr>sptr = ''/'' @ ''etc/pw'' @ '' HTTP/1.1'', slen = 6 + 1\<rparr> vfs1)"
    by (rule double_slash_escapes) simp_all
  have "map_option (\<lambda>(r, rest, s'). (r, map_option nd_parent (vf_nodes s' 5), map_option dr_path (vf_dirs s' 4)))
      (get_path_node os1 (Some (vf_root vfs1)) \<lparr>sptr = ''/'' @ ''etc/pw'' @ '' HTTP/1.1'', slen = 6 + 1\<rparr> vfs1) =
     Some (Some 5, Some (Some 4), Some ''/etc/'')" by code_simp
  then obtain rest s' where r: "get_path_node os1 (Some (vf_root vfs1)) \<lparr>sptr = ''/'' @ ''etc/pw'' @ '' HTTP/1.1'', slen = 6 + 1\<rparr> vfs1 =
      Some (Some 5, rest, s')" "map_option nd_parent (vf_nodes s' 5) = Some (Some 4)" "map_option dr_path (vf_dirs s' 4) = Some ''/etc/''"
    by auto
  have "\<not> below ''/www/'' ''/etc/''" by (auto simp: below_def)
  then have "\<not> node_below s' ''/www/'' 5" using r(2,3) by (auto simp: node_below_def dir_below_def)
  then show ?thesis using e r(1) by simp
qed

definition os2 :: vfs_os where
  "os2 = os1\<lparr>os_readdir := (\<lambda>q. if q = ''/'' then Some [(''.'', DT_DIR), (''etc'', DT_DIR), (''x'', DT_other)] else None),
     os_watch := (\<lambda>_. -1)\<rparr>"

lemma init_os2: "map_option vf_next (basic_vfs_init os2 ''/'') = Some 4"
proof -
  obtain h where h: "basic_ht_init True \<lparr>ht_size = 0, ht_seed = 0, ht_mask = 0, ht_table = []\<rparr> 1024 0 = Some (0, h)"
    using ht_init_pow2 [of 10] by auto
  have m: "match_string (mk_str ''/'') ''/'' = (1, \<lparr>sptr = [], slen = 0\<rparr>, [])"
    "match_string \<lparr>sptr = [], slen = 0\<rparr> ''([^/%z]+)'' = (-1, \<lparr>sptr = [], slen = 0\<rparr>, [])"
    by code_simp+
  have l: "slen (mk_str ''/'') = 1" by (simp add: mk_str_def)
  show ?thesis
    by (simp add: l basic_vfs_init_def h Let_def basic_vfs_stat_dir_def os2_def os1_def empty_dir_def
        basic_vfs_add_inotify_def entry_type_def basic_vfs_add_def basic_vfs_search_dir_def free_slot_def
        basic_vfs_ref_path_def m basic_vfs_get_dir_def ref_loop.simps BASIC_ENT_DIR_def BASIC_ENT_UNKNOWN_def
        put_node_def put_dir_def)
qed

theorem vfs_reachable_wf_witness: "\<exists>s. basic_vfs_init os2 ''/'' = Some s \<and> vf_next s = 4 \<and> vfs_wf s"
proof -
  obtain s where "basic_vfs_init os2 ''/'' = Some s" "vf_next s = 4" using init_os2 by auto
  then show ?thesis using vfs_reachable_wf [of os2 "''/''" s s] by blast
qed

theorem delete_frees_in_use_witness:
  "\<exists>s'. basic_vfs_delete 8 ''a'' (put_node 9 ((node_of 2 (Some 8) (File 10) ''a'')\<lparr>nd_refcount := 1\<rparr>) vfs1) = Some (1, s') \<and>
     basic_vfs_unref 9 s' = None"
proof -
  let ?nd = "(node_of 2 (Some 8) (File 10) ''a'')\<lparr>nd_refcount := 1\<rparr>"
  have "vf_dirs (put_node 9 ?nd vfs1) 8 = Some (dir_of [Some 9] ''/www/'')" "vf_nodes (put_node 9 ?nd vfs1) 9 = Some ?nd"
    "vf_files (put_node 9 ?nd vfs1) 10 \<noteq> None" by (simp_all add: vfs1_def)
  from delete_frees_in_use [OF this(1,2) _ _ _ this(3)] show ?thesis
    by (auto simp: node_of_def dir_of_def BASIC_ENT_FILE_def)
qed

end
