(* ===== verification/VhostMap.thy ===== *)
theory VhostMap
  imports Vfs
begin

text \<open>
  The callbacks of the configuration on paths (\<open>lua/lua_map.c\<close>) and the functions of \<open>lua/lua.c\<close>
  the server calls for each request.  The lists of maps are linked nodes on a heap.  A call of a
  Lua function is a parameter that may change the whole state; a map that is freed while the
  list is walked, or a host without a Lua state, is \<open>None\<close>.
\<close>

record vhost_map =
  vm_state :: int
  vm_pattern :: string
  vm_vhost :: u64
  vm_callback :: int
  vm_next :: "nat option"
  vm_prev :: "nat option"

record map_vhost =
  mv_magic :: bool
  mv_lua :: bool
  mv_cwd :: "nat option"
  mv_start :: "nat option"
  mv_finish :: "nat option"
  mv_parent :: "u64 option"

record map_world =
  mw_http :: httpd
  mw_vfs :: vfs
  mw_file :: "nat option"
  mw_maps :: "nat \<Rightarrow> vhost_map option"
  mw_hosts :: "u64 \<Rightarrow> map_vhost option"

text \<open>How a call of a Lua function ends: with an error, or a value that is \<open>true\<close> or not.\<close>

datatype lua_result = Lua_error | Lua_true | Lua_other

datatype map_type = Map_start | Map_finish

subsection \<open>The lists\<close>

partial_function (option) map_last :: "(nat \<Rightarrow> vhost_map option) \<Rightarrow> nat \<Rightarrow> nat option" where
  "map_last m a = Option.bind (m a) (\<lambda>n. case vm_next n of None \<Rightarrow> Some a | Some b \<Rightarrow> map_last m b)"

definition httpd_vhost_map_add_to_end_list ::
  "nat option \<Rightarrow> nat \<Rightarrow> (nat \<Rightarrow> vhost_map option) \<Rightarrow> (nat option \<times> (nat \<Rightarrow> vhost_map option)) option" where
  "httpd_vhost_map_add_to_end_list start new m =
     Option.bind (m new) (\<lambda>n.
     let m = m(new \<mapsto> n\<lparr>vm_next := None, vm_prev := None\<rparr>) in
     case start of
       None \<Rightarrow> Some (Some new, m)
     | Some first \<Rightarrow>
         Option.bind (map_last m first) (\<lambda>last.
         Option.bind (m new) (\<lambda>n.
         let m = m(new \<mapsto> n\<lparr>vm_prev := Some last\<rparr>) in
         Option.bind (m last) (\<lambda>l. Some (start, m(last \<mapsto> l\<lparr>vm_next := Some new\<rparr>))))))"

partial_function (option) free_maps ::
  "nat option \<Rightarrow> (nat \<Rightarrow> vhost_map option) \<Rightarrow> (nat \<Rightarrow> vhost_map option) option" where
  "free_maps p m =
     (case p of None \<Rightarrow> Some m
      | Some a \<Rightarrow> Option.bind (m a) (\<lambda>n. free_maps (vm_next n) (m(a := None))))"

definition httpd_vhost_map_clean :: "u64 \<Rightarrow> map_world \<Rightarrow> map_world option" where
  "httpd_vhost_map_clean v w =
     Option.bind (mw_hosts w v) (\<lambda>vh.
     Option.bind (free_maps (mv_start vh) (mw_maps w)) (\<lambda>m.
     Option.bind (free_maps (mv_finish vh) m) (\<lambda>m.
     Some (w\<lparr>mw_maps := m, mw_hosts := (mw_hosts w)(v \<mapsto> vh\<lparr>mv_start := None, mv_finish := None\<rparr>)\<rparr>))))"

text \<open>
  \<open>l_hin_map\<close>: \<open>dflt\<close> is the default host, \<open>new\<close> the address of the new map, \<open>fn\<close> the reference
  of the function argument, if it is one.  \<open>Inl\<close> is the message of a Lua error; a path that is
  not a string is \<open>None\<close>.
\<close>

definition l_hin_map ::
  "u64 \<Rightarrow> u64 option \<Rightarrow> string option \<Rightarrow> int \<Rightarrow> int option \<Rightarrow> nat \<Rightarrow> map_world \<Rightarrow> ((string + int) \<times> map_world) option" where
  "l_hin_map dflt hostp patp state fn new w =
     (let v = (case hostp of None \<Rightarrow> dflt | Some v \<Rightarrow> v) in
      Option.bind (mw_hosts w v) (\<lambda>vh.
      if \<not> mv_magic vh then Some (Inl ''invalid vhost'', w)
      else case fn of
        None \<Rightarrow> Some (Inl ''requires a callback'', w)
      | Some cb \<Rightarrow>
          Option.bind patp (\<lambda>pat.
          let m = (mw_maps w)(new \<mapsto> \<lparr>vm_state = state, vm_pattern = pat, vm_vhost = v, vm_callback = cb,
                                       vm_next = None, vm_prev = None\<rparr>) in
          if state = 0
          then Option.bind (httpd_vhost_map_add_to_end_list (mv_start vh) new m) (\<lambda>(s, m).
               Some (Inr 0, w\<lparr>mw_maps := m, mw_hosts := (mw_hosts w)(v \<mapsto> vh\<lparr>mv_start := s\<rparr>)\<rparr>))
          else if state = 99
          then Option.bind (httpd_vhost_map_add_to_end_list (mv_finish vh) new m) (\<lambda>(s, m).
               Some (Inr 0, w\<lparr>mw_maps := m, mw_hosts := (mw_hosts w)(v \<mapsto> vh\<lparr>mv_finish := s\<rparr>)\<rparr>))
          else Some (Inl ''requires a valid state'', w\<lparr>mw_maps := m(new := None)\<rparr>))))"

subsection \<open>Running the callbacks of a request\<close>

text \<open>
  The loop over a pattern: whether the map is skipped.  \<open>buf\<close> is the memory from \<open>ptr\<close>, \<open>n\<close>
  is \<open>max - ptr\<close>; comparing a byte that was never written is \<open>None\<close>.
\<close>

fun map_skip :: "char option list \<Rightarrow> nat \<Rightarrow> string \<Rightarrow> bool option" where
  "map_skip buf 0 pat =
     (if at0 pat = CHR ''*'' then Some False
      else if at0 pat = NUL then Some False
      else Some True)"
| "map_skip buf (Suc n) pat =
     (if at0 pat = CHR ''*'' then Some False
      else if at0 pat = NUL then Some True
      else case buf of
        Some c # rest \<Rightarrow> if c \<noteq> at0 pat then Some True else map_skip rest n (tl pat)
      | _ \<Rightarrow> None)"

text \<open>The allocation \<open>hin_parse_url_encoding\<close> returns: the decoded bytes, their terminator and
  the rest, which is as long as the encoded path.\<close>

definition decoded_memory :: "string_t \<Rightarrow> char option list" where
  "decoded_memory p =
     (let d = hin_parse_url_encoding p in d @ Some NUL # replicate (slen p - length d) None)"

text \<open>
  A Lua function, by its reference.  \<open>lua\<close> is the Lua state of the host of the request, \<open>None\<close>
  when it has none.
\<close>

type_synonym lua_call = "int \<Rightarrow> map_world \<Rightarrow> lua_result \<times> map_world"

text \<open>One list; the flag is \<open>goto finalize\<close>.\<close>

partial_function (option) run_maps ::
  "lua_call option \<Rightarrow> string_t \<Rightarrow> nat option \<Rightarrow> map_world \<Rightarrow> (bool \<times> map_world) option" where
  "run_maps lua p cur w =
     (case cur of
        None \<Rightarrow> Some (False, w)
      | Some a \<Rightarrow>
          Option.bind (mw_maps w a) (\<lambda>m.
          Option.bind (map_skip (decoded_memory p) (slen p) (vm_pattern m)) (\<lambda>skip.
          if skip then run_maps lua p (vm_next m) w
          else Option.bind lua (\<lambda>pcall.
          case pcall (vm_callback m) w of (r, w) \<Rightarrow>
            if r = Lua_other
            then Option.bind (mw_maps w a) (\<lambda>m. run_maps lua p (vm_next m) w)
            else Some (True, w)))))"

definition list_start :: "map_type \<Rightarrow> map_vhost \<Rightarrow> nat option" where
  "list_start t vh = (case t of Map_start \<Rightarrow> mv_start vh | Map_finish \<Rightarrow> mv_finish vh)"

text \<open>The loop over a host and its parents.\<close>

partial_function (option) run_hosts ::
  "lua_call option \<Rightarrow> map_type \<Rightarrow> string_t \<Rightarrow> u64 option \<Rightarrow> map_world \<Rightarrow> map_world option" where
  "run_hosts lua t p cur w =
     (case cur of
        None \<Rightarrow> Some w
      | Some v \<Rightarrow>
          Option.bind (mw_hosts w v) (\<lambda>vh.
          Option.bind (run_maps lua p (list_start t vh) w) (\<lambda>(fin, w).
          if fin then Some w
          else Option.bind (mw_hosts w v) (\<lambda>vh. run_hosts lua t p (mv_parent vh) w))))"

text \<open>The result is 1 whatever the callbacks returned.\<close>

definition httpd_vhost_map_callback :: "lua_call \<Rightarrow> map_type \<Rightarrow> map_world \<Rightarrow> (int \<times> map_world) option" where
  "httpd_vhost_map_callback pcall t w =
     Option.bind (mw_hosts w (h_vhost (mw_http w))) (\<lambda>vh.
     case hin_http_parse_header_line (h_headers (mw_http w)) of
       (None, _) \<Rightarrow> Some (0, w)
     | (Some (_, p, _), _) \<Rightarrow>
         map_option (Pair 1)
           (run_hosts (if mv_lua vh then Some pcall else None) t p (Some (h_vhost (mw_http w))) w))"

definition hin_server_finish_callback :: "lua_call \<Rightarrow> map_world \<Rightarrow> (int \<times> map_world) option" where
  "hin_server_finish_callback pcall w =
     map_option (\<lambda>(ret, w). (if ret \<le> 0 then ret else 0, w)) (httpd_vhost_map_callback pcall Map_finish w)"

text \<open>\<open>ssl\<close>: the socket of the connection has an SSL context.\<close>

definition hin_server_callback ::
  "http_env \<Rightarrow> vfs_os \<Rightarrow> lua_call \<Rightarrow> bool \<Rightarrow> map_world \<Rightarrow> (int \<times> map_world) option" where
  "hin_server_callback e os pcall ssl w =
     (let v = h_vhost (mw_http w); vh = vhost_heap (e_vhosts e) v in
      if vh_hsts vh \<noteq> 0 \<and> \<not> has (vh_flags vh) HIN_HSTS_NO_REDIRECT \<and> \<not> ssl
      then map_option (\<lambda>(_, h). (0, w\<lparr>mw_http := h\<rparr>)) (httpd_respond_redirect_https e (mw_http w))
      else
        Option.bind (httpd_vhost_map_callback pcall Map_start w) (\<lambda>(ret, w).
        if ret \<le> 0 then Some (ret, w)
        else
          Option.bind (mw_hosts w v) (\<lambda>mv.
          if mv_lua mv then Some (0, w)
          else
            Option.bind (hin_send_raw_path e os (mv_cwd mv) (mw_file w) (mw_http w) (mw_vfs w)) (\<lambda>(r, f, h, s).
            let w = w\<lparr>mw_file := f, mw_vfs := s\<rparr> in
            if r \<le> 0
            then map_option (\<lambda>(_, h). (0, w\<lparr>mw_http := h\<rparr>)) (httpd_respond_text e 404 None h)
            else Some (0, w\<lparr>mw_http := h\<rparr>)))))"

subsection \<open>What a pattern matches\<close>

text \<open>
  Up to a star a pattern is the beginning of the decoded path; without a star it is the decoded
  path, and the path must not be percent-encoded anywhere.
\<close>

definition pattern_matches :: "string \<Rightarrow> string_t \<Rightarrow> string \<Rightarrow> bool" where
  "pattern_matches pat p d \<longleftrightarrow>
     (let lit = takeWhile (\<lambda>c. c \<noteq> CHR ''*'') pat in
      if CHR ''*'' \<in> set pat then take (length lit) d = lit
      else lit = d \<and> length d = slen p)"

lemma map_skip_star:
  assumes "NUL \<notin> set lit" "CHR ''*'' \<notin> set lit" "length d \<le> n"
  shows "map_skip (map Some d @ Some NUL # u) n (lit @ CHR ''*'' # r) = Some (take (length lit) d \<noteq> lit)"
  using assms
proof (induction lit arbitrary: d n)
  case Nil
  then show ?case by (cases n) simp_all
next
  case (Cons c lit)
  then show ?case by (cases n; cases d) auto
qed

lemma map_skip_exact:
  assumes "NUL \<notin> set lit" "CHR ''*'' \<notin> set lit" "length d \<le> n"
  shows "map_skip (map Some d @ Some NUL # u) n lit = Some (\<not> (lit = d \<and> length d = n))"
  using assms
proof (induction lit arbitrary: d n)
  case Nil
  then show ?case by (cases n) auto
next
  case (Cons c lit)
  then show ?case by (cases n; cases d) auto
qed

lemma url_loop_length: "int (length (url_loop p1 n)) \<le> max 0 n"
proof (induction p1 n rule: url_loop.induct)
  case (1 p1 n)
  show ?case
  proof (cases "n \<le> 0 \<or> p1 = []")
    case True
    then show ?thesis by (subst url_loop.simps) auto
  next
    case False
    obtain num rest where r: "my_strtoul (tl p1) 0 16 = (num, rest)" by force
    have l: "length rest < length p1" using my_strtoul_tl [OF r [symmetric]] False by simp
    show ?thesis
    proof (cases "at0 p1 = CHR ''%''")
      case True
      have "int (length (url_loop rest (n - int (length p1 - length rest)))) \<le> max 0 (n - int (length p1 - length rest))"
        using 1(1) [OF False True] r by simp
      then have "1 + int (length (url_loop rest (n - int (length p1 - length rest)))) \<le> n"
        using l False by linarith
      then show ?thesis using False True r by (subst url_loop.simps) (simp add: Let_def)
    next
      case other: False
      from 1(2) [OF False other] False other show ?thesis by (subst url_loop.simps) simp
    qed
  qed
qed

lemma decoded_length: "length (hin_parse_url_encoding p) \<le> slen p"
  using url_loop_length [of "sptr p" "int (slen p)"] by (simp add: hin_parse_url_encoding_def)

lemma map_skip_decoded:
  assumes "hin_parse_url_encoding p = map Some d" "NUL \<notin> set pat"
  shows "map_skip (decoded_memory p) (slen p) pat = Some (\<not> pattern_matches pat p d)"
proof -
  have len: "length d \<le> slen p" using decoded_length [of p] assms(1) by simp
  show ?thesis
  proof (cases "CHR ''*'' \<in> set pat")
    case True
    then obtain lit r where pat: "pat = lit @ CHR ''*'' # r" "CHR ''*'' \<notin> set lit"
      by (meson split_list_first)
    then have "takeWhile (\<lambda>c. c \<noteq> CHR ''*'') pat = lit" by (auto simp: takeWhile_tail takeWhile_eq_all_conv)
    then show ?thesis
      using map_skip_star [of lit d "slen p"] pat len assms by (simp add: decoded_memory_def pattern_matches_def)
  next
    case False
    then have tw: "takeWhile (\<lambda>c. c \<noteq> CHR ''*'') pat = pat" by (auto simp: takeWhile_eq_all_conv)
    show ?thesis
      using map_skip_exact [of pat d "slen p"] False len assms
      unfolding pattern_matches_def tw by (simp add: decoded_memory_def)
  qed
qed

subsection \<open>The lists in the order of registration\<close>

fun map_seg :: "(nat \<Rightarrow> vhost_map option) \<Rightarrow> nat option \<Rightarrow> nat option \<Rightarrow> nat list \<Rightarrow> bool" where
  "map_seg m prev p [] \<longleftrightarrow> p = None"
| "map_seg m prev p (a # xs) \<longleftrightarrow>
     p = Some a \<and> (\<exists>n. m a = Some n \<and> vm_prev n = prev \<and> map_seg m (Some a) (vm_next n) xs)"

text \<open>A list of a host: distinct nodes, all with the host and the state of the list.\<close>

definition map_list :: "(nat \<Rightarrow> vhost_map option) \<Rightarrow> u64 \<Rightarrow> int \<Rightarrow> nat option \<Rightarrow> nat list \<Rightarrow> bool" where
  "map_list m v st p xs \<longleftrightarrow> distinct xs \<and> map_seg m None p xs \<and>
     (\<forall>a\<in>set xs. \<exists>n. m a = Some n \<and> vm_vhost n = v \<and> vm_state n = st)"

definition map_core :: "(nat \<Rightarrow> vhost_map option) \<Rightarrow> nat \<Rightarrow> string \<times> int" where
  "map_core m a = (vm_pattern (the (m a)), vm_callback (the (m a)))"

lemma map_seg_frame [simp]: "a \<notin> set xs \<Longrightarrow> map_seg (m(a := x)) prev p xs \<longleftrightarrow> map_seg m prev p xs"
  by (induction xs arbitrary: prev p) auto

lemma map_core_frame [simp]: "a \<notin> set xs \<Longrightarrow> map (map_core (m(a := x))) xs = map (map_core m) xs"
  by (auto simp: map_core_def)

lemma map_last_seg:
  "map_seg m prev (Some a) xs \<Longrightarrow> map_last m a = Some (last xs)"
proof (induction xs arbitrary: prev a)
  case Nil
  then show ?case by simp
next
  case (Cons x xs)
  then obtain n where n: "a = x" "m x = Some n" "map_seg m (Some x) (vm_next n) xs" by auto
  show ?case
  proof (cases xs)
    case Nil
    then show ?thesis using n by (subst map_last.simps) simp
  next
    case (Cons y ys)
    then show ?thesis using n Cons.IH [of "Some x" y] by (subst map_last.simps) auto
  qed
qed

lemma map_seg_extend:
  assumes "map_seg m prev p xs" "xs \<noteq> []" "distinct xs" "new \<notin> set xs"
    "m (last xs) = Some l" "m new = Some n" "vm_prev n = Some (last xs)" "vm_next n = None"
  shows "map_seg (m(last xs \<mapsto> l\<lparr>vm_next := Some new\<rparr>)) prev p (xs @ [new])"
  using assms
proof (induction xs arbitrary: prev p)
  case Nil
  then show ?case by simp
next
  case (Cons x xs)
  show ?case
  proof (cases "xs = []")
    case True
    then show ?thesis using Cons.prems by auto
  next
    case False
    then have "last xs \<noteq> x" using Cons.prems by auto
    then show ?thesis using Cons False by auto
  qed
qed

lemma add_to_end:
  assumes "map_list m v st start xs" "m new = Some n" "new \<notin> set xs" "vm_vhost n = v" "vm_state n = st"
  obtains start' m' where "httpd_vhost_map_add_to_end_list start new m = Some (start', m')"
    "map_list m' v st start' (xs @ [new])" "map (map_core m') (xs @ [new]) = map (map_core m) (xs @ [new])"
    "\<And>a. a \<notin> set (xs @ [new]) \<Longrightarrow> m' a = m a"
proof (cases xs rule: rev_cases)
  case Nil
  then have "start = None" using assms by (simp add: map_list_def)
  then have "httpd_vhost_map_add_to_end_list start new m =
      Some (Some new, m(new \<mapsto> n\<lparr>vm_next := None, vm_prev := None\<rparr>))"
    using assms by (simp add: httpd_vhost_map_add_to_end_list_def)
  from that [OF this] show ?thesis using Nil assms by (auto simp: map_list_def map_core_def)
next
  case (snoc ys z)
  obtain a where st: "start = Some a" using assms snoc by (cases ys) (auto simp: map_list_def)
  let ?m = "m(new \<mapsto> n\<lparr>vm_next := None, vm_prev := Some z\<rparr>)"
  obtain l where l: "m z = Some l" "vm_vhost l = v" "vm_state l = st" and z: "z \<noteq> new"
    using assms snoc by (auto simp: map_list_def)
  let ?m' = "?m(z \<mapsto> l\<lparr>vm_next := Some new\<rparr>)"
  have seg: "map_seg (m(new \<mapsto> x)) None start xs" for x using assms by (simp add: map_list_def)
  have "map_last (m(new \<mapsto> n\<lparr>vm_next := None, vm_prev := None\<rparr>)) a = Some z"
    using map_last_seg [OF seg [unfolded st]] snoc by simp
  then have "httpd_vhost_map_add_to_end_list start new m = Some (start, ?m')"
    using assms st l z by (simp add: httpd_vhost_map_add_to_end_list_def Let_def)
  moreover have "map_seg (?m(last xs \<mapsto> l\<lparr>vm_next := Some new\<rparr>)) None start (xs @ [new])"
    by (rule map_seg_extend [OF seg]) (use assms snoc l z in \<open>auto simp: map_list_def\<close>)
  then have "map_list ?m' v st start (xs @ [new])"
    using assms snoc l z by (auto simp: map_list_def)
  ultimately show ?thesis
    by (rule that) (use assms l z snoc in \<open>auto simp: map_core_def\<close>)
qed

text \<open>What the configuration registered: host, state, pattern and function.\<close>

type_synonym reg = "u64 \<times> int \<times> string \<times> int"

definition registered :: "reg list \<Rightarrow> u64 \<Rightarrow> int \<Rightarrow> (string \<times> int) list" where
  "registered rs v st = map (\<lambda>(_, _, pat, cb). (pat, cb)) (filter (\<lambda>(v', st', _, _). v' = v \<and> st' = st) rs)"

definition holds_list :: "(nat \<Rightarrow> vhost_map option) \<Rightarrow> u64 \<Rightarrow> int \<Rightarrow> nat option \<Rightarrow> (string \<times> int) list \<Rightarrow> bool" where
  "holds_list m v st p cs \<longleftrightarrow> (\<exists>xs. map_list m v st p xs \<and> map (map_core m) xs = cs)"

definition maps_ok :: "map_world \<Rightarrow> reg list \<Rightarrow> bool" where
  "maps_ok w rs \<longleftrightarrow> (\<forall>v vh. mw_hosts w v = Some vh \<longrightarrow>
     holds_list (mw_maps w) v 0 (mv_start vh) (registered rs v 0) \<and>
     holds_list (mw_maps w) v 99 (mv_finish vh) (registered rs v 99))"

lemma holds_list_frame:
  assumes "holds_list m v st p cs"
    "\<And>a n. m a = Some n \<Longrightarrow> vm_vhost n = v \<Longrightarrow> vm_state n = st \<Longrightarrow> m' a = m a"
  shows "holds_list m' v st p cs"
proof -
  obtain xs where xs: "map_list m v st p xs" "map (map_core m) xs = cs"
    using assms(1) by (auto simp: holds_list_def)
  have same: "m' a = m a" if "a \<in> set xs" for a using xs(1) assms(2) that by (fastforce simp: map_list_def)
  have "map_seg m' prev q ys \<longleftrightarrow> map_seg m prev q ys" if "set ys \<subseteq> set xs" for prev q ys
    using that by (induction ys arbitrary: prev q) (auto simp: same)
  then have "map_list m' v st p xs" using xs(1) same by (auto simp: map_list_def)
  moreover have "map (map_core m') xs = cs" using xs(2) same by (auto simp: map_core_def)
  ultimately show ?thesis by (auto simp: holds_list_def)
qed

lemma holds_list_add:
  assumes "holds_list m v st start cs" "m new = None"
    "n = \<lparr>vm_state = st, vm_pattern = pat, vm_vhost = v, vm_callback = cb, vm_next = None, vm_prev = None\<rparr>"
  obtains start' m' where "httpd_vhost_map_add_to_end_list start new (m(new \<mapsto> n)) = Some (start', m')"
    "holds_list m' v st start' (cs @ [(pat, cb)])"
    "\<And>v' st' p cs. v' \<noteq> v \<or> st' \<noteq> st \<Longrightarrow> holds_list m v' st' p cs \<Longrightarrow> holds_list m' v' st' p cs"
    "\<And>a. m' a \<noteq> None \<Longrightarrow> m a \<noteq> None \<or> a = new"
proof -
  obtain xs where xs: "map_list m v st start xs" "map (map_core m) xs = cs"
    using assms(1) by (auto simp: holds_list_def)
  have new: "new \<notin> set xs" using xs(1) assms(2) by (auto simp: map_list_def)
  have "map_list (m(new \<mapsto> n)) v st start xs" using xs(1) new by (auto simp: map_list_def)
  then obtain start' m' where r: "httpd_vhost_map_add_to_end_list start new (m(new \<mapsto> n)) = Some (start', m')"
    and l: "map_list m' v st start' (xs @ [new])"
    and c: "map (map_core m') (xs @ [new]) = map (map_core (m(new \<mapsto> n))) (xs @ [new])"
    and f: "\<And>a. a \<notin> set (xs @ [new]) \<Longrightarrow> m' a = (m(new \<mapsto> n)) a"
    by (rule add_to_end [where n = n]) (use assms new in auto)
  have h: "holds_list m' v st start' (cs @ [(pat, cb)])"
    unfolding holds_list_def using l c xs(2) new assms(3) by (intro exI [of _ "xs @ [new]"]) (simp add: map_core_def)
  have fr: "holds_list m' v' st' p cs" if "v' \<noteq> v \<or> st' \<noteq> st" "holds_list m v' st' p cs" for v' st' p cs
  proof (rule holds_list_frame [OF that(2)])
    fix a n'
    assume a: "m a = Some n'" "vm_vhost n' = v'" "vm_state n' = st'"
    then have "a \<notin> set (xs @ [new])" using xs(1) assms(2) that(1) by (fastforce simp: map_list_def)
    then show "m' a = m a" using f by auto
  qed
  have d: "m a \<noteq> None \<or> a = new" if "m' a \<noteq> None" for a
    using f [of a] xs(1) that by (cases "a \<in> set (xs @ [new])") (auto simp: map_list_def)
  show ?thesis by (rule that [OF r h fr d])
qed

lemma registered_snoc:
  "registered (rs @ [(v, st, pat, cb)]) v' st' =
     registered rs v' st' @ (if v' = v \<and> st' = st then [(pat, cb)] else [])"
  by (auto simp: registered_def)

definition host_view :: "map_vhost \<Rightarrow> bool \<times> bool \<times> nat option \<times> u64 option" where
  "host_view h = (mv_magic h, mv_lua h, mv_cwd h, mv_parent h)"

definition same_hosts :: "map_world \<Rightarrow> map_world \<Rightarrow> bool" where
  "same_hosts w w' \<longleftrightarrow> (\<forall>v. map_option host_view (mw_hosts w' v) = map_option host_view (mw_hosts w v)) \<and>
     mw_http w' = mw_http w"

text \<open>A registration that is accepted is the last of its list, and no other list changes.\<close>

lemma l_hin_map_ok:
  assumes "maps_ok w rs" "mw_hosts w v = Some vh" "mv_magic vh" "st = 0 \<or> st = 99" "mw_maps w new = None"
  obtains w' where "l_hin_map dflt (Some v) (Some pat) st (Some cb) new w = Some (Inr 0, w')"
    "maps_ok w' (rs @ [(v, st, pat, cb)])" "same_hosts w w'"
    "\<And>a. mw_maps w' a \<noteq> None \<Longrightarrow> mw_maps w a \<noteq> None \<or> a = new"
proof -
  let ?p = "if st = 0 then mv_start vh else mv_finish vh"
  let ?n = "\<lparr>vm_state = st, vm_pattern = pat, vm_vhost = v, vm_callback = cb, vm_next = None, vm_prev = None\<rparr>"
  have hl: "holds_list (mw_maps w) v st ?p (registered rs v st)" using assms(1,2,4) by (auto simp: maps_ok_def)
  obtain start' m' where r: "httpd_vhost_map_add_to_end_list ?p new ((mw_maps w)(new \<mapsto> ?n)) = Some (start', m')"
    and l: "holds_list m' v st start' (registered rs v st @ [(pat, cb)])"
    and f: "\<And>v' st' p cs. v' \<noteq> v \<or> st' \<noteq> st \<Longrightarrow> holds_list (mw_maps w) v' st' p cs \<Longrightarrow> holds_list m' v' st' p cs"
    and d: "\<And>a. m' a \<noteq> None \<Longrightarrow> mw_maps w a \<noteq> None \<or> a = new"
    by (rule holds_list_add [OF hl assms(5), where n = ?n]) blast+
  let ?vh = "if st = 0 then vh\<lparr>mv_start := start'\<rparr> else vh\<lparr>mv_finish := start'\<rparr>"
  let ?w = "w\<lparr>mw_maps := m', mw_hosts := (mw_hosts w)(v \<mapsto> ?vh)\<rparr>"
  have "l_hin_map dflt (Some v) (Some pat) st (Some cb) new w = Some (Inr 0, ?w)"
    using r assms by (auto simp: l_hin_map_def)
  moreover have "maps_ok ?w (rs @ [(v, st, pat, cb)])"
    using assms(1,2,4) l f by (auto simp: maps_ok_def registered_snoc)
  moreover have "same_hosts w ?w" using assms(2) by (simp add: same_hosts_def host_view_def)
  ultimately show ?thesis by (rule that) (use d in simp)
qed

text \<open>A configuration: registrations with the addresses of their maps.\<close>

fun register_all :: "u64 \<Rightarrow> (reg \<times> nat) list \<Rightarrow> map_world \<Rightarrow> map_world option" where
  "register_all dflt [] w = Some w"
| "register_all dflt (((v, st, pat, cb), new) # rs) w =
     (case l_hin_map dflt (Some v) (Some pat) st (Some cb) new w of
        Some (Inr _, w) \<Rightarrow> register_all dflt rs w
      | _ \<Rightarrow> None)"

definition valid_reg :: "map_world \<Rightarrow> reg \<Rightarrow> bool" where
  "valid_reg w r = (case r of (v, st, _, _) \<Rightarrow>
     (st = 0 \<or> st = 99) \<and> (case mw_hosts w v of None \<Rightarrow> False | Some vh \<Rightarrow> mv_magic vh))"

lemma valid_reg_same: "same_hosts w w' \<Longrightarrow> valid_reg w' r \<longleftrightarrow> valid_reg w r"
proof -
  assume s: "same_hosts w w'"
  obtain v st pat cb where r: "r = (v, st, pat, cb)" by (cases r)
  have "map_option host_view (mw_hosts w' v) = map_option host_view (mw_hosts w v)" using s by (simp add: same_hosts_def)
  then show ?thesis by (auto simp: valid_reg_def r host_view_def split: option.splits)
qed

lemma register_all_ok:
  assumes "maps_ok w rs" "list_all (valid_reg w) (map fst regs)" "distinct (map snd regs)"
    "\<forall>a\<in>set (map snd regs). mw_maps w a = None"
  shows "\<exists>w'. register_all dflt regs w = Some w' \<and> maps_ok w' (rs @ map fst regs) \<and> same_hosts w w'"
  using assms
proof (induction regs arbitrary: w rs)
  case Nil
  then show ?case by (simp add: same_hosts_def)
next
  case (Cons r regs)
  obtain v st pat cb new where r: "r = ((v, st, pat, cb), new)" by (cases r) auto
  obtain vh where vh: "mw_hosts w v = Some vh" "mv_magic vh" "st = 0 \<or> st = 99"
    using Cons.prems r by (auto simp: valid_reg_def split: option.splits)
  obtain w1 where w1: "l_hin_map dflt (Some v) (Some pat) st (Some cb) new w = Some (Inr 0, w1)"
    "maps_ok w1 (rs @ [(v, st, pat, cb)])" "same_hosts w w1"
    "\<And>a. mw_maps w1 a \<noteq> None \<Longrightarrow> mw_maps w a \<noteq> None \<or> a = new"
    by (rule l_hin_map_ok [OF Cons.prems(1) vh]) (use Cons.prems r in auto)
  have "\<forall>a\<in>set (map snd regs). mw_maps w1 a = None"
    using w1(4) Cons.prems r by fastforce
  then obtain w' where "register_all dflt regs w1 = Some w'"
    "maps_ok w' ((rs @ [(v, st, pat, cb)]) @ map fst regs)" "same_hosts w1 w'"
    using Cons.IH [OF w1(2)] Cons.prems w1(3) by (auto simp: valid_reg_same)
  then show ?case using w1 r by (auto simp: same_hosts_def)
qed

subsection \<open>The callbacks of a request\<close>

text \<open>The reference: the functions in order, until one returns \<open>true\<close> or fails.\<close>

fun call_all :: "lua_call \<Rightarrow> int list \<Rightarrow> map_world \<Rightarrow> bool \<times> map_world" where
  "call_all pcall [] w = (False, w)"
| "call_all pcall (c # cs) w =
     (case pcall c w of (r, w) \<Rightarrow> if r = Lua_other then call_all pcall cs w else (True, w))"

text \<open>The functions of a host whose pattern matches.\<close>

definition matching :: "string_t \<Rightarrow> string \<Rightarrow> (string \<times> int) list \<Rightarrow> int list" where
  "matching p d cs = map snd (filter (\<lambda>(pat, _). pattern_matches pat p d) cs)"

definition keeps_maps :: "lua_call \<Rightarrow> bool" where
  "keeps_maps pcall \<longleftrightarrow> (\<forall>c w. mw_maps (snd (pcall c w)) = mw_maps w \<and> mw_hosts (snd (pcall c w)) = mw_hosts w)"

lemma call_all_append:
  "call_all pcall (cs @ cs') w =
     (case call_all pcall cs w of (fin, w) \<Rightarrow> if fin then (True, w) else call_all pcall cs' w)"
  by (induction cs arbitrary: w) (auto split: prod.splits)

lemma keeps_mapsD:
  assumes "keeps_maps pcall" "pcall c w = (r, w1)"
  shows "mw_maps w1 = mw_maps w" "mw_hosts w1 = mw_hosts w"
  using assms by (metis keeps_maps_def snd_conv)+

lemma call_all_keeps:
  assumes "keeps_maps pcall"
  shows "mw_maps (snd (call_all pcall cs w)) = mw_maps w \<and> mw_hosts (snd (call_all pcall cs w)) = mw_hosts w"
proof (induction cs arbitrary: w)
  case (Cons c cs)
  obtain r w1 where r: "pcall c w = (r, w1)" by force
  show ?case using Cons [of w1] keeps_mapsD [OF assms r] r by simp
qed simp

lemma run_maps_seg:
  assumes "keeps_maps pcall" "hin_parse_url_encoding p = map Some d"
    "map_seg (mw_maps w) prev start xs" "\<forall>a\<in>set xs. NUL \<notin> set (fst (map_core (mw_maps w) a))"
  shows "run_maps (Some pcall) p start w = Some (call_all pcall (matching p d (map (map_core (mw_maps w)) xs)) w)"
  using assms(3,4)
proof (induction xs arbitrary: prev start w)
  case Nil
  then show ?case by (subst run_maps.simps) (simp add: matching_def)
next
  case (Cons a xs)
  then obtain n where n: "start = Some a" "mw_maps w a = Some n" "map_seg (mw_maps w) (Some a) (vm_next n) xs" by auto
  have skip: "map_skip (decoded_memory p) (slen p) (vm_pattern n) = Some (\<not> pattern_matches (vm_pattern n) p d)"
    using Cons.prems n by (intro map_skip_decoded assms) (simp add: map_core_def)
  obtain r w1 where r: "pcall (vm_callback n) w = (r, w1)" by force
  have k: "mw_maps w1 = mw_maps w" by (rule keeps_mapsD [OF assms(1) r])
  have core: "map_core (mw_maps w) a = (vm_pattern n, vm_callback n)" using n by (simp add: map_core_def)
  show ?case
    using n skip r k Cons.IH [of w "Some a" "vm_next n"] Cons.IH [of w1 "Some a" "vm_next n"] Cons.prems
    by (subst run_maps.simps) (auto simp: matching_def core)
qed

text \<open>A host and its parents.\<close>

fun host_chain :: "(u64 \<Rightarrow> map_vhost option) \<Rightarrow> u64 option \<Rightarrow> u64 list \<Rightarrow> bool" where
  "host_chain m p [] \<longleftrightarrow> p = None"
| "host_chain m p (v # vs) \<longleftrightarrow> p = Some v \<and> (\<exists>vh. m v = Some vh \<and> host_chain m (mv_parent vh) vs)"

definition list_state :: "map_type \<Rightarrow> int" where
  "list_state t = (case t of Map_start \<Rightarrow> 0 | Map_finish \<Rightarrow> 99)"

definition no_nul :: "reg list \<Rightarrow> bool" where
  "no_nul rs \<longleftrightarrow> list_all (\<lambda>(_, _, pat, _). NUL \<notin> set pat) rs"

lemma run_hosts_chain:
  assumes "keeps_maps pcall" "hin_parse_url_encoding p = map Some d" "no_nul rs"
    "maps_ok w rs" "host_chain (mw_hosts w) cur vs"
  shows "run_hosts (Some pcall) t p cur w =
     Some (snd (call_all pcall (concat (map (\<lambda>v. matching p d (registered rs v (list_state t))) vs)) w))"
  using assms(4,5)
proof (induction vs arbitrary: cur w)
  case Nil
  then show ?case by (subst run_hosts.simps) simp
next
  case (Cons v vs)
  then obtain vh where vh: "cur = Some v" "mw_hosts w v = Some vh" "host_chain (mw_hosts w) (mv_parent vh) vs" by auto
  let ?cs = "registered rs v (list_state t)"
  have "holds_list (mw_maps w) v (list_state t) (list_start t vh) ?cs"
    using Cons.prems(1) vh(2) by (cases t) (auto simp: maps_ok_def list_start_def list_state_def)
  then obtain xs where xs: "map_seg (mw_maps w) None (list_start t vh) xs" "map (map_core (mw_maps w)) xs = ?cs"
    by (auto simp: holds_list_def map_list_def)
  have "\<forall>c\<in>set ?cs. NUL \<notin> set (fst c)" using assms(3) by (auto simp: registered_def no_nul_def list_all_iff)
  then have "\<forall>a\<in>set xs. NUL \<notin> set (fst (map_core (mw_maps w) a))" unfolding xs(2) [symmetric] by simp
  from run_maps_seg [OF assms(1,2) xs(1) this]
  have run: "run_maps (Some pcall) p (list_start t vh) w = Some (call_all pcall (matching p d ?cs) w)"
    by (simp add: xs(2))
  obtain fin w1 where c: "call_all pcall (matching p d ?cs) w = (fin, w1)" by force
  have k: "mw_maps w1 = mw_maps w" "mw_hosts w1 = mw_hosts w" using call_all_keeps [OF assms(1)] c by (metis snd_conv)+
  then have "maps_ok w1 rs" using Cons.prems(1) by (simp add: maps_ok_def)
  from Cons.IH [OF this, of "mv_parent vh"]
  show ?case using run c k vh by (subst run_hosts.simps) (simp add: call_all_append)
qed

lemma host_chain_same:
  assumes "same_hosts w w'" "host_chain (mw_hosts w) p vs"
  shows "host_chain (mw_hosts w') p vs"
  using assms(2)
proof (induction vs arbitrary: p)
  case (Cons v vs)
  then obtain vh where vh: "p = Some v" "mw_hosts w v = Some vh" "host_chain (mw_hosts w) (mv_parent vh) vs" by auto
  have "map_option host_view (mw_hosts w' v) = Some (host_view vh)"
    using assms(1) vh(2) by (simp add: same_hosts_def)
  then obtain vh' where "mw_hosts w' v = Some vh'" "mv_parent vh' = mv_parent vh" by (auto simp: host_view_def)
  then show ?case using Cons.IH vh by auto
qed simp

text \<open>
  C35: a pattern decides by the decoded path: up to a star it must be its beginning, without a
  star it must be the whole path; but then the path must also be as long as it was before the
  decoding, so that no percent-encoded path matches a pattern without a star.
\<close>

theorem map_pattern_matches:
  assumes "hin_parse_url_encoding p = map Some d" "NUL \<notin> set pat"
  shows "map_skip (decoded_memory p) (slen p) pat =
    Some (\<not> (if CHR ''*'' \<in> set pat
             then take (length (takeWhile (\<lambda>c. c \<noteq> CHR ''*'') pat)) d = takeWhile (\<lambda>c. c \<noteq> CHR ''*'') pat
             else pat = d \<and> length d = slen p))"
proof (cases "CHR ''*'' \<in> set pat")
  case True
  then show ?thesis using map_skip_decoded [OF assms] by (simp add: pattern_matches_def Let_def)
next
  case False
  then have tw: "takeWhile (\<lambda>c. c \<noteq> CHR ''*'') pat = pat" by (auto simp: takeWhile_eq_all_conv)
  show ?thesis using map_skip_decoded [OF assms] False unfolding pattern_matches_def tw by simp
qed

theorem map_pattern_matches_witness:
  "map_skip (decoded_memory (mk_str ''/%61z'')) 5 ''/az'' = Some True \<and>
   map_skip (decoded_memory (mk_str ''/%61z'')) 5 ''/a*'' = Some False"
proof -
  have d: "hin_parse_url_encoding (mk_str ''/%61z'') = map Some ''/az''" by code_simp
  have l: "slen (mk_str ''/%61z'') = 5" by (simp add: mk_str_def)
  show ?thesis
    using map_pattern_matches [OF d, of "''/az''"] map_pattern_matches [OF d, of "''/a*''"]
    unfolding l by simp
qed

text \<open>
  C22: the maps of a configuration are kept in the order they were registered, and a request
  calls those of its host and then of the parents of the host whose patterns match, in that
  order, until one returns \<open>true\<close> or fails.
\<close>

theorem map_callbacks_in_order:
  assumes "maps_ok w0 []" "list_all (valid_reg w0) (map fst regs)" "no_nul (map fst regs)"
    "distinct (map snd regs)" "\<forall>a\<in>set (map snd regs). mw_maps w0 a = None"
    "hin_http_parse_header_line (h_headers (mw_http w0)) = (Some (meth, p, ver), rest)"
    "hin_parse_url_encoding p = map Some d"
    "host_chain (mw_hosts w0) (Some (h_vhost (mw_http w0))) vs"
    "map_option mv_lua (mw_hosts w0 (h_vhost (mw_http w0))) = Some True" "keeps_maps pcall"
  shows "\<exists>w. register_all dflt regs w0 = Some w \<and>
    httpd_vhost_map_callback pcall t w =
      Some (1, snd (call_all pcall
        (concat (map (\<lambda>v. matching p d (registered (map fst regs) v (list_state t))) vs)) w))"
proof -
  obtain w where w: "register_all dflt regs w0 = Some w" "maps_ok w (map fst regs)" "same_hosts w0 w"
    using register_all_ok [OF assms(1,2,4,5)] by auto
  have http: "mw_http w = mw_http w0" using w(3) by (simp add: same_hosts_def)
  have "map_option host_view (mw_hosts w (h_vhost (mw_http w0))) = map_option host_view (mw_hosts w0 (h_vhost (mw_http w0)))"
    using w(3) by (simp add: same_hosts_def)
  then obtain vh where vh: "mw_hosts w (h_vhost (mw_http w0)) = Some vh" "mv_lua vh"
    using assms(9) by (auto simp: host_view_def)
  note run = run_hosts_chain [OF assms(10,7,3) w(2) host_chain_same [OF w(3) assms(8)]]
  show ?thesis using w(1) vh assms(6) run [of t] by (simp add: httpd_vhost_map_callback_def http)
qed

definition map_host0 :: map_vhost where
  "map_host0 = \<lparr>mv_magic = True, mv_lua = True, mv_cwd = None, mv_start = None, mv_finish = None, mv_parent = None\<rparr>"

definition map_world0 :: map_world where
  "map_world0 = \<lparr>mw_http = httpd0\<lparr>h_headers := mk_str ''G /a HTTP/1'', h_vhost := 0\<rparr>,
     mw_vfs = vfs1, mw_file = None, mw_maps = (\<lambda>_. None), mw_hosts = [0 \<mapsto> map_host0]\<rparr>"

definition map_call0 :: lua_call where
  "map_call0 c w = (if c = 7 then Lua_other else Lua_true, w\<lparr>mw_file := Some (nat c)\<rparr>)"

lemma request_a:
  "hin_http_parse_header_line (mk_str ''G /a HTTP/1'') =
     (Some (0, \<lparr>sptr = ''/a HTTP/1'', slen = 2\<rparr>, 0), \<lparr>sptr = [], slen = 0\<rparr>)"
proof -
  have p: "request_parts ''G'' ''/a'' ''1'' []" by (simp add: request_parts_def path_set_mem ctype_defs)
  have no: "\<not> 0 < fst (matchi_string_equal \<lparr>sptr = ''G /a HTTP/1'', slen = Suc 0\<rparr> w)"
    if "plain_fmt w" "w \<noteq> []" "map toupper w \<noteq> ''G''" for w
    using that matchi_string_equal_plain [OF that(1), of "\<lparr>sptr = ''G /a HTTP/1'', slen = Suc 0\<rparr>"]
    by (auto simp: str_wf_def str_of_def toupper_def islower_def code_def)
  have v: "\<not> 0 < fst (match_string_equal \<lparr>sptr = ''1'', slen = Suc 0\<rparr> w)" if "plain_fmt w" "w \<noteq> []" "w \<noteq> ''1''" for w
    using that match_string_equal_plain [OF that(1), of "\<lparr>sptr = ''1'', slen = Suc 0\<rparr>"]
    by (auto simp: str_wf_def str_of_def)
  show ?thesis
    unfolding hin_http_parse_header_line_def request_fmt_def [symmetric]
    using request_match [OF p] no v
    by (simp add: mk_str_def Let_def plain_fmt_def toupper_def islower_def code_def numeral_2_eq_2)
qed

theorem map_callbacks_in_order_witness:
  "\<exists>w. register_all 0 [((0, 0, ''/a'', 7), 1), ((0, 0, ''/b'', 9), 2), ((0, 0, ''/*'', 8), 3)] map_world0 = Some w \<and>
     httpd_vhost_map_callback map_call0 Map_start w = Some (1, w\<lparr>mw_file := Some 8\<rparr>)"
proof -
  let ?regs = "[((0, 0, ''/a'', 7), 1), ((0, 0, ''/b'', 9), 2), ((0, 0, ''/*'', 8), 3)] :: (reg \<times> nat) list"
  let ?p = "\<lparr>sptr = ''/a HTTP/1'', slen = 2\<rparr>"
  have d: "hin_parse_url_encoding ?p = map Some ''/a''" by code_simp
  have hosts: "mw_hosts map_world0 = [0 \<mapsto> map_host0]" by (simp add: map_world0_def)
  have ok: "maps_ok map_world0 []"
    by (auto simp: maps_ok_def hosts holds_list_def map_list_def registered_def map_host0_def)
  have rq: "hin_http_parse_header_line (h_headers (mw_http map_world0)) =
      (Some (0, ?p, 0), \<lparr>sptr = [], slen = 0\<rparr>)"
    using request_a by (simp add: map_world0_def)
  have v: "h_vhost (mw_http map_world0) = 0" by (simp add: map_world0_def)
  have c: "host_chain (mw_hosts map_world0) (Some (h_vhost (mw_http map_world0))) [0]"
    by (simp add: v hosts map_host0_def)
  have m: "concat (map (\<lambda>v. matching ?p ''/a'' (registered (map fst ?regs) v (list_state Map_start))) [0]) = [7, 8]"
    by (simp add: registered_def matching_def pattern_matches_def list_state_def)
  have "\<exists>w. register_all 0 ?regs map_world0 = Some w \<and>
    httpd_vhost_map_callback map_call0 Map_start w =
      Some (1, snd (call_all map_call0
        (concat (map (\<lambda>v. matching ?p ''/a'' (registered (map fst ?regs) v (list_state Map_start))) [0])) w))"
    by (rule map_callbacks_in_order [OF ok _ _ _ _ rq d c])
       (simp_all add: valid_reg_def hosts map_host0_def no_nul_def keeps_maps_def map_call0_def map_world0_def httpd0_def)
  then show ?thesis unfolding m by (simp add: map_call0_def del: register_all.simps)
qed

end
