(* ===== verification/Endian.thy ===== *)
theory Endian
  imports Prelude
begin

text \<open>
  \<open>external/basic/basic_endianness.c\<close>: byte-order conversion.  Which order the host has
  (\<open>basic_detect_little_endian\<close>) is the parameter \<open>little\<close>; a buffer is the list of its
  elements, of which the first \<open>count\<close> are converted.
\<close>

definition endian_swap16 :: "u16 \<Rightarrow> u16" where
  "endian_swap16 n = push_bit 8 n OR drop_bit 8 n"

definition endian_swap32 :: "u32 \<Rightarrow> u32" where
  "endian_swap32 n =
     push_bit 24 n OR drop_bit 24 n OR (drop_bit 8 n AND 0xFF00) OR (push_bit 8 n AND 0xFF0000)"

definition endian_swap64 :: "u64 \<Rightarrow> u64" where
  "endian_swap64 x =
     (let x = push_bit 32 (x AND 0x00000000FFFFFFFF) OR drop_bit 32 (x AND 0xFFFFFFFF00000000);
          x = push_bit 16 (x AND 0x0000FFFF0000FFFF) OR drop_bit 16 (x AND 0xFFFF0000FFFF0000);
          x = push_bit 8 (x AND 0x00FF00FF00FF00FF) OR drop_bit 8 (x AND 0xFF00FF00FF00FF00)
      in x)"

definition little_endian_swap16 :: "bool \<Rightarrow> u16 \<Rightarrow> u16" where
  "little_endian_swap16 little n = (if little then n else endian_swap16 n)"

definition little_endian_swap32 :: "bool \<Rightarrow> u32 \<Rightarrow> u32" where
  "little_endian_swap32 little n = (if little then n else endian_swap32 n)"

definition little_endian_swap64 :: "bool \<Rightarrow> u64 \<Rightarrow> u64" where
  "little_endian_swap64 little n = (if little then n else endian_swap64 n)"

text \<open>The loop \<open>for (i = 0; i < count; i++)\<close> over the buffer.\<close>

definition on_prefix :: "('a \<Rightarrow> 'a) \<Rightarrow> int \<Rightarrow> 'a list \<Rightarrow> 'a list" where
  "on_prefix f count buf = map f (take (nat count) buf) @ drop (nat count) buf"

text \<open>Each element goes through \<open>int n\<close>, a signed 32-bit variable.\<close>

definition through_int :: "'a::len word \<Rightarrow> 'a word" where
  "through_int x = scast (ucast x :: 32 word)"

definition little_endian_buffer16 :: "bool \<Rightarrow> u16 list \<Rightarrow> int \<Rightarrow> u16 list" where
  "little_endian_buffer16 little buf count =
     (if \<not> little then on_prefix (\<lambda>n. endian_swap16 (through_int n)) count buf else buf)"

definition little_endian_buffer32 :: "bool \<Rightarrow> u32 list \<Rightarrow> int \<Rightarrow> u32 list" where
  "little_endian_buffer32 little buf count =
     (if \<not> little then on_prefix (\<lambda>n. endian_swap32 (through_int n)) count buf else buf)"

definition little_endian_buffer64 :: "bool \<Rightarrow> u64 list \<Rightarrow> int \<Rightarrow> u64 list" where
  "little_endian_buffer64 little buf count =
     (if \<not> little then on_prefix (\<lambda>n. endian_swap64 (through_int n)) count buf else buf)"

definition big_endian_buffer16 :: "bool \<Rightarrow> u16 list \<Rightarrow> int \<Rightarrow> u16 list" where
  "big_endian_buffer16 little buf count =
     (if little then on_prefix (\<lambda>n. endian_swap16 (through_int n)) count buf else buf)"

definition big_endian_buffer32 :: "bool \<Rightarrow> u32 list \<Rightarrow> int \<Rightarrow> u32 list" where
  "big_endian_buffer32 little buf count =
     (if little then on_prefix (\<lambda>n. endian_swap32 (through_int n)) count buf else buf)"

definition big_endian_buffer64 :: "bool \<Rightarrow> u64 list \<Rightarrow> int \<Rightarrow> u64 list" where
  "big_endian_buffer64 little buf count =
     (if little then on_prefix (\<lambda>n. endian_swap64 (through_int n)) count buf else buf)"

subsection \<open>The swaps reverse the bytes\<close>

definition byte :: "nat \<Rightarrow> 'a::len word \<Rightarrow> u8" where
  "byte i w = ucast (drop_bit (8 * i) w)"

lemma bit_byte: "bit (byte i w) n \<longleftrightarrow> n < 8 \<and> bit w (8 * i + n)"
  by (auto simp: byte_def bit_simps dest: bit_imp_le_length)

lemma bit_beyond: "LENGTH('a) \<le> n \<Longrightarrow> \<not> bit (w :: 'a::len word) n"
  by (auto dest: bit_imp_le_length)

text \<open>Bit \<open>n\<close> of a number of \<open>k\<close> bytes, after its bytes are reversed.\<close>

definition rev_bit :: "nat \<Rightarrow> nat \<Rightarrow> nat" where
  "rev_bit k n = 8 * (k - 1 - n div 8) + n mod 8"

lemmas swap_simps = upt_conv_Cons bit_simps rev_bit_def bit_beyond numeral_2_eq_2 [symmetric]

lemma swap16_bits: "n < 16 \<Longrightarrow> bit (endian_swap16 w) n \<longleftrightarrow> bit w (rev_bit 2 n)"
proof -
  have "\<forall>n \<in> set [0..<16]. bit (endian_swap16 w) n \<longleftrightarrow> bit w (rev_bit 2 n)"
    by (simp add: swap_simps endian_swap16_def)
  then show "n < 16 \<Longrightarrow> ?thesis" by simp
qed

lemma swap32_bits: "n < 32 \<Longrightarrow> bit (endian_swap32 w) n \<longleftrightarrow> bit w (rev_bit 4 n)"
proof -
  have "\<forall>n \<in> set [0..<32]. bit (endian_swap32 w) n \<longleftrightarrow> bit w (rev_bit 4 n)"
    by (simp add: swap_simps endian_swap32_def)
  then show "n < 32 \<Longrightarrow> ?thesis" by simp
qed

lemma swap64_bits: "n < 64 \<Longrightarrow> bit (endian_swap64 w) n \<longleftrightarrow> bit w (rev_bit 8 n)"
proof -
  have "\<forall>n \<in> set [0..<64]. bit (endian_swap64 w) n \<longleftrightarrow> bit w (rev_bit 8 n)"
    by (simp add: swap_simps endian_swap64_def Let_def)
  then show "n < 64 \<Longrightarrow> ?thesis" by simp
qed

definition bytes :: "nat \<Rightarrow> 'a::len word \<Rightarrow> u8 list" where
  "bytes k w = map (\<lambda>i. byte i w) [0..<k]"

lemma rev_bit_byte: "i < k \<Longrightarrow> n < 8 \<Longrightarrow> rev_bit k (8 * i + n) = 8 * (k - 1 - i) + n"
  by (simp add: rev_bit_def)

lemma bytes_rev:
  assumes "\<And>n. n < 8 * k \<Longrightarrow> bit (v :: 'a::len word) n \<longleftrightarrow> bit (w :: 'a word) (rev_bit k n)"
  shows "bytes k v = rev (bytes k w)"
proof (rule nth_equalityI)
  fix i assume "i < length (bytes k v)"
  then have i: "i < k" by (simp add: bytes_def)
  have "byte i v = byte (k - 1 - i) w"
    using assms i by (auto simp: bit_eq_iff bit_byte rev_bit_byte)
  then show "bytes k v ! i = rev (bytes k w) ! i" using i by (simp add: bytes_def rev_nth)
qed (simp add: bytes_def)

lemma rev_bit_invol: "n < 8 * k \<Longrightarrow> rev_bit k n < 8 * k \<and> rev_bit k (rev_bit k n) = n"
proof -
  assume n: "n < 8 * k"
  define q r where "q = n div 8" and "r = n mod 8"
  have nq: "n = 8 * q + r" "r < 8" "q < k" using n by (auto simp: q_def r_def)
  then have "rev_bit k n = 8 * (k - 1 - q) + r" by (simp add: rev_bit_byte)
  then show ?thesis using nq by (simp add: rev_bit_byte)
qed

lemma swap_invol:
  assumes "\<And>w n. n < 8 * k \<Longrightarrow> bit (f w) n \<longleftrightarrow> bit w (rev_bit k n)" "LENGTH('a) = 8 * k"
  shows "f (f w) = (w :: 'a::len word)"
  by (rule bit_word_eqI) (use assms rev_bit_invol in simp)

lemma swap64_invol: "endian_swap64 (endian_swap64 c) = c"
  by (rule swap_invol [of 8]) (simp_all add: swap64_bits)

text \<open>
  The three swaps reverse the bytes of their argument and undo themselves.
\<close>

theorem swaps_reverse_bytes:
  "bytes 2 (endian_swap16 a) = rev (bytes 2 a) \<and> endian_swap16 (endian_swap16 a) = a \<and>
   bytes 4 (endian_swap32 b) = rev (bytes 4 b) \<and> endian_swap32 (endian_swap32 b) = b \<and>
   bytes 8 (endian_swap64 c) = rev (bytes 8 c) \<and> endian_swap64 (endian_swap64 c) = c"
proof (intro conjI)
  show "bytes 2 (endian_swap16 a) = rev (bytes 2 a)" by (rule bytes_rev) (simp add: swap16_bits)
  show "bytes 4 (endian_swap32 b) = rev (bytes 4 b)" by (rule bytes_rev) (simp add: swap32_bits)
  show "bytes 8 (endian_swap64 c) = rev (bytes 8 c)" by (rule bytes_rev) (simp add: swap64_bits)
  show "endian_swap16 (endian_swap16 a) = a" by (rule swap_invol [of 2]) (simp_all add: swap16_bits)
  show "endian_swap32 (endian_swap32 b) = b" by (rule swap_invol [of 4]) (simp_all add: swap32_bits)
qed (rule swap64_invol)

lemma swap64_inj: "endian_swap64 x = endian_swap64 y \<longleftrightarrow> x = y"
  by (metis swap64_invol)

lemma through_int_16 [simp]: "through_int (x :: u16) = x"
  by (simp add: through_int_def bit_eq_iff bit_simps)

lemma through_int_32 [simp]: "through_int (x :: u32) = x"
  by (simp add: through_int_def)

text \<open>
  Converting a whole buffer swaps each element of 16 or 32 bits; for 64 bits it does so
  exactly when every element survives the 32-bit signed temporary of the loop, that is when
  it is the sign extension of its low half: other values are destroyed.
\<close>

theorem big_endian_buffers:
  "big_endian_buffer16 True a (int (length a)) = map endian_swap16 a \<and>
   big_endian_buffer32 True b (int (length b)) = map endian_swap32 b \<and>
   (big_endian_buffer64 True c (int (length c)) = map endian_swap64 c \<longleftrightarrow>
    list_all (\<lambda>x. through_int x = x) c)"
  by (auto simp: big_endian_buffer16_def big_endian_buffer32_def big_endian_buffer64_def
      on_prefix_def list_all_iff swap64_inj)

lemma big_endian_buffer64_loses:
  "big_endian_buffer64 True [0x100000000] 1 = [0]"
  by (simp add: big_endian_buffer64_def on_prefix_def through_int_def endian_swap64_def)

end
