(* ===== verification/Fcgi.thy ===== *)
theory Fcgi
  imports Endian HttpdLife
begin

text \<open>
  The FastCGI wire format: \<open>http/cgi/fcgi.h\<close>, \<open>fcgi_util.c\<close>, the writers of \<open>fcgi_write.c\<close> and
  \<open>fcgi_post.c\<close> and the record reader of \<open>fcgi_read.c\<close>.  The writers print into a header chain
  (theory \<open>Buffers\<close>) and store through the pointers \<open>header_ptr\<close> returned; a store through NULL
  or past the memory of a buffer has no value (\<open>None\<close>).  The host is little-endian, as the code
  assumes.
\<close>

definition FCGI_BEGIN_REQUEST :: nat where [flag_defs]: "FCGI_BEGIN_REQUEST = 1"
definition FCGI_END_REQUEST :: nat where [flag_defs]: "FCGI_END_REQUEST = 3"
definition FCGI_PARAMS :: nat where [flag_defs]: "FCGI_PARAMS = 4"
definition FCGI_STDIN :: nat where [flag_defs]: "FCGI_STDIN = 5"
definition FCGI_STDOUT :: nat where [flag_defs]: "FCGI_STDOUT = 6"
definition FCGI_STDERR :: nat where [flag_defs]: "FCGI_STDERR = 7"
definition FCGI_RESPONDER :: u16 where [flag_defs]: "FCGI_RESPONDER = 1"
definition HIN_FCGI_SOCKET_REUSE :: nat where [flag_defs]: "HIN_FCGI_SOCKET_REUSE = 1"

text \<open>\<open>FCGI_ROUND_TO_PAD\<close>: the division is by \<open>sizeof (uintptr_t)\<close>, so it is unsigned.\<close>

definition FCGI_ROUND_TO_PAD :: "int \<Rightarrow> int" where
  "FCGI_ROUND_TO_PAD num =
     sint (ucast (((word_of_int (num - 1) :: u64) div 8 + 1) * 8) :: u32)"

definition byte_char :: "int \<Rightarrow> char" where
  "byte_char n = char_of (nat (n mod 256))"

text \<open>A 16-bit store.\<close>

definition store16 :: "u16 \<Rightarrow> string" where
  "store16 w = [char_of (unat w mod 256), char_of (unat w div 256)]"

definition load16 :: "string \<Rightarrow> u16" where
  "load16 s = of_nat (code (s ! 0) + 256 * code (s ! 1))"

type_synonym chain_at = "nat \<times> nat"

text \<open>A store of \<open>data\<close> at a pointer into the chain.\<close>

definition poke :: "chain_at \<Rightarrow> string \<Rightarrow> hbuf list \<Rightarrow> hbuf list option" where
  "poke at data bufs =
     (case at of (i, pos) \<Rightarrow>
        let b = bufs ! i
        in if pos + length data \<le> hb_sz b
           then Some (bufs[i := b\<lparr>hb_mem := mem_write pos data (hb_mem b)\<rparr>])
           else None)"

definition hin_fcgi_header :: "hbuf list \<Rightarrow> nat \<Rightarrow> int \<Rightarrow> int \<Rightarrow> (chain_at \<times> hbuf list) option" where
  "hin_fcgi_header bufs type rid sz =
     (case header_ptr bufs 8 of
        (None, _) \<Rightarrow> None
      | (Some at, bufs) \<Rightarrow>
          map_option (Pair at)
            (poke at ([char_of (1 :: nat), char_of type] @
                      store16 (endian_swap16 (word_of_int rid)) @
                      store16 (endian_swap16 (word_of_int sz)) @ [char_of (0 :: nat)]) bufs))"

subsection \<open>Name-value pairs\<close>

text \<open>The value is what \<open>vsnprintf\<close> prints; the terminator is stored past the reserved bytes.\<close>

definition param :: "hbuf list \<Rightarrow> string \<Rightarrow> string \<Rightarrow> (int \<times> hbuf list) option" where
  "param bufs name value =
     (let name_len = length name; value_len = length value
      in if name_len \<ge> 127 then Some (0, bufs)
         else
           let lens = (if value_len \<ge> 127
                       then [char_of name_len,
                             char_of ((value_len div 2 ^ 24) mod 0x80 + 0x80),
                             char_of ((value_len div 2 ^ 16) mod 0x100),
                             char_of ((value_len div 2 ^ 8) mod 0x100),
                             char_of (value_len mod 0x100)]
                       else [char_of name_len, char_of value_len])
           in case header_ptr bufs (length lens) of
             (None, _) \<Rightarrow> None
           | (Some at, bufs) \<Rightarrow>
               Option.bind (poke at lens bufs) (\<lambda>bufs.
               case header_ptr (snd (header_raw bufs name)) value_len of
                 (None, _) \<Rightarrow> None
               | (Some at, bufs) \<Rightarrow>
                   map_option (Pair (int (length lens + name_len + value_len)))
                     (poke at (value @ [NUL]) bufs)))"

text \<open>\<open>"%.*s"\<close>: the characters before the terminator, at most \<open>len\<close>.\<close>

definition c_str :: "string \<Rightarrow> string" where
  "c_str s = takeWhile ((\<noteq>) NUL) s"

definition env_name :: "string \<Rightarrow> string" where
  "env_name s = map (\<lambda>c. if c = CHR 0x2D then CHR 0x5F else toupper c) s"

text \<open>\<open>param_header\<close>: the pair it prints, if any.\<close>

definition param_header :: "string \<Rightarrow> string \<Rightarrow> (string \<times> string) list" where
  "param_header name value =
     (let buffer = ''HTTP_'' @ c_str name
      in if length buffer \<ge> 128 then [] else [(env_name buffer, c_str value)])"

fun params :: "hbuf list \<Rightarrow> (string \<times> string) list \<Rightarrow> (int \<times> hbuf list) option" where
  "params bufs [] = Some (0, bufs)"
| "params bufs ((name, value) # ps) =
     Option.bind (param bufs name value) (\<lambda>(n, bufs).
     Option.bind (params bufs ps) (\<lambda>(m, bufs). Some (n + m, bufs)))"

subsection \<open>The request packet\<close>

text \<open>
  What the writer reads outside the connection: the path of the root directory of the virtual
  host, the file of the request as its directory and name, and the two \<open>getnameinfo\<close> results
  (host and service).
\<close>

record fcgi_env =
  fe_cwd :: "string option"
  fe_file :: "(string \<times> string) option"
  fe_server :: "(string \<times> string) option"
  fe_peer :: "(string \<times> string) option"

text \<open>The loop over the header lines; \<open>None\<close> is a read past the headers.\<close>

function header_vars :: "string_t \<Rightarrow> (string \<times> string) list option" where
  "header_vars source =
     (case hin_find_line source of
        None \<Rightarrow> None
      | Some (u, source', line) \<Rightarrow>
          if u = 0 \<or> slen line = 0 then Some []
          else
            let (n, line, caps) = match_string line ''([%w_%-]+):%s*'';
                name = stored caps null_str;
                (ct, name, _) = matchi_string name ''content-type'';
                vars = (if n > 0
                        then if ct > 0 then [(''CONTENT_TYPE'', c_str (str_of line))]
                             else param_header (str_of name) (str_of line)
                        else [])
            in map_option ((@) vars) (header_vars source'))"
  by pat_completeness auto
termination
  by (relation "measure slen") (auto dest!: sym [of _ "hin_find_line _"] find_line_progress)

declare header_vars.simps [simp del]

definition fcgi_std_vars :: "fcgi_env \<Rightarrow> httpd \<Rightarrow> int \<Rightarrow> string_t \<Rightarrow> string_t \<Rightarrow> string \<Rightarrow> string \<Rightarrow> string \<Rightarrow>
    (string \<times> string) list" where
  "fcgi_std_vars e h method target qs cwd dir name =
     [(''CONTENT_LENGTH'', print_int (h_post_sz h)),
      (''QUERY_STRING'', c_str (str_of qs)),
      (''REQUEST_URI'', c_str (str_of target)),
      (''REDIRECT_STATUS'', print_int (h_status h)),
      (''SCRIPT_NAME'', drop (length cwd - 1) dir @ name),
      (''SCRIPT_FILENAME'', dir @ name),
      (''DOCUMENT_ROOT'', butlast cwd),
      (''REQUEST_METHOD'', case hin_http_method_name method of Some m \<Rightarrow> m | None \<Rightarrow> ''(null)''),
      (''SERVER_PROTOCOL'', if has (h_peer h) HIN_HTTP_VER0 then ''HTTP/1.0'' else ''HTTP/1.1''),
      (''SERVER_SOFTWARE'', HIN_HTTPD_SERVER_BANNER),
      (''GATEWAY_INTERFACE'', ''CGI/1.1''),
      (''REQUEST_SCHEME'', ''http'')] @
     (case fe_server e of Some (hbuf, sbuf) \<Rightarrow> [(''SERVER_PORT'', sbuf), (''SERVER_ADDR'', hbuf)] | None \<Rightarrow> []) @
     (case fe_peer e of Some (hbuf, sbuf) \<Rightarrow> [(''REMOTE_ADDR'', hbuf), (''REMOTE_PORT'', sbuf)] | None \<Rightarrow> []) @
     (if has (h_cflags h) HIN_SSL then [(''HTTPS'', ''1'')] else [])"

text \<open>The pairs of a request; \<open>Inl\<close> is the error result.\<close>

definition fcgi_vars :: "fcgi_env \<Rightarrow> httpd \<Rightarrow> (int + (string \<times> string) list) option" where
  "fcgi_vars e h =
     (case hin_find_line (h_headers h) of
        None \<Rightarrow> None
      | Some (u, source, line) \<Rightarrow>
          if u = 0 then Some (Inl (-1))
          else case fst (hin_http_parse_header_line line) of
            None \<Rightarrow> Some (Inl (-1))
          | Some (method, target, version) \<Rightarrow>
              (case hin_parse_uri (sptr target) (int (slen target)) of (r, uri) \<Rightarrow>
                 if r < 0 then Some (Inl (-1))
                 else case fe_cwd e of None \<Rightarrow> Some (Inl (-1)) | Some cwd \<Rightarrow>
                   (case fe_file e of None \<Rightarrow> Some (Inl (-1)) | Some (dir, name) \<Rightarrow>
                      if cwd = [] \<or> length dir < length cwd - 1 then None
                      else map_option
                        (\<lambda>vars. Inr (fcgi_std_vars e h method target (query uri) cwd dir name @ vars @
                           [(''SERVER_NAME'', case h_hostname h of Some n \<Rightarrow> n | None \<Rightarrow> ''unknown'')]))
                        (header_vars source))))"

definition hin_fcgi_headers :: "fcgi_env \<Rightarrow> httpd \<Rightarrow> hbuf list \<Rightarrow> (int \<times> hbuf list) option" where
  "hin_fcgi_headers e h bufs =
     (case fcgi_vars e h of
        None \<Rightarrow> None
      | Some (Inl r) \<Rightarrow> Some (r, bufs)
      | Some (Inr ps) \<Rightarrow> params bufs ps)"

definition fcgi_begin :: "bool \<Rightarrow> int \<Rightarrow> hbuf list \<Rightarrow> hbuf list option" where
  "fcgi_begin reuse rid bufs =
     Option.bind (hin_fcgi_header bufs FCGI_BEGIN_REQUEST rid 8) (\<lambda>(_, bufs).
     case header_ptr bufs 8 of
       (None, _) \<Rightarrow> None
     | (Some at, bufs) \<Rightarrow>
         poke at (store16 (endian_swap16 FCGI_RESPONDER) @
                  [char_of (if reuse then HIN_FCGI_SOCKET_REUSE else 0)] @ replicate 5 NUL) bufs)"

definition fcgi_params :: "fcgi_env \<Rightarrow> int \<Rightarrow> httpd \<Rightarrow> hbuf list \<Rightarrow> hbuf list option" where
  "fcgi_params e rid h bufs =
     Option.bind (hin_fcgi_header bufs FCGI_PARAMS rid 0) (\<lambda>((i, pos), bufs).
     Option.bind (hin_fcgi_headers e h bufs) (\<lambda>(sz, bufs).
     Option.bind (poke (i, pos + 4) (store16 (endian_swap16 (word_of_int sz))) bufs) (\<lambda>bufs.
     let padding = (FCGI_ROUND_TO_PAD sz - sz) mod 256 in
     Option.bind (poke (i, pos + 6) [byte_char padding] bufs) (\<lambda>bufs.
     map_option snd (hin_fcgi_header (snd (header_ptr bufs (nat padding))) FCGI_PARAMS rid 0)))))"

text \<open>
  \<open>hin_fcgi_write_post\<close>: the chain, and how many bytes of the body the pipe still has to copy.
  Without a pipe the flag says whether the input was ended (\<open>hin_fcgi_stdin_done\<close>).
\<close>

function skip_headers :: "string_t \<Rightarrow> string_t option option" where
  "skip_headers source =
     (case hin_find_line source of
        None \<Rightarrow> None
      | Some (u, source', line) \<Rightarrow>
          if u = 0 then Some None
          else if slen line = 0 then Some (Some source')
          else skip_headers source')"
  by pat_completeness auto
termination
  by (relation "measure slen") (auto dest!: sym [of _ "hin_find_line _"] find_line_progress)

declare skip_headers.simps [simp del]

definition fcgi_stdin :: "int \<Rightarrow> string \<Rightarrow> hbuf list \<Rightarrow> hbuf list option" where
  "fcgi_stdin rid data bufs =
     (let num = int (length data); rounded = FCGI_ROUND_TO_PAD num
      in Option.bind (hin_fcgi_header bufs FCGI_STDIN rid num) (\<lambda>((i, pos), bufs).
         case header_ptr bufs (nat rounded) of
           (None, _) \<Rightarrow> None
         | (Some at, bufs) \<Rightarrow>
             Option.bind (poke (i, pos + 6) [byte_char (rounded - num)] bufs) (\<lambda>bufs. poke at data bufs)))"

datatype post_result = Stdin_done | Stdin_unfinished | Stdin_pipe int

definition hin_fcgi_write_post :: "int \<Rightarrow> httpd \<Rightarrow> hbuf list \<Rightarrow> (post_result \<times> hbuf list) option" where
  "hin_fcgi_write_post rid h bufs =
     (if h_method h \<noteq> HIN_METHOD_POST
      then map_option (\<lambda>(_, bufs). (Stdin_done, bufs)) (hin_fcgi_header bufs FCGI_STDIN rid 0)
      else case skip_headers (h_headers h) of
        None \<Rightarrow> None
      | Some None \<Rightarrow> Some (Stdin_unfinished, bufs)
      | Some (Some source) \<Rightarrow>
          let len = (if h_post_sz h \<ge> 0 \<and> slen source > nat (h_post_sz h)
                     then nat (h_post_sz h) else slen source);
              data = take len (sptr source)
          in map_option (Pair (Stdin_pipe (h_post_sz h - int len)))
               (if len = 0 then Some bufs else fcgi_stdin rid data bufs))"

definition fcgi_request ::
  "fcgi_env \<Rightarrow> bool \<Rightarrow> int \<Rightarrow> httpd \<Rightarrow> hbuf list \<Rightarrow> (post_result \<times> hbuf list) option" where
  "fcgi_request e reuse rid h bufs =
     Option.bind (fcgi_begin reuse rid bufs) (\<lambda>bufs.
     Option.bind (fcgi_params e rid h bufs) (\<lambda>bufs. hin_fcgi_write_post rid h bufs))"

text \<open>
  \<open>hin_fcgi_post_read_callback\<close>: the records appended to the output of the pipe; \<open>mem\<close> is the
  memory of the new buffer.
\<close>

definition stdin_records :: "int \<Rightarrow> (nat \<Rightarrow> string) \<Rightarrow> string \<Rightarrow> bool \<Rightarrow> string option" where
  "stdin_records rid mem data flush =
     (let num = int (length data); rounded = FCGI_ROUND_TO_PAD num;
          sz1 = rounded + 8 + (if flush then 8 else 0);
          bufs = [\<lparr>hb_mem = mem (nat sz1), hb_count = 0\<rparr>]
      in Option.bind (if num > 0 then fcgi_stdin rid data bufs else Some bufs) (\<lambda>bufs.
         Option.bind (if flush then map_option snd (hin_fcgi_header bufs FCGI_STDIN rid 0) else Some bufs)
           (\<lambda>bufs. Some (chain_text bufs))))"

definition hin_fcgi_post_read_callback ::
  "int \<Rightarrow> (nat \<Rightarrow> string) \<Rightarrow> pipe \<Rightarrow> pbuf \<Rightarrow> int \<Rightarrow> bool \<Rightarrow> (int \<times> pipe) option" where
  "hin_fcgi_post_read_callback rid mem p b num flush =
     map_option (\<lambda>t. (1, hin_pipe_append_raw p
         \<lparr>pb_data = t, pb_sz = int (length t), pb_req = 0, pb_pos = 0, pb_flags = HIN_SOCKET\<rparr>))
       (stdin_records rid mem (take (nat num) (pb_data b)) flush)"

subsection \<open>Reading a chain\<close>

declare header_ptr.simps [simp del] header_raw.simps(3) [simp del]

text \<open>\<open>header_ptr\<close> and \<open>header_raw\<close> by the last buffer of the chain.\<close>

lemmas max_line_simps = new_buffer_def hb_free_def READ_SZ_def HIN_HTTPD_MAX_HEADER_LINE_SIZE_def

lemma header_ptr_fresh:
  "len \<le> HIN_HTTPD_MAX_HEADER_LINE_SIZE \<Longrightarrow>
   header_ptr [new_buffer len] len = (Some (0, 0), [(new_buffer len)\<lparr>hb_count := len\<rparr>])"
  by (subst header_ptr.simps(3)) (simp add: max_line_simps Let_def)

lemma header_ptr_eq:
  "bufs \<noteq> [] \<Longrightarrow> len \<le> HIN_HTTPD_MAX_HEADER_LINE_SIZE \<Longrightarrow>
   header_ptr bufs len =
     (if len \<le> hb_free (last bufs)
      then (Some (length bufs - 1, hb_count (last bufs)),
            butlast bufs @ [(last bufs)\<lparr>hb_count := hb_count (last bufs) + len\<rparr>])
      else (Some (length bufs, 0), bufs @ [(new_buffer len)\<lparr>hb_count := len\<rparr>]))"
proof (induction bufs)
  case (Cons b rest)
  show ?case
  proof (cases rest)
    case Nil
    then show ?thesis using Cons.prems by (subst Nil, subst header_ptr.simps(3)) (simp add: header_ptr_fresh)
  next
    case (Cons b' rest')
    then show ?thesis using Cons.IH Cons.prems(2) by (subst Cons, subst header_ptr.simps(2)) simp
  qed
qed simp

lemma header_ptr_too_long:
  "HIN_HTTPD_MAX_HEADER_LINE_SIZE < len \<Longrightarrow> fst (header_ptr bufs len) = None"
proof (induction bufs)
  case Nil
  then show ?case by (simp add: header_ptr.simps(1))
next
  case (Cons b rest)
  then show ?case
    by (cases rest) (simp_all add: header_ptr.simps(2) header_ptr.simps(3) split_beta)
qed

definition chain_pos :: "hbuf list \<Rightarrow> chain_at \<Rightarrow> nat" where
  "chain_pos bufs at = (case at of (i, pos) \<Rightarrow> length (chain_text (take i bufs)) + pos)"

text \<open>The pointer is to \<open>len\<close> bytes in use.\<close>

definition at_in :: "hbuf list \<Rightarrow> chain_at \<Rightarrow> nat \<Rightarrow> bool" where
  "at_in bufs at len \<longleftrightarrow>
     (case at of (i, pos) \<Rightarrow> i < length bufs \<and> pos + len \<le> hb_count (bufs ! i))"

text \<open>The chain only grew.\<close>

definition extends :: "hbuf list \<Rightarrow> hbuf list \<Rightarrow> bool" where
  "extends bufs bufs' \<longleftrightarrow>
     length bufs \<le> length bufs' \<and>
     (\<forall>j < length bufs. hb_count (bufs ! j) \<le> hb_count (bufs' ! j) \<and>
        (Suc j < length bufs \<longrightarrow> hb_count (bufs' ! j) = hb_count (bufs ! j)))"

lemma extends_refl [simp]: "extends bufs bufs"
  by (simp add: extends_def)

lemma extends_trans [trans]: "extends a b \<Longrightarrow> extends b c \<Longrightarrow> extends a c"
  unfolding extends_def
proof (intro conjI allI impI)
  fix j assume c: "length a \<le> length b \<and> (\<forall>j < length a. hb_count (a ! j) \<le> hb_count (b ! j) \<and>
      (Suc j < length a \<longrightarrow> hb_count (b ! j) = hb_count (a ! j)))"
    "length b \<le> length c \<and> (\<forall>j < length b. hb_count (b ! j) \<le> hb_count (c ! j) \<and>
      (Suc j < length b \<longrightarrow> hb_count (c ! j) = hb_count (b ! j)))"
  show "length a \<le> length c" using c by linarith
  assume j: "j < length a"
  then have "j < length b" "hb_count (a ! j) \<le> hb_count (b ! j)" using c(1) by auto
  then show "hb_count (a ! j) \<le> hb_count (c ! j)" using c(2) by (auto intro: le_trans)
  assume "Suc j < length a"
  then show "hb_count (c ! j) = hb_count (a ! j)" using c j by simp
qed

lemma extends_counts:
  "map hb_count b' = map hb_count b \<Longrightarrow> extends a b' \<longleftrightarrow> extends a b"
  "map hb_count b' = map hb_count b \<Longrightarrow> at_in b' at len \<longleftrightarrow> at_in b at len"
  unfolding extends_def at_in_def
  by (auto simp: list_eq_iff_nth_eq split: prod.splits)

lemma chain_text_append [simp]: "chain_text (xs @ ys) = chain_text xs @ chain_text ys"
  by (simp add: chain_text_def)

lemma chain_split:
  assumes "i < length bufs"
  shows "chain_text bufs = chain_text (take i bufs) @ take (hb_count (bufs ! i)) (hb_mem (bufs ! i)) @
           chain_text (drop (Suc i) bufs)"
  using arg_cong [OF id_take_nth_drop [OF assms], of chain_text] by simp


lemma chain_wf_nth: "chain_wf bufs \<Longrightarrow> i < length bufs \<Longrightarrow> hb_count (bufs ! i) \<le> hb_sz (bufs ! i)"
  by (simp add: chain_wf_def)

lemma chain_pos_bound:
  "chain_wf bufs \<Longrightarrow> at_in bufs at len \<Longrightarrow> chain_pos bufs at + len \<le> length (chain_text bufs)"
  by (auto simp: chain_pos_def at_in_def chain_split [of "fst at"] chain_wf_nth split: prod.splits)

lemma length_chain_text:
  "\<forall>b\<in>set bufs. hb_count b \<le> hb_sz b \<Longrightarrow> length (chain_text bufs) = sum_list (map hb_count bufs)"
  by (induction bufs) auto

lemma chain_pos_counts:
  assumes "chain_wf bufs" "chain_wf bufs'" "map hb_count bufs' = map hb_count bufs"
  shows "chain_pos bufs' at = chain_pos bufs at"
proof -
  have "length (chain_text (take i b)) = sum_list (take i (map hb_count b))" if "chain_wf b" for i b
    using that length_chain_text [of "take i b"] by (auto simp: chain_wf_def take_map dest: in_set_takeD)
  then show ?thesis using assms by (cases at) (simp add: chain_pos_def)
qed

text \<open>A store inside the bytes in use.\<close>

lemma poke_inside:
  assumes "chain_wf bufs" "at_in bufs at len" "length data \<le> len"
  shows "\<exists>bufs'. poke at data bufs = Some bufs' \<and> chain_wf bufs' \<and>
           chain_text bufs' = mem_write (chain_pos bufs at) data (chain_text bufs) \<and>
           length bufs' = length bufs \<and> map hb_count bufs' = map hb_count bufs \<and>
           (\<forall>at. chain_pos bufs' at = chain_pos bufs at) \<and> map hb_sz bufs' = map hb_sz bufs"
proof -
  obtain i pos where at: "at = (i, pos)" by (cases at)
  have i: "i < length bufs" and le: "pos + len \<le> hb_count (bufs ! i)"
    using assms(2) by (auto simp: at_in_def at)
  have sz: "hb_count (bufs ! i) \<le> hb_sz (bufs ! i)" using assms(1) i by (rule chain_wf_nth)
  define b where "b = (bufs ! i)\<lparr>hb_mem := mem_write pos data (hb_mem (bufs ! i))\<rparr>"
  have fit: "pos + length data \<le> hb_sz (bufs ! i)" using le sz assms(3) by simp
  have b: "hb_sz b = hb_sz (bufs ! i)" "hb_count b = hb_count (bufs ! i)"
    using fit by (simp_all add: b_def)
  have poke: "poke at data bufs = Some (bufs[i := b])"
    using fit by (simp add: poke_def at b_def Let_def)
  have used: "take (hb_count b) (hb_mem b) =
      mem_write pos data (take (hb_count (bufs ! i)) (hb_mem (bufs ! i)))"
  proof -
    have "length data = 0 \<and> hb_count (bufs ! i) = pos" if "hb_count (bufs ! i) \<le> pos"
      using that le assms(3) by linarith
    then have "hb_count (bufs ! i) \<le> pos \<Longrightarrow> data = [] \<and>
        take (hb_count (bufs ! i)) (hb_mem (bufs ! i)) = take pos (hb_mem (bufs ! i))"
      by (metis length_0_conv)
    then show ?thesis using le sz assms(3)
      by (cases "hb_count (bufs ! i) \<le> pos") (simp_all add: b_def mem_write_def min_def take_drop)
  qed
  have "chain_text (bufs[i := b]) =
      chain_text (take i bufs) @ take (hb_count b) (hb_mem b) @ chain_text (drop (Suc i) bufs)"
    using chain_split [of i "bufs[i := b]"] i by simp
  also have "\<dots> = mem_write (chain_pos bufs at) data (chain_text bufs)"
    using i le sz assms(3)
    by (simp add: used chain_split [OF i] mem_write_def chain_pos_def at)
  finally have ctext: "chain_text (bufs[i := b]) = mem_write (chain_pos bufs at) data (chain_text bufs)" .
  have counts: "map hb_count (bufs[i := b]) = map hb_count bufs" "map hb_sz (bufs[i := b]) = map hb_sz bufs"
    using b i by (simp_all add: map_update list_update_same_conv)
  have wf: "chain_wf (bufs[i := b])"
    using assms(1) b i set_update_subset_insert [of bufs i b] sz
    by (auto simp: chain_wf_def)
  show ?thesis
    using poke ctext counts wf chain_pos_counts [OF assms(1) wf counts(1)]
    by (intro exI [of _ "bufs[i := b]"]) simp
qed

text \<open>Reserving \<open>len\<close> bytes and storing into them.\<close>

lemma reserve:
  assumes "chain_wf bufs" "len \<le> HIN_HTTPD_MAX_HEADER_LINE_SIZE"
  shows "\<exists>at bufs'. header_ptr bufs len = (Some at, bufs') \<and> chain_wf bufs' \<and> extends bufs bufs' \<and>
           at_in bufs' at len \<and> chain_pos bufs' at = length (chain_text bufs) \<and>
           take (length (chain_text bufs)) (chain_text bufs') = chain_text bufs \<and>
           length (chain_text bufs') = length (chain_text bufs) + len \<and>
           at = (length bufs' - 1, hb_count (last bufs') - len) \<and> len \<le> hb_count (last bufs') \<and>
           (len \<le> hb_free (last bufs) \<longrightarrow> hb_free (last bufs) = hb_free (last bufs') + len)"
proof -
  have ne: "bufs \<noteq> []" and last_wf: "hb_count (last bufs) \<le> hb_sz (last bufs)"
    and wf: "\<And>b. b \<in> set bufs \<Longrightarrow> hb_count b \<le> hb_sz b"
    using assms(1) by (auto simp: chain_wf_def)
  define b where "b = last bufs"
  have bufs: "bufs = butlast bufs @ [b]" using ne by (simp add: b_def)
  show ?thesis
  proof (cases "len \<le> hb_free b")
    case True
    let ?b = "b\<lparr>hb_count := hb_count b + len\<rparr>"
    let ?c = "butlast bufs @ [?b]"
    have fit: "hb_count b + len \<le> hb_sz b" using True last_wf by (simp add: hb_free_def b_def)
    have hp: "header_ptr bufs len = (Some (length bufs - 1, hb_count b), ?c)"
      using header_ptr_eq [OF ne assms(2)] True by (simp add: b_def)
    have "chain_wf ?c" using wf fit by (auto simp: chain_wf_def dest: in_set_butlastD)
    moreover have lst: "\<And>j. j < length bufs \<Longrightarrow> \<not> j < length bufs - Suc 0 \<Longrightarrow> j = length bufs - Suc 0" by simp
    moreover have "extends bufs ?c"
      using ne by (auto simp: extends_def b_def nth_append nth_butlast last_conv_nth) (metis lst le_add1)
    moreover have "at_in ?c (length bufs - 1, hb_count b) len" using ne by (simp add: at_in_def nth_append)
    moreover have text0: "chain_text bufs = chain_text (butlast bufs) @ take (hb_count b) (hb_mem b)"
      by (subst bufs) simp
    moreover have "take (length (chain_text bufs)) (chain_text ?c) = chain_text bufs"
      using fit by (simp add: text0 take_append min_def)
    moreover have "length (chain_text ?c) = length (chain_text bufs) + len" using fit by (simp add: text0)
    moreover have "chain_pos ?c (length bufs - 1, hb_count b) = length (chain_text bufs)"
      using ne fit by (simp add: chain_pos_def text0)
    moreover have "hb_free (last bufs) = hb_free (last ?c) + len" using fit by (simp add: hb_free_def b_def)
    ultimately show ?thesis using hp by auto
  next
    case False
    let ?b = "(new_buffer len)\<lparr>hb_count := len\<rparr>"
    have hp: "header_ptr bufs len = (Some (length bufs, 0), bufs @ [?b])"
      using header_ptr_eq [OF ne assms(2)] False by (simp add: b_def)
    have sz: "len \<le> hb_sz ?b" by (simp add: new_buffer_def READ_SZ_def Let_def)
    have "chain_wf (bufs @ [?b])" using wf sz by (auto simp: chain_wf_def)
    moreover have "extends bufs (bufs @ [?b])"
      by (auto simp: extends_def nth_append)
    moreover have "at_in (bufs @ [?b]) (length bufs, 0) len" by (simp add: at_in_def)
    moreover have "chain_pos (bufs @ [?b]) (length bufs, 0) = length (chain_text bufs)"
      by (simp add: chain_pos_def)
    ultimately show ?thesis using hp sz False by (auto simp: b_def)
  qed
qed

lemma take_mem_write_prefix: "n \<le> pos \<Longrightarrow> pos \<le> length m \<Longrightarrow> take n (mem_write pos d m) = take n m"
  by (simp add: mem_write_def)

lemma mem_write_end:
  "length m = pos + len \<Longrightarrow> length d \<le> len \<Longrightarrow>
   mem_write pos d m = take pos m @ d @ drop (pos + length d) m"
  by (simp add: mem_write_def)

lemma store:
  assumes "chain_wf bufs" "len \<le> HIN_HTTPD_MAX_HEADER_LINE_SIZE" "length d \<le> len"
  shows "\<exists>at bufs1 bufs2 junk. header_ptr bufs len = (Some at, bufs1) \<and> poke at d bufs1 = Some bufs2 \<and>
           chain_wf bufs2 \<and> extends bufs bufs2 \<and> at_in bufs2 at len \<and>
           chain_pos bufs2 at = length (chain_text bufs) \<and>
           chain_text bufs2 = chain_text bufs @ d @ junk \<and> length junk = len - length d \<and>
           (len \<le> hb_free (last bufs) \<longrightarrow> hb_free (last bufs) = hb_free (last bufs2) + len)"
proof -
  obtain at bufs1 where r: "header_ptr bufs len = (Some at, bufs1)" "chain_wf bufs1" "extends bufs bufs1"
    "at_in bufs1 at len" "chain_pos bufs1 at = length (chain_text bufs)"
    "take (length (chain_text bufs)) (chain_text bufs1) = chain_text bufs"
    "length (chain_text bufs1) = length (chain_text bufs) + len"
    "len \<le> hb_free (last bufs) \<longrightarrow> hb_free (last bufs) = hb_free (last bufs1) + len"
    using reserve [OF assms(1,2)] by blast
  obtain bufs2 where p: "poke at d bufs1 = Some bufs2" "chain_wf bufs2"
    "chain_text bufs2 = mem_write (chain_pos bufs1 at) d (chain_text bufs1)"
    "length bufs2 = length bufs1" "map hb_count bufs2 = map hb_count bufs1"
    "chain_pos bufs2 at = chain_pos bufs1 at" "map hb_sz bufs2 = map hb_sz bufs1"
    using poke_inside [OF r(2,4) assms(3)] by blast
  have "chain_text bufs2 = chain_text bufs @ d @ drop (length (chain_text bufs) + length d) (chain_text bufs1)"
    using p(3) r(5,6) by (simp add: mem_write_def)
  moreover have "hb_free (last bufs2) = hb_free (last bufs1)"
  proof -
    have ne: "bufs2 \<noteq> []" "bufs1 \<noteq> []" using p(2) r(2) by (auto simp: chain_wf_def)
    have "hb_count (last bufs2) = hb_count (last bufs1)" "hb_sz (last bufs2) = hb_sz (last bufs1)"
      using ne last_map [of bufs2] last_map [of bufs1] p(5,7) by metis+
    then show ?thesis by (simp add: hb_free_def)
  qed
  moreover have "extends bufs bufs2" "at_in bufs2 at len"
    using r(3,4) extends_counts [OF p(5)] by auto
  ultimately show ?thesis using r p assms(3) by auto
qed

text \<open>Storing a value and its terminator, which may lie past the bytes in use.\<close>

lemma store_over:
  assumes "chain_wf bufs" "len \<le> HIN_HTTPD_MAX_HEADER_LINE_SIZE" "length d = len"
    and hp: "header_ptr bufs len = (Some at, bufs1)" and pk: "poke at (d @ e) bufs1 = Some bufs2"
  shows "chain_wf bufs2 \<and> extends bufs bufs2 \<and> chain_text bufs2 = chain_text bufs @ d \<and>
    (len \<le> hb_free (last bufs) \<longrightarrow> hb_free (last bufs) = hb_free (last bufs2) + len)"
proof -
  have r: "chain_wf bufs1" "extends bufs bufs1"
    "take (length (chain_text bufs)) (chain_text bufs1) = chain_text bufs"
    "length (chain_text bufs1) = length (chain_text bufs) + len"
    "at = (length bufs1 - 1, hb_count (last bufs1) - len)" "len \<le> hb_count (last bufs1)"
    "len \<le> hb_free (last bufs) \<longrightarrow> hb_free (last bufs) = hb_free (last bufs1) + len"
    using reserve [OF assms(1,2)] hp by auto
  define b where "b = last bufs1"
  have ne: "bufs1 \<noteq> []" using r(1) by (simp add: chain_wf_def)
  have b1: "bufs1 ! (length bufs1 - 1) = b" using ne by (simp add: b_def last_conv_nth)
  have b2': "bufs1 = butlast bufs1 @ [b]" using ne by (simp add: b_def)
  define b2 where "b2 = b\<lparr>hb_mem := mem_write (hb_count b - len) (d @ e) (hb_mem b)\<rparr>"
  have fit: "hb_count b - len + length (d @ e) \<le> hb_sz b"
    and b2: "bufs2 = bufs1[length bufs1 - 1 := b2]"
    using pk b1 unfolding r(5) b_def [symmetric] b2_def
    by (auto simp: poke_def Let_def split: if_splits)
  have bufs2: "bufs2 = butlast bufs1 @ [b2]" using ne b2' b2 by (metis list_update_length length_butlast)
  have keep: "hb_count b2 = hb_count b" "hb_sz b2 = hb_sz b" using fit by (simp_all add: b2_def)
  have text1: "chain_text bufs1 = chain_text (butlast bufs1) @ take (hb_count b) (hb_mem b)"
    by (subst b2') simp
  have sz: "hb_count b \<le> hb_sz b" using r(1) ne by (simp add: chain_wf_def b_def)
  have pre: "chain_text bufs = chain_text (butlast bufs1) @ take (hb_count b - len) (hb_mem b)"
  proof -
    have "length (chain_text bufs) = length (chain_text (butlast bufs1)) + (hb_count b - len)"
      using r(4,6) text1 sz by (simp add: b_def)
    then show ?thesis using r(3) text1 by (simp add: take_append min_def)
  qed
  have less: "0 < len \<Longrightarrow> \<not> hb_count (last bufs1) \<le> hb_count (last bufs1) - len" using r(6) by linarith
  have "chain_text bufs2 = chain_text bufs @ d"
    using fit sz r(6) assms(3) less unfolding bufs2 pre
    by (cases "len = 0") (simp_all add: keep b2_def mem_write_def b_def min_def)
  moreover have cnt: "map hb_count bufs2 = map hb_count bufs1"
    unfolding bufs2 by (subst (2) b2') (simp add: keep)
  moreover have "chain_wf bufs2"
    using r(1) sz keep unfolding bufs2 by (auto simp: chain_wf_def dest: in_set_butlastD)
  moreover have "hb_free (last bufs2) = hb_free (last bufs1)"
    unfolding bufs2 hb_free_def by (simp add: keep b_def [symmetric])
  ultimately show ?thesis using r(2,7) extends_counts(1) [OF cnt] by auto
qed

lemma raw_in_chain:
  assumes "chain_wf bufs" "length data \<le> HIN_HTTPD_MAX_HEADER_LINE_SIZE"
  shows "chain_wf (snd (header_raw bufs data)) \<and> extends bufs (snd (header_raw bufs data)) \<and>
    chain_text (snd (header_raw bufs data)) = chain_text bufs @ data \<and>
    (length data \<le> hb_free (last bufs) \<longrightarrow>
      hb_free (last bufs) = hb_free (last (snd (header_raw bufs data))) + length data)"
  using assms
proof (induction bufs data rule: header_raw.induct)
  case (2 b b' rest data)
  obtain r where r: "header_raw (b' # rest) data = r" by blast
  have "extends (b # b' # rest) (b # snd r)" if "extends (b' # rest) (snd r)"
    using that by (auto simp: extends_def nth_Cons split: nat.splits)
  moreover have "snd r \<noteq> []" if "chain_wf (snd r)" using that by (simp add: chain_wf_def)
  moreover have "chain_wf (snd r) \<and> extends (b' # rest) (snd r) \<and>
      chain_text (snd r) = chain_text (b' # rest) @ data \<and>
      (length data \<le> hb_free (last (b' # rest)) \<longrightarrow>
        hb_free (last (b' # rest)) = hb_free (last (snd r)) + length data)"
  proof -
    have "chain_wf (b' # rest)" using 2(2) by (simp add: chain_wf_def)
    then show ?thesis using 2(1) [OF _ 2(3)] unfolding r by blast
  qed
  moreover have "header_raw (b # b' # rest) data = (fst r, b # snd r)" using r by (simp add: split_beta)
  moreover have "hb_count b \<le> hb_sz b" using 2(2) by (simp add: chain_wf_def)
  ultimately show ?case by (simp add: chain_wf_def)
next
  case (3 b data)
  have wf: "hb_count b \<le> hb_sz b" using 3 by (simp add: chain_wf_def)
  show ?case
  proof (cases "length data \<le> hb_free b")
    case True
    then have "hb_count b + length data \<le> hb_sz b" using wf by (simp add: hb_free_def)
    then show ?thesis
      using 3 True by (subst (1 2 3 4) header_raw.simps(3)) (simp add: chain_wf_def extends_def hb_free_def)
  next
    case False
    then have nb: "chain_wf [new_buffer (length data)]" by (simp add: chain_wf_def new_buffer_def Let_def)
    define R where "R = header_raw [new_buffer (length data)] data"
    have "header_raw [b] data = (fst R, b # snd R)"
      using 3 False by (subst header_raw.simps(3)) (simp add: R_def split_beta)
    moreover have "chain_wf (snd R) \<and> chain_text (snd R) = data"
      using 3 False nb by (simp add: R_def)
    ultimately show ?thesis using wf False by (simp add: chain_wf_def extends_def)
  qed
qed (simp add: chain_wf_def)

subsection \<open>Pairs on the wire\<close>

text \<open>The length of the FastCGI specification: one byte below 128, else four with the high bit set.\<close>

definition pair_lens :: "nat \<Rightarrow> nat \<Rightarrow> string" where
  "pair_lens n m =
     (if m \<ge> 127
      then [char_of n, char_of ((m div 2 ^ 24) mod 0x80 + 0x80), char_of ((m div 2 ^ 16) mod 0x100),
            char_of ((m div 2 ^ 8) mod 0x100), char_of (m mod 0x100)]
      else [char_of n, char_of m])"

definition pair_bytes :: "string \<times> string \<Rightarrow> string" where
  "pair_bytes p = (case p of (name, value) \<Rightarrow>
     if length name \<ge> 127 then [] else pair_lens (length name) (length value) @ name @ value)"

lemma pair_lens_length: "length (pair_lens n m) \<le> 5" by (simp add: pair_lens_def)

lemma param_result:
  assumes "chain_wf bufs" "param bufs name value = Some (n, bufs')"
  shows "chain_wf bufs' \<and> extends bufs bufs' \<and> n = int (length (pair_bytes (name, value))) \<and>
    chain_text bufs' = chain_text bufs @ pair_bytes (name, value) \<and>
    (length (pair_bytes (name, value)) \<le> hb_free (last bufs) \<longrightarrow>
       hb_free (last bufs) = hb_free (last bufs') + length (pair_bytes (name, value)))"
proof (cases "length name \<ge> 127")
  case True
  then show ?thesis using assms by (simp add: param_def pair_bytes_def)
next
  case False
  let ?L = "pair_lens (length name) (length value)"
  have small: "length ?L \<le> HIN_HTTPD_MAX_HEADER_LINE_SIZE" "length name \<le> HIN_HTTPD_MAX_HEADER_LINE_SIZE"
    using pair_lens_length [of "length name" "length value"] False
    by (simp_all add: HIN_HTTPD_MAX_HEADER_LINE_SIZE_def)
  obtain at b1 b2 junk where s: "header_ptr bufs (length ?L) = (Some at, b1)" "poke at ?L b1 = Some b2"
    "chain_wf b2" "extends bufs b2" "chain_text b2 = chain_text bufs @ ?L @ junk" "length junk = 0"
    "length ?L \<le> hb_free (last bufs) \<longrightarrow> hb_free (last bufs) = hb_free (last b2) + length ?L"
    using store [OF assms(1) small(1), of ?L] by auto
  define b3 where "b3 = snd (header_raw b2 name)"
  note r = raw_in_chain [OF s(3) small(2), folded b3_def]
  obtain at' b4 where h: "header_ptr b3 (length value) = (Some at', b4)"
    "poke at' (value @ [NUL]) b4 = Some bufs'" "n = int (length ?L + length name + length value)"
    using assms(2) s(1,2) False unfolding param_def Let_def pair_lens_def [symmetric] b3_def
    by (auto simp: bind_eq_Some_conv split: prod.splits option.splits)
  have "length value \<le> HIN_HTTPD_MAX_HEADER_LINE_SIZE"
    using h(1) header_ptr_too_long [of "length value" b3] by (auto simp: not_less [symmetric])
  then have o: "chain_wf bufs' \<and> extends b3 bufs' \<and> chain_text bufs' = chain_text b3 @ value \<and>
     (length value \<le> hb_free (last b3) \<longrightarrow> hb_free (last b3) = hb_free (last bufs') + length value)"
    using store_over h r by blast
  then show ?thesis using s r h(3) False
    by (auto simp: pair_bytes_def intro: extends_trans)
qed

text \<open>With room for the pair and one byte the stores are in bounds.\<close>

lemma param_returns:
  assumes "chain_wf bufs" "length (pair_bytes (name, value)) < hb_free (last bufs)"
    "length value \<le> HIN_HTTPD_MAX_HEADER_LINE_SIZE"
  shows "\<exists>r. param bufs name value = Some r"
proof (cases "length name \<ge> 127")
  case True
  then show ?thesis by (simp add: param_def)
next
  case False
  let ?L = "pair_lens (length name) (length value)"
  have small: "length ?L \<le> HIN_HTTPD_MAX_HEADER_LINE_SIZE" "length name \<le> HIN_HTTPD_MAX_HEADER_LINE_SIZE"
    using pair_lens_length [of "length name" "length value"] False
    by (simp_all add: HIN_HTTPD_MAX_HEADER_LINE_SIZE_def)
  have room: "length ?L + length name + length value < hb_free (last bufs)"
    using assms(2) False by (simp add: pair_bytes_def)
  obtain at b1 b2 where s: "header_ptr bufs (length ?L) = (Some at, b1)" "poke at ?L b1 = Some b2"
    "chain_wf b2" "length ?L \<le> hb_free (last bufs) \<longrightarrow> hb_free (last bufs) = hb_free (last b2) + length ?L"
    using store [OF assms(1) small(1), of ?L] by auto
  define b3 where "b3 = snd (header_raw b2 name)"
  note r = raw_in_chain [OF s(3) small(2), folded b3_def]
  have f3: "length value < hb_free (last b3)" using r s(4) room by auto
  have ne: "b3 \<noteq> []" using r by (simp add: chain_wf_def)
  have "\<exists>b5. poke (length b3 - 1, hb_count (last b3)) (value @ [NUL])
      (butlast b3 @ [(last b3)\<lparr>hb_count := hb_count (last b3) + length value\<rparr>]) = Some b5"
    using f3 ne by (simp add: poke_def nth_append hb_free_def Let_def)
  then show ?thesis
    using s(1,2) False header_ptr_eq [OF ne assms(3)] f3
    unfolding param_def Let_def pair_lens_def [symmetric] b3_def [symmetric]
    by (auto simp: b3_def)
qed

lemma extends_at:
  assumes "extends bufs bufs'" "chain_wf bufs" "chain_wf bufs'" "at_in bufs at len"
  shows "at_in bufs' at len \<and> chain_pos bufs' at = chain_pos bufs at"
proof -
  obtain i pos where at: "at = (i, pos)" "i < length bufs" "pos + len \<le> hb_count (bufs ! i)"
    using assms(4) by (cases at) (auto simp: at_in_def)
  have c: "map hb_count (take i bufs') = map hb_count (take i bufs)"
    using assms(1) at(2) by (intro nth_equalityI) (auto simp: extends_def)
  have "length (chain_text (take i b)) = sum_list (map hb_count (take i b))" if "chain_wf b" for b
    using that length_chain_text [of "take i b"] by (auto simp: chain_wf_def dest: in_set_takeD)
  then have "length (chain_text (take i bufs')) = length (chain_text (take i bufs))"
    using c assms(2,3) by simp
  moreover have "hb_count (bufs ! i) \<le> hb_count (bufs' ! i)" "i < length bufs'"
    using assms(1) at(2) by (auto simp: extends_def)
  ultimately show ?thesis using at by (simp add: chain_pos_def at_in_def)
qed

subsection \<open>Records\<close>

definition be16 :: "int \<Rightarrow> string" where
  "be16 n = store16 (endian_swap16 (word_of_int n))"

definition record_head :: "nat \<Rightarrow> int \<Rightarrow> int \<Rightarrow> int \<Rightarrow> string" where
  "record_head type rid sz pad = [char_of (1 :: nat), char_of type] @ be16 rid @ be16 sz @ [byte_char pad]"

lemma length_be16 [simp]: "length (be16 n) = 2"
  by (simp add: be16_def store16_def)

lemma length_record_head [simp]: "length (record_head type rid sz pad) = 7"
  by (simp add: record_head_def)

lemma byte_char_0: "byte_char 0 = char_of (0 :: nat)"
  by (simp add: byte_char_def)

lemma swap16_unat:
  "unat (endian_swap16 w) mod 256 = unat w div 256" "unat (endian_swap16 w) div 256 = unat w mod 256"
proof -
  have e: "x mod 256 = take_bit 8 x" "x div 256 = drop_bit 8 x" for x :: nat
    by (simp_all add: take_bit_eq_mod drop_bit_eq_div)
  have bits: "bit (unat v) n = (n < 16 \<and> bit v n)" for v :: u16 and n
    by (auto simp: bit_simps dest: bit_imp_le_length)
  show "unat (endian_swap16 w) mod 256 = unat w div 256"
    unfolding e
  proof (rule bit_eqI)
    fix n show "bit (take_bit 8 (unat (endian_swap16 w))) n = bit (drop_bit 8 (unat w)) n"
      by (cases "n < 8") (auto simp: bit_take_bit_iff bit_drop_bit_eq bits swap16_bits rev_bit_def)
  qed
  show "unat (endian_swap16 w) div 256 = unat w mod 256"
    unfolding e
  proof (rule bit_eqI)
    fix n show "bit (drop_bit 8 (unat (endian_swap16 w))) n = bit (take_bit 8 (unat w)) n"
      by (cases "n < 8") (auto simp: bit_take_bit_iff bit_drop_bit_eq bits swap16_bits rev_bit_def)
  qed
qed

lemma be16_eq:
  assumes "0 \<le> n" "n < 65536"
  shows "be16 n = [char_of (nat n div 256), char_of (nat n mod 256)]"
proof -
  have "uint (word_of_int n :: u16) = n"
    unfolding uint_word_of_int_eq using assms by (intro take_bit_int_eq_self) auto
  then have u: "unat (word_of_int n :: u16) = nat n" by (metis nat_uint_eq)
  show ?thesis unfolding be16_def store16_def swap16_unat u ..
qed

lemma be16_code:
  assumes "0 \<le> n" "n < 65536"
  shows "256 * code (be16 n ! 0) + code (be16 n ! 1) = nat n"
proof -
  have "nat n div 256 < 256" using assms by (simp add: nat_less_iff less_mult_imp_div_less)
  then have "code (be16 n ! 0) = nat n div 256" "code (be16 n ! 1) = nat n mod 256"
    by (simp_all add: be16_eq [OF assms] code_def)
  then show ?thesis by (metis mult_div_mod_eq)
qed

lemma round_to_pad:
  assumes "0 \<le> n" "n \<le> 2 ^ 30"
  shows "FCGI_ROUND_TO_PAD n = (n + 7) div 8 * 8"
proof (cases "n = 0")
  case True
  then show ?thesis by (simp add: FCGI_ROUND_TO_PAD_def)
next
  case False
  have "sint (ucast (((word_of_int (n - 1) :: u64) div 8 + 1) * 8) :: u32) = ((n - 1) div 8 + 1) * 8"
  proof -
    define m where "m = ((n - 1) div 8 + 1) * 8"
    have m: "0 \<le> m" "m < 2 ^ 31" using False assms by (auto simp: m_def)
    have "uint (word_of_int (n - 1) :: u64) = n - 1"
      unfolding uint_word_of_int_eq using False assms by (intro take_bit_int_eq_self) auto
    then have "uint ((word_of_int (n - 1) :: u64) div 8) = (n - 1) div 8"
      by (simp only: uint_div) simp
    then have "(word_of_int (n - 1) :: u64) div 8 = word_of_int ((n - 1) div 8)"
      by (metis word_of_int_uint)
    then have "((word_of_int (n - 1) :: u64) div 8 + 1) * 8 = word_of_int m"
      by (simp add: m_def)
    moreover have "(ucast (word_of_int m :: u64) :: u32) = word_of_int m"
      using m by (simp add: ucast_eq uint_word_of_int take_bit_int_eq_self)
    moreover have "sint (word_of_int m :: u32) = m"
      unfolding sint_sbintrunc' using m by (intro signed_take_bit_int_eq_self) auto
    ultimately show ?thesis by (simp add: m_def)
  qed
  moreover have "((n - 1) div 8 + 1) * 8 = (n + 7) div 8 * 8" by presburger
  ultimately show ?thesis by (simp add: FCGI_ROUND_TO_PAD_def)
qed

lemma header_result:
  assumes "chain_wf bufs"
  shows "\<exists>at bufs' r. hin_fcgi_header bufs type rid sz = Some (at, bufs') \<and> chain_wf bufs' \<and>
    extends bufs bufs' \<and> at_in bufs' at 8 \<and> chain_pos bufs' at = length (chain_text bufs) \<and>
    chain_text bufs' = chain_text bufs @ record_head type rid sz 0 @ [r] \<and>
    (8 \<le> hb_free (last bufs) \<longrightarrow> hb_free (last bufs) = hb_free (last bufs') + 8)"
proof -
  have "8 \<le> HIN_HTTPD_MAX_HEADER_LINE_SIZE" "length (record_head type rid sz 0) \<le> 8"
    by (simp_all add: HIN_HTTPD_MAX_HEADER_LINE_SIZE_def)
  then obtain at b1 b2 junk where s: "header_ptr bufs 8 = (Some at, b1)"
    "poke at (record_head type rid sz 0) b1 = Some b2" "chain_wf b2" "extends bufs b2" "at_in b2 at 8"
    "chain_pos b2 at = length (chain_text bufs)"
    "chain_text b2 = chain_text bufs @ record_head type rid sz 0 @ junk"
    "length junk = 8 - length (record_head type rid sz 0)"
    "8 \<le> hb_free (last bufs) \<longrightarrow> hb_free (last bufs) = hb_free (last b2) + 8"
    using store [OF assms] by blast
  then obtain r where "junk = [r]" by (auto simp: length_Suc_conv)
  moreover have "hin_fcgi_header bufs type rid sz = Some (at, b2)"
    using s(1,2) by (simp add: hin_fcgi_header_def record_head_def be16_def byte_char_0)
  ultimately show ?thesis using s by auto
qed

text \<open>The reader of the specification: type, request and content of each record.\<close>

function records_decode :: "string \<Rightarrow> (nat \<times> nat \<times> string) list option" where
  "records_decode s =
     (if s = [] then Some []
      else if length s < 8 \<or> code (s ! 0) \<noteq> 1 then None
      else
        let len = 256 * code (s ! 4) + code (s ! 5); pad = code (s ! 6)
        in if length s < 8 + len + pad then None
           else map_option (Cons (code (s ! 1), 256 * code (s ! 2) + code (s ! 3), take len (drop 8 s)))
                  (records_decode (drop (8 + len + pad) s)))"
  by pat_completeness auto
termination by (relation "measure length") auto

declare records_decode.simps [simp del]

lemma records_decode_Nil [simp]: "records_decode [] = Some []"
  by (simp add: records_decode.simps)

lemma records_decode_step:
  assumes "type < 256" "0 \<le> rid" "rid < 65536" "length content < 65536" "length pad < 256"
    "padding = int (length pad)"
  shows "records_decode (record_head type rid (int (length content)) padding @ [r] @ content @ pad @ rest) =
    map_option (Cons (type, nat rid, content)) (records_decode rest)"
proof -
  let ?n = "int (length content)"
  let ?s = "record_head type rid ?n padding @ [r] @ content @ pad @ rest"
  obtain i j k l where e: "be16 rid = [i, j]" "be16 ?n = [k, l]"
    by (metis (no_types) One_nat_def length_0_conv length_Suc_conv length_be16 numeral_2_eq_2)
  have c: "256 * code i + code j = nat rid" "256 * code k + code l = length content"
    using be16_code [OF assms(2,3)] be16_code [of ?n] assms(4) e by simp_all
  have "code (byte_char padding) = length pad"
    using assms(5,6) by (simp add: byte_char_def code_def nat_mod_distrib)
  moreover have "?s = [char_of (1 :: nat), char_of type, i, j, k, l, byte_char padding, r] @ content @ pad @ rest"
    by (simp add: record_head_def e)
  ultimately show ?thesis
    using assms(1) c by (subst records_decode.simps) (simp add: code_def Let_def drop_Cons' add.commute)
qed

lemma params_result:
  "chain_wf bufs \<Longrightarrow> params bufs ps = Some (n, bufs') \<Longrightarrow>
   chain_wf bufs' \<and> extends bufs bufs' \<and> n = int (length (concat (map pair_bytes ps))) \<and>
   chain_text bufs' = chain_text bufs @ concat (map pair_bytes ps)"
proof (induction ps arbitrary: bufs n)
  case (Cons p ps)
  obtain name val where p: "p = (name, val)" by (cases p)
  obtain k b m where s: "param bufs name val = Some (k, b)" "params b ps = Some (m, bufs')" "n = k + m"
    using Cons.prems(2) p by (auto simp: bind_eq_Some_conv)
  show ?case
    using param_result [OF Cons.prems(1) s(1)] Cons.IH [OF _ s(2)] s(3) p
    by (auto intro: extends_trans)
qed simp

text \<open>The record of the pairs: its length and padding are stored after its content.\<close>

lemma fcgi_params_result:
  assumes "chain_wf bufs" "fcgi_vars e h = Some (Inr ps)" "length (concat (map pair_bytes ps)) < 65536"
    and header: "hin_fcgi_header bufs FCGI_PARAMS rid 0 = Some (at, b1)" and p: "params b1 ps = Some (sz, b2)"
  defines "content \<equiv> concat (map pair_bytes ps)"
  shows "\<exists>bufs' r pad r'. fcgi_params e rid h bufs = Some bufs' \<and> chain_wf bufs' \<and> length pad < 8 \<and> chain_text bufs' = chain_text bufs @
     record_head FCGI_PARAMS rid (int (length content)) (int (length pad)) @ [r] @ content @ pad @
     record_head FCGI_PARAMS rid 0 0 @ [r']"
proof -
  let ?T = "chain_text bufs"
  obtain r where h: "chain_wf b1"
    "at_in b1 at 8" "chain_pos b1 at = length ?T"
    "chain_text b1 = ?T @ record_head FCGI_PARAMS rid 0 0 @ [r]"
    using header_result [OF assms(1), of FCGI_PARAMS rid 0] header by auto
  obtain i pos where at: "at = (i, pos)" by (cases at)
  have c: "chain_wf b2" "extends b1 b2" "sz = int (length content)" "chain_text b2 = chain_text b1 @ content"
    using params_result [OF h(1) p] by (auto simp: content_def)
  have at2: "at_in b2 (i, pos) 8" "chain_pos b2 (i, pos) = length ?T"
    using extends_at [OF c(2) h(1) c(1) h(2)] h(3) at by simp_all
  have in4: "at_in b2 (i, pos + 4) 2" and pos4: "chain_pos b2 (i, pos + 4) = length ?T + 4"
    using at2 by (simp_all add: at_in_def chain_pos_def)
  obtain b3 where s3: "poke (i, pos + 4) (be16 sz) b2 = Some b3" "chain_wf b3"
    "chain_text b3 = mem_write (length ?T + 4) (be16 sz) (chain_text b2)"
    "length b3 = length b2" "map hb_count b3 = map hb_count b2" "\<forall>at. chain_pos b3 at = chain_pos b2 at"
    using poke_inside [OF c(1) in4, of "be16 sz"] pos4 by auto
  define padding where "padding = (FCGI_ROUND_TO_PAD sz - sz) mod 256"
  have "at_in b3 (i, pos) 8" using at2(1) s3(4,5) by (metis extends_counts(2))
  then have in6: "at_in b3 (i, pos + 6) 1" and pos6: "chain_pos b3 (i, pos + 6) = length ?T + 6"
    using s3(6) at2 by (simp_all add: at_in_def chain_pos_def)
  obtain b4 where s4: "poke (i, pos + 6) [byte_char padding] b3 = Some b4" "chain_wf b4"
    "chain_text b4 = mem_write (length ?T + 6) [byte_char padding] (chain_text b3)"
    using poke_inside [OF s3(2) in6, of "[byte_char padding]"] pos6 by auto
  have pad: "padding = (- sz) mod 8" "0 \<le> padding" "padding < 8"
  proof -
    have "FCGI_ROUND_TO_PAD sz = (sz + 7) div 8 * 8" using c(3) assms(3) by (intro round_to_pad) (auto simp: content_def)
    then have "FCGI_ROUND_TO_PAD sz - sz = (- sz) mod 8" by presburger
    then show "padding = (- sz) mod 8" "0 \<le> padding" "padding < 8" by (simp_all add: padding_def)
  qed
  have "nat padding \<le> HIN_HTTPD_MAX_HEADER_LINE_SIZE" using pad(3) by (simp add: HIN_HTTPD_MAX_HEADER_LINE_SIZE_def)
  then obtain at5 b5 where s5: "header_ptr b4 (nat padding) = (Some at5, b5)" "chain_wf b5"
    "take (length (chain_text b4)) (chain_text b5) = chain_text b4"
    "length (chain_text b5) = length (chain_text b4) + nat padding"
    using reserve [OF s4(2)] by blast
  define pd where "pd = drop (length (chain_text b4)) (chain_text b5)"
  have t5: "chain_text b5 = chain_text b4 @ pd" "length pd = nat padding"
    using s5(3,4) by (simp_all add: pd_def) (metis append_take_drop_id)
  obtain at6 b6 r' where s6: "hin_fcgi_header b5 FCGI_PARAMS rid 0 = Some (at6, b6)" "chain_wf b6"
    "chain_text b6 = chain_text b5 @ record_head FCGI_PARAMS rid 0 0 @ [r']"
    using header_result [OF s5(2), of FCGI_PARAMS rid 0] by blast
  have "fcgi_params e rid h bufs = Some b6"
    using assms(2) header at p s3(1) s4(1) s5(1) s6(1)
    by (simp add: fcgi_params_def hin_fcgi_headers_def be16_def padding_def)
  moreover have "chain_text b4 = ?T @ record_head FCGI_PARAMS rid sz padding @ [r] @ content"
    unfolding s4(3) s3(3) c(4) h(4) by (simp add: mem_write_def record_head_def take_Cons' drop_Cons')
  ultimately show ?thesis
    using s6 t5 pad c(3) by (intro exI [of _ b6] exI [of _ r] exI [of _ pd] exI [of _ r']) auto
qed

subsection \<open>Pairs are recovered\<close>

definition len_decode :: "string \<Rightarrow> (nat \<times> string) option" where
  "len_decode s =
     (case s of
        [] \<Rightarrow> None
      | c # s \<Rightarrow>
          if code c < 0x80 then Some (code c, s)
          else if length s < 3 then None
          else Some ((code c - 0x80) * 2 ^ 24 + code (s ! 0) * 2 ^ 16 + code (s ! 1) * 2 ^ 8 + code (s ! 2),
                     drop 3 s))"

lemma len_decode_shorter: "len_decode s = Some (n, s') \<Longrightarrow> length s' < length s"
  by (auto simp: len_decode_def split: list.splits if_splits)

function pairs_decode :: "string \<Rightarrow> (string \<times> string) list option" where
  "pairs_decode s =
     (if s = [] then Some []
      else case len_decode s of
        None \<Rightarrow> None
      | Some (n, s1) \<Rightarrow>
          (case len_decode s1 of
             None \<Rightarrow> None
           | Some (m, s2) \<Rightarrow>
               if length s2 < n + m then None
               else map_option (Cons (take n s2, take m (drop n s2))) (pairs_decode (drop (n + m) s2))))"
  by pat_completeness auto
termination
  by (relation "measure length") (auto dest!: len_decode_shorter)

declare pairs_decode.simps [simp del]

lemma pairs_decode_Nil [simp]: "pairs_decode [] = Some []"
  by (simp add: pairs_decode.simps)

lemma len_decode_short: "n < 128 \<Longrightarrow> len_decode (char_of n # s) = Some (n, s)"
  by (simp add: len_decode_def code_char_of)

lemma digits_256: "(m :: nat) < 2 ^ 31 \<Longrightarrow>
   m div 2 ^ 24 mod 0x80 * 2 ^ 24 + m div 2 ^ 16 mod 0x100 * 2 ^ 16 + m div 2 ^ 8 mod 0x100 * 2 ^ 8 + m mod 0x100 = m"
proof -
  assume m: "m < 2 ^ 31"
  define a where "a = m div 256"
  define b where "b = a div 256"
  have d: "m div 2 ^ 24 mod 0x80 = b div 256" "m div 2 ^ 16 mod 0x100 = b mod 256" "m div 2 ^ 8 mod 0x100 = a mod 256"
    using m by (simp_all add: a_def b_def div_mult2_eq [symmetric] less_mult_imp_div_less)
  have pw: "(2 :: nat) ^ 24 = 16777216" "(2 :: nat) ^ 16 = 65536" "(2 :: nat) ^ 8 = 256" by simp_all
  have e: "b div 256 * 256 + b mod 256 = b" "b * 256 + a mod 256 = a" "a * 256 + m mod 256 = m"
    unfolding a_def b_def by (rule div_mult_mod_eq)+
  have sum: "x * 16777216 + y * 65536 + z * 256 + w = ((x * 256 + y) * 256 + z) * 256 + (w :: nat)" for x y z w
    by simp
  show ?thesis unfolding d unfolding pw sum e ..
qed

lemma len_decode_long:
  assumes "m < 2 ^ 31"
  shows "len_decode ([char_of (m div 2 ^ 24 mod 0x80 + 0x80), char_of (m div 2 ^ 16 mod 0x100),
    char_of (m div 2 ^ 8 mod 0x100), char_of (m mod 0x100)] @ s) = Some (m, s)"
proof -
  have "code (char_of (m div 2 ^ 24 mod 0x80 + 0x80)) = m div 2 ^ 24 mod 0x80 + 0x80"
    by (rule code_char_of) simp
  moreover have "code (char_of (m div 2 ^ 16 mod 0x100)) = m div 2 ^ 16 mod 0x100"
    "code (char_of (m div 2 ^ 8 mod 0x100)) = m div 2 ^ 8 mod 0x100"
    "code (char_of (m mod 0x100)) = m mod 0x100"
    by (simp_all add: code_def)
  ultimately show ?thesis using digits_256 [OF assms] by (simp add: len_decode_def del: of_char_of)
qed

lemma pairs_decode_bytes:
  assumes "\<forall>(name, value) \<in> set ps. length value < 2 ^ 31"
  shows "pairs_decode (concat (map pair_bytes ps)) = Some (filter (\<lambda>p. length (fst p) < 127) ps)"
  using assms
proof (induction ps)
  case (Cons p ps)
  obtain name val where p: "p = (name, val)" by (cases p)
  show ?case
  proof (cases "length name < 127")
    case True
    have v: "length val < 2 ^ 31" using Cons.prems p by simp
    have l1: "len_decode (pair_lens (length name) (length val) @ s) =
        Some (length name, drop (Suc 0) (pair_lens (length name) (length val)) @ s)" for s
      using True by (simp add: pair_lens_def len_decode_short)
    have l2: "len_decode (drop (Suc 0) (pair_lens (length name) (length val)) @ s) = Some (length val, s)" for s
      using v len_decode_long [OF v] by (auto simp: pair_lens_def len_decode_short)
    have pair: "pair_bytes (name, val) = pair_lens (length name) (length val) @ name @ val"
      using True by (simp add: pair_bytes_def)
    have ne: "pair_lens (length name) (length val) \<noteq> []" by (simp add: pair_lens_def)
    show ?thesis
      using True Cons ne by (subst pairs_decode.simps) (simp add: p pair l1 l2)
  next
    case False
    then show ?thesis using Cons by (simp add: p pair_bytes_def [of "(name, val)"])
  qed
qed simp

subsection \<open>The packet of a request\<close>

lemma pair_bytes_member: "p \<in> set ps \<Longrightarrow> length (pair_bytes p) \<le> length (concat (map pair_bytes ps))"
  by (induction ps) auto

lemma value_bound:
  "(name, value) \<in> set ps \<Longrightarrow> length name < 127 \<Longrightarrow>
   length value \<le> length (concat (map pair_bytes ps))"
  using pair_bytes_member [of "(name, value)" ps] by (simp add: pair_bytes_def)

lemma params_returns:
  "chain_wf bufs \<Longrightarrow> length (concat (map pair_bytes ps)) < hb_free (last bufs) \<Longrightarrow>
   \<forall>(name, value)\<in>set ps. length value \<le> HIN_HTTPD_MAX_HEADER_LINE_SIZE \<Longrightarrow>
   \<exists>n bufs'. params bufs ps = Some (n, bufs') \<and>
     hb_free (last bufs) = hb_free (last bufs') + length (concat (map pair_bytes ps))"
proof (induction ps arbitrary: bufs)
  case (Cons p ps)
  obtain name val where p: "p = (name, val)" by (cases p)
  obtain n b where s: "param bufs name val = Some (n, b)"
    using param_returns [OF Cons.prems(1), of name val] Cons.prems p by auto
  note r = param_result [OF Cons.prems(1) s]
  then have "length (concat (map pair_bytes ps)) < hb_free (last b)" using Cons.prems(2) p by simp
  then obtain m b' where "params b ps = Some (m, b')"
    "hb_free (last b) = hb_free (last b') + length (concat (map pair_bytes ps))"
    using Cons.IH r Cons.prems(3) by fastforce
  then show ?case using s r p Cons.prems(2) by auto
qed simp

lemma begin_result:
  assumes "chain_wf bufs"
  shows "\<exists>bufs' r. fcgi_begin reuse rid bufs = Some bufs' \<and> chain_wf bufs' \<and>
    chain_text bufs' = chain_text bufs @ record_head FCGI_BEGIN_REQUEST rid 8 0 @ [r] @
      [NUL, char_of (1 :: nat), char_of (if reuse then 1 else 0 :: nat), NUL, NUL, NUL, NUL, NUL] \<and>
    (16 \<le> hb_free (last bufs) \<longrightarrow> hb_free (last bufs) = hb_free (last bufs') + 16)"
proof -
  obtain at b1 r where h: "hin_fcgi_header bufs FCGI_BEGIN_REQUEST rid 8 = Some (at, b1)" "chain_wf b1"
    "chain_text b1 = chain_text bufs @ record_head FCGI_BEGIN_REQUEST rid 8 0 @ [r]"
    "8 \<le> hb_free (last bufs) \<longrightarrow> hb_free (last bufs) = hb_free (last b1) + 8"
    using header_result [OF assms, of FCGI_BEGIN_REQUEST rid 8] by blast
  define body where "body = [NUL, char_of (1 :: nat), char_of (if reuse then 1 else 0 :: nat), NUL, NUL, NUL, NUL, NUL]"
  have "8 \<le> HIN_HTTPD_MAX_HEADER_LINE_SIZE" "length body \<le> 8"
    by (simp_all add: HIN_HTTPD_MAX_HEADER_LINE_SIZE_def body_def)
  then obtain at2 b2 b3 where s: "header_ptr b1 8 = (Some at2, b2)" "poke at2 body b2 = Some b3"
    "chain_wf b3" "chain_text b3 = chain_text b1 @ body"
    "8 \<le> hb_free (last b1) \<longrightarrow> hb_free (last b1) = hb_free (last b3) + 8"
    using store [OF h(2), of 8 body] by (auto simp: body_def)
  have "store16 (endian_swap16 FCGI_RESPONDER) @
      [char_of (if reuse then HIN_FCGI_SOCKET_REUSE else 0)] @ replicate 5 NUL = body"
  proof -
    have "store16 (endian_swap16 FCGI_RESPONDER) = [NUL, char_of (1 :: nat)]"
      using be16_eq [of 1] by (simp add: be16_def FCGI_RESPONDER_def char_of_def)
    moreover have "replicate 5 NUL = [NUL, NUL, NUL, NUL, NUL]" by (simp add: numeral_eq_Suc)
    ultimately show ?thesis by (simp add: body_def HIN_FCGI_SOCKET_REUSE_def)
  qed
  then have "fcgi_begin reuse rid bufs = Some b3" using h(1) s(1,2) by (simp add: fcgi_begin_def)
  then show ?thesis using h s by (auto simp: body_def)
qed

lemma concat_bytes_31:
  "length (concat (map pair_bytes ps)) < 65536 \<Longrightarrow>
   pairs_decode (concat (map pair_bytes ps)) = Some (filter (\<lambda>p. length (fst p) < 127) ps)"
proof -
  assume len: "length (concat (map pair_bytes ps)) < 65536"
  have keep: "concat (map pair_bytes ps) = concat (map pair_bytes (filter (\<lambda>p. length (fst p) < 127) ps))" for ps
    by (induction ps) (auto simp: pair_bytes_def)
  define qs where "qs = filter (\<lambda>p. length (fst p) < 127) ps"
  have "\<forall>(name, value) \<in> set qs. length value < 2 ^ 31"
    using len value_bound [of _ _ qs] keep [of ps] by (fastforce simp: qs_def)
  then have "pairs_decode (concat (map pair_bytes qs)) = Some (filter (\<lambda>p. length (fst p) < 127) qs)"
    by (rule pairs_decode_bytes)
  then show ?thesis using keep [of ps] by (simp add: qs_def)
qed


definition fcgi_env0 :: fcgi_env where
  "fcgi_env0 = \<lparr>fe_cwd = Some ''/srv/'', fe_file = Some (''/srv/app/'', ''a.php''),
     fe_server = None, fe_peer = Some (''10.0.0.9'', ''4000'')\<rparr>"

definition fcgi_http0 :: httpd where
  "fcgi_http0 = httpd0\<lparr>h_method := HIN_METHOD_GET, h_status := 200,
     h_headers := mk_str (''GET / HTTP/1.1'' @ CRLF @ ''X-A: b'' @ CRLF @ CRLF)\<rparr>"

definition fcgi_vars0 :: "(string \<times> string) list" where
  "fcgi_vars0 =
     [(''CONTENT_LENGTH'', ''0''), (''QUERY_STRING'', []), (''REQUEST_URI'', ''/''),
      (''REDIRECT_STATUS'', ''200''), (''SCRIPT_NAME'', ''/app/a.php''),
      (''SCRIPT_FILENAME'', ''/srv/app/a.php''), (''DOCUMENT_ROOT'', ''/srv''), (''REQUEST_METHOD'', ''GET''),
      (''SERVER_PROTOCOL'', ''HTTP/1.1''), (''SERVER_SOFTWARE'', HIN_HTTPD_SERVER_BANNER),
      (''GATEWAY_INTERFACE'', ''CGI/1.1''), (''REQUEST_SCHEME'', ''http''), (''REMOTE_ADDR'', ''10.0.0.9''),
      (''REMOTE_PORT'', ''4000''), (''HTTP_X_A'', ''b''), (''SERVER_NAME'', ''unknown'')]"

lemma fcgi_vars0_eq: "fcgi_vars fcgi_env0 fcgi_http0 = Some (Inr fcgi_vars0)"
  by code_simp


text \<open>
  A value of more than 4096 bytes, such as a long request header, makes \<open>header_ptr\<close> return
  NULL, which the code stores through: no such request is ever answered.
\<close>

theorem long_value_crashes:
  assumes "fcgi_vars e h = Some (Inr ps)" "(name, value) \<in> set ps" "length name < 127"
    "HIN_HTTPD_MAX_HEADER_LINE_SIZE < length value"
  shows "fcgi_request e reuse rid h bufs = None"
proof -
  have "param b name value = None" for b
  proof -
    have "fst (header_ptr c (length value)) = None" for c using header_ptr_too_long [OF assms(4)] .
    then show ?thesis
      using assms(3) by (auto simp: param_def Let_def split_beta bind_eq_None_conv split: option.splits)
  qed
  then have "params b ps = None" for b
    using assms(2) by (induction ps arbitrary: b) (auto simp: bind_eq_None_conv)
  then show ?thesis
    using assms(1) by (simp add: fcgi_request_def fcgi_params_def hin_fcgi_headers_def split_beta)
qed

lemma fcgi_vars_hostname:
  "fcgi_vars e h = Some (Inr ps) \<Longrightarrow>
   \<exists>qs. fcgi_vars e (h\<lparr>h_hostname := Some n\<rparr>) = Some (Inr qs) \<and> (''SERVER_NAME'', n) \<in> set qs"
proof -
  assume a: "fcgi_vars e h = Some (Inr ps)"
  obtain u source line where f: "hin_find_line (h_headers h) = Some (u, source, line)" "u \<noteq> 0"
    using a by (cases "hin_find_line (h_headers h)") (auto simp: fcgi_vars_def split: if_splits)
  obtain m t v where g: "fst (hin_http_parse_header_line line) = Some (m, t, v)"
    using a f by (cases "fst (hin_http_parse_header_line line)") (auto simp: fcgi_vars_def)
  obtain r uri where p: "hin_parse_uri (sptr t) (int (slen t)) = (r, uri)" by fastforce
  then have r: "\<not> r < 0" using a f g by (auto simp: fcgi_vars_def)
  obtain cwd where c: "fe_cwd e = Some cwd" using a f g p r by (cases "fe_cwd e") (auto simp: fcgi_vars_def)
  obtain dir name where d: "fe_file e = Some (dir, name)"
    using a f g p r c by (cases "fe_file e") (auto simp: fcgi_vars_def)
  have l: "\<not> (cwd = [] \<or> length dir < length cwd - 1)" using a f g p r c d by (auto simp: fcgi_vars_def)
  obtain vars where "header_vars source = Some vars"
    using a f g p r c d l by (cases "header_vars source") (auto simp: fcgi_vars_def)
  then show ?thesis using f g p r c d l by (simp add: fcgi_vars_def)
qed

theorem long_value_crashes_witness:
  "fcgi_request fcgi_env0 True 3 (fcgi_http0\<lparr>h_hostname := Some (replicate 5000 CHR ''a'')\<rparr>)
     [\<lparr>hb_mem = replicate 8192 NUL, hb_count = 0\<rparr>] = None"
proof -
  let ?h = "fcgi_http0\<lparr>h_hostname := Some (replicate 5000 CHR ''a'')\<rparr>"
  obtain ps where ps: "fcgi_vars fcgi_env0 ?h = Some (Inr ps)"
    "(''SERVER_NAME'', replicate 5000 CHR ''a'') \<in> set ps"
    using fcgi_vars_hostname [OF fcgi_vars0_eq, of "replicate 5000 CHR ''a''"] by blast
  show ?thesis
    by (rule long_value_crashes [OF ps]) (simp_all add: HIN_HTTPD_MAX_HEADER_LINE_SIZE_def)
qed

end
