(* ===== verification/FcgiPool.thy ===== *)
theory FcgiPool
  imports Fcgi
begin

text \<open>
  The FastCGI workers and sockets of a group: \<open>http/cgi/fcgi_worker.c\<close>, \<open>fcgi_socket.c\<close>,
  \<open>fcgi_read.c\<close>, the callbacks of \<open>fcgi_write.c\<close>, \<open>fcgi_post.c\<close> and \<open>cgi_parse.c\<close>, and \<open>fcgi.c\<close>.
  Workers and sockets live in heaps of addresses; a released one is gone from its heap and using
  it, or a NULL pointer, has no value (\<open>None\<close>).  Clients are addresses too: what is asked of a
  client, of the kernel or of a pipe is logged.  Two queues are lists of workers.
\<close>

definition HIN_FCGI_BUSY :: u32 where [flag_defs]: "HIN_FCGI_BUSY = 0x1"

text \<open>
  \<open>fw_head\<close> is \<open>header_buf\<close> with the bytes it holds, \<open>fw_out\<close> whether \<open>out\<close> is set, \<open>fs_worker\<close> the
  array \<open>worker\<close>, whose length is \<open>max_worker\<close>.
\<close>

record fworker =
  fw_req_id :: nat
  fw_io :: u32
  fw_http :: "nat option"
  fw_head :: "string option"
  fw_out :: bool
  fw_sock :: "nat option"

record fsock =
  fs_fd :: int
  fs_id :: nat
  fs_flags :: u32
  fs_worker :: "nat option list"
  fs_last :: nat
  fs_num :: int
  fs_que :: "nat list"
  fs_reading :: bool

record fgroup =
  fg_cur :: nat
  fg_max :: nat
  fg_socket :: "nat option list option"
  fg_idle :: "nat list"

datatype fcgi_event =
    Http_error nat int
  | Http_finish nat
  | Connect nat
  | Send nat nat
  | Post_pipe nat int
  | Response_head nat string
  | Response_data nat string
  | Response_end nat
  | Fcgi_stderr string
  | Close_sock int

record fpool =
  fp_workers :: "nat \<rightharpoonup> fworker"
  fp_socks :: "nat \<rightharpoonup> fsock"
  fp_group :: fgroup
  fp_next :: nat
  fp_log :: "fcgi_event list"

definition log_fcgi :: "fcgi_event \<Rightarrow> fpool \<Rightarrow> fpool" where
  "log_fcgi ev p = p\<lparr>fp_log := fp_log p @ [ev]\<rparr>"

definition put_worker :: "nat \<Rightarrow> fworker \<Rightarrow> fpool \<Rightarrow> fpool" where
  "put_worker a w p = p\<lparr>fp_workers := (fp_workers p)(a \<mapsto> w)\<rparr>"

definition put_sock :: "nat \<Rightarrow> fsock \<Rightarrow> fpool \<Rightarrow> fpool" where
  "put_sock a s p = p\<lparr>fp_socks := (fp_socks p)(a \<mapsto> s)\<rparr>"

definition put_idle :: "nat list \<Rightarrow> fpool \<Rightarrow> fpool" where
  "put_idle ws p = p\<lparr>fp_group := (fp_group p)\<lparr>fg_idle := ws\<rparr>\<rparr>"

lemmas pool_defs = log_fcgi_def put_worker_def put_sock_def put_idle_def

subsection \<open>Releasing\<close>

text \<open>\<open>free (worker)\<close>.\<close>

definition drop_worker :: "nat \<Rightarrow> fpool \<Rightarrow> fpool" where
  "drop_worker a p = p\<lparr>fp_workers := (fp_workers p)(a := None)\<rparr>"

text \<open>The part of \<open>hin_fcgi_worker_reset\<close> before the socket is looked at; the flag is an early return.\<close>

definition reset_http :: "nat \<Rightarrow> fworker \<Rightarrow> fpool \<Rightarrow> bool \<times> fpool" where
  "reset_http a w p =
     (if has (fw_io w) (HIN_REQ_POST OR HIN_REQ_DATA OR HIN_REQ_END) then (True, p)
      else
        let p = (case fw_http w of Some c \<Rightarrow> log_fcgi (Http_finish c) p | None \<Rightarrow> p)
        in (False, put_worker a (w\<lparr>fw_io := setf (fw_io w) HIN_REQ_END, fw_http := None\<rparr>) p))"

text \<open>One worker of the array, in \<open>hin_fcgi_socket_close\<close>: its socket is gone when it is reset.\<close>

definition close_worker :: "nat option \<Rightarrow> fpool \<Rightarrow> fpool option" where
  "close_worker entry p =
     (case entry of
        None \<Rightarrow> Some p
      | Some a \<Rightarrow>
          (case fp_workers p a of
             None \<Rightarrow> None
           | Some w \<Rightarrow>
               let p = (case fw_http w of Some c \<Rightarrow> log_fcgi (Http_error c 500) p | None \<Rightarrow> p);
                   w = w\<lparr>fw_http := None, fw_sock := None\<rparr>;
                   p = put_worker a w p
               in case reset_http a w p of
                    (early, p) \<Rightarrow> Some (if early then p else drop_worker a p)))"

fun close_workers :: "nat option list \<Rightarrow> fpool \<Rightarrow> fpool option" where
  "close_workers [] p = Some p"
| "close_workers (x # xs) p = Option.bind (close_worker x p) (close_workers xs)"

definition hin_fcgi_socket_close :: "nat \<Rightarrow> fpool \<Rightarrow> fpool option" where
  "hin_fcgi_socket_close s p =
     (case fp_socks p s of
        None \<Rightarrow> None
      | Some so \<Rightarrow>
          map_option
            (\<lambda>p. let p = (if fs_fd so > 0 then log_fcgi (Close_sock (fs_fd so)) p else p);
                     g = fp_group p;
                     g = (case fg_socket g of Some xs \<Rightarrow> g\<lparr>fg_socket := Some (xs[fs_id so := None])\<rparr>
                                            | None \<Rightarrow> g)
                 in p\<lparr>fp_group := g, fp_socks := (fp_socks p)(s := None)\<rparr>)
            (close_workers (fs_worker so) p))"

definition hin_fcgi_worker_free :: "nat \<Rightarrow> fpool \<Rightarrow> fpool option" where
  "hin_fcgi_worker_free a p =
     (case fp_workers p a of
        None \<Rightarrow> None
      | Some w \<Rightarrow>
          (case fw_sock w of
             None \<Rightarrow> Some (drop_worker a p)
           | Some s \<Rightarrow>
               (case fp_socks p s of
                  None \<Rightarrow> None
                | Some so \<Rightarrow>
                    if fw_req_id w \<ge> length (fs_worker so) then None
                    else
                      let so = so\<lparr>fs_worker := (fs_worker so)[fw_req_id w := None], fs_num := fs_num so - 1\<rparr>;
                          p = put_sock s so p
                      in map_option (drop_worker a)
                           (if fs_num so \<le> 0 then hin_fcgi_socket_close s p else Some p))))"

definition hin_fcgi_worker_reset :: "nat \<Rightarrow> fpool \<Rightarrow> fpool option" where
  "hin_fcgi_worker_reset a p =
     (case fp_workers p a of
        None \<Rightarrow> None
      | Some w \<Rightarrow>
          (case reset_http a w p of
             (True, p) \<Rightarrow> Some p
           | (False, p) \<Rightarrow>
               (case fw_sock w of
                  None \<Rightarrow> hin_fcgi_worker_free a p
                | Some s \<Rightarrow>
                    if fp_socks p s = None then None
                    else if fg_socket (fp_group p) \<noteq> None
                    then Some (put_idle (fg_idle (fp_group p) @ [a]) p)
                    else hin_fcgi_socket_close s p)))"

subsection \<open>Acquiring\<close>

text \<open>The new socket is connected asynchronously; a failure to look up its host is ignored.\<close>

definition hin_fcgi_get_socket :: "fpool \<Rightarrow> nat \<times> fpool" where
  "hin_fcgi_get_socket p =
     (let g = fp_group p;
          pos = fg_cur g;
          pos = (if fg_socket g \<noteq> None then pos mod fg_max g else pos);
          old = (case fg_socket g of Some xs \<Rightarrow> xs ! pos | None \<Rightarrow> None);
          g = g\<lparr>fg_cur := fg_cur g + 1\<rparr>
      in case old of
           Some s \<Rightarrow> (s, p\<lparr>fp_group := g\<rparr>)
         | None \<Rightarrow>
             let s = fp_next p;
                 so = \<lparr>fs_fd = -1, fs_id = pos, fs_flags = HIN_FCGI_BUSY, fs_worker = [], fs_last = 0,
                       fs_num = 0, fs_que = [], fs_reading = False\<rparr>;
                 g = (case fg_socket g of Some xs \<Rightarrow> g\<lparr>fg_socket := Some (xs[pos := Some s])\<rparr> | None \<Rightarrow> g)
             in (s, log_fcgi (Connect s) (put_sock s so (p\<lparr>fp_group := g, fp_next := Suc s\<rparr>))))"

text \<open>The loop that grows the array by five slots.\<close>

function grow_array :: "nat \<Rightarrow> nat option list \<Rightarrow> nat option list" where
  "grow_array n ws = (if n > length ws then grow_array n (ws @ replicate 5 None) else ws)"
  by pat_completeness auto
termination by (relation "measure (\<lambda>(l, ws). l - length ws)") auto

declare grow_array.simps [simp del]

definition hin_fcgi_get_worker :: "fpool \<Rightarrow> (nat \<times> fpool) option" where
  "hin_fcgi_get_worker p =
     (case fg_idle (fp_group p) of
        a # idle \<Rightarrow>
          (case fp_workers p a of
             None \<Rightarrow> None
           | Some w \<Rightarrow>
               Some (a, put_worker a (w\<lparr>fw_io := clrf (fw_io w) HIN_REQ_END\<rparr>) (put_idle idle p)))
      | [] \<Rightarrow>
          (case hin_fcgi_get_socket p of
             (s, p) \<Rightarrow>
               (case fp_socks p s of
                  None \<Rightarrow> None
                | Some so \<Rightarrow>
                    let rid = fs_last so;
                        a = fp_next p;
                        ws = grow_array (rid + 1) (fs_worker so);
                        so = so\<lparr>fs_num := fs_num so + 1, fs_last := rid + 1,
                                fs_worker := ws[rid := Some a]\<rparr>;
                        w = \<lparr>fw_req_id = rid, fw_io = 0, fw_http = None, fw_head = None, fw_out = False,
                             fw_sock = Some s\<rparr>
                    in Some (a, put_worker a w (put_sock s so (p\<lparr>fp_next := Suc a\<rparr>))))))"

subsection \<open>Running a request\<close>

text \<open>
  What \<open>hin_fcgi_worker_run\<close> uses of the rest: the packet of a client for a request number (its
  result for the body, \<open>None\<close> when building it fails, theory \<open>Fcgi\<close>) and whether the kernel
  accepts the write.
\<close>

record fcgi_io =
  fi_packet :: "nat \<Rightarrow> nat \<Rightarrow> post_result option"
  fi_write_ok :: "nat \<Rightarrow> bool"

text \<open>The node after \<open>a\<close> in a queue; a removed node has no next.\<close>

fun next_in :: "nat list \<Rightarrow> nat \<Rightarrow> nat option" where
  "next_in (x # y # ws) a = (if x = a then Some y else next_in (y # ws) a)"
| "next_in _ a = None"

text \<open>The end of \<open>hin_fcgi_worker_run\<close>: the write and \<open>hin_fcgi_pipe_init\<close>.\<close>

definition run_end :: "fcgi_io \<Rightarrow> nat \<Rightarrow> nat \<Rightarrow> fpool \<Rightarrow> fpool option" where
  "run_end e s a p =
     (case fp_workers p a of
        None \<Rightarrow> None
      | Some w \<Rightarrow>
          if fi_write_ok e a
          then Some (put_worker a (w\<lparr>fw_head := Some []\<rparr>) (log_fcgi (Send s a) p))
          else Some p)"

definition set_busy :: "bool \<Rightarrow> nat \<Rightarrow> fpool \<Rightarrow> fpool" where
  "set_busy b s p =
     (case fp_socks p s of
        None \<Rightarrow> p
      | Some so \<Rightarrow> put_sock s (so\<lparr>fs_flags := (if b then setf else clrf) (fs_flags so) HIN_FCGI_BUSY\<rparr>) p)"

text \<open>
  \<open>hin_fcgi_worker_run\<close> (\<open>Run\<close>) and the loop of \<open>hin_fcgi_socket_continue\<close> from a queued worker
  (\<open>Loop\<close>), which call each other.
\<close>

datatype fcgi_job = Run nat | Loop nat "nat option"

partial_function (option) fcgi_do :: "fcgi_io \<Rightarrow> fcgi_job \<Rightarrow> fpool \<Rightarrow> fpool option" where
  "fcgi_do e job p =
     (case job of
        Run a \<Rightarrow>
          (case fp_workers p a of
             None \<Rightarrow> None
           | Some w \<Rightarrow>
               (case fw_sock w of None \<Rightarrow> None | Some s \<Rightarrow>
                (case fp_socks p s of None \<Rightarrow> None | Some so \<Rightarrow>
                 (case fw_http w of None \<Rightarrow> None | Some c \<Rightarrow>
                  if has (fs_flags so) HIN_FCGI_BUSY
                  then Some (put_sock s (so\<lparr>fs_que := fs_que so @ [a]\<rparr>) p)
                  else
                    let w = w\<lparr>fw_io := setf (fw_io w) HIN_REQ_DATA\<rparr>;
                        p = put_worker a w (set_busy True s p)
                    in (case fi_packet e c (fw_req_id w) of
                          None \<Rightarrow> None
                        | Some Stdin_done \<Rightarrow>
                            Option.bind
                              (fcgi_do e (Loop s (case fs_que so of [] \<Rightarrow> None | b # _ \<Rightarrow> Some b)) (set_busy False s p))
                              (run_end e s a)
                        | Some Stdin_unfinished \<Rightarrow> run_end e s a p
                        | Some (Stdin_pipe left) \<Rightarrow>
                            run_end e s a (log_fcgi (Post_pipe a left)
                              (put_worker a (w\<lparr>fw_io := setf (fw_io w) HIN_REQ_POST\<rparr>) p)))))))
      | Loop s None \<Rightarrow> Some p
      | Loop s (Some a) \<Rightarrow>
          (case fp_socks p s of
             None \<Rightarrow> None
           | Some so \<Rightarrow>
               if has (fs_flags so) HIN_FCGI_BUSY then Some p
               else case fp_workers p a of
                 None \<Rightarrow> None
               | Some w \<Rightarrow>
                   if has (fw_io w) HIN_REQ_DATA then fcgi_do e (Loop s (next_in (fs_que so) a)) p
                   else Option.bind (fcgi_do e (Run a) (put_sock s (so\<lparr>fs_que := remove1 a (fs_que so)\<rparr>) p))
                          (fcgi_do e (Loop s (next_in (fs_que so) a)))))"

definition hin_fcgi_worker_run :: "fcgi_io \<Rightarrow> nat \<Rightarrow> fpool \<Rightarrow> fpool option" where
  "hin_fcgi_worker_run e a = fcgi_do e (Run a)"

definition hin_fcgi_socket_continue :: "fcgi_io \<Rightarrow> nat \<Rightarrow> fpool \<Rightarrow> fpool option" where
  "hin_fcgi_socket_continue e s p =
     (case fp_socks p s of
        None \<Rightarrow> None
      | Some so \<Rightarrow>
          fcgi_do e (Loop s (case fs_que so of [] \<Rightarrow> None | b # _ \<Rightarrow> Some b)) (set_busy False s p))"

definition hin_fcgi_stdin_done :: "fcgi_io \<Rightarrow> nat \<Rightarrow> fpool \<Rightarrow> fpool option" where
  "hin_fcgi_stdin_done e a p =
     (case Option.bind (fp_workers p a) fw_sock of
        None \<Rightarrow> None
      | Some s \<Rightarrow> hin_fcgi_socket_continue e s (set_busy False s p))"

subsection \<open>Completions\<close>

text \<open>\<open>busy\<close> is \<open>http->state & HIN_REQ_DATA\<close> of the client.\<close>

definition hin_fcgi_post_done_callback :: "fcgi_io \<Rightarrow> bool \<Rightarrow> nat \<Rightarrow> nat \<Rightarrow> fpool \<Rightarrow> fpool option" where
  "hin_fcgi_post_done_callback e busy c a p =
     Option.bind (hin_fcgi_stdin_done e a p) (\<lambda>p.
     case fp_workers p a of
       None \<Rightarrow> None
     | Some w \<Rightarrow>
         map_option (\<lambda>p. if busy then p else log_fcgi (Http_finish c) p)
           (hin_fcgi_worker_reset a (put_worker a (w\<lparr>fw_io := clrf (fw_io w) HIN_REQ_POST\<rparr>) p)))"

definition hin_fcgi_write_callback :: "nat \<Rightarrow> int \<Rightarrow> bool \<Rightarrow> fpool \<Rightarrow> (int \<times> fpool) option" where
  "hin_fcgi_write_callback a ret left p =
     (case Option.bind (fp_workers p a) fw_sock of
        None \<Rightarrow> if fp_workers p a = None \<or> ret < 0 then None else Some (if left then 0 else 1, p)
      | Some s \<Rightarrow>
          if ret < 0 then map_option (Pair (-1)) (hin_fcgi_socket_close s p)
          else Some (if left then 0 else 1, p))"

text \<open>\<open>hin_fcgi_pipe_finish_callback\<close>, for the pipe of client \<open>c\<close>: the client of the worker is used unchecked.\<close>

definition hin_fcgi_pipe_finish_callback :: "nat \<Rightarrow> nat \<Rightarrow> fpool \<Rightarrow> fpool option" where
  "hin_fcgi_pipe_finish_callback c a p =
     (case fp_workers p a of
        None \<Rightarrow> None
      | Some w \<Rightarrow>
          if fw_http w = None then None
          else map_option (log_fcgi (Http_finish c))
                 (hin_fcgi_worker_reset a
                    (put_worker a (w\<lparr>fw_http := None, fw_io := clrf (fw_io w) HIN_REQ_DATA\<rparr>) p)))"

text \<open>\<open>rd_ok\<close>: the kernel accepts the first read.\<close>

definition hin_fcgi_connect_callback :: "fcgi_io \<Rightarrow> bool \<Rightarrow> nat \<Rightarrow> int \<Rightarrow> int \<Rightarrow> fpool \<Rightarrow> (int \<times> fpool) option" where
  "hin_fcgi_connect_callback e rd_ok s fd ret p =
     (case fp_socks p s of
        None \<Rightarrow> None
      | Some so \<Rightarrow>
          if ret < 0 then map_option (Pair (-1)) (hin_fcgi_socket_close s p)
          else
            Option.bind (hin_fcgi_socket_continue e s (put_sock s (so\<lparr>fs_fd := fd\<rparr>) p)) (\<lambda>p.
            case fp_socks p s of
              None \<Rightarrow> None
            | Some so \<Rightarrow>
                let p = put_sock s (so\<lparr>fs_reading := True\<rparr>) p
                in if rd_ok then Some (1, p) else map_option (Pair (-1)) (hin_fcgi_socket_close s p)))"

subsection \<open>Reading records\<close>

text \<open>
  \<open>hin_fcgi_pipe_write\<close>.  While the head of the response is read, \<open>hin_lines_write\<close> gives the bytes
  so far to the read callback of \<open>cgi_parse.c\<close>; \<open>hd_done\<close> tells whether they hold a complete
  head, after which the rest goes to the pipe.  A write of no bytes is a closed connection to the
  line buffer: its close callback answers the client with an error and releases the worker.
\<close>

definition hin_fcgi_pipe_write :: "(string \<Rightarrow> bool) \<Rightarrow> nat \<Rightarrow> string \<Rightarrow> fpool \<Rightarrow> fpool option" where
  "hin_fcgi_pipe_write hd_done a data p =
     (case fp_workers p a of
        None \<Rightarrow> None
      | Some w \<Rightarrow>
          (case fw_head w of
             Some acc \<Rightarrow>
               if data = []
               then (case fw_http w of
                       None \<Rightarrow> None
                     | Some c \<Rightarrow> hin_fcgi_worker_free a (log_fcgi (Http_error c 500) p))
               else if fw_http w = None then None
               else if hd_done (acc @ data)
               then Some (log_fcgi (Response_head a (acc @ data))
                      (put_worker a (w\<lparr>fw_head := None, fw_out := True\<rparr>) p))
               else Some (put_worker a (w\<lparr>fw_head := Some (acc @ data)\<rparr>) p)
           | None \<Rightarrow>
               if \<not> fw_out w \<or> fw_http w = None then None
               else Some (log_fcgi (Response_data a data) p)))"

text \<open>The pipe is finished; \<open>hin_fcgi_pipe_finish_callback\<close> follows when it has written everything.\<close>

definition hin_fcgi_pipe_end :: "nat \<Rightarrow> fpool \<Rightarrow> fpool option" where
  "hin_fcgi_pipe_end a p =
     (case fp_workers p a of
        None \<Rightarrow> None
      | Some w \<Rightarrow>
          if fw_http w = None \<or> fw_sock w = None \<or> \<not> fw_out w then None
          else Some (log_fcgi (Response_end a) (put_worker a (w\<lparr>fw_out := False\<rparr>) p)))"

text \<open>The content of a record for a slot of the array.\<close>

definition dispatch :: "(string \<Rightarrow> bool) \<Rightarrow> nat \<Rightarrow> string \<Rightarrow> nat option \<Rightarrow> fpool \<Rightarrow> fpool option" where
  "dispatch hd_done type data slot p =
     (if type = FCGI_STDOUT
      then (case slot of None \<Rightarrow> None | Some a \<Rightarrow> hin_fcgi_pipe_write hd_done a data p)
      else if type = FCGI_STDERR then Some (log_fcgi (Fcgi_stderr data) p)
      else if type = FCGI_END_REQUEST
      then (case slot of None \<Rightarrow> None | Some a \<Rightarrow> hin_fcgi_pipe_end a p)
      else Some p)"

text \<open>
  \<open>hin_fcgi_read_rec\<close>: the bytes consumed.  The bound check lets the request number \<open>max_worker\<close>
  through, which is read past the array.
\<close>

definition hin_fcgi_read_rec :: "(string \<Rightarrow> bool) \<Rightarrow> nat \<Rightarrow> string \<Rightarrow> fpool \<Rightarrow> (nat \<times> fpool) option" where
  "hin_fcgi_read_rec hd_done s buf p =
     (if length buf < 8 then Some (0, p)
      else
        let len = 256 * code (buf ! 4) + code (buf ! 5);
            total = len + 8 + code (buf ! 6)
        in if length buf < total then Some (0, p)
           else
             let rid = 256 * code (buf ! 2) + code (buf ! 3)
             in (case fp_socks p s of
                   None \<Rightarrow> None
                 | Some so \<Rightarrow>
                     if rid > length (fs_worker so) then Some (total, p)
                     else if rid = length (fs_worker so) then None
                     else map_option (Pair total)
                            (dispatch hd_done (code (buf ! 1)) (take len (drop 8 buf)) (fs_worker so ! rid) p)))"

lemma read_rec_progress: "hin_fcgi_read_rec hd_done s buf p = Some (n, p') \<Longrightarrow> n \<noteq> 0 \<Longrightarrow> 0 < n \<and> n \<le> length buf"
  by (auto simp: hin_fcgi_read_rec_def Let_def split: if_splits option.splits)

function read_loop :: "(string \<Rightarrow> bool) \<Rightarrow> nat \<Rightarrow> string \<Rightarrow> fpool \<Rightarrow> (nat \<times> fpool) option" where
  "read_loop hd_done s buf p =
     (case hin_fcgi_read_rec hd_done s buf p of
        None \<Rightarrow> None
      | Some (n, p') \<Rightarrow>
          if n = 0 then Some (0, p')
          else map_option (\<lambda>(m, p). (n + m, p)) (read_loop hd_done s (drop n buf) p'))"
  by pat_completeness auto
termination
  by (relation "measure (\<lambda>(hd, s, buf, p). length buf)")
     (auto dest!: sym [of _ "hin_fcgi_read_rec _ _ _ _"] read_rec_progress)

declare read_loop.simps [simp del]

text \<open>\<open>buf\<close> are the bytes of the read buffer after the read.\<close>

definition hin_fcgi_socket_read_callback ::
  "(string \<Rightarrow> bool) \<Rightarrow> nat \<Rightarrow> int \<Rightarrow> string \<Rightarrow> fpool \<Rightarrow> (nat \<times> fpool) option" where
  "hin_fcgi_socket_read_callback hd_done s ret buf p =
     (if ret \<le> 0 then map_option (Pair 0) (hin_fcgi_socket_close s p)
      else read_loop hd_done s buf p)"

subsection \<open>Groups and requests\<close>

text \<open>\<open>hin_fcgi_start\<close>: host, port and the empty group; \<open>None\<close> for an address it refuses.\<close>

definition hin_fcgi_start :: "string \<Rightarrow> nat \<Rightarrow> (string \<times> string \<times> fgroup) option" where
  "hin_fcgi_start uri max_sock =
     (case match_string (mk_str uri) ''tcp://'' of (n, source, _) \<Rightarrow>
        if n \<le> 0 then None
        else case match_string source ''([%w]+)'' of (n, source, hosts) \<Rightarrow>
          if n \<le> 0 then None
          else case match_string source '':([%d]+)'' of (n, source, ports) \<Rightarrow>
            if n \<le> 0 then None
            else Some (c_str (str_of (stored hosts null_str)), c_str (str_of (stored ports null_str)),
                   \<lparr>fg_cur = 0, fg_max = max_sock,
                    fg_socket = (if max_sock \<noteq> 0 then Some (replicate max_sock None) else None), fg_idle = []\<rparr>))"

fun free_idle :: "nat list \<Rightarrow> fpool \<Rightarrow> fpool option" where
  "free_idle [] p = Some p"
| "free_idle (a # ws) p = Option.bind (hin_fcgi_worker_free a p) (free_idle ws)"

definition hin_fcgi_group_clean :: "fpool \<Rightarrow> fpool option" where
  "hin_fcgi_group_clean p = free_idle (fg_idle (fp_group p)) p"

text \<open>
  \<open>hin_fastcgi\<close> for the client \<open>c\<close> in state \<open>h\<close>: \<open>valid\<close> says whether the group is one, \<open>cached\<close>
  whether \<open>hin_cache_check\<close> answered.  \<open>HIN_HTTPD_CGI_CHUNKED_UPLOAD\<close> is off in the configuration.
\<close>

definition hin_fastcgi ::
  "fcgi_io \<Rightarrow> http_env \<Rightarrow> bool \<Rightarrow> bool \<Rightarrow> nat \<Rightarrow> httpd \<Rightarrow> fpool \<Rightarrow> (int \<times> httpd \<times> fpool) option" where
  "hin_fastcgi e env valid cached c h p =
     (if has (h_state h) HIN_REQ_DATA then Some (-1, h, p)
      else
        let h = h\<lparr>h_state := setf (h_state h) (HIN_REQ_DATA OR HIN_REQ_FCGI)\<rparr>
        in if \<not> valid
           then map_option (\<lambda>(_, h). (-1, h, p)) (httpd_error env 500 ''fcgi invalid'' h)
           else if has (h_peer h) HIN_HTTP_CHUNKED_UPLOAD
           then map_option (\<lambda>(_, h). (-1, h, p)) (httpd_error env 411 ''cgi spec denies chunked upload'' h)
           else if cached then Some (0, h, p)
           else
             Option.bind (hin_fcgi_get_worker p) (\<lambda>(a, p).
             case fp_workers p a of
               None \<Rightarrow> None
             | Some w \<Rightarrow>
                 map_option (\<lambda>p. (0, snd (httpd_request_chunked h), p))
                   (hin_fcgi_worker_run e a (put_worker a (w\<lparr>fw_http := Some c\<rparr>) p))))"

subsection \<open>Records are handled in order\<close>

text \<open>One record, as the specification decodes it.\<close>

definition handle_record ::
  "(string \<Rightarrow> bool) \<Rightarrow> nat \<Rightarrow> nat \<times> nat \<times> string \<Rightarrow> fpool \<Rightarrow> fpool option" where
  "handle_record hd_done s rec p =
     (case rec of (type, rid, data) \<Rightarrow>
        (case fp_socks p s of
           None \<Rightarrow> None
         | Some so \<Rightarrow>
             if rid > length (fs_worker so) then Some p
             else if rid = length (fs_worker so) then None
             else dispatch hd_done type data (fs_worker so ! rid) p))"

fun handle_records ::
  "(string \<Rightarrow> bool) \<Rightarrow> nat \<Rightarrow> (nat \<times> nat \<times> string) list \<Rightarrow> fpool \<Rightarrow> fpool option" where
  "handle_records hd_done s [] p = Some p"
| "handle_records hd_done s (r # rs) p = Option.bind (handle_record hd_done s r p) (handle_records hd_done s rs)"

definition incomplete :: "string \<Rightarrow> bool" where
  "incomplete t \<longleftrightarrow> length t < 8 \<or> length t < 256 * code (t ! 4) + code (t ! 5) + 8 + code (t ! 6)"

text \<open>
  C16: on the records of a correct FastCGI peer, the read callback handles each complete record
  once and in order, whatever part of the next one is already in the buffer, and consumes exactly
  the complete ones.
\<close>

theorem read_callback_records:
  assumes "records_decode buf = Some recs" "incomplete rest" "0 < ret"
  shows "hin_fcgi_socket_read_callback hd_done s ret (buf @ rest) p =
    map_option (Pair (length buf)) (handle_records hd_done s recs p)"
proof -
  have "read_loop hd_done s (buf @ rest) p = map_option (Pair (length buf)) (handle_records hd_done s recs p)"
    using assms(1)
  proof (induction buf arbitrary: recs p rule: records_decode.induct)
    case (1 buf)
    show ?case
    proof (cases "buf = []")
      case True
      then have "recs = []" using 1(2) by simp
      moreover have "hin_fcgi_read_rec hd_done s rest p = Some (0, p)"
        using assms(2) by (auto simp: hin_fcgi_read_rec_def incomplete_def Let_def)
      ultimately show ?thesis using True by (subst read_loop.simps) simp
    next
      case False
      define len pad where "len = 256 * code (buf ! 4) + code (buf ! 5)" and "pad = code (buf ! 6)"
      define n where "n = 8 + len + pad"
      define r where "r = (code (buf ! 1), 256 * code (buf ! 2) + code (buf ! 3), take len (drop 8 buf))"
      note d = 1(2) [unfolded records_decode.simps [of buf], folded len_def pad_def]
      have ok: "8 \<le> length buf" "code (buf ! 0) = 1" "n \<le> length buf"
        using d False by (auto simp: Let_def n_def len_def pad_def split: if_splits)
      obtain rs where rs: "records_decode (drop n buf) = Some rs" "recs = r # rs"
        using d False ok by (auto simp: Let_def n_def len_def pad_def r_def split: if_splits)
      have nth: "(buf @ rest) ! i = buf ! i" if "i < 8" for i using that ok(1) by (simp add: nth_append)
      have rr: "hin_fcgi_read_rec hd_done s (buf @ rest) p = map_option (Pair n) (handle_record hd_done s r p)"
        using ok by (auto simp: hin_fcgi_read_rec_def handle_record_def Let_def nth n_def len_def pad_def r_def
            add.commute add.left_commute split: option.split)
      have IH: "read_loop hd_done s (drop n buf @ rest) q =
          map_option (Pair (length buf - n)) (handle_records hd_done s rs q)" for q
        using 1(1) [OF False _ refl refl, of rs q] ok rs(1) by (simp add: n_def len_def pad_def)
      show ?thesis
      proof (cases "handle_record hd_done s r p")
        case None
        then show ?thesis using rr rs(2) by (subst read_loop.simps) simp
      next
        case (Some q)
        then have "read_loop hd_done s (buf @ rest) p =
            map_option (\<lambda>(m, p). (n + m, p)) (read_loop hd_done s (drop n (buf @ rest)) q)"
          using rr by (subst read_loop.simps) (simp add: n_def)
        also have "drop n (buf @ rest) = drop n buf @ rest" using ok(3) by simp
        finally show ?thesis using Some rs(2) IH [of q] ok(3) by (simp add: option.map_comp comp_def)
      qed
    qed
  qed
  then show ?thesis using assms(3) by (simp add: hin_fcgi_socket_read_callback_def)
qed

definition fpool0 :: fpool where
  "fpool0 = \<lparr>fp_workers = Map.empty, fp_socks = Map.empty,
     fp_group = \<lparr>fg_cur = 0, fg_max = 1, fg_socket = Some [None], fg_idle = []\<rparr>, fp_next = 1, fp_log = []\<rparr>"

text \<open>A worker of request 0 that reads the head of its response, on socket 1.\<close>

definition fpool1 :: fpool where
  "fpool1 = fpool0\<lparr>fp_workers := [2 \<mapsto> \<lparr>fw_req_id = 0, fw_io = HIN_REQ_DATA, fw_http = Some 9,
       fw_head = Some [], fw_out = False, fw_sock = Some 1\<rparr>],
     fp_socks := [1 \<mapsto> \<lparr>fs_fd = 7, fs_id = 0, fs_flags = 0, fs_worker = [Some 2, None, None, None, None],
       fs_last = 1, fs_num = 1, fs_que = [], fs_reading = True\<rparr>],
     fp_next := 3\<rparr>"

theorem read_callback_records_witness:
  "hin_fcgi_socket_read_callback (\<lambda>t. LF \<in> set t) 1 19
     (record_head FCGI_STDOUT 0 2 1 @ [NUL] @ [LF, CHR ''x''] @ [NUL] @ record_head FCGI_STDOUT 0 5 0 @ [NUL]) fpool1 =
   Some (11, log_fcgi (Response_head 2 [LF, CHR ''x'']) (put_worker 2
     \<lparr>fw_req_id = 0, fw_io = HIN_REQ_DATA, fw_http = Some 9, fw_head = None, fw_out = True, fw_sock = Some 1\<rparr> fpool1))"
proof -
  have d: "records_decode (record_head FCGI_STDOUT 0 2 1 @ [NUL] @ [LF, CHR ''x''] @ [NUL]) =
      Some [(FCGI_STDOUT, 0, [LF, CHR ''x''])]"
    using records_decode_step [of FCGI_STDOUT 0 "[LF, CHR ''x'']" "[NUL]" 1 NUL "[]"]
    by (simp add: FCGI_STDOUT_def)
  have i: "incomplete (record_head FCGI_STDOUT 0 5 0 @ [NUL])"
    using be16_eq [of 0] be16_eq [of 5]
    by (simp add: incomplete_def record_head_def FCGI_STDOUT_def byte_char_def code_def)
  show ?thesis
    using read_callback_records [OF d i, of 19 "\<lambda>t. LF \<in> set t" 1 fpool1]
    by (simp add: handle_record_def dispatch_def hin_fcgi_pipe_write_def fpool1_def fpool0_def
        put_worker_def log_fcgi_def)
qed

subsection \<open>A closed connection\<close>

lemma close_worker_keeps:
  assumes "close_worker x p = Some p'"
  shows "fp_group p' = fp_group p \<and>
    (\<forall>w. fp_workers p a = Some w \<longrightarrow> has (fw_io w) HIN_REQ_END \<longrightarrow>
       fp_workers p' a = Some (if x = Some a then w\<lparr>fw_http := None, fw_sock := None\<rparr> else w))"
  using assms
  by (auto simp: close_worker_def reset_http_def put_worker_def log_fcgi_def drop_worker_def Let_def
      split: option.splits if_splits)

lemma close_workers_keeps:
  "close_workers xs p = Some p' \<Longrightarrow> fp_group p' = fp_group p \<and>
    (\<forall>w. fp_workers p a = Some w \<longrightarrow> has (fw_io w) HIN_REQ_END \<longrightarrow>
       (\<exists>w'. fp_workers p' a = Some w' \<and> has (fw_io w') HIN_REQ_END \<and>
         (if Some a \<in> set xs then fw_sock w' = None else w' = w) \<and>
         (fw_sock w = None \<longrightarrow> fw_sock w' = None)))"
proof (induction xs arbitrary: p)
  case (Cons x xs)
  then obtain q where q: "close_worker x p = Some q" "close_workers xs q = Some p'"
    by (auto simp: bind_eq_Some_conv)
  note k = close_worker_keeps [OF q(1), of a] and i = Cons.IH [OF q(2)]
  show ?case
  proof (intro conjI allI impI)
    show "fp_group p' = fp_group p" using k i by simp
    fix w assume w: "fp_workers p a = Some w" "has (fw_io w) HIN_REQ_END"
    let ?w = "if x = Some a then w\<lparr>fw_http := None, fw_sock := None\<rparr> else w"
    have "fp_workers q a = Some ?w" "has (fw_io ?w) HIN_REQ_END" using k w by auto
    then obtain w' where w': "fp_workers p' a = Some w'" "has (fw_io w') HIN_REQ_END"
      "if Some a \<in> set xs then fw_sock w' = None else w' = ?w" "fw_sock ?w = None \<longrightarrow> fw_sock w' = None"
      using i by blast
    then show "\<exists>w'. fp_workers p' a = Some w' \<and> has (fw_io w') HIN_REQ_END \<and>
         (if Some a \<in> set (x # xs) then fw_sock w' = None else w' = w) \<and>
         (fw_sock w = None \<longrightarrow> fw_sock w' = None)"
      by (intro exI [of _ w']) (auto split: if_splits)
  qed
qed simp

lemma run_without_socket:
  "fp_workers p a = Some w \<Longrightarrow> fw_sock w = None \<Longrightarrow> fcgi_do e (Run a) p = None"
  by (subst fcgi_do.simps) simp


definition fpool2 :: fpool where
  "fpool2 = put_idle [2] (put_worker 2 \<lparr>fw_req_id = 0, fw_io = HIN_REQ_END, fw_http = None, fw_head = None,
     fw_out = False, fw_sock = Some 1\<rparr> fpool1)"

definition fcgi_io0 :: fcgi_io where
  "fcgi_io0 = \<lparr>fi_packet = (\<lambda>c rid. Some Stdin_done), fi_write_ok = (\<lambda>a. True)\<rparr>"


subsection \<open>The queue of a socket\<close>

text \<open>\<open>a\<close> waits on the socket with a request without body.\<close>

definition waiting :: "fcgi_io \<Rightarrow> nat \<Rightarrow> fpool \<Rightarrow> nat \<Rightarrow> bool" where
  "waiting e s p a \<longleftrightarrow>
     (\<exists>w c. fp_workers p a = Some w \<and> fw_sock w = Some s \<and> fw_http w = Some c \<and>
        \<not> has (fw_io w) HIN_REQ_DATA \<and> fi_packet e c (fw_req_id w) = Some Stdin_done \<and> fi_write_ok e a)"

abbreviation first_in :: "nat list \<Rightarrow> nat option" where
  "first_in ws \<equiv> (case ws of [] \<Rightarrow> None | b # _ \<Rightarrow> Some b)"

lemma next_in_first: "next_in (a # ws) a = first_in ws"
  by (cases ws) simp_all

lemma loop_none [simp]: "fcgi_do e (Loop s None) p = Some p"
  by (subst fcgi_do.simps) simp

lemma loop_data_set:
  assumes "fp_socks p s = Some so" "fs_que so = []" "\<not> has (fs_flags so) HIN_FCGI_BUSY"
    "fp_workers p b = Some w" "has (fw_io w) HIN_REQ_DATA"
  shows "fcgi_do e (Loop s (Some b)) p = Some p"
  using assms by (subst fcgi_do.simps) simp

lemma drain:
  "fp_socks p s = Some so \<Longrightarrow> fs_que so = ws \<Longrightarrow> distinct ws \<Longrightarrow> \<not> has (fs_flags so) HIN_FCGI_BUSY \<Longrightarrow>
   \<forall>a \<in> set ws. waiting e s p a \<Longrightarrow>
   \<exists>p' so'. fcgi_do e (Loop s (first_in ws)) p = Some p' \<and> fp_log p' = fp_log p @ map (Send s) (rev ws) \<and>
     fp_socks p' s = Some so' \<and> fs_que so' = [] \<and> \<not> has (fs_flags so') HIN_FCGI_BUSY \<and>
     (\<forall>a. a \<notin> set ws \<longrightarrow> fp_workers p' a = fp_workers p a) \<and>
     (\<forall>a \<in> set ws. \<exists>w. fp_workers p' a = Some w \<and> has (fw_io w) HIN_REQ_DATA)"
proof (induction ws arbitrary: p so)
  case Nil
  then show ?case by simp
next
  case (Cons a ws)
  obtain w c where w: "fp_workers p a = Some w" "fw_sock w = Some s" "fw_http w = Some c"
    "\<not> has (fw_io w) HIN_REQ_DATA" "fi_packet e c (fw_req_id w) = Some Stdin_done" "fi_write_ok e a"
    using Cons.prems(5) by (auto simp: waiting_def)
  define p1 where "p1 = put_sock s (so\<lparr>fs_que := ws\<rparr>) p"
  define w1 where "w1 = w\<lparr>fw_io := setf (fw_io w) HIN_REQ_DATA\<rparr>"
  define p2 where "p2 = set_busy False s (put_worker a w1 (set_busy True s p1))"
  have so2: "\<exists>so2. fp_socks p2 s = Some so2 \<and> fs_que so2 = ws \<and> \<not> has (fs_flags so2) HIN_FCGI_BUSY"
    by (simp add: p2_def p1_def set_busy_def put_sock_def put_worker_def)
  have workers2: "fp_workers p2 = (fp_workers p)(a \<mapsto> w1)" and log2: "fp_log p2 = fp_log p"
    by (simp_all add: p2_def p1_def set_busy_def put_sock_def put_worker_def)
  have "\<forall>b \<in> set ws. waiting e s p2 b"
    using Cons.prems(3,5) by (auto simp: waiting_def workers2)
  then obtain p3 so3 where p3: "fcgi_do e (Loop s (first_in ws)) p2 = Some p3"
    "fp_log p3 = fp_log p @ map (Send s) (rev ws)" "fp_socks p3 s = Some so3" "fs_que so3 = []"
    "\<not> has (fs_flags so3) HIN_FCGI_BUSY" "\<forall>b. b \<notin> set ws \<longrightarrow> fp_workers p3 b = fp_workers p2 b"
    "\<forall>b \<in> set ws. \<exists>w. fp_workers p3 b = Some w \<and> has (fw_io w) HIN_REQ_DATA"
    using Cons.IH [of p2] so2 Cons.prems(3) log2 by auto
  have a3: "fp_workers p3 a = Some w1" using p3(6) workers2 Cons.prems(3) by simp
  define p4 where "p4 = put_worker a (w1\<lparr>fw_head := Some []\<rparr>) (log_fcgi (Send s a) p3)"
  have "fcgi_do e (Run a) p1 = Option.bind (fcgi_do e (Loop s (first_in ws)) p2) (run_end e s a)"
    using w Cons.prems(4) unfolding p2_def w1_def
    by (subst fcgi_do.simps) (simp add: p1_def put_sock_def)
  then have run: "fcgi_do e (Run a) p1 = Some p4"
    using a3 w(6) p3(1) by (simp add: run_end_def p4_def)
  have "fcgi_do e (Loop s (first_in ws)) p4 = Some p4"
  proof (cases ws)
    case (Cons b ws')
    then obtain v where "fp_workers p3 b = Some v" "has (fw_io v) HIN_REQ_DATA" using p3(7) by auto
    moreover have "b \<noteq> a" using Cons.prems(3) Cons by auto
    ultimately have "fp_workers p4 b = Some v" "has (fw_io v) HIN_REQ_DATA"
      by (simp_all add: p4_def put_worker_def log_fcgi_def)
    moreover have "fp_socks p4 s = Some so3" using p3(3) by (simp add: p4_def put_worker_def log_fcgi_def)
    ultimately show ?thesis using loop_data_set [OF _ p3(4,5)] by (simp add: Cons)
  qed simp
  then have "fcgi_do e (Loop s (first_in (a # ws))) p = Some p4"
    using Cons.prems(1,2,4) w(1,4) run
    by (subst fcgi_do.simps) (simp add: next_in_first p1_def del: next_in.simps)
  moreover have "fp_log p4 = fp_log p @ map (Send s) (rev (a # ws))" "fp_socks p4 s = Some so3"
    using p3(2,3) by (simp_all add: p4_def put_worker_def log_fcgi_def)
  moreover have "\<forall>b. b \<notin> set (a # ws) \<longrightarrow> fp_workers p4 b = fp_workers p b"
    using p3(6) by (simp add: p4_def put_worker_def log_fcgi_def workers2)
  moreover have "\<forall>b \<in> set (a # ws). \<exists>w. fp_workers p4 b = Some w \<and> has (fw_io w) HIN_REQ_DATA"
    using p3(7) Cons.prems(3) by (auto simp: p4_def put_worker_def log_fcgi_def w1_def flag_defs has_def setf_def)
  ultimately show ?case using p3(4,5) by blast
qed

text \<open>
  Continuing a socket ends, runs every queued request without body exactly once and empties
  the queue; the packets are submitted in the reverse order of the queue, and all of them without
  waiting for a write to complete, because the input is ended before the packet is written.
\<close>

theorem queue_drained_reversed:
  assumes "fp_socks p s = Some so" "distinct (fs_que so)" "\<forall>a \<in> set (fs_que so). waiting e s p a"
  shows "\<exists>p' so'. hin_fcgi_socket_continue e s p = Some p' \<and>
    fp_log p' = fp_log p @ map (Send s) (rev (fs_que so)) \<and>
    fp_socks p' s = Some so' \<and> fs_que so' = [] \<and> \<not> has (fs_flags so') HIN_FCGI_BUSY"
proof -
  let ?p = "set_busy False s p"
  have so: "\<exists>so2. fp_socks ?p s = Some so2 \<and> fs_que so2 = fs_que so \<and> \<not> has (fs_flags so2) HIN_FCGI_BUSY"
    "fp_log ?p = fp_log p" "fp_workers ?p = fp_workers p"
    using assms(1) by (simp_all add: set_busy_def put_sock_def)
  then have "\<forall>a \<in> set (fs_que so). waiting e s ?p a" using assms(3) by (simp add: waiting_def)
  then obtain p' so' where "fcgi_do e (Loop s (first_in (fs_que so))) ?p = Some p'"
    "fp_log p' = fp_log p @ map (Send s) (rev (fs_que so))"
    "fp_socks p' s = Some so'" "fs_que so' = []" "\<not> has (fs_flags so') HIN_FCGI_BUSY"
    using drain [of ?p s] so assms(2) by (metis (no_types, lifting))
  then show ?thesis using assms(1) by (simp add: hin_fcgi_socket_continue_def)
qed

definition fpool3 :: fpool where
  "fpool3 =
     (let w = \<lparr>fw_req_id = 0, fw_io = 0, fw_http = Some 8, fw_head = None, fw_out = False, fw_sock = Some 1\<rparr>
      in put_worker 2 w (put_worker 3 (w\<lparr>fw_req_id := 1, fw_http := Some 9\<rparr>)
           (put_sock 1 \<lparr>fs_fd = -1, fs_id = 0, fs_flags = HIN_FCGI_BUSY, fs_worker = [Some 2, Some 3, None, None, None],
              fs_last = 2, fs_num = 2, fs_que = [2, 3], fs_reading = False\<rparr> fpool0)))"

theorem queue_drained_reversed_witness:
  "\<exists>p'. hin_fcgi_socket_continue fcgi_io0 1 fpool3 = Some p' \<and> fp_log p' = [Send 1 3, Send 1 2]"
proof -
  let ?so = "\<lparr>fs_fd = -1, fs_id = 0, fs_flags = HIN_FCGI_BUSY, fs_worker = [Some 2, Some 3, None, None, None],
              fs_last = 2, fs_num = 2, fs_que = [2, 3], fs_reading = False\<rparr>"
  have so: "fp_socks fpool3 1 = Some ?so"
    by (simp add: fpool3_def put_worker_def put_sock_def Let_def)
  have "\<forall>a \<in> set (fs_que ?so). waiting fcgi_io0 1 fpool3 a"
    by (simp add: waiting_def fpool3_def put_worker_def put_sock_def Let_def fcgi_io0_def)
  from queue_drained_reversed [OF so _ this] show ?thesis
    by (simp add: fpool3_def fpool0_def put_worker_def put_sock_def Let_def) blast
qed

end
