(* ===== verification/HeadLines.thy ===== *)
theory HeadLines
  imports Fcgi
begin

text \<open>
  The loops of the program that go over the lines of a head with \<open>hin_find_line\<close> and print some of
  them into another head: the second pass over the head of a CGI response (\<open>http/cgi/cgi_parse.c\<close>)
  and both directions of the reverse proxy (\<open>http/client/rproxy.c\<close>).  They differ in the text a
  line gives, which is an argument here.
\<close>

text \<open>
  \<open>upd\<close> is what a line does to the variables of the loop.  The flag says whether the empty line was
  reached; \<open>None\<close> also when a header never returns.
\<close>

function copy_lines ::
  "(string_t \<Rightarrow> string option) \<Rightarrow> (string_t \<Rightarrow> 's \<Rightarrow> 's) \<Rightarrow> 's \<Rightarrow> string_t \<Rightarrow> hbuf list \<Rightarrow>
   (bool \<times> 's \<times> string_t \<times> hbuf list) option" where
  "copy_lines sel upd st source bufs =
     (case hin_find_line source of
        None \<Rightarrow> None
      | Some (u, source', line) \<Rightarrow>
          if u = 0 then Some (False, st, source', bufs)
          else if slen line = 0 then Some (True, st, source', bufs)
          else (case sel line of
                  None \<Rightarrow> copy_lines sel upd (upd line st) source' bufs
                | Some t \<Rightarrow> Option.bind (hdr t bufs) (copy_lines sel upd (upd line st) source')))"
  by pat_completeness auto
termination
  by (relation "measure (\<lambda>(sel, upd, st, s, bufs). slen s)") (auto dest!: sym [of _ "hin_find_line _"] find_line_progress)

declare copy_lines.simps [simp del]

text \<open>The bytes already read behind the head go through the pipe before it is started.\<close>

definition start_with :: "(http_pipe \<Rightarrow> pipe_env) \<Rightarrow> int \<Rightarrow> string_t \<Rightarrow> http_pipe \<Rightarrow> http_pipe" where
  "start_with penv len source p =
     (if len > 0
      then p\<lparr>hp_pipe := hin_pipe_write_process (penv p) (hp_pipe p) [piece (take (nat len) (sptr source))]\<rparr>
      else p)"

text \<open>The lines of a head and what follows the empty line.\<close>

function head_lines :: "string_t \<Rightarrow> (string_t list \<times> string_t) option" where
  "head_lines source =
     (case hin_find_line source of
        None \<Rightarrow> None
      | Some (u, source', line) \<Rightarrow>
          if u = 0 then None
          else if slen line = 0 then Some ([], source')
          else map_option (\<lambda>(ls, rest). (line # ls, rest)) (head_lines source'))"
  by pat_completeness auto
termination
  by (relation "measure slen") (auto dest!: sym [of _ "hin_find_line _"] find_line_progress)

declare head_lines.simps [simp del]

definition copied :: "(string_t \<Rightarrow> string option) \<Rightarrow> string_t list \<Rightarrow> string" where
  "copied sel ls = concat (map (\<lambda>l. case sel l of None \<Rightarrow> [] | Some t \<Rightarrow> t) ls)"

lemma copied_simps [simp]:
  "copied sel [] = []"
  "copied sel (l # ls) = (case sel l of None \<Rightarrow> [] | Some t \<Rightarrow> t) @ copied sel ls"
  by (simp_all add: copied_def)

definition lines_fit :: "(string_t \<Rightarrow> string option) \<Rightarrow> string_t list \<Rightarrow> bool" where
  "lines_fit sel ls \<longleftrightarrow> (\<forall>l\<in>set ls. \<forall>t. sel l = Some t \<longrightarrow> length t < HIN_HTTPD_MAX_HEADER_LINE_SIZE)"

text \<open>The loop prints the texts of the lines, in order, and ends after the empty line.\<close>

lemma copy_lines_result:
  "head_lines source = Some (ls, rest) \<Longrightarrow> lines_fit sel ls \<Longrightarrow> chain_wf bufs \<Longrightarrow>
   \<exists>bufs'. copy_lines sel upd st source bufs = Some (True, foldl (\<lambda>st l. upd l st) st ls, rest, bufs') \<and> chain_wf bufs' \<and>
     chain_text bufs' = chain_text bufs @ copied sel ls"
proof (induction source arbitrary: ls bufs st rule: head_lines.induct)
  case (1 source)
  obtain u source' line where f: "hin_find_line source = Some (u, source', line)" "u \<noteq> 0"
    using 1(2) by (subst (asm) head_lines.simps) (auto split: option.splits if_splits)
  show ?case
  proof (cases "slen line = 0")
    case True
    then have "ls = [] \<and> rest = source'"
      using 1(2) f by (subst (asm) head_lines.simps) simp
    then show ?thesis using True f 1(4) by (subst copy_lines.simps) simp
  next
    case False
    obtain ls' where h: "head_lines source' = Some (ls', rest)" "ls = line # ls'"
      using 1(2) f False by (subst (asm) head_lines.simps) auto
    have fit: "lines_fit sel ls'" using 1(3) h(2) by (simp add: lines_fit_def)
    note IH = 1(1) [OF f(1) refl refl f(2) False h(1) fit]
    show ?thesis
    proof (cases "sel line")
      case None
      then show ?thesis using IH [OF 1(4), of "upd line st"] f False h(2) by (subst copy_lines.simps) simp
    next
      case (Some t)
      then have "length t < HIN_HTTPD_MAX_HEADER_LINE_SIZE" using 1(3) h(2) by (simp add: lines_fit_def)
      then obtain b where b: "hdr t bufs = Some b" "chain_wf b" "chain_text b = chain_text bufs @ t"
        using appends_hdr [OF 1(4)] by (auto simp: appends_def)
      then show ?thesis using IH [OF b(2), of "upd line st"] f False h(2) Some by (subst copy_lines.simps) simp
    qed
  qed
qed

end
