(* ===== verification/Cache.thy ===== *)
theory Cache
  imports HttpdFile Timers
begin

text \<open>
  \<open>http/cache/cache.c\<close>: the store of cached responses.  The heap of items is a map from
  addresses (\<open>None\<close> is memory that is not allocated), the table that of \<open>Hashtable\<close>, whose
  first value is the address of the item, and the timers those of \<open>Timers\<close>; the timer of an
  item is embedded in it and has its address.  The clients that wait for an item or are served
  are numbered.  An operation that reads an item that is not allocated, and the endless
  recursion of \<open>header\<close>, are \<open>None\<close>.  There is one store, the default one.
\<close>

definition HIN_CACHE_OBJECT :: int where "HIN_CACHE_OBJECT = 5"

definition HIN_HTTPD_CACHE_MAX_SIZE :: int where "HIN_HTTPD_CACHE_MAX_SIZE = 64 * 1024 * 1024"

record cache_item = item +
  ci_flags :: u32
  ci_refcount :: int
  ci_key1 :: u64
  ci_key2 :: u64
  ci_queue :: "nat list"

datatype cache_event = Closed int | Unlinked u64 u64

record cache =
  cs_size :: int
  cs_max :: int
  cs_table :: ht
  cs_heap :: "u64 \<rightharpoonup> cache_item"
  cs_timers :: timers
  cs_clients :: "nat \<Rightarrow> httpd"
  cs_log :: "cache_event list"

subsection \<open>Items\<close>

definition hin_cache_item_clean :: "u64 \<Rightarrow> cache_item \<Rightarrow> cache \<Rightarrow> cache" where
  "hin_cache_item_clean a it s =
     s\<lparr>cs_timers := hin_timer_remove (unat a) (cs_timers s),
       cs_heap := (cs_heap s)(a := None),
       cs_log := cs_log s @ (if it_fd it > 0 then [Closed (it_fd it)] else []) @
                 [Unlinked (ci_key1 it) (ci_key2 it)]\<rparr>"

definition set_item :: "u64 \<Rightarrow> cache_item \<Rightarrow> cache \<Rightarrow> cache" where
  "set_item a it s = s\<lparr>cs_heap := (cs_heap s)(a \<mapsto> it)\<rparr>"

definition hin_cache_unref :: "u64 \<Rightarrow> cache \<Rightarrow> cache option" where
  "hin_cache_unref a s =
     Option.bind (cs_heap s a) (\<lambda>it.
       let it = it\<lparr>ci_refcount := ci_refcount it - 1\<rparr>
       in Some (if ci_refcount it = 0 then hin_cache_item_clean a it s else set_item a it s))"

definition table_del :: "u64 \<Rightarrow> u64 \<Rightarrow> cache \<Rightarrow> cache" where
  "table_del k1 k2 s = s\<lparr>cs_table := the (snd (basic_ht_delete_pair (Some (cs_table s)) k1 k2))\<rparr>"

definition hin_cache_remove :: "u64 \<Rightarrow> cache \<Rightarrow> cache option" where
  "hin_cache_remove a s =
     Option.bind (cs_heap s a) (\<lambda>it.
       let s = table_del (ci_key1 it) (ci_key2 it) s
       in hin_cache_unref a (s\<lparr>cs_size := cs_size s - it_size it\<rparr>))"

definition hin_cache_get :: "u64 \<Rightarrow> u64 \<Rightarrow> cache \<Rightarrow> u64 option" where
  "hin_cache_get k1 k2 s = map_option value1 (basic_ht_get_pair (Some (cs_table s)) k1 k2)"

subsection \<open>The store\<close>

definition hin_cache_create :: "u64 \<Rightarrow> timers \<Rightarrow> (nat \<Rightarrow> httpd) \<Rightarrow> cache option" where
  "hin_cache_create seed ts cl =
     map_option (\<lambda>(_, h). \<lparr>cs_size = 0, cs_max = HIN_HTTPD_CACHE_MAX_SIZE, cs_table = h, cs_heap = Map.empty,
         cs_timers = ts, cs_clients = cl, cs_log = []\<rparr>)
       (basic_ht_init True \<lparr>ht_size = 0, ht_seed = 0, ht_mask = 0, ht_table = []\<rparr> 1024 seed)"

definition hin_cache_seed :: "cache \<Rightarrow> u64" where
  "hin_cache_seed s = ht_seed (cs_table s)"

fun unref_all :: "u64 list \<Rightarrow> cache \<Rightarrow> cache option" where
  "unref_all [] s = Some s"
| "unref_all (a # as) s = Option.bind (hin_cache_unref a s) (unref_all as)"

text \<open>The iterator visits the pairs of the table, which is not changed meanwhile.\<close>

definition hin_cache_store_clean :: "cache \<Rightarrow> cache option" where
  "hin_cache_store_clean s =
     Option.bind (ht_collect (Suc (length (concat (ht_table (cs_table s))))) (cs_table s) ht_iter0)
       (\<lambda>ps. unref_all (map value1 ps) s)"

subsection \<open>Serving\<close>

definition set_client :: "nat \<Rightarrow> httpd \<Rightarrow> cache \<Rightarrow> cache" where
  "set_client c h s = s\<lparr>cs_clients := (cs_clients s)(c := h)\<rparr>"

definition hin_cache_set_number :: "int \<Rightarrow> httpd \<Rightarrow> httpd" where
  "hin_cache_set_number num h =
     (let h = h\<lparr>h_cache := num\<rparr>
      in h\<lparr>h_cache_flags :=
           (if num > 0 then HIN_CACHE_PUBLIC OR HIN_CACHE_IMMUTABLE OR HIN_CACHE_MAX_AGE
            else if num < 0 then HIN_CACHE_NO_STORE OR HIN_CACHE_NO_CACHE else 0)\<rparr>)"

definition hin_cache_serve_client :: "http_env \<Rightarrow> nat \<Rightarrow> u64 \<Rightarrow> cache \<Rightarrow> cache option" where
  "hin_cache_serve_client e c a s =
     Option.bind (cs_heap s a) (\<lambda>it.
       let h = cs_clients s c;
           h = h\<lparr>h_peer := clrf (h_peer h) HIN_HTTP_CHUNKED, h_status := 200\<rparr>;
           h = hin_cache_set_number (ttime (cs_timers s) (unat a) - e_now e) h
       in map_option (\<lambda>(_, h). set_client c h s) (httpd_send_file e (item.truncate it) h))"

fun serve_queue :: "http_env \<Rightarrow> u64 \<Rightarrow> nat list \<Rightarrow> cache \<Rightarrow> cache option" where
  "serve_queue e a [] s = Some s"
| "serve_queue e a (c # q) s = Option.bind (hin_cache_serve_client e c a s) (serve_queue e a q)"

text \<open>\<open>cnt\<close> and \<open>hash\<close> are those of the pipe that wrote the item.\<close>

definition hin_cache_finish :: "http_env \<Rightarrow> int \<Rightarrow> u64 \<Rightarrow> u64 \<Rightarrow> cache \<Rightarrow> cache option" where
  "hin_cache_finish e cnt hash a s =
     Option.bind (cs_heap s a) (\<lambda>it.
       if has (ci_flags it) HIN_CACHE_ERROR then hin_cache_unref a s
       else
         let it = it\<lparr>it_size := cnt, it_etag := hash, ci_flags := setf (ci_flags it) HIN_CACHE_DONE,
                     it_modified := e_now e\<rparr>;
             s = set_item a it s;
             s = s\<lparr>cs_size := cs_size s + it_size it\<rparr>
         in Option.bind (serve_queue e a (ci_queue it) s) (\<lambda>s.
            Option.bind (cs_heap s a) (\<lambda>it. Some (set_item a (it\<lparr>ci_queue := []\<rparr>) s))))"

definition hin_cache_check :: "http_env \<Rightarrow> nat \<Rightarrow> cache \<Rightarrow> (int \<times> cache) option" where
  "hin_cache_check e c s =
     (let h = cs_clients s c in
      if has (h_disable h) HIN_HTTP_LOCAL_CACHE then Some (-1, s)
      else if h_cache_key1 h OR h_cache_key2 h = 0 then Some (-1, s)
      else case hin_cache_get (h_cache_key1 h) (h_cache_key2 h) s of
          None \<Rightarrow> Some (0, s)
        | Some a \<Rightarrow>
            Option.bind (cs_heap s a) (\<lambda>it.
            Option.bind (hin_cache_serve_client e c a (set_item a (it\<lparr>ci_refcount := ci_refcount it + 1\<rparr>) s))
              (\<lambda>s. Some (1, s))))"

subsection \<open>Generating an item\<close>

fun error_queue :: "http_env \<Rightarrow> u64 \<Rightarrow> nat list \<Rightarrow> cache \<Rightarrow> cache option" where
  "error_queue e a [] s = Some s"
| "error_queue e a (c # q) s =
     (let h = cs_clients s c in
      Option.bind (httpd_error e 500 ''error! 325346'' (h\<lparr>h_state := clrf (h_state h) HIN_REQ_DATA\<rparr>)) (\<lambda>(_, h).
      Option.bind (hin_cache_unref a (set_client c h s)) (error_queue e a q)))"

definition hin_cache_pipe_error_callback :: "http_env \<Rightarrow> u64 \<Rightarrow> cache \<Rightarrow> cache option" where
  "hin_cache_pipe_error_callback e a s =
     Option.bind (cs_heap s a) (\<lambda>it.
     Option.bind (error_queue e a (ci_queue it) s) (\<lambda>s.
     Option.bind (cs_heap s a) (\<lambda>it.
       let it = it\<lparr>ci_queue := [], ci_flags := setf (ci_flags it) HIN_CACHE_ERROR\<rparr>
       in Some (table_del (ci_key1 it) (ci_key2 it) (set_item a it s)))))"

definition hin_cache_timeout_callback :: "u64 \<Rightarrow> cache \<Rightarrow> (int \<times> cache) option" where
  "hin_cache_timeout_callback a s = map_option (\<lambda>s. (1, s)) (hin_cache_remove a s)"

definition new_item :: "int \<Rightarrow> nat \<Rightarrow> httpd \<Rightarrow> cache_item" where
  "new_item fd c h =
     \<lparr>it_type = HIN_CACHE_OBJECT, it_fd = fd, it_modified = 0, it_size = 0, it_etag = 0,
       ci_flags = 0, ci_refcount = 2, ci_key1 = h_cache_key1 h, ci_key2 = h_cache_key2 h,
       ci_queue = [c]\<rparr>"

definition pipe_to_item :: "int \<Rightarrow> pipe \<Rightarrow> pipe" where
  "pipe_to_item fd p =
     p\<lparr>p_flags := setf (p_flags p) HIN_HASH,
       p_out := (p_out p)\<lparr>d_fd := fd,
         d_flags := setf (clrf (d_flags (p_out p)) (HIN_SOCKET OR HIN_SSL)) (HIN_FILE OR HIN_OFFSETS)\<rparr>,
       out_error_cb := True, in_error_cb := True\<rparr>"

text \<open>
  \<open>a\<close> is the address \<open>calloc\<close> gives, \<open>fd\<close> the result of \<open>openat\<close> and \<open>c\<close> the client the pipe
  belongs to.  With the result 1 the pipe belongs to the item.
\<close>

definition hin_cache_save ::
  "http_env \<Rightarrow> u64 \<Rightarrow> int \<Rightarrow> nat \<Rightarrow> pipe \<Rightarrow> cache \<Rightarrow> (int \<times> pipe \<times> cache) option" where
  "hin_cache_save e a fd c p s =
     (let h = cs_clients s c in
      if has (h_disable h) HIN_HTTP_LOCAL_CACHE then Some (-1, p, s)
      else if h_cache_key1 h OR h_cache_key2 h = 0 then Some (-1, p, s)
      else if cs_size s \<ge> cs_max s then Some (-1, p, s)
      else case hin_cache_get (h_cache_key1 h) (h_cache_key2 h) s of
          Some a' \<Rightarrow>
            Option.bind (cs_heap s a') (\<lambda>it.
            let it = it\<lparr>ci_queue := c # ci_queue it, ci_refcount := ci_refcount it + 1\<rparr>
            in Some (0, p, set_item a' it s))
        | None \<Rightarrow>
            let s = set_item a (new_item fd c h) s;
                s = s\<lparr>cs_table := the (snd (basic_ht_set_pair (Some (cs_table s)) (h_cache_key1 h) (h_cache_key2 h) a 0))\<rparr>
            in if fd < 0 then Some (-1, p, s)
               else
                 let s = s\<lparr>cs_timers := hin_timer_update (unat a) (e_now e + h_cache h) (cs_timers s)\<rparr>
                 in Some (1, pipe_to_item fd p, s))"

subsection \<open>Reference counts\<close>

text \<open>
  The references to an item: its entry in the table, the clients in its queue, the responses
  that read it (\<open>held\<close>, released by \<open>done_file\<close>), and, once generating it failed, the pipe that
  generates it (\<open>gen\<close>), which takes over the reference of the table.
\<close>

type_synonym table_map = "u64 \<times> u64 \<rightharpoonup> u64 \<times> u64"

definition item_key :: "cache_item \<Rightarrow> u64 \<times> u64" where
  "item_key it = (ci_key1 it, ci_key2 it)"

definition failed :: "cache_item \<Rightarrow> bool" where
  "failed it \<longleftrightarrow> has (ci_flags it) HIN_CACHE_ERROR"

definition refs :: "table_map \<Rightarrow> (u64 \<Rightarrow> nat) \<Rightarrow> u64 set \<Rightarrow> u64 \<Rightarrow> cache_item \<Rightarrow> nat" where
  "refs m held gen a it =
     (if m (item_key it) = Some (a, 0) then 1 else 0) + length (ci_queue it) + held a +
     (if a \<in> gen \<and> failed it then 1 else 0)"

definition item_ok :: "table_map \<Rightarrow> (u64 \<Rightarrow> nat) \<Rightarrow> u64 set \<Rightarrow> u64 \<Rightarrow> cache_item \<Rightarrow> bool" where
  "item_ok m held gen a it \<longleftrightarrow>
     ci_refcount it = int (refs m held gen a it) \<and> 0 < refs m held gen a it \<and>
     (failed it \<longrightarrow> ci_queue it = [] \<and> m (item_key it) \<noteq> Some (a, 0)) \<and>
     (a \<in> gen \<and> \<not> failed it \<longrightarrow> ci_queue it \<noteq> [])"

definition counts :: "table_map \<Rightarrow> (u64 \<rightharpoonup> cache_item) \<Rightarrow> (u64 \<Rightarrow> nat) \<Rightarrow> u64 set \<Rightarrow> bool" where
  "counts m H held gen \<longleftrightarrow>
     (\<forall>k v. m k = Some v \<longrightarrow> snd v = 0 \<and> (\<exists>it. H (fst v) = Some it \<and> item_key it = k)) \<and>
     (\<forall>a it. H a = Some it \<longrightarrow> item_ok m held gen a it) \<and>
     (\<forall>a. H a = None \<longrightarrow> held a = 0 \<and> a \<notin> gen)"

definition drop_ref :: "cache_item \<Rightarrow> cache_item option" where
  "drop_ref it = (if ci_refcount it - 1 = 0 then None else Some (it\<lparr>ci_refcount := ci_refcount it - 1\<rparr>))"

lemma item_upd_simps [simp]:
  "item_key (it\<lparr>ci_refcount := n\<rparr>) = item_key it" "failed (it\<lparr>ci_refcount := n\<rparr>) = failed it"
  "item_key (it\<lparr>ci_queue := q\<rparr>) = item_key it" "failed (it\<lparr>ci_queue := q\<rparr>) = failed it"
  "item_key (it\<lparr>ci_flags := f\<rparr>) = item_key it"
  "item_key (it\<lparr>it_size := n\<rparr>) = item_key it" "failed (it\<lparr>it_size := n\<rparr>) = failed it"
  "item_key (it\<lparr>it_etag := w\<rparr>) = item_key it" "failed (it\<lparr>it_etag := w\<rparr>) = failed it"
  "item_key (it\<lparr>it_modified := n\<rparr>) = item_key it" "failed (it\<lparr>it_modified := n\<rparr>) = failed it"
  "failed (it\<lparr>ci_flags := setf f HIN_CACHE_ERROR\<rparr>)"
  "failed (it\<lparr>ci_flags := setf f HIN_CACHE_DONE\<rparr>) \<longleftrightarrow> has f HIN_CACHE_ERROR"
  by (simp_all add: item_key_def failed_def) (simp_all add: has_def flag_defs)

lemma countsD:
  assumes "counts m H held gen" "H a = Some it"
  shows "item_ok m held gen a it"
  using assms by (simp add: counts_def)

lemma counts_entry:
  assumes "counts m H held gen" "m k = Some v"
  shows "snd v = 0 \<and> (\<exists>it. H (fst v) = Some it \<and> item_key it = k)"
  using assms unfolding counts_def by blast

lemma counts_free:
  assumes "counts m H held gen" "H a = None"
  shows "held a = 0 \<and> a \<notin> gen"
  using assms unfolding counts_def by blast

text \<open>An operation changes one item and, at most, the entries of the table for it.\<close>

lemma counts_update:
  assumes inv: "counts m H held gen"
    and entries: "\<And>k v. m' k = Some v \<Longrightarrow> fst v \<noteq> a \<Longrightarrow> m k = Some v"
      "\<And>k v. m' k = Some v \<Longrightarrow> fst v = a \<Longrightarrow> snd v = 0 \<and> (\<exists>it. new = Some it \<and> item_key it = k)"
      "\<And>k v. m k = Some v \<Longrightarrow> fst v \<noteq> a \<Longrightarrow> m' k = Some v"
    and others: "\<And>b. b \<noteq> a \<Longrightarrow> held' b = held b \<and> (b \<in> gen' \<longleftrightarrow> b \<in> gen)"
    and self: "\<And>it. new = Some it \<Longrightarrow> item_ok m' held' gen' a it"
      "new = None \<Longrightarrow> held' a = 0 \<and> a \<notin> gen'"
  shows "counts m' (H(a := new)) held' gen'"
proof -
  have same: "refs m' held' gen' b it = refs m held gen b it"
    "(m' (item_key it) = Some (b, 0)) = (m (item_key it) = Some (b, 0))" if "b \<noteq> a" for b it
    using that entries(1,3) [of "item_key it" "(b, 0)"] others [OF that] by (auto simp: refs_def)
  have "snd v = 0 \<and> (\<exists>it. (H(a := new)) (fst v) = Some it \<and> item_key it = k)" if "m' k = Some v" for k v
    using entries(1,2) [OF that] counts_entry [OF inv] by (cases "fst v = a") simp_all
  moreover have "item_ok m' held' gen' b it" if "(H(a := new)) b = Some it" for b it
    using that self(1) countsD [OF inv, of b it] same [of b it] others [of b]
    by (cases "b = a") (auto simp: item_ok_def)
  moreover have "held' b = 0 \<and> b \<notin> gen'" if "(H(a := new)) b = None" for b
    using that self(2) counts_free [OF inv] others [of b] by (cases "b = a") auto
  ultimately show ?thesis unfolding counts_def by blast
qed

lemma entry_of_item:
  assumes "counts m H held gen" "m k = Some v" "fst v = a" "H a = Some it"
  shows "k = item_key it \<and> v = (a, 0)"
  using counts_entry [OF assms(1,2)] assms(3,4) by (auto simp: prod_eq_iff)

text \<open>Dropping a reference that is accounted for elsewhere.\<close>

lemma drop_ref_None:
  "item_ok m held gen a it \<Longrightarrow> drop_ref it = None \<longleftrightarrow> refs m held gen a it = 1"
  by (auto simp: drop_ref_def item_ok_def)

lemma drop_ref_ok:
  assumes "item_ok m held gen a it" "Suc (refs m' held' gen' a it) = refs m held gen a it"
    "failed it \<Longrightarrow> m' (item_key it) \<noteq> Some (a, 0)" "a \<in> gen' \<Longrightarrow> a \<in> gen"
  shows "drop_ref it = Some it' \<Longrightarrow> item_ok m' held' gen' a it' \<and> item_key it' = item_key it"
    and "drop_ref it = None \<Longrightarrow> held' a = 0 \<and> a \<notin> gen' \<and> m' (item_key it) \<noteq> Some (a, 0)"
proof -
  have new: "refs m' held' gen' a (it\<lparr>ci_refcount := n\<rparr>) = refs m' held' gen' a it" for n
    by (simp add: refs_def)
  have gt: "0 < refs m' held' gen' a it" if "drop_ref it \<noteq> None"
    using that assms(2) drop_ref_None [OF assms(1)] by linarith
  show "item_ok m' held' gen' a it' \<and> item_key it' = item_key it" if d: "drop_ref it = Some it'"
    using d gt assms(1,3,4) assms(2) [symmetric]
    by (auto simp: item_ok_def new drop_ref_def split: if_splits)
  assume "drop_ref it = None"
  then have "refs m' held' gen' a it = 0" using assms(2) drop_ref_None [OF assms(1)] by simp
  moreover have "a \<in> gen' \<Longrightarrow> \<not> failed it \<Longrightarrow> ci_queue it \<noteq> []"
    using assms(1,4) by (simp add: item_ok_def)
  ultimately show "held' a = 0 \<and> a \<notin> gen' \<and> m' (item_key it) \<noteq> Some (a, 0)"
    by (auto simp: refs_def split: if_splits)
qed

lemma counts_drop:
  assumes inv: "counts m H held gen" "H a = Some it"
    and r: "Suc (refs m' held' gen' a it) = refs m held gen a it"
    and m': "m' = m \<or> m' = m(item_key it := None) \<and> m (item_key it) = Some (a, 0)"
    and others: "\<And>b. b \<noteq> a \<Longrightarrow> held' b = held b" "\<And>b. b \<noteq> a \<Longrightarrow> b \<in> gen' \<longleftrightarrow> b \<in> gen" "a \<in> gen' \<Longrightarrow> a \<in> gen"
  shows "counts m' (H(a := drop_ref it)) held' gen'"
proof -
  have ok: "item_ok m held gen a it" using countsD [OF inv] .
  have f: "failed it \<Longrightarrow> m' (item_key it) \<noteq> Some (a, 0)" using ok m' by (auto simp: item_ok_def)
  have sub: "m' k = Some v \<Longrightarrow> m k = Some v" for k v using m' by (auto split: if_splits)
  show ?thesis
  proof (rule counts_update [OF inv(1)])
    show "m' k = Some v \<Longrightarrow> fst v \<noteq> a \<Longrightarrow> m k = Some v" for k v by (rule sub)
    show "m k = Some v \<Longrightarrow> fst v \<noteq> a \<Longrightarrow> m' k = Some v" for k v using m' by auto
    show "snd v = 0 \<and> (\<exists>it'. drop_ref it = Some it' \<and> item_key it' = k)" if "m' k = Some v" "fst v = a" for k v
      using entry_of_item [OF inv(1) sub [OF that(1)] that(2) inv(2)] that(1) drop_ref_ok [OF ok r f others(3)]
      by (cases "drop_ref it") auto
    show "held' b = held b \<and> (b \<in> gen') = (b \<in> gen)" if "b \<noteq> a" for b using others that by simp
    show "drop_ref it = Some it' \<Longrightarrow> item_ok m' held' gen' a it'" for it'
      using drop_ref_ok(1) [OF ok r f others(3)] by blast
    show "drop_ref it = None \<Longrightarrow> held' a = 0 \<and> a \<notin> gen'"
      using drop_ref_ok(2) [OF ok r f others(3)] by blast
  qed
qed

lemma counts_release:
  assumes "counts m H held gen" "H a = Some it" "0 < held a"
  shows "counts m (H(a := drop_ref it)) (held(a := held a - 1)) gen"
  by (rule counts_drop [OF assms(1,2)]) (use assms(3) in \<open>auto simp: refs_def\<close>)

lemma counts_finish_failed:
  assumes "counts m H held gen" "H a = Some it" "a \<in> gen" "failed it"
  shows "counts m (H(a := drop_ref it)) held (gen - {a})"
  by (rule counts_drop [OF assms(1,2)]) (use assms(3,4) in \<open>auto simp: refs_def\<close>)

lemma counts_timeout:
  assumes "counts m H held gen" "H a = Some it" "m (item_key it) = Some (a, 0)"
  shows "counts (m(item_key it := None)) (H(a := drop_ref it)) held gen"
  by (rule counts_drop [OF assms(1,2)]) (use assms(3) in \<open>auto simp: refs_def\<close>)

lemma counts_set:
  assumes "counts m H held gen" "H a = Some it" "item_key it' = item_key it"
    "item_ok m held' gen' a it'" "\<And>b. b \<noteq> a \<Longrightarrow> held' b = held b \<and> (b \<in> gen' \<longleftrightarrow> b \<in> gen)"
  shows "counts m (H(a \<mapsto> it')) held' gen'"
  using counts_entry [OF assms(1)] entry_of_item [OF assms(1) _ _ assms(2)] assms(3-5)
  by (intro counts_update [OF assms(1)]) auto

lemma counts_queue:
  assumes "counts m H held gen" "H a = Some it" "m (item_key it) = Some (a, 0)"
  shows "counts m (H(a \<mapsto> it\<lparr>ci_queue := c # ci_queue it, ci_refcount := ci_refcount it + 1\<rparr>)) held gen"
  using countsD [OF assms(1,2)] assms(3)
  by (intro counts_set [OF assms(1,2)]) (auto simp: item_ok_def refs_def)

lemma counts_serve:
  assumes "counts m H held gen" "H a = Some it"
  shows "counts m (H(a \<mapsto> it\<lparr>ci_refcount := ci_refcount it + 1\<rparr>)) (held(a := held a + 1)) gen"
  using countsD [OF assms(1,2)] by (intro counts_set [OF assms(1,2)]) (auto simp: item_ok_def refs_def)

lemma counts_finish:
  assumes "counts m H held gen" "H a = Some it" "a \<in> gen" "\<not> failed it"
    "item_key it' = item_key it" "ci_queue it' = []" "ci_refcount it' = ci_refcount it" "\<not> failed it'"
  shows "counts m (H(a \<mapsto> it')) (held(a := held a + length (ci_queue it))) (gen - {a})"
  using countsD [OF assms(1,2)] assms(3-8)
  by (intro counts_set [OF assms(1,2)]) (auto simp: item_ok_def refs_def)

lemma counts_failed:
  assumes inv: "counts m H held gen" "H a = Some it" "a \<in> gen" "m (item_key it) = Some (a, 0)"
    and it': "item_key it' = item_key it" "ci_queue it' = []" "failed it'"
      "ci_refcount it' = ci_refcount it - int (length (ci_queue it))"
  shows "counts (m(item_key it := None)) (H(a \<mapsto> it')) held gen"
proof (rule counts_update [OF inv(1)])
  show "snd v = 0 \<and> (\<exists>i. Some it' = Some i \<and> item_key i = k)"
    if "(m(item_key it := None)) k = Some v" "fst v = a" for k v
    using that entry_of_item [OF inv(1) _ that(2) inv(2), of k] by (auto split: if_splits)
  have "\<not> failed it" using countsD [OF inv(1,2)] inv(4) by (auto simp: item_ok_def)
  then show "item_ok (m(item_key it := None)) held gen a i" if "Some it' = Some i" for i
    using that countsD [OF inv(1,2)] inv(3,4) it' by (auto simp: item_ok_def refs_def)
qed (use inv(4) in \<open>auto split: if_splits\<close>)

lemma counts_new:
  assumes inv: "counts m H held gen" "H a = None" "m (item_key it) = None"
    and it: "ci_queue it = [c]" "\<not> failed it" "ci_refcount it = 2"
    and gen': "gen' = insert a gen \<or> gen' = gen"
  shows "counts (m(item_key it \<mapsto> (a, 0))) (H(a \<mapsto> it)) held gen'"
proof (rule counts_update [OF inv(1)])
  show "snd v = 0 \<and> (\<exists>i. Some it = Some i \<and> item_key i = k)"
    if "(m(item_key it \<mapsto> (a, 0))) k = Some v" "fst v = a" for k v
    using that counts_entry [OF inv(1), of k v] inv(2) by (cases "k = item_key it") auto
  show "item_ok (m(item_key it \<mapsto> (a, 0))) held gen' a i" if "Some it = Some i" for i
    using that counts_free [OF inv(1,2)] it gen' by (auto simp: item_ok_def refs_def)
qed (use inv(3) gen' in \<open>auto split: if_splits\<close>)

subsection \<open>Effects of the operations\<close>

lemma get_lookup: "hin_cache_get k1 k2 s = map_option fst (ht_lookup (cs_table s) (k1, k2))"
  by (simp add: hin_cache_get_def ht_lookup_def option.map_comp comp_def)

lemma frame_simps [simp]:
  "cs_heap (set_client c h s) = cs_heap s" "cs_table (set_client c h s) = cs_table s"
  "cs_heap (set_item a it s) = (cs_heap s)(a \<mapsto> it)" "cs_table (set_item a it s) = cs_table s"
  "cs_heap (table_del k1 k2 s) = cs_heap s" "cs_table (table_del k1 k2 s) = ht_del (cs_table s) (k1, k2)"
  by (simp_all add: set_client_def set_item_def table_del_def ht_del_def)

lemma unref_effect:
  assumes "hin_cache_unref a s = Some s'"
  obtains it where "cs_heap s a = Some it" "cs_heap s' = (cs_heap s)(a := drop_ref it)" "cs_table s' = cs_table s"
proof -
  obtain it where it: "cs_heap s a = Some it" using assms by (auto simp: hin_cache_unref_def bind_eq_Some_conv)
  have "cs_heap s' = (cs_heap s)(a := drop_ref it)" "cs_table s' = cs_table s"
    using assms it by (auto simp: hin_cache_unref_def Let_def hin_cache_item_clean_def drop_ref_def set_item_def)
  with it that show thesis by blast
qed

lemma serve_effect:
  "hin_cache_serve_client e c a s = Some s' \<Longrightarrow> cs_heap s' = cs_heap s \<and> cs_table s' = cs_table s"
  by (auto simp: hin_cache_serve_client_def Let_def bind_eq_Some_conv)

lemma serve_queue_effect:
  "serve_queue e a q s = Some s' \<Longrightarrow> cs_heap s' = cs_heap s \<and> cs_table s' = cs_table s"
  by (induction q arbitrary: s) (auto simp: bind_eq_Some_conv dest!: serve_effect)

lemma error_queue_effect:
  assumes "error_queue e a q s = Some s'" "cs_heap s a = Some it" "int (length q) < ci_refcount it"
  shows "cs_heap s' = (cs_heap s)(a \<mapsto> it\<lparr>ci_refcount := ci_refcount it - int (length q)\<rparr>) \<and> cs_table s' = cs_table s"
  using assms
proof (induction q arbitrary: s it)
  case Nil
  then show ?case by (auto simp: fun_upd_idem)
next
  case (Cons c q)
  from Cons.prems(1) obtain h s1 where s1: "hin_cache_unref a (set_client c h s) = Some s1" "error_queue e a q s1 = Some s'"
    by (auto simp: Let_def bind_eq_Some_conv)
  have h1: "cs_heap s1 = (cs_heap s)(a \<mapsto> it\<lparr>ci_refcount := ci_refcount it - 1\<rparr>)" "cs_table s1 = cs_table s"
    using unref_effect [OF s1(1)] Cons.prems(2,3) by (auto simp: drop_ref_def)
  show ?case
    using Cons.IH [OF s1(2), of "it\<lparr>ci_refcount := ci_refcount it - 1\<rparr>"] Cons.prems(3) h1 by auto
qed

subsection \<open>The life of a store\<close>

text \<open>
  The events that reach a store: calls of \<open>hin_cache_save\<close> and \<open>hin_cache_check\<close> for a client,
  the completion or the failure of a pipe that generates an item, the end of a response that
  reads one, and the expiry of an item.  Clients change freely in between.  \<open>held\<close> and \<open>gen\<close>
  follow who still has the address of an item.
\<close>

definition in_table :: "u64 \<Rightarrow> cache \<Rightarrow> bool" where
  "in_table a s \<longleftrightarrow> (\<exists>it. cs_heap s a = Some it \<and> ht_lookup (cs_table s) (item_key it) = Some (a, 0))"

inductive cache_step :: "cache \<times> (u64 \<Rightarrow> nat) \<times> u64 set \<Rightarrow> cache \<times> (u64 \<Rightarrow> nat) \<times> u64 set \<Rightarrow> bool" where
  step_clients: "cache_step (s, held, gen) (s\<lparr>cs_clients := cl\<rparr>, held, gen)"
| step_timers: "cache_step (s, held, gen) (s\<lparr>cs_timers := ts\<rparr>, held, gen)"
| step_save: "hin_cache_save e a fd c p s = Some (r, p', s') \<Longrightarrow> cs_heap s a = None \<Longrightarrow>
    gen' = (if r = 1 then insert a gen else gen) \<Longrightarrow> cache_step (s, held, gen) (s', held, gen')"
| step_miss: "hin_cache_check e c s = Some (r, s') \<Longrightarrow> r \<noteq> 1 \<Longrightarrow> cache_step (s, held, gen) (s', held, gen)"
| step_hit: "hin_cache_check e c s = Some (1, s') \<Longrightarrow>
    hin_cache_get (h_cache_key1 (cs_clients s c)) (h_cache_key2 (cs_clients s c)) s = Some a \<Longrightarrow>
    cache_step (s, held, gen) (s', held(a := held a + 1), gen)"
| step_ready: "hin_cache_finish e cnt hash a s = Some s' \<Longrightarrow> a \<in> gen \<Longrightarrow> cs_heap s a = Some it \<Longrightarrow>
    \<not> failed it \<Longrightarrow> cache_step (s, held, gen) (s', held(a := held a + length (ci_queue it)), gen - {a})"
| step_dropped: "hin_cache_finish e cnt hash a s = Some s' \<Longrightarrow> a \<in> gen \<Longrightarrow> cs_heap s a = Some it \<Longrightarrow>
    failed it \<Longrightarrow> cache_step (s, held, gen) (s', held, gen - {a})"
| step_error: "hin_cache_pipe_error_callback e a s = Some s' \<Longrightarrow> a \<in> gen \<Longrightarrow> in_table a s \<Longrightarrow>
    cache_step (s, held, gen) (s', held, gen)"
| step_done: "hin_cache_unref a s = Some s' \<Longrightarrow> 0 < held a \<Longrightarrow>
    cache_step (s, held, gen) (s', held(a := held a - 1), gen)"
| step_timeout: "hin_cache_timeout_callback a s = Some (r, s') \<Longrightarrow> in_table a s \<Longrightarrow>
    cache_step (s, held, gen) (s', held, gen)"

fun cache_inv :: "cache \<times> (u64 \<Rightarrow> nat) \<times> u64 set \<Rightarrow> bool" where
  "cache_inv (s, held, gen) \<longleftrightarrow> ht_wf (cs_table s) \<and> counts (ht_lookup (cs_table s)) (cs_heap s) held gen"

lemma save_effect:
  assumes "hin_cache_save e a fd c p s = Some (r, p', s')" "k = (h_cache_key1 (cs_clients s c), h_cache_key2 (cs_clients s c))"
  shows "s' = s \<and> r \<noteq> 1 \<or>
     (\<exists>a' it. map_option fst (ht_lookup (cs_table s) k) = Some a' \<and> cs_heap s a' = Some it \<and> r = 0 \<and>
        s' = set_item a' (it\<lparr>ci_queue := c # ci_queue it, ci_refcount := ci_refcount it + 1\<rparr>) s) \<or>
     ht_lookup (cs_table s) k = None \<and> cs_heap s' = (cs_heap s)(a \<mapsto> new_item fd c (cs_clients s c)) \<and>
        cs_table s' = ht_put (cs_table s) k (a, 0)"
proof -
  have put: "the (snd (basic_ht_set_pair (Some t) k1 k2 a 0)) = ht_put t (k1, k2) (a, 0)" for t k1 k2
    by (simp add: ht_put_def)
  show ?thesis
    using assms unfolding hin_cache_save_def Let_def put get_lookup
    by (simp split: if_splits option.splits add: bind_eq_Some_conv) (auto simp: set_item_def)
qed

lemma save_inv:
  assumes inv: "ht_wf (cs_table s)" "counts (ht_lookup (cs_table s)) (cs_heap s) held gen"
    and save: "hin_cache_save e a fd c p s = Some (r, p', s')" "cs_heap s a = None"
      "gen' = (if r = 1 then insert a gen else gen)"
  shows "cache_inv (s', held, gen')"
proof -
  let ?k = "(h_cache_key1 (cs_clients s c), h_cache_key2 (cs_clients s c))"
  consider (none) "s' = s" "r \<noteq> 1"
    | (queued) a' it where "map_option fst (ht_lookup (cs_table s) ?k) = Some a'" "cs_heap s a' = Some it"
        "s' = set_item a' (it\<lparr>ci_queue := c # ci_queue it, ci_refcount := ci_refcount it + 1\<rparr>) s" "r = 0"
    | (created) "ht_lookup (cs_table s) ?k = None" "cs_heap s' = (cs_heap s)(a \<mapsto> new_item fd c (cs_clients s c))"
        "cs_table s' = ht_put (cs_table s) ?k (a, 0)"
    using save_effect [OF save(1) refl] by (elim disjE exE conjE) (blast, metis, metis)
  then show ?thesis
  proof cases
    case none
    then show ?thesis using inv save(3) by simp
  next
    case (queued a' it)
    then obtain v where v: "ht_lookup (cs_table s) ?k = Some v" "fst v = a'" by blast
    have "ht_lookup (cs_table s) (item_key it) = Some (a', 0)"
      using entry_of_item [OF inv(2) v queued(2)] v by metis
    then show ?thesis using queued(2-4) inv(1) save(3) counts_queue [OF inv(2), of a' it c] by simp
  next
    case created
    let ?it = "new_item fd c (cs_clients s c)"
    have it: "ci_queue ?it = [c]" "\<not> failed ?it" "ci_refcount ?it = 2" "item_key ?it = ?k"
      by (simp_all add: new_item_def failed_def item_key_def)
    have "ht_lookup (cs_table s) (item_key ?it) = None" using created it(4) by simp
    from counts_new [OF inv(2) save(2) this it(1-3), of gen'] created save(3) show ?thesis
      using hts.invar_put [OF inv(1)] hts.lookup_put [OF inv(1)] it(4) by simp
  qed
qed

lemma hit_effect:
  assumes "hin_cache_check e c s = Some (1, s')"
    "hin_cache_get (h_cache_key1 (cs_clients s c)) (h_cache_key2 (cs_clients s c)) s = Some a"
  obtains it where "cs_heap s a = Some it" "cs_table s' = cs_table s"
    "cs_heap s' = (cs_heap s)(a \<mapsto> it\<lparr>ci_refcount := ci_refcount it + 1\<rparr>)"
proof -
  obtain it where it: "cs_heap s a = Some it"
    "hin_cache_serve_client e c a (set_item a (it\<lparr>ci_refcount := ci_refcount it + 1\<rparr>) s) = Some s'"
    using assms by (auto simp: hin_cache_check_def Let_def bind_eq_Some_conv split: if_splits)
  show thesis using that it(1) serve_effect [OF it(2)] by simp
qed

lemma miss_effect:
  assumes "hin_cache_check e c s = Some (r, s')" "r \<noteq> 1"
  shows "s' = s"
  using assms by (auto simp: hin_cache_check_def Let_def bind_eq_Some_conv split: if_splits option.splits)

lemma ready_effect:
  assumes "hin_cache_finish e cnt hash a s = Some s'" "cs_heap s a = Some it" "\<not> failed it"
  obtains it' where "cs_table s' = cs_table s" "cs_heap s' = (cs_heap s)(a \<mapsto> it')" "item_key it' = item_key it"
    "ci_queue it' = []" "ci_refcount it' = ci_refcount it" "\<not> failed it'" "has (ci_flags it') HIN_CACHE_DONE"
    "it_size it' = cnt" "it_etag it' = hash"
proof -
  define it1 where "it1 = it\<lparr>it_size := cnt, it_etag := hash, ci_flags := setf (ci_flags it) HIN_CACHE_DONE,
    it_modified := e_now e\<rparr>"
  define s1 where "s1 = (set_item a it1 s)\<lparr>cs_size := cs_size (set_item a it1 s) + it_size it1\<rparr>"
  have it1: "item_key it1 = item_key it" "\<not> failed it1" "ci_refcount it1 = ci_refcount it" "ci_queue it1 = ci_queue it"
    "has (ci_flags it1) HIN_CACHE_DONE" "it_size it1 = cnt" "it_etag it1 = hash"
    using assms(3) by (simp_all add: it1_def failed_def item_key_def) (simp_all add: has_def flag_defs)
  obtain s2 where s2: "serve_queue e a (ci_queue it) s1 = Some s2"
    "Option.bind (cs_heap s2 a) (\<lambda>it. Some (set_item a (it\<lparr>ci_queue := []\<rparr>) s2)) = Some s'"
    using assms(1,3) it1(4) unfolding hin_cache_finish_def assms(2) s1_def it1_def failed_def
    by (auto simp: Let_def bind_eq_Some_conv)
  have "cs_heap s2 = (cs_heap s)(a \<mapsto> it1)" "cs_table s2 = cs_table s"
    using serve_queue_effect [OF s2(1)] by (simp_all add: s1_def)
  then show thesis using s2(2) it1 by (intro that [of "it1\<lparr>ci_queue := []\<rparr>"]) auto
qed

lemma error_effect:
  assumes "hin_cache_pipe_error_callback e a s = Some s'" "cs_heap s a = Some it"
    "int (length (ci_queue it)) < ci_refcount it"
  obtains it' where "cs_table s' = ht_del (cs_table s) (item_key it)" "cs_heap s' = (cs_heap s)(a \<mapsto> it')"
    "item_key it' = item_key it" "ci_queue it' = []" "failed it'"
    "ci_refcount it' = ci_refcount it - int (length (ci_queue it))"
proof -
  obtain s1 where s1: "error_queue e a (ci_queue it) s = Some s1"
    "Option.bind (cs_heap s1 a) (\<lambda>it.
       let it = it\<lparr>ci_queue := [], ci_flags := setf (ci_flags it) HIN_CACHE_ERROR\<rparr>
       in Some (table_del (ci_key1 it) (ci_key2 it) (set_item a it s1))) = Some s'"
    using assms(1,2) by (auto simp: hin_cache_pipe_error_callback_def bind_eq_Some_conv)
  let ?it1 = "it\<lparr>ci_refcount := ci_refcount it - int (length (ci_queue it))\<rparr>"
  let ?it2 = "?it1\<lparr>ci_queue := [], ci_flags := setf (ci_flags it) HIN_CACHE_ERROR\<rparr>"
  have "cs_heap s1 = (cs_heap s)(a \<mapsto> ?it1)" "cs_table s1 = cs_table s"
    using error_queue_effect [OF s1(1) assms(2,3)] by simp_all
  moreover have "failed ?it2" by (simp add: failed_def has_def setf_def flag_defs)
  ultimately show thesis using s1(2) by (intro that [of ?it2]) (auto simp: Let_def item_key_def)
qed

lemma timeout_effect:
  assumes "hin_cache_timeout_callback a s = Some (r, s')"
  obtains it where "cs_heap s a = Some it" "cs_table s' = ht_del (cs_table s) (item_key it)"
    "cs_heap s' = (cs_heap s)(a := drop_ref it)"
proof -
  obtain it where it: "cs_heap s a = Some it"
    "hin_cache_unref a ((table_del (ci_key1 it) (ci_key2 it) s)\<lparr>cs_size := cs_size s - it_size it\<rparr>) = Some s'"
    using assms by (auto simp: hin_cache_timeout_callback_def hin_cache_remove_def bind_eq_Some_conv Let_def table_del_def)
  from unref_effect [OF it(2)] it(1) that show thesis by (auto simp: item_key_def)
qed

lemma cache_step_inv: "cache_step st st' \<Longrightarrow> cache_inv st \<Longrightarrow> cache_inv st'"
proof (induction rule: cache_step.induct)
  case (step_save e a fd c p s r p' s' gen' gen held)
  then show ?case by (intro save_inv [OF _ _ step_save(1-3)]) simp_all
next
  case (step_miss e c s r s' held gen)
  from miss_effect [OF step_miss(1,2)] step_miss(3) show ?case by simp
next
  case (step_hit e c s s' a held gen)
  obtain it where "cs_heap s a = Some it" "cs_table s' = cs_table s"
    "cs_heap s' = (cs_heap s)(a \<mapsto> it\<lparr>ci_refcount := ci_refcount it + 1\<rparr>)"
    by (rule hit_effect [OF step_hit(1,2)])
  then show ?case using step_hit(3) counts_serve [of _ "cs_heap s" held gen a it] by simp
next
  case (step_ready e cnt hash a s s' gen it held)
  obtain i where "cs_table s' = cs_table s" "cs_heap s' = (cs_heap s)(a \<mapsto> i)" "item_key i = item_key it"
    "ci_queue i = []" "ci_refcount i = ci_refcount it" "\<not> failed i"
    by (rule ready_effect [OF step_ready(1,3,4)])
  then show ?case using step_ready(2-5) counts_finish [of _ "cs_heap s" held gen a it i] by simp
next
  case (step_dropped e cnt hash a s s' gen it held)
  have "hin_cache_unref a s = Some s'"
    using step_dropped(1,3,4) by (simp add: hin_cache_finish_def failed_def)
  then obtain i where "cs_heap s a = Some i" "cs_heap s' = (cs_heap s)(a := drop_ref i)" "cs_table s' = cs_table s"
    by (rule unref_effect)
  then show ?case using step_dropped(2-5) counts_finish_failed [of _ "cs_heap s" held gen a it] by simp
next
  case (step_error e a s s' gen held)
  then obtain it where it: "cs_heap s a = Some it" "ht_lookup (cs_table s) (item_key it) = Some (a, 0)"
    by (auto simp: in_table_def)
  have inv: "ht_wf (cs_table s)" "counts (ht_lookup (cs_table s)) (cs_heap s) held gen"
    using step_error by simp_all
  have "int (length (ci_queue it)) < ci_refcount it"
    using countsD [OF inv(2) it(1)] it(2) by (simp add: item_ok_def refs_def)
  then obtain i where "cs_table s' = ht_del (cs_table s) (item_key it)" "cs_heap s' = (cs_heap s)(a \<mapsto> i)"
    "item_key i = item_key it" "ci_queue i = []" "failed i" "ci_refcount i = ci_refcount it - int (length (ci_queue it))"
    by (rule error_effect [OF step_error(1) it(1)])
  then show ?case
    using counts_failed [OF inv(2) it(1) step_error(2) it(2), of i] hts.lookup_del [OF inv(1)] hts.invar_del [OF inv(1)]
    by simp
next
  case (step_done a s s' held gen)
  obtain it where "cs_heap s a = Some it" "cs_heap s' = (cs_heap s)(a := drop_ref it)" "cs_table s' = cs_table s"
    by (rule unref_effect [OF step_done(1)])
  then show ?case using step_done(2,3) counts_release [of _ "cs_heap s" held gen a it] by simp
next
  case (step_timeout a s r s' held gen)
  have inv: "ht_wf (cs_table s)" "counts (ht_lookup (cs_table s)) (cs_heap s) held gen"
    using step_timeout by simp_all
  obtain it where it: "cs_heap s a = Some it" "ht_lookup (cs_table s) (item_key it) = Some (a, 0)"
    using step_timeout(2) by (auto simp: in_table_def)
  moreover obtain i where "cs_heap s a = Some i" "cs_table s' = ht_del (cs_table s) (item_key i)"
    "cs_heap s' = (cs_heap s)(a := drop_ref i)" by (rule timeout_effect [OF step_timeout(1)])
  ultimately have "cs_table s' = ht_del (cs_table s) (item_key it)" "cs_heap s' = (cs_heap s)(a := drop_ref it)"
    by simp_all
  then show ?case
    using counts_timeout [OF inv(2) it] hts.lookup_del [OF inv(1)] hts.invar_del [OF inv(1)] by simp
qed simp_all

lemma cache_steps_inv: "cache_step\<^sup>*\<^sup>* st st' \<Longrightarrow> cache_inv st \<Longrightarrow> cache_inv st'"
  by (induction rule: rtranclp_induct) (auto intro: cache_step_inv simp del: cache_inv.simps)

lemma create_inv:
  assumes "hin_cache_create seed ts cl = Some s"
  shows "cache_inv (s, (\<lambda>_. 0), {})" and "ht_lookup (cs_table s) = Map.empty" and "cs_clients s = cl"
    and "cs_size s = 0" "cs_max s = HIN_HTTPD_CACHE_MAX_SIZE" "cs_heap s = Map.empty"
proof -
  obtain h where h: "basic_ht_init True \<lparr>ht_size = 0, ht_seed = 0, ht_mask = 0, ht_table = []\<rparr> 1024 seed = Some (0, h)"
    "ht_wf h" "ht_lookup h = Map.empty"
    using ht_init_pow2 [of 10] by auto
  show "cache_inv (s, (\<lambda>_. 0), {})" "ht_lookup (cs_table s) = Map.empty" "cs_clients s = cl"
    "cs_size s = 0" "cs_max s = HIN_HTTPD_CACHE_MAX_SIZE" "cs_heap s = Map.empty"
    using assms h by (auto simp: hin_cache_create_def counts_def)
qed

lemma create_succeeds: "\<exists>s. hin_cache_create seed ts cl = Some s"
proof -
  obtain h where "basic_ht_init True \<lparr>ht_size = 0, ht_seed = 0, ht_mask = 0, ht_table = []\<rparr> 1024 seed = Some (0, h)"
    using ht_init_pow2 [of 10] by auto
  then show ?thesis by (simp add: hin_cache_create_def)
qed


definition client1 :: httpd where
  "client1 = httpd0\<lparr>h_cache_key1 := 1, h_cache := 60\<rparr>"

lemma save_new:
  assumes "ht_lookup (cs_table s) (1, 0) = None" "cs_size s < cs_max s" "cs_clients s c = client1"
  shows "\<exists>s'. hin_cache_save e a fd c p s = Some (if fd < 0 then - 1 else 1, if fd < 0 then p else pipe_to_item fd p, s') \<and>
     cs_heap s' = (cs_heap s)(a \<mapsto> new_item fd c client1) \<and> cs_table s' = ht_put (cs_table s) (1, 0) (a, 0) \<and>
     cs_clients s' = cs_clients s \<and> cs_size s' = cs_size s \<and> cs_max s' = cs_max s \<and>
     (0 \<le> fd \<longrightarrow> cs_timers s' = hin_timer_update (unat a) (e_now e + 60) (cs_timers s))"
proof -
  have c: "\<not> has (h_disable client1) HIN_HTTP_LOCAL_CACHE" "h_cache_key1 client1 = 1" "h_cache_key2 client1 = 0"
    "h_cache client1 = 60"
    by (simp_all add: client1_def httpd0_def)
  have put: "the (snd (basic_ht_set_pair (Some t) k1 k2 a 0)) = ht_put t (k1, k2) (a, 0)" for t k1 k2
    by (simp add: ht_put_def)
  show ?thesis
    using assms(1,2) unfolding hin_cache_save_def put assms(3) get_lookup
    by (simp add: c Let_def) (simp add: set_item_def)
qed


subsection \<open>Expiry and late clients\<close>

text \<open>
  C30: the timer callback leaves the timer of an expired item linked and due when a response
  still reads the item.  The next check of the timers calls it again, which frees the item
  under that response: the release at its end reads freed memory.
\<close>

theorem cache_expiry_frees_in_use:
  assumes "hin_cache_create seed ts cl = Some s0" "cache_step\<^sup>*\<^sup>* (s0, (\<lambda>_. 0), {}) (s, held, gen)"
    and "cs_heap s a = Some it" "in_table a s" "ci_queue it = []" "held a = 1" "a \<notin> gen"
  shows "\<exists>s1 s2. hin_cache_timeout_callback a s = Some (1, s1) \<and> cs_timers s1 = cs_timers s \<and>
     cs_heap s1 a \<noteq> None \<and> hin_cache_timeout_callback a s1 = Some (1, s2) \<and>
     cs_heap s2 a = None \<and> hin_cache_unref a s2 = None"
proof -
  have inv: "counts (ht_lookup (cs_table s)) (cs_heap s) held gen"
    using cache_steps_inv [OF assms(2) create_inv(1) [OF assms(1)]] by simp
  have rc: "ci_refcount it = 2"
    using countsD [OF inv assms(3)] assms(3-7) by (simp add: item_ok_def refs_def in_table_def)
  define s1 where "s1 = set_item a (it\<lparr>ci_refcount := 1\<rparr>)
    ((table_del (ci_key1 it) (ci_key2 it) s)\<lparr>cs_size := cs_size s - it_size it\<rparr>)"
  have "hin_cache_timeout_callback a s = Some (1, s1)"
    using assms(3) rc by (simp add: hin_cache_timeout_callback_def hin_cache_remove_def hin_cache_unref_def
        Let_def s1_def) (simp add: table_del_def set_item_def)
  moreover have "cs_timers s1 = cs_timers s" "cs_heap s1 a = Some (it\<lparr>ci_refcount := 1\<rparr>)"
    by (simp_all add: s1_def set_item_def table_del_def)
  moreover from this(2) obtain s2 where "hin_cache_timeout_callback a s1 = Some (1, s2)" "cs_heap s2 a = None"
    by (simp add: hin_cache_timeout_callback_def hin_cache_remove_def hin_cache_unref_def Let_def
        hin_cache_item_clean_def)
  moreover from this(2) have "hin_cache_unref a s2 = None" by (simp add: hin_cache_unref_def)
  ultimately show ?thesis by auto
qed

lemma send_idle:
  assumes "h_pos h = 0" "h_count h = 0" "h_etag h = 0" "h_modified_since h = 0" "h_peer h = 0" "h_status h = 200"
    "h_method h \<noteq> HIN_METHOD_HEAD" "texts_fit e h" "it_size it = 0" "it_modified it = 0"
  shows "\<exists>h'. httpd_send_file e it h = Some (0, h')"
proof -
  have range: "file_range it h = h" "in_file it h" using assms by (simp_all add: file_range_def in_file_def Let_def)
  have st: "file_status it h = h" using assms by (simp add: file_status_def Let_def)
  have p: "h\<lparr>h_peer := clrf (h_peer h) (h_disable h)\<rparr> = h" using assms(5) by (simp add: clrf_def)
  have opts: "\<exists>q. httpd_pipe_set_http11_response_options h (file_pipe it h) = (h, q)"
    using assms(5-7) by (simp add: httpd_pipe_set_http11_response_options_def httpd_pipe_set_chunked_def Let_def)
  have "\<exists>bufs. file_head e it h = Some bufs" using file_head_result [OF assms(8), of it] assms by auto
  with opts range st p show ?thesis
    using send_file_sends [OF range st _ p] by (auto simp: HIN_HTTPD_MAX_COMPRESS_SIZE_def)
qed

definition env1 :: http_env where
  "env1 = env0\<lparr>e_strftime := (\<lambda>name t. [])\<rparr>"

lemma serve_client1:
  assumes "cs_clients s c = client1" "cs_heap s a = Some it" "it_size it = 0" "it_modified it = 0"
    "\<bar>ttime (cs_timers s) (unat a)\<bar> < 10 ^ 20"
  shows "\<exists>s'. hin_cache_serve_client env1 c a s = Some s'"
proof -
  let ?h = "hin_cache_set_number (ttime (cs_timers s) (unat a) - e_now env1)
    (client1\<lparr>h_peer := clrf (h_peer client1) HIN_HTTP_CHUNKED, h_status := 200\<rparr>)"
  have "\<exists>h'. httpd_send_file env1 (item.truncate it) ?h = Some (0, h')"
    using assms(3-5)
    by (intro send_idle) (simp_all add: hin_cache_set_number_def client1_def httpd0_def clrf_def
        HIN_METHOD_HEAD_def texts_fit_def env1_def env0_def vhosts0_def item.truncate_def)
  then show ?thesis using assms(1,2) by (auto simp: hin_cache_serve_client_def Let_def)
qed

lemma finish_client1:
  assumes "cs_heap s a = Some it" "\<not> failed it" "ci_queue it = [c]" "cs_clients s c = client1"
    "\<bar>ttime (cs_timers s) (unat a)\<bar> < 10 ^ 20"
  shows "\<exists>s'. hin_cache_finish env1 0 hash a s = Some s'"
proof -
  let ?it = "it\<lparr>it_size := 0, it_etag := hash, ci_flags := setf (ci_flags it) HIN_CACHE_DONE, it_modified := e_now env1\<rparr>"
  let ?s = "(set_item a ?it s)\<lparr>cs_size := cs_size (set_item a ?it s) + it_size ?it\<rparr>"
  obtain s1 where s1: "hin_cache_serve_client env1 c a ?s = Some s1"
    using serve_client1 [of ?s c a ?it] assms(4,5) by (auto simp: set_item_def env1_def env0_def)
  then have "cs_heap s1 a = Some ?it" using serve_effect [OF s1] by simp
  then show ?thesis using assms(1-3) s1 by (simp add: hin_cache_finish_def failed_def Let_def)
qed

theorem cache_expiry_frees_in_use_witness:
  "\<exists>s0 s1 p s2 s3. hin_cache_create 7 \<lparr>tlist = [], ttime = (\<lambda>_. 0)\<rparr> (\<lambda>_. client1) = Some s0 \<and>
     hin_cache_save env1 64 9 3 (hp_pipe new_pipe) s0 = Some (1, p, s1) \<and>
     hin_cache_finish env1 0 5381 64 s1 = Some s2 \<and>
     hin_cache_timeout_callback 64 s2 = Some (1, s3) \<and> cs_timers s3 = cs_timers s2"
proof -
  obtain s0 where s0: "hin_cache_create 7 \<lparr>tlist = [], ttime = (\<lambda>_. 0)\<rparr> (\<lambda>_. client1) = Some s0"
    using create_succeeds by blast
  then have t0: "cs_timers s0 = \<lparr>tlist = [], ttime = (\<lambda>_. 0)\<rparr>" by (auto simp: hin_cache_create_def)
  obtain s1 p where s1: "hin_cache_save env1 64 9 3 (hp_pipe new_pipe) s0 = Some (1, p, s1)"
    "cs_heap s1 = (cs_heap s0)(64 \<mapsto> new_item 9 3 client1)" "cs_table s1 = ht_put (cs_table s0) (1, 0) (64, 0)"
    "cs_clients s1 = cs_clients s0" "cs_timers s1 = hin_timer_update 64 60 (cs_timers s0)"
    using save_new [of s0 3 env1 64 9 "hp_pipe new_pipe"] create_inv [OF s0]
    by (auto simp: HIN_HTTPD_CACHE_MAX_SIZE_def env1_def env0_def)
  let ?it = "new_item 9 3 client1"
  have it: "\<not> failed ?it" "ci_queue ?it = [3]" "item_key ?it = (1, 0)"
    by (simp_all add: new_item_def failed_def item_key_def client1_def httpd0_def)
  have "ttime (cs_timers s1) (unat (64 :: u64)) = 60" by (simp add: s1(5) t0 hin_timer_update_def)
  then obtain s2 where s2: "hin_cache_finish env1 0 5381 64 s1 = Some s2"
    using finish_client1 [of s1 64 ?it 3 5381] it s1(2,4) create_inv(3) [OF s0] by auto
  obtain it2 where it2: "cs_table s2 = cs_table s1" "cs_heap s2 = (cs_heap s1)(64 \<mapsto> it2)" "item_key it2 = item_key ?it"
    "ci_queue it2 = []" by (rule ready_effect [OF s2 _ it(1)]) (simp_all add: s1(2))
  have "cache_step (s0, \<lambda>_. 0, {}) (s1, \<lambda>_. 0, {64})"
    using step_save [OF s1(1), of "{64}" "{}" "\<lambda>_. 0"] create_inv(6) [OF s0] by simp
  moreover have "cache_step (s1, \<lambda>_. 0, {64}) (s2, (\<lambda>_. 0)(64 := 0 + length (ci_queue ?it)), {64} - {64})"
    by (rule step_ready [OF s2]) (simp_all add: s1(2) it(1))
  ultimately have steps: "cache_step\<^sup>*\<^sup>* (s0, \<lambda>_. 0, {}) (s2, (\<lambda>_. 0)(64 := 1), {})"
    by (simp add: it(2))
  have "in_table 64 s2"
    using create_inv(1) [OF s0] it(3) it2 by (simp add: in_table_def s1(3) hts.put_get)
  from cache_expiry_frees_in_use [OF s0 steps _ this, of it2] it2 obtain s3 where
    "hin_cache_timeout_callback 64 s2 = Some (1, s3)" "cs_timers s3 = cs_timers s2" by auto
  then show ?thesis using s0 s1(1) s2 by blast
qed

text \<open>
  A client that waits for an item no pipe generates any more waits forever: it stays in the
  queue of the item, which is never freed.
\<close>

definition waits :: "nat \<Rightarrow> u64 \<Rightarrow> cache \<times> (u64 \<Rightarrow> nat) \<times> u64 set \<Rightarrow> bool" where
  "waits c a st \<longleftrightarrow> (case st of (s, held, gen) \<Rightarrow> a \<notin> gen \<and> (\<exists>it. cs_heap s a = Some it \<and> c \<in> set (ci_queue it)))"

lemma drop_ref_waits:
  assumes "item_ok m held gen a it" "Suc (refs m' held' gen' a it) = refs m held gen a it" "c \<in> set (ci_queue it)"
  shows "\<exists>it'. drop_ref it = Some it' \<and> ci_queue it' = ci_queue it"
proof -
  have "0 < refs m' held' gen' a it" using assms(3) by (auto simp: refs_def)
  then show ?thesis using assms(2) drop_ref_None [OF assms(1)] by (auto simp: drop_ref_def)
qed

lemma waits_other:
  assumes "waits c a (s, held, gen)" "cs_heap s' = (cs_heap s)(b := new)" "b \<noteq> a" "a \<notin> gen'"
  shows "waits c a (s', held', gen')"
  using assms by (auto simp: waits_def)

lemma waits_same:
  assumes "waits c a (s, held, gen)" "cs_heap s b = Some it" "cs_heap s' = (cs_heap s)(b \<mapsto> it')"
    "set (ci_queue it) \<subseteq> set (ci_queue it')" "a \<notin> gen'"
  shows "waits c a (s', held', gen')"
  using assms by (auto simp: waits_def)

lemma waits_drop:
  assumes "waits c a (s, held, gen)" "cs_heap s b = Some it" "cs_heap s' = (cs_heap s)(b := drop_ref it)"
    "item_ok m held gen b it" "Suc (refs m' held' gen b it) = refs m held gen b it"
  shows "waits c a (s', held', gen)"
proof (cases "b = a")
  case True
  then have "c \<in> set (ci_queue it)" using assms(1,2) by (auto simp: waits_def)
  from drop_ref_waits [OF assms(4,5) this] obtain it' where "drop_ref it = Some it'" "ci_queue it' = ci_queue it" by blast
  then show ?thesis using assms(3) waits_same [OF assms(1,2), of s' it' gen] assms(1) by (auto simp: waits_def)
next
  case False
  then show ?thesis using waits_other [OF assms(1,3)] assms(1) by (auto simp: waits_def)
qed

lemma waits_step: "cache_step st st' \<Longrightarrow> cache_inv st \<Longrightarrow> waits c a st \<Longrightarrow> waits c a st'"
proof (induction rule: cache_step.induct)
  case (step_save e b fd c' p s r p' s' gen' gen held)
  have b: "b \<noteq> a" "a \<notin> gen'" using step_save(2,3,5) by (auto simp: waits_def split: if_splits)
  from save_effect [OF step_save(1) refl] show ?case
  proof (elim disjE exE conjE)
    assume "s' = s"
    then show ?thesis using step_save(5) b(2) by (simp add: waits_def)
  next
    fix a' it
    assume "cs_heap s a' = Some it"
      "s' = set_item a' (it\<lparr>ci_queue := c' # ci_queue it, ci_refcount := ci_refcount it + 1\<rparr>) s"
    then show ?thesis by (intro waits_same [OF step_save(5) _ _ _ b(2)]) auto
  next
    assume "cs_heap s' = (cs_heap s)(b \<mapsto> new_item fd c' (cs_clients s c'))"
    then show ?thesis by (rule waits_other [OF step_save(5) _ b])
  qed
next
  case (step_miss e c' s r s' held gen)
  from miss_effect [OF step_miss(1,2)] step_miss(4) show ?case by simp
next
  case (step_hit e c' s s' b held gen)
  obtain it where "cs_heap s b = Some it" "cs_heap s' = (cs_heap s)(b \<mapsto> it\<lparr>ci_refcount := ci_refcount it + 1\<rparr>)"
    by (rule hit_effect [OF step_hit(1,2)])
  then show ?case by (rule waits_same [OF step_hit(4)]) (use step_hit(4) in \<open>auto simp: waits_def\<close>)
next
  case (step_ready e cnt hash b s s' gen it held)
  obtain i where i: "cs_heap s' = (cs_heap s)(b \<mapsto> i)" by (rule ready_effect [OF step_ready(1,3,4)])
  show ?case by (rule waits_other [OF step_ready(6) i]) (use step_ready(2,6) in \<open>auto simp: waits_def\<close>)
next
  case (step_dropped e cnt hash b s s' gen it held)
  have "hin_cache_unref b s = Some s'"
    using step_dropped(1,3,4) by (simp add: hin_cache_finish_def failed_def)
  then obtain i where i: "cs_heap s' = (cs_heap s)(b := drop_ref i)" by (rule unref_effect)
  show ?case by (rule waits_other [OF step_dropped(6) i]) (use step_dropped(2,6) in \<open>auto simp: waits_def\<close>)
next
  case (step_error e b s s' gen held)
  then obtain it where it: "cs_heap s b = Some it" "ht_lookup (cs_table s) (item_key it) = Some (b, 0)"
    by (auto simp: in_table_def)
  have "int (length (ci_queue it)) < ci_refcount it"
    using countsD [of _ "cs_heap s" held gen b it] it step_error(4) by (auto simp: item_ok_def refs_def)
  then obtain i where i: "cs_heap s' = (cs_heap s)(b \<mapsto> i)" by (rule error_effect [OF step_error(1) it(1)])
  show ?case by (rule waits_other [OF step_error(5) i]) (use step_error(2,5) in \<open>auto simp: waits_def\<close>)
next
  case (step_done b s s' held gen)
  obtain it where it: "cs_heap s b = Some it" "cs_heap s' = (cs_heap s)(b := drop_ref it)"
    by (rule unref_effect [OF step_done(1)])
  have "item_ok (ht_lookup (cs_table s)) held gen b it" using step_done(3) it(1) countsD by auto
  from waits_drop [OF step_done(4) it this] show ?case using step_done(2) by (auto simp: refs_def)
next
  case (step_timeout b s r s' held gen)
  then obtain it where it: "cs_heap s b = Some it" "ht_lookup (cs_table s) (item_key it) = Some (b, 0)"
    by (auto simp: in_table_def)
  obtain i where "cs_heap s b = Some i" "cs_heap s' = (cs_heap s)(b := drop_ref i)"
    by (rule timeout_effect [OF step_timeout(1)])
  then have h: "cs_heap s' = (cs_heap s)(b := drop_ref it)" using it(1) by simp
  have "item_ok (ht_lookup (cs_table s)) held gen b it" using step_timeout(3) it(1) countsD by auto
  from waits_drop [OF step_timeout(4) it(1) h this, of "(ht_lookup (cs_table s))(item_key it := None)" held] it(2)
  show ?case by (simp add: refs_def)
qed (simp_all add: waits_def)

lemma waits_steps:
  "cache_step\<^sup>*\<^sup>* st st' \<Longrightarrow> cache_inv st \<Longrightarrow> waits c a st \<Longrightarrow> waits c a st'"
  by (induction rule: rtranclp_induct) (auto intro: waits_step cache_steps_inv simp del: cache_inv.simps)

text \<open>
  A client that \<open>hin_cache_save\<close> queues on an item that no pipe generates (one that is
  complete already, or whose file could not be created) is in its queue for ever, and the item
  is never freed.
\<close>

theorem late_client_waits:
  assumes "hin_cache_create seed ts cl = Some s0" "cache_step\<^sup>*\<^sup>* (s0, (\<lambda>_. 0), {}) (s, held, gen)"
    and "hin_cache_save e b fd c p s = Some (0, p', s')" "cs_heap s b = None"
    and "hin_cache_get (h_cache_key1 (cs_clients s c)) (h_cache_key2 (cs_clients s c)) s = Some a" "a \<notin> gen"
    and "cache_step\<^sup>*\<^sup>* (s', held, gen) (t, held', gen')"
  shows "a \<notin> gen' \<and> (\<exists>it. cs_heap t a = Some it \<and> c \<in> set (ci_queue it))"
proof -
  have inv: "cache_inv (s, held, gen)" by (rule cache_steps_inv [OF assms(2) create_inv(1) [OF assms(1)]])
  have step: "cache_step (s, held, gen) (s', held, gen)" by (rule step_save [OF assms(3,4)]) simp
  have "waits c a (s', held, gen)"
    using assms(3,5,6)
    by (auto simp: hin_cache_save_def Let_def bind_eq_Some_conv waits_def set_item_def split: if_splits)
  from waits_steps [OF assms(7) cache_step_inv [OF step inv] this] show ?thesis by (simp add: waits_def)
qed

theorem late_client_waits_witness:
  "\<exists>s0 s1 s2 it. hin_cache_create 7 \<lparr>tlist = [], ttime = (\<lambda>_. 0)\<rparr> (\<lambda>_. client1) = Some s0 \<and>
     hin_cache_save env0 64 (- 1) 3 (hp_pipe new_pipe) s0 = Some (- 1, hp_pipe new_pipe, s1) \<and>
     hin_cache_save env0 80 9 4 (hp_pipe new_pipe) s1 = Some (0, hp_pipe new_pipe, s2) \<and>
     cs_heap s2 64 = Some it \<and> 4 \<in> set (ci_queue it)"
proof -
  let ?p = "hp_pipe new_pipe" and ?it = "new_item (- 1) 3 client1"
  obtain s0 where s0: "hin_cache_create 7 \<lparr>tlist = [], ttime = (\<lambda>_. 0)\<rparr> (\<lambda>_. client1) = Some s0"
    using create_succeeds by blast
  note c = create_inv [OF s0]
  obtain s1 where s1: "hin_cache_save env0 64 (- 1) 3 ?p s0 = Some (- 1, ?p, s1)"
    "cs_heap s1 = (cs_heap s0)(64 \<mapsto> ?it)" "cs_table s1 = ht_put (cs_table s0) (1, 0) (64, 0)"
    "cs_clients s1 = cs_clients s0" "cs_size s1 = 0" "cs_max s1 = cs_max s0"
    using save_new [of s0 3 env0 64 "- 1" ?p] c by (auto simp: HIN_HTTPD_CACHE_MAX_SIZE_def)
  have get: "hin_cache_get (h_cache_key1 (cs_clients s1 4)) (h_cache_key2 (cs_clients s1 4)) s1 = Some 64"
    using c by (simp add: get_lookup s1(3,4) client1_def httpd0_def hts.put_get)
  have k: "\<not> has (h_disable (cs_clients s1 4)) HIN_HTTP_LOCAL_CACHE"
    "h_cache_key1 (cs_clients s1 4) OR h_cache_key2 (cs_clients s1 4) \<noteq> 0" "\<not> cs_max s1 \<le> cs_size s1"
    using c by (simp_all add: s1 client1_def httpd0_def HIN_HTTPD_CACHE_MAX_SIZE_def)
  obtain s2 where s2: "hin_cache_save env0 80 9 4 ?p s1 = Some (0, ?p, s2)"
    using get k by (simp add: hin_cache_save_def Let_def s1(2))
  have "cache_step (s0, \<lambda>_. 0, {}) (s1, \<lambda>_. 0, {})" using step_save [OF s1(1), of "{}" "{}" "\<lambda>_. 0"] c(6) by simp
  then have "cache_step\<^sup>*\<^sup>* (s0, \<lambda>_. 0, {}) (s1, \<lambda>_. 0, {})" by blast
  from late_client_waits [OF s0 this s2 _ get _ rtranclp.rtrancl_refl] c(6) s0 s1(1,2) s2
  show ?thesis by auto
qed

end
