(* ===== verification/CgiParse.thy ===== *)
theory CgiParse
  imports HeadLines Cache
begin

text \<open>
  \<open>http/cgi/cgi_parse.c\<close>: the head of the response of a CGI or FastCGI program, which is read
  twice, first for the status and the options, then to print the head of the HTTP response.  The
  client is number \<open>c\<close> of the store of responses (theory \<open>Cache\<close>), where the response may be kept.
\<close>

text \<open>One line of the first pass; the state is the client, the size and the options to disable.\<close>

definition cgi_line :: "string_t \<Rightarrow> httpd \<times> int \<times> u32 \<Rightarrow> httpd \<times> int \<times> u32" where
  "cgi_line line st =
     (case st of (h, sz, disable) \<Rightarrow>
        let (n1, _, status) = matchi_string line ''Status: (%d+)'';
            (n2, size) = matchi_string_equal line ''Content-Length: (%d+)'';
            (n3, _, _) = matchi_string line ''Content-Encoding:'';
            (n4, _, _) = matchi_string line ''Transfer-Encoding:'';
            (n5, val, _) = matchi_string line ''Cache-Control:'';
            (n6, _, _) = matchi_string line ''Date:''
        in if n1 > 0 then (h\<lparr>h_status := atoi (sptr (stored status null_str))\<rparr>, sz, disable)
           else if n2 > 0
           then (let sz = atoi (sptr (stored size null_str)) in (h\<lparr>h_count := sz\<rparr>, sz, disable))
           else if n3 > 0 then (h, sz, setf disable HIN_HTTP_COMPRESS)
           else if n4 > 0 then (h, sz, setf disable HIN_HTTP_CHUNKED)
           else if n5 > 0
           then (case httpd_parse_cache_str (sptr val) (slen val) (h_cache h) of
                   (flags, age) \<Rightarrow> (h\<lparr>h_cache_flags := flags, h_cache := age\<rparr>, sz, setf disable HIN_HTTP_CACHE))
           else if n6 > 0 then (h, sz, setf disable HIN_HTTP_DATE)
           else (h, sz, disable))"

text \<open>The first pass; the flag says whether the head is complete.\<close>

function cgi_lines :: "httpd \<times> int \<times> u32 \<Rightarrow> string_t \<Rightarrow> (bool \<times> (httpd \<times> int \<times> u32) \<times> string_t) option" where
  "cgi_lines st source =
     (case hin_find_line source of
        None \<Rightarrow> None
      | Some (u, source', line) \<Rightarrow>
          if u = 0 then Some (False, st, source')
          else if slen line = 0 then Some (True, st, source')
          else cgi_lines (cgi_line line st) source')"
  by pat_completeness auto
termination
  by (relation "measure (\<lambda>(st, s). slen s)") (auto dest!: sym [of _ "hin_find_line _"] find_line_progress)

declare cgi_lines.simps [simp del]

text \<open>The line of a location, which is the rest of the line whether it is a URL or a path.\<close>

definition hin_cgi_location :: "string_t \<Rightarrow> string" where
  "hin_cgi_location origin =
     (if fst (match_string origin ''http'') > 0
      then ''Location: '' @ c_str (str_of origin) @ CRLF
      else ''Location: '' @ c_str (str_of origin) @ CRLF)"

text \<open>One line of the second pass; \<open>HIN_HTTPD_DISABLE_POWERED_BY\<close> is off in the configuration.\<close>

definition cgi_text :: "u32 \<Rightarrow> string_t \<Rightarrow> string option" where
  "cgi_text peer line =
     (let (n, loc, _) = matchi_string line ''Location:''
      in if fst (matchi_string line ''Status:'') > 0 then None
         else if has peer HIN_HTTP_CHUNKED \<and> fst (matchi_string line ''Content-Length:'') > 0 then None
         else if n > 0 then Some (hin_cgi_location loc)
         else if fst (match_string line ''X-CGI-'') > 0 then None
         else Some (c_str (str_of line) @ CRLF))"

text \<open>The response to the client (the part of the callback from \<open>httpd_pipe_set_http11_response_options\<close>).\<close>

definition cgi_respond ::
  "http_env \<Rightarrow> (http_pipe \<Rightarrow> pipe_env) \<Rightarrow> int \<Rightarrow> nat \<Rightarrow> string_t \<Rightarrow> httpd \<Rightarrow> http_pipe \<Rightarrow>
   (int \<times> http_pipe option \<times> httpd) option" where
  "cgi_respond e penv len left orig h p =
     (case httpd_pipe_set_http11_response_options h p of
        (h, p) \<Rightarrow>
          Option.bind (hdr (status_line h (h_status h)) [new_buffer (left + READ_SZ)]) (\<lambda>bufs.
          Option.bind (httpd_write_common_headers e h bufs) (\<lambda>bufs.
          Option.bind (copy_lines (cgi_text (h_peer h)) (\<lambda>_ _. ()) () orig bufs) (\<lambda>(complete, _, source, bufs).
          if \<not> complete then Some (0, None, h)
          else Option.bind (hdr CRLF bufs) (\<lambda>bufs.
            let p = p\<lparr>hp_pipe := foldl hin_pipe_append_raw (hp_pipe p) (head_bufs bufs)\<rparr>
            in Some (-1, Some (start_with penv len source p), h))))))"

text \<open>
  \<open>txt\<close> are the bytes of the line buffer of descriptor \<open>fd\<close>; \<open>fcgi\<close> says whether the worker has a
  socket; \<open>a\<close> and \<open>tmp\<close> are the address and the file of a new item of the store.  The pipe is the
  one that is started: \<open>worker->out\<close> of a FastCGI worker.
\<close>

definition cgi_pipe :: "bool \<Rightarrow> int \<Rightarrow> http_pipe" where
  "cgi_pipe fcgi fd =
     new_pipe\<lparr>hp_pipe := (hp_pipe new_pipe)
       \<lparr>p_in := \<lparr>d_fd = fd, d_flags = (if fcgi then HIN_INACTIVE else 0), d_pos = 0\<rparr>, finish_cb := True\<rparr>\<rparr>"

definition hin_cgi_headers_read_callback ::
  "http_env \<Rightarrow> (http_pipe \<Rightarrow> pipe_env) \<Rightarrow> u64 \<Rightarrow> int \<Rightarrow> bool \<Rightarrow> int \<Rightarrow> nat \<Rightarrow> string \<Rightarrow> cache \<Rightarrow>
   (int \<times> http_pipe option \<times> cache) option" where
  "hin_cgi_headers_read_callback e penv a tmp fcgi fd c mem s =
     (let h = (cs_clients s c)\<lparr>h_status := 200\<rparr>
      in case cgi_lines (h, 0, 0) (mk_str mem) of
           None \<Rightarrow> None
         | Some (False, (h, _, _), _) \<Rightarrow> Some (0, None, set_client c h s)
         | Some (True, (h, sz, disable), source) \<Rightarrow>
             let len = (if sz \<noteq> 0 \<and> sz < int (slen source) then sz else int (slen source));
                 p = cgi_pipe fcgi fd;
                 h = h\<lparr>h_disable := setf (h_disable h) disable\<rparr>;
                 h = h\<lparr>h_peer := clrf (h_peer h) (h_disable h)\<rparr>;
                 s = set_client c h s;
                 respond = (\<lambda>s. map_option (\<lambda>(r, p, h). (r, p, set_client c h s))
                              (cgi_respond e penv len (slen source) (mk_str mem) h p))
             in if has (h_cache_flags h) HIN_CACHE_PUBLIC \<and> h_method h \<noteq> HIN_METHOD_POST \<and> h_status h = 200
                then Option.bind (hin_cache_save e a tmp c (hp_pipe p) s) (\<lambda>(n, pp, s).
                  if n = 0 then Some (-1, None, s)
                  else if n > 0 then Some (-1, Some (start_with penv len source (p\<lparr>hp_pipe := pp\<rparr>)), s)
                  else respond s)
                else respond s)"

text \<open>\<open>hd_done\<close> of theory \<open>FcgiPool\<close>: the callback has what it needs.\<close>

definition cgi_head_done :: "string \<Rightarrow> bool" where
  "cgi_head_done mem = (case head_lines (mk_str mem) of None \<Rightarrow> False | Some _ \<Rightarrow> True)"

definition hin_cgi_headers_close_callback :: "http_env \<Rightarrow> string \<Rightarrow> httpd \<Rightarrow> (int \<times> httpd) option" where
  "hin_cgi_headers_close_callback e err h =
     map_option (\<lambda>(_, h). (1, h)) (httpd_error e 500 (''cgi process failed '' @ err) h)"

definition hin_cgi_headers_eat_callback :: "int \<Rightarrow> bool \<Rightarrow> lines \<Rightarrow> int \<times> lines" where
  "hin_cgi_headers_eat_callback num req_ok b =
     (if num = 0 then (0, snd (hin_lines_request True req_ok 0 b)) else (1, b))"

text \<open>\<open>hin_cgi_send\<close>: \<open>ok\<close> says whether the first read is accepted.\<close>

definition hin_cgi_send :: "http_env \<Rightarrow> bool \<Rightarrow> httpd \<Rightarrow> (int \<times> lines \<times> httpd) option" where
  "hin_cgi_send e ok h =
     (let b = hin_lines_create_raw READ_SZ
      in if ok then Some (0, b\<lparr>lb_active := True\<rparr>, h)
         else map_option (\<lambda>(_, h). (-1, b, h)) (httpd_error e 503 (''error! '' @ print_int 435776) h))"

text \<open>The end of a CGI response: the descriptor is closed and the request of the client ends.\<close>

definition hin_pipe_cgi_server_finish_callback :: "http_env \<Rightarrow> pipe \<Rightarrow> httpd \<Rightarrow> httpd" where
  "hin_pipe_cgi_server_finish_callback e p h =
     httpd_client_finish_request e (Some (p_count p)) (log_http (Close_fd (d_fd (p_in p))) h)"

subsection \<open>What the client gets\<close>

text \<open>The first pass folds \<open>cgi_line\<close> over the lines of the head.\<close>

lemma cgi_lines_fold:
  "cgi_lines st source =
     (case head_lines source of
        Some (ls, rest) \<Rightarrow> Some (True, foldl (\<lambda>st l. cgi_line l st) st ls, rest)
      | None \<Rightarrow> cgi_lines st source)"
proof (induction source arbitrary: st rule: head_lines.induct)
  case (1 source)
  show ?case
  proof (cases "head_lines source")
    case (Some r)
    then obtain u source' line where f: "hin_find_line source = Some (u, source', line)" "u \<noteq> 0"
      by (subst (asm) head_lines.simps) (auto split: option.splits if_splits)
    show ?thesis
    proof (cases "slen line = 0")
      case True
      then show ?thesis using Some f by (subst cgi_lines.simps, subst (asm) head_lines.simps) auto
    next
      case False
      obtain ls rest where h: "head_lines source' = Some (ls, rest)" "r = (line # ls, rest)"
        using Some f False by (subst (asm) head_lines.simps) auto
      have "cgi_lines st source = cgi_lines (cgi_line line st) source'"
        using f False by (subst cgi_lines.simps) simp
      then show ?thesis using 1 [OF f(1) refl refl f(2) False, of "cgi_line line st"] h Some by simp
    qed
  qed simp
qed

lemma cgi_respond_result:
  assumes "httpd_pipe_set_http11_response_options h p = (g, q)" "texts_fit e g"
    "length (print_int (h_status g)) < 100" "head_lines orig = Some (ls, rest)" "lines_fit (cgi_text (h_peer g)) ls"
  shows "\<exists>bufs. cgi_respond e penv len left orig h p =
       Some (-1, Some (start_with penv len rest (q\<lparr>hp_pipe := foldl hin_pipe_append_raw (hp_pipe q) (head_bufs bufs)\<rparr>)), g) \<and>
     chain_text bufs = status_line g (h_status g) @ date_text e g @ common_text e g @ copied (cgi_text (h_peer g)) ls @ CRLF"
proof -
  obtain b where b: "Option.bind (hdr (status_line g (h_status g)) [new_buffer (left + READ_SZ)])
      (\<lambda>b. httpd_write_common_headers e g b) = Some b" "chain_wf b"
    "chain_text b = status_line g (h_status g) @ date_text e g @ common_text e g"
    using appends_head [OF assms(2,3), of "left + READ_SZ"] by blast
  obtain b0 where b0: "hdr (status_line g (h_status g)) [new_buffer (left + READ_SZ)] = Some b0"
    "httpd_write_common_headers e g b0 = Some b"
    using b(1) by (cases "hdr (status_line g (h_status g)) [new_buffer (left + READ_SZ)]") auto
  obtain c where c: "copy_lines (cgi_text (h_peer g)) (\<lambda>_ _. ()) () orig b = Some (True, (), rest, c)" "chain_wf c"
    "chain_text c = chain_text b @ copied (cgi_text (h_peer g)) ls"
    using copy_lines_result [OF assms(4,5) b(2), of "\<lambda>_ _. ()" "()"] by auto
  obtain d where d: "hdr CRLF c = Some d" "chain_text d = chain_text c @ CRLF"
    using appends_hdr [OF c(2), of CRLF] by (auto simp: appends_def HIN_HTTPD_MAX_HEADER_LINE_SIZE_def)
  show ?thesis
    unfolding cgi_respond_def assms(1) using b0 c d b(3) by (auto simp: Let_def intro!: exI [of _ d])
qed


definition cgi_example :: string where
  "cgi_example = ''Status: 404 Not Found'' @ CRLF @ ''X-A: b'' @ CRLF @ CRLF @ ''hey''"

lemma cgi_example_lines:
  "head_lines (mk_str cgi_example) =
     Some ([\<lparr>sptr = cgi_example, slen = 21\<rparr>, \<lparr>sptr = drop 23 cgi_example, slen = 6\<rparr>], mk_str ''hey'')"
  "foldl (\<lambda>st l. cgi_line l st) (httpd0\<lparr>h_status := 200\<rparr>, 0, 0)
     [\<lparr>sptr = cgi_example, slen = 21\<rparr>, \<lparr>sptr = drop 23 cgi_example, slen = 6\<rparr>] = (httpd0\<lparr>h_status := 404\<rparr>, 0, 0)"
  "map (cgi_text 0) [\<lparr>sptr = cgi_example, slen = 21\<rparr>, \<lparr>sptr = drop 23 cgi_example, slen = 6\<rparr>] =
     [None, Some (''X-A: b'' @ CRLF)]"
  by code_simp+


end
