(* ===== verification/CgiEnv.thy ===== *)
theory CgiEnv
  imports CgiParse
begin

text \<open>
  The start of a CGI program (\<open>http/cgi/httpd_cgi.c\<close>): the request of the server, and in the new
  process the environment of the program, an array of strings that grows as it is filled.  An
  access outside the array is \<open>None\<close>.
\<close>

subsection \<open>The array\<close>

text \<open>A slot that was never written is \<open>None\<close>, the null pointer is \<open>Some None\<close>.\<close>

record env_list =
  el_pos :: nat
  el_num :: nat
  el_env :: "string option option list"

definition env_list0 :: env_list where
  "env_list0 = \<lparr>el_pos = 0, el_num = 0, el_env = []\<rparr>"

text \<open>The letters before the equals sign.\<close>

definition upcase_text :: "string \<Rightarrow> string" where
  "upcase_text s = map (\<lambda>c. if c = CHR ''-'' then CHR ''_'' else toupper c) (takeWhile (\<lambda>c. c \<noteq> CHR ''='') s) @
     dropWhile (\<lambda>c. c \<noteq> CHR ''='') s"

definition upcase :: "env_list \<Rightarrow> env_list option" where
  "upcase el =
     (if el_pos el = 0 then None
      else let p = el_pos el - 1 in
        if p < length (el_env el)
        then (case el_env el ! p of
                Some (Some s) \<Rightarrow> Some (el\<lparr>el_env := (el_env el)[p := Some (Some (upcase_text s))]\<rparr>)
              | _ \<Rightarrow> None)
        else None)"

text \<open>\<open>new\<close> is the text that is printed.\<close>

definition var :: "string \<Rightarrow> env_list \<Rightarrow> env_list option" where
  "var new el =
     (let p = el_pos el;
          el = el\<lparr>el_pos := p + 1\<rparr>;
          el = (if el_pos el > el_num el
                then let num = el_pos el + 80 in
                  el\<lparr>el_num := num, el_env := el_env el @ replicate (num - length (el_env el)) None\<rparr>
                else el)
      in if el_pos el < length (el_env el)
         then Some (el\<lparr>el_env := (el_env el)[el_pos el := Some None, p := Some (Some new)]\<rparr>)
         else None)"

fun vars :: "string list \<Rightarrow> env_list \<Rightarrow> env_list option" where
  "vars [] el = Some el"
| "vars (s # ss) el = Option.bind (var s el) (vars ss)"

subsection \<open>The environment\<close>

text \<open>
  What the new process reads outside the connection: the directory of the virtual host, the file
  of the request and, when a script is given, the one it leads to (directory and name); whether
  \<open>dup2\<close> and \<open>fchdir\<close> work; the results of \<open>getnameinfo\<close>; the name of the host and the path info.
\<close>

record cgi_env =
  ce_dup2 :: bool
  ce_chdir :: bool
  ce_cwd :: "string option"
  ce_file :: "(string \<times> string) option"
  ce_script :: "(string \<times> string) option option"
  ce_server :: "(string \<times> string) option"
  ce_peer :: "(string \<times> string) option"
  ce_host :: "string option"
  ce_path_info :: "string option"

definition path_info_texts :: "string \<Rightarrow> string option \<Rightarrow> string list" where
  "path_info_texts cwd info =
     (case info of
        None \<Rightarrow> []
      | Some p \<Rightarrow>
          if p = [] then []
          else [''PATH_INFO='' @ p, ''PATH_TRANSLATED='' @ cwd @ (if at0 p = CHR ''/'' then tl p else p)])"

text \<open>The text of a header line, if it is one, and the value of a \<open>Host\<close> line.\<close>

definition header_text :: "string_t \<Rightarrow> (string \<times> string_t option) option" where
  "header_text line =
     (let (n, line, caps) = match_string line ''([%w_%-]+):%s*''; name = stored caps null_str
      in if n \<le> 0 then None
         else
           let hostname = (if take 5 (sptr name) = ''Host:'' then Some line else None);
               (ct, name, _) = matchi_string name ''content%-type''
           in Some (if ct > 0 then ''CONTENT_TYPE='' @ c_str (str_of line)
                    else ''HTTP_'' @ c_str (str_of name) @ ''='' @ c_str (str_of line), hostname))"

text \<open>The loop over the header lines.\<close>

function cgi_headers :: "string_t \<Rightarrow> string_t option \<Rightarrow> env_list \<Rightarrow> (string_t option \<times> env_list) option" where
  "cgi_headers source hostname el =
     (case hin_find_line source of
        None \<Rightarrow> None
      | Some (u, source', line) \<Rightarrow>
          if u = 0 \<or> slen line = 0 then Some (hostname, el)
          else case header_text line of
            None \<Rightarrow> cgi_headers source' hostname el
          | Some (t, h) \<Rightarrow>
              Option.bind (var t el) (\<lambda>el.
              Option.bind (upcase el) (\<lambda>el.
              cgi_headers source' (if h = None then hostname else h) el)))"
  by pat_completeness auto
termination
  by (relation "measure (\<lambda>(s, h, el). slen s)") (auto dest!: sym [of _ "hin_find_line _"] find_line_progress)

declare cgi_headers.simps [simp del]

definition server_name_text :: "cgi_env \<Rightarrow> string_t option \<Rightarrow> string" where
  "server_name_text e hostname =
     ''SERVER_NAME='' @ (case hostname of
        Some l \<Rightarrow> c_str (str_of l)
      | None \<Rightarrow> (case ce_host e of Some n \<Rightarrow> n | None \<Rightarrow> ''unknown''))"

text \<open>How the new process goes on: in the event loop of the server, with an exit, or as the program.\<close>

datatype cgi_child = Child_returns int | Child_exits int | Child_execs env_list

text \<open>What the variables are made of: the method and the target of the request line, the query, and
  the remaining lines; the directory of the host, and the directory and the name of the file.\<close>

record cgi_script =
  sc_method :: int
  sc_target :: string_t
  sc_query :: string_t
  sc_source :: string_t
  sc_cwd :: string
  sc_dir :: string
  sc_name :: string

definition cgi_std_texts :: "cgi_env \<Rightarrow> httpd \<Rightarrow> cgi_script \<Rightarrow> string list" where
  "cgi_std_texts e h sc =
     [''CONTENT_LENGTH='' @ print_int (h_post_sz h),
      ''QUERY_STRING='' @ c_str (str_of (sc_query sc)),
      ''REQUEST_URI='' @ c_str (str_of (sc_target sc)),
      ''REDIRECT_STATUS='' @ print_int (h_status h),
      ''SCRIPT_NAME='' @ drop (length (sc_cwd sc) - 1) (sc_dir sc) @ sc_name sc] @
     path_info_texts (sc_cwd sc) (ce_path_info e) @
     [''SCRIPT_FILENAME='' @ sc_dir sc @ sc_name sc,
      ''DOCUMENT_ROOT='' @ butlast (sc_cwd sc),
      ''REQUEST_METHOD='' @ (case hin_http_method_name (sc_method sc) of Some m \<Rightarrow> m | None \<Rightarrow> ''(null)''),
      ''SERVER_PROTOCOL=HTTP/1.'' @ (if has (h_peer h) HIN_HTTP_VER0 then ''0'' else ''1''),
      ''SERVER_SOFTWARE='' @ HIN_HTTPD_SERVER_BANNER,
      ''GATEWAY_INTERFACE=CGI/1.1'',
      ''REQUEST_SCHEME=http''] @
     (case ce_server e of Some (hbuf, sbuf) \<Rightarrow> [''SERVER_PORT='' @ sbuf, ''SERVER_ADDR='' @ hbuf] | None \<Rightarrow> []) @
     (case ce_peer e of Some (hbuf, sbuf) \<Rightarrow> [''REMOTE_ADDR='' @ hbuf, ''REMOTE_PORT='' @ sbuf] | None \<Rightarrow> []) @
     (if has (h_cflags h) HIN_SSL then [''HTTPS=1''] else [])"

definition cgi_child_script :: "cgi_env \<Rightarrow> httpd \<Rightarrow> (cgi_child + cgi_script) option" where
  "cgi_child_script e h =
     (if \<not> ce_dup2 e then Some (Inl (Child_exits 1)) else
      case hin_find_line (h_headers h) of
        None \<Rightarrow> None
      | Some (u, source, line) \<Rightarrow>
          if u = 0 then Some (Inl (Child_returns (-1)))
          else case fst (hin_http_parse_header_line line) of
            None \<Rightarrow> Some (Inl (Child_returns (-1)))
          | Some (method, target, version) \<Rightarrow>
              (case hin_parse_uri (sptr target) (int (slen target)) of (r, uri) \<Rightarrow>
                 if r < 0 then Some (Inl (Child_returns (-1)))
                 else if \<not> ce_chdir e then Some (Inl (Child_exits 1))
                 else case ce_cwd e of
                   None \<Rightarrow> Some (Inl (Child_exits 1))
                 | Some cwd \<Rightarrow>
                   (case (case ce_script e of Some f \<Rightarrow> f | None \<Rightarrow> ce_file e) of
                      None \<Rightarrow> Some (Inl (Child_exits 1))
                    | Some (dir, name) \<Rightarrow>
                        if cwd = [] \<or> length dir < length cwd - 1 then None
                        else Some (Inr \<lparr>sc_method = method, sc_target = target, sc_query = query uri,
                               sc_source = source, sc_cwd = cwd, sc_dir = dir, sc_name = name\<rparr>))))"

definition cgi_child :: "cgi_env \<Rightarrow> httpd \<Rightarrow> cgi_child option" where
  "cgi_child e h =
     Option.bind (cgi_child_script e h) (\<lambda>r. case r of
       Inl c \<Rightarrow> Some c
     | Inr sc \<Rightarrow>
         Option.bind (vars (cgi_std_texts e h sc) env_list0) (\<lambda>el.
         Option.bind (cgi_headers (sc_source sc) None el) (\<lambda>(hostname, el).
         map_option Child_execs (var (server_name_text e hostname) el))))"

subsection \<open>The request\<close>

text \<open>
  The system calls: the two ends of the pipe, or the text of the error; whether the directory can
  be duplicated; whether the read of the answer can be requested.
\<close>

record cgi_os =
  co_pipe :: "string + (int \<times> int)"
  co_dup :: "string option"
  co_read :: bool

definition HIN_HTTPD_CGI_CHUNKED_UPLOAD :: bool where "HIN_HTTPD_CGI_CHUNKED_UPLOAD = False"

definition hin_cgi :: "http_env \<Rightarrow> cgi_os \<Rightarrow> nat \<Rightarrow> cache \<Rightarrow> (int \<times> cache) option" where
  "hin_cgi e os c s =
     (let h = cs_clients s c;
          fail = (\<lambda>status msg h s. map_option (\<lambda>(_, h). (-1, set_client c h s)) (httpd_error e status msg h))
      in if has (h_state h) HIN_REQ_DATA then Some (-1, s)
         else
           let h = h\<lparr>h_state := setf (h_state h) (HIN_REQ_DATA OR HIN_REQ_CGI)\<rparr>; s = set_client c h s
           in if \<not> HIN_HTTPD_CGI_CHUNKED_UPLOAD \<and> has (h_peer h) HIN_HTTP_CHUNKED_UPLOAD
              then fail 411 ''cgi spec denies chunked upload'' h s
              else Option.bind (hin_cache_check e c s) (\<lambda>(n, s).
                if n > 0 then Some (0, s)
                else
                  let h = snd (httpd_request_chunked (cs_clients s c)); s = set_client c h s
                  in case co_pipe os of
                       Inl err \<Rightarrow> fail 500 (''cgi pipe '' @ err) h s
                     | Inr (out0, out1) \<Rightarrow>
                         (case co_dup os of
                            Some err \<Rightarrow> fail 500 (''cgi dup '' @ err) h s
                          | None \<Rightarrow>
                              map_option (\<lambda>(_, _, h). (out0, set_client c (log_http (Close_fd out1) h) s))
                                (hin_cgi_send e (co_read os) h))))"

subsection \<open>The environment as a list\<close>

text \<open>The strings up to the null pointer, as \<open>execvpe\<close> reads them.\<close>

fun environ :: "string option option list \<Rightarrow> string list option" where
  "environ [] = None"
| "environ (None # es) = None"
| "environ (Some None # es) = Some []"
| "environ (Some (Some s) # es) = map_option ((#) s) (environ es)"

text \<open>The array that holds given strings, at most 80 of them.\<close>

definition filled :: "string list \<Rightarrow> env_list" where
  "filled ss =
     (if ss = [] then env_list0
      else \<lparr>el_pos = length ss, el_num = 81,
             el_env = map (\<lambda>s. Some (Some s)) ss @ Some None # replicate (80 - length ss) None\<rparr>)"

lemma environ_strings: "environ (map (\<lambda>s. Some (Some s)) ss @ Some None # es) = Some ss"
  by (induction ss) auto

lemma environ_filled: "ss \<noteq> [] \<Longrightarrow> environ (el_env (filled ss)) = Some ss"
  by (simp add: filled_def environ_strings)

lemma var_first: "var s env_list0 = Some (filled [s])"
  by (simp add: var_def env_list0_def filled_def Let_def numeral_eq_Suc)

lemma var_filled:
  assumes "length ss \<le> 80"
  shows "var s (filled ss) = (if length ss < 80 then Some (filled (ss @ [s])) else None)"
proof (cases "ss = []")
  case True
  then show ?thesis by (simp add: filled_def var_first)
next
  case False
  obtain n where n: "80 - length ss = (if length ss < 80 then Suc n else 0)"
    by (metis Suc_pred' assms diff_is_0_eq' linorder_not_less zero_less_diff)
  show ?thesis
    using False assms n by (auto simp: var_def filled_def Let_def list_update_append split: if_splits)
qed

lemma vars_filled:
  "length ss \<le> 80 \<Longrightarrow>
   vars ts (filled ss) = (if length ss + length ts \<le> 80 then Some (filled (ss @ ts)) else None)"
  by (induction ts arbitrary: ss) (auto simp: var_filled)

lemma upcase_filled:
  "length ss < 80 \<Longrightarrow> upcase (filled (ss @ [s])) = Some (filled (ss @ [upcase_text s]))"
  by (simp add: upcase_def filled_def nth_append list_update_append Let_def)

text \<open>The variables of the header lines, without the array.\<close>

function header_texts :: "string_t \<Rightarrow> string_t option \<Rightarrow> (string list \<times> string_t option) option" where
  "header_texts source hostname =
     (case hin_find_line source of
        None \<Rightarrow> None
      | Some (u, source', line) \<Rightarrow>
          if u = 0 \<or> slen line = 0 then Some ([], hostname)
          else case header_text line of
            None \<Rightarrow> header_texts source' hostname
          | Some (t, h) \<Rightarrow>
              map_option (apfst ((#) (upcase_text t)))
                (header_texts source' (if h = None then hostname else h)))"
  by pat_completeness auto
termination
  by (relation "measure (\<lambda>(s, h). slen s)") (auto dest!: sym [of _ "hin_find_line _"] find_line_progress)

declare header_texts.simps [simp del]

lemma cgi_headers_texts:
  assumes "length ss \<le> 80"
  shows "cgi_headers source hostname (filled ss) =
     Option.bind (header_texts source hostname) (\<lambda>(ts, hostname').
       if length ss + length ts \<le> 80 then Some (hostname', filled (ss @ ts)) else None)"
  using assms
proof (induction source hostname arbitrary: ss rule: header_texts.induct)
  case (1 source hostname)
  show ?case
  proof (cases "hin_find_line source")
    case None
    then show ?thesis by (simp add: cgi_headers.simps [of source] header_texts.simps [of source])
  next
    case (Some r)
    obtain u source' line where r: "r = (u, source', line)" by (cases r)
    show ?thesis
    proof (cases "u = 0 \<or> slen line = 0")
      case True
      then show ?thesis
        using Some r 1 by (simp add: cgi_headers.simps [of source] header_texts.simps [of source])
    next
      case False
      note here = Some r False
      show ?thesis
      proof (cases "header_text line")
        case None
        then show ?thesis
          using here 1 by (simp add: cgi_headers.simps [of source] header_texts.simps [of source])
      next
        case (Some th)
        obtain t h where th: "th = (t, h)" by (cases th)
        note IH = 1(2) [OF here(1) r [symmetric] refl here(3) Some th [symmetric]]
        show ?thesis
        proof (cases "length ss < 80")
          case True
          define h' where "h' = (if h = None then hostname else h)"
          have *: "cgi_headers source' h' (filled (ss @ [upcase_text t])) =
            Option.bind (header_texts source' h') (\<lambda>(ts, hostname').
              if length ss + 1 + length ts \<le> 80
              then Some (hostname', filled ((ss @ [upcase_text t]) @ ts)) else None)"
            using IH [of "ss @ [upcase_text t]"] True unfolding h'_def [symmetric] by simp
          have "cgi_headers source hostname (filled ss) = cgi_headers source' h' (filled (ss @ [upcase_text t]))"
            using here Some th True
            by (simp add: cgi_headers.simps [of source] var_filled upcase_filled h'_def)
          moreover have "header_texts source hostname = map_option (apfst ((#) (upcase_text t))) (header_texts source' h')"
            using here Some th by (simp add: header_texts.simps [of source] h'_def)
          ultimately show ?thesis
            unfolding * by (cases "header_texts source' h'") (auto split: if_splits)
        next
          case False
          then show ?thesis
            using here Some th 1(3)
            by (auto simp: cgi_headers.simps [of source] header_texts.simps [of source] var_filled
                split: Option.bind_splits)
        qed
      qed
    qed
  qed
qed

text \<open>All the variables of the program.\<close>

definition cgi_texts :: "cgi_env \<Rightarrow> httpd \<Rightarrow> cgi_script \<Rightarrow> string list option" where
  "cgi_texts e h sc =
     map_option (\<lambda>(ts, hostname). cgi_std_texts e h sc @ ts @ [server_name_text e hostname])
       (header_texts (sc_source sc) None)"

lemma std_texts_few: "length (cgi_std_texts e h sc) \<le> 19"
  by (auto simp: cgi_std_texts_def path_info_texts_def split: option.splits)

text \<open>
  C39: the program gets exactly the variables of its request, in order, when they are at most
  80; with more, the new process writes past the array before it starts the program.
\<close>

theorem cgi_environment:
  assumes "cgi_child_script e h = Some (Inr sc)" and "cgi_texts e h sc = Some ts"
  shows "if length ts \<le> 80
         then \<exists>el. cgi_child e h = Some (Child_execs el) \<and> environ (el_env el) = Some ts
         else cgi_child e h = None"
proof -
  obtain hs hostname where hs: "header_texts (sc_source sc) None = Some (hs, hostname)"
    and ts: "ts = cgi_std_texts e h sc @ hs @ [server_name_text e hostname]"
    using assms(2) by (auto simp: cgi_texts_def)
  have std: "vars (cgi_std_texts e h sc) env_list0 = Some (filled (cgi_std_texts e h sc))"
    using vars_filled [of "[]" "cgi_std_texts e h sc"] std_texts_few [of e h sc] by (simp add: filled_def)
  have hdr: "cgi_headers (sc_source sc) None (filled (cgi_std_texts e h sc)) =
      (if length (cgi_std_texts e h sc) + length hs \<le> 80
       then Some (hostname, filled (cgi_std_texts e h sc @ hs)) else None)"
    using std_texts_few [of e h sc] by (simp add: cgi_headers_texts hs)
  have "cgi_child e h = (if length ts \<le> 80 then Some (Child_execs (filled ts)) else None)"
    by (simp add: cgi_child_def assms(1) std hdr var_filled ts)
  then show ?thesis
    using environ_filled [of ts] ts by simp
qed

subsection \<open>The name of a variable\<close>

definition name_char :: "char \<Rightarrow> bool" where
  "name_char c \<longleftrightarrow> isalnum c \<or> c = CHR ''_'' \<or> c = CHR ''-''"

definition env_char :: "char \<Rightarrow> char" where
  "env_char c = (if c = CHR ''-'' then CHR ''_'' else toupper c)"

lemma name_set_mem: "set_mem ''%w_%-'' = name_char"
  by (rule ext) (auto simp: name_char_def set_mem_lit set_mem_esc class_of_def match_char_classes)

lemma name_set_end: "set_end CHR ''['' ''%w_%-]+):%s*'' = Some (''%w_%-'', ''+):%s*'')"
  by simp

lemma name_char_facts: "\<not> name_char (CHR '':'')" "\<not> name_char NUL" "\<not> name_char (CHR ''='')"
  by (simp_all add: name_char_def ctype_defs)

lemma header_name_match:
  assumes "name \<noteq> []" "list_all name_char name" "val = [] \<or> \<not> isspace (hd val)"
  shows "match_string \<lparr>sptr = name @ '': '' @ val @ rest, slen = length (name @ '': '' @ val)\<rparr>
       ''([%w_%-]+):%s*'' =
     (int (length name + 2), \<lparr>sptr = val @ rest, slen = length val\<rparr>,
      [\<lparr>sptr = name @ '': '' @ val @ rest, slen = length name\<rparr>])"
proof -
  let ?s = "name @ '': '' @ val @ rest" and ?n = "length name + 2 + length val"
  let ?c = "\<lparr>sptr = ?s, slen = length name\<rparr>"
  have blank: "isspace (CHR '' '')" by (simp add: ctype_defs)
  have "match_loop False ''([%w_%-]+):%s*'' ?s ?n None [] =
      match_loop False ''):%s*'' ('': '' @ val @ rest) (2 + length val) (Some (?s, ?n)) []"
    using assms set_step [OF name_set_end name_set_mem, of name ?n "'': '' @ val @ rest" False] name_char_facts
    by simp
  also have "\<dots> = match_loop False ''%s*'' ('' '' @ val @ rest) (1 + length val) None [?c]"
    by (simp add: lit_step)
  also have "\<dots> = (Some (val @ rest, length val), [?c])"
    using star_step [OF space_mem, of False "[]" "'' '' @ val @ rest" "1 + length val" None "[?c]"] assms(3) blank
    by (cases val) auto
  finally show ?thesis
    by (simp add: match_string_def match_string_virtual_def str_adv_def)
qed


lemma upcase_variable:
  assumes "list_all name_char name"
  shows "upcase_text (''HTTP_'' @ name @ ''='' @ val) = ''HTTP_'' @ map env_char name @ ''='' @ val"
proof -
  have "takeWhile (\<lambda>c. c \<noteq> CHR ''='') (name @ CHR ''='' # val) = name"
    "dropWhile (\<lambda>c. c \<noteq> CHR ''='') (name @ CHR ''='' # val) = CHR ''='' # val"
    using assms name_char_facts by (auto simp: list_all_iff takeWhile_append dropWhile_append)
  then show ?thesis
    by (simp add: upcase_text_def env_char_def [abs_def]) (simp add: ctype_defs)
qed


definition cgi_env0 :: cgi_env where
  "cgi_env0 = \<lparr>ce_dup2 = True, ce_chdir = True, ce_cwd = Some ''/srv/'', ce_file = Some (''/srv/app/'', ''a.cgi''),
     ce_script = None, ce_server = None, ce_peer = Some (''10.0.0.9'', ''4000''), ce_host = None,
     ce_path_info = Some ''/x''\<rparr>"

definition cgi_script0 :: cgi_script where
  "cgi_script0 = \<lparr>sc_method = HIN_METHOD_GET, sc_target = \<lparr>sptr = ''/ HTTP/1.1'' @ CRLF @ ''X-A: b'' @ CRLF @ CRLF, slen = 1\<rparr>,
     sc_query = null_str, sc_source = mk_str (''X-A: b'' @ CRLF @ CRLF), sc_cwd = ''/srv/'',
     sc_dir = ''/srv/app/'', sc_name = ''a.cgi''\<rparr>"

definition cgi_texts0 :: "string list" where
  "cgi_texts0 =
     [''CONTENT_LENGTH=0'', ''QUERY_STRING='', ''REQUEST_URI=/'', ''REDIRECT_STATUS=200'',
      ''SCRIPT_NAME=/app/a.cgi'', ''PATH_INFO=/x'', ''PATH_TRANSLATED=/srv/x'',
      ''SCRIPT_FILENAME=/srv/app/a.cgi'', ''DOCUMENT_ROOT=/srv'', ''REQUEST_METHOD=GET'',
      ''SERVER_PROTOCOL=HTTP/1.1'', ''SERVER_SOFTWARE='' @ HIN_HTTPD_SERVER_BANNER,
      ''GATEWAY_INTERFACE=CGI/1.1'', ''REQUEST_SCHEME=http'', ''REMOTE_ADDR=10.0.0.9'',
      ''REMOTE_PORT=4000'', ''HTTP_X_A=b'', ''SERVER_NAME=unknown'']"

lemma cgi_script0_eq: "cgi_child_script cgi_env0 fcgi_http0 = Some (Inr cgi_script0)"
  by code_simp

lemma cgi_texts0_eq: "cgi_texts cgi_env0 fcgi_http0 cgi_script0 = Some cgi_texts0"
  by code_simp

theorem cgi_environment_witness:
  "\<exists>el. cgi_child cgi_env0 fcgi_http0 = Some (Child_execs el) \<and> environ (el_env el) = Some cgi_texts0"
  using cgi_environment [OF cgi_script0_eq cgi_texts0_eq] by (simp add: cgi_texts0_def)


end
