(* ===== verification/HttpClient.thy ===== *)
theory HttpClient
  imports HeadLines Cache
begin

text \<open>
  The HTTP client (\<open>http/client\<close>): connections to other servers, the list of the idle ones, the
  requests sent on them and the heads that come back, and the reverse proxy, which forwards the
  request of a client of the server and the response to it.  Connections are a heap; the clients of
  the server are those of the store of responses (theory \<open>Cache\<close>).
\<close>

subsection \<open>State\<close>

definition HIN_REQ_PROXY :: u32 where [flag_defs]: "HIN_REQ_PROXY = 0x10"
definition HIN_REQ_IDLE :: u32 where [flag_defs]: "HIN_REQ_IDLE = 0x800"
definition HIN_FLAG_AUTONAME :: u32 where [flag_defs]: "HIN_FLAG_AUTONAME = 0x10000000"

text \<open>The states a connection reports, and what it reports with them.\<close>

datatype http_state =
    Connected | Send | Headers | Finish | Connection_failed | Ssl_failed | Headers_failed

datatype state_data = Buf "hbuf list" | Pipe http_pipe | Code int

datatype client_cb = No_callback | Proxy | Download

text \<open>\<open>k_ssl\<close>: the TLS state exists.\<close>

record hconn =
  k_fd :: int
  k_cflags :: u32
  k_ssl :: bool
  k_parent :: "nat option"
  k_flags :: u32
  k_io :: u32
  k_uri :: hin_uri
  k_host :: "string option"
  k_port :: "string option"
  k_method :: int
  k_status :: int
  k_save_fd :: int
  k_sz :: int
  k_count :: int
  k_buf :: "lines option"
  k_cache_flags :: u32
  k_cache :: int
  k_cb :: client_cb

datatype client_event =
    Connect nat
  | Send_head nat "hbuf list"
  | Start nat http_pipe
  | Start_post nat http_pipe
  | Close_conn nat
  | Close_save int
  | Shut_rd nat
  | Freed nat

record hclient =
  hc_conns :: "nat \<Rightarrow> hconn option"
  hc_idle :: "nat list"
  hc_num :: int
  hc_store :: cache
  hc_log :: "client_event list"

text \<open>What the system answers.\<close>

record client_env =
  ce_http :: http_env
  ce_open :: "string \<Rightarrow> int"
  ce_read_ok :: bool
  ce_write_ok :: bool
  ce_ssl_ok :: bool
  ce_resolve_ok :: bool

definition set_conn :: "nat \<Rightarrow> hconn \<Rightarrow> hclient \<Rightarrow> hclient" where
  "set_conn a k w = w\<lparr>hc_conns := (hc_conns w)(a := Some k)\<rparr>"

definition log_client :: "client_event list \<Rightarrow> hclient \<Rightarrow> hclient" where
  "log_client es w = w\<lparr>hc_log := hc_log w @ es\<rparr>"

definition upd_conn :: "nat \<Rightarrow> (hconn \<Rightarrow> hconn) \<Rightarrow> hclient \<Rightarrow> hclient option" where
  "upd_conn a f w = map_option (\<lambda>k. set_conn a (f k) w) (hc_conns w a)"

definition peer :: "nat \<Rightarrow> hclient \<Rightarrow> httpd" where
  "peer c w = cs_clients (hc_store w) c"

definition set_peer :: "nat \<Rightarrow> httpd \<Rightarrow> hclient \<Rightarrow> hclient" where
  "set_peer c h w = w\<lparr>hc_store := set_client c h (hc_store w)\<rparr>"

text \<open>
  Reading on a connection whose TLS state was freed is undefined; so is freeing it again.
\<close>

definition conn_lines_request :: "client_env \<Rightarrow> nat \<Rightarrow> hclient \<Rightarrow> (int \<times> hclient) option" where
  "conn_lines_request ce a w =
     Option.bind (hc_conns w a) (\<lambda>k.
     Option.bind (k_buf k) (\<lambda>b.
       if has (k_cflags k) HIN_SSL \<and> \<not> k_ssl k \<and> \<not> lb_active b then None
       else case hin_lines_request True (ce_read_ok ce) 0 b of
              (r, b) \<Rightarrow> Some (r, set_conn a (k\<lparr>k_buf := Some b\<rparr>) w)))"

subsection \<open>Connections\<close>

definition http_client_clean :: "nat \<Rightarrow> hclient \<Rightarrow> hclient option" where
  "http_client_clean a w =
     Option.bind (hc_conns w a) (\<lambda>k.
       if has (k_cflags k) HIN_SSL \<and> \<not> k_ssl k then None
       else Some (log_client (if k_save_fd k \<noteq> 0 then [Close_save (k_save_fd k)] else [])
              (set_conn a (k\<lparr>k_uri := (k_uri k)\<lparr>all := null_str\<rparr>, k_save_fd := 0, k_parent := None, k_flags := 0,
                  k_method := 0, k_status := 0, k_sz := 0, k_count := 0, k_cache_flags := 0, k_cache := 0,
                  k_ssl := False, k_io := k_io k AND HIN_REQ_HEADERS\<rparr>) w)))"

definition http_connection_allocate :: "nat \<Rightarrow> hclient \<Rightarrow> hclient option" where
  "http_connection_allocate a w =
     Option.bind (hc_conns w a) (\<lambda>k.
       let w = (if has (k_io k) HIN_REQ_IDLE then w\<lparr>hc_idle := remove1 a (hc_idle w)\<rparr> else w)
       in Some (set_conn a (k\<lparr>k_io := clrf (k_io k) HIN_REQ_IDLE\<rparr>) w))"

text \<open>The flag says whether the connection was freed.\<close>

definition http_client_unlink :: "nat \<Rightarrow> hclient \<Rightarrow> (bool \<times> hclient) option" where
  "http_client_unlink a w =
     Option.bind (hc_conns w a) (\<lambda>k.
       if \<not> has (k_io k) HIN_REQ_END then Some (False, w)
       else if has (k_io k) (HIN_REQ_HEADERS OR HIN_REQ_POST) then Some (False, w)
       else if (case k_buf k of Some b \<Rightarrow> lb_active b | None \<Rightarrow> False) then Some (False, w)
       else map_option (\<lambda>w. (True, log_client [Freed a] (w\<lparr>hc_conns := (hc_conns w)(a := None)\<rparr>)))
              (http_client_clean a (w\<lparr>hc_num := hc_num w - 1\<rparr>)))"

definition http_client_close_callback :: "int \<Rightarrow> nat \<Rightarrow> hclient \<Rightarrow> (int \<times> hclient) option" where
  "http_client_close_callback ret a w =
     (if ret < 0 then Some (-1, w)
      else Option.bind (upd_conn a (\<lambda>k. k\<lparr>k_io := setf (k_io k) HIN_REQ_END\<rparr>) w) (\<lambda>w.
             map_option (\<lambda>(_, w). (0, w)) (http_client_unlink a w)))"

text \<open>A refused close is repeated synchronously, so the close is always requested.\<close>

definition http_client_shutdown :: "nat \<Rightarrow> hclient \<Rightarrow> hclient option" where
  "http_client_shutdown a w =
     Option.bind (http_client_unlink a w) (\<lambda>(freed, w).
       if freed then Some w
       else Option.bind (hc_conns w a) (\<lambda>k.
              if has (k_io k) HIN_REQ_STOPPING then Some w
              else
                let w = set_conn a (k\<lparr>k_io := setf (k_io k) HIN_REQ_STOPPING\<rparr>) w;
                    w = (if has (k_io k) HIN_REQ_IDLE then w\<lparr>hc_idle := remove1 a (hc_idle w)\<rparr> else w)
                in Some (log_client [Close_conn a] w)))"

fun close_list :: "nat list \<Rightarrow> hclient \<Rightarrow> hclient option" where
  "close_list [] w = Some w"
| "close_list (a # as) w =
     (if hc_conns w a = None then None
      else Option.bind (http_client_shutdown a (log_client [Shut_rd a] w)) (close_list as))"

definition http_connection_close_idle :: "hclient \<Rightarrow> hclient option" where
  "http_connection_close_idle w = close_list (hc_idle w) w"

text \<open>Appending a connection that is in the list already makes a cycle, which no loop leaves.\<close>

definition http_connection_release :: "client_env \<Rightarrow> nat \<Rightarrow> hclient \<Rightarrow> hclient option" where
  "http_connection_release ce a w =
     Option.bind (hc_conns w a) (\<lambda>k.
       if \<not> has (k_flags k) HIN_HTTP_KEEPALIVE then http_client_shutdown a w
       else if a \<in> set (hc_idle w) then None
       else
         Option.bind (http_client_clean a (w\<lparr>hc_idle := hc_idle w @ [a]\<rparr>)) (\<lambda>w.
         Option.bind (upd_conn a (\<lambda>k. k\<lparr>k_io := setf (k_io k) HIN_REQ_IDLE, k_parent := None\<rparr>) w) (\<lambda>w.
           map_option snd (conn_lines_request ce a w))))"

fun str_equal :: "string \<Rightarrow> string \<Rightarrow> bool" where
  "str_equal a [] = (case a of [] \<Rightarrow> True | c # _ \<Rightarrow> c = NUL)"
| "str_equal a (c # b) = (case a of [] \<Rightarrow> False | d # a \<Rightarrow> d = c \<and> str_equal a b)"

definition conn_matches :: "hin_uri \<Rightarrow> hconn \<Rightarrow> bool option" where
  "conn_matches info k =
     (if has (k_io k) HIN_REQ_HEADERS then Some False
      else Option.bind (k_host k) (\<lambda>hs. Option.bind (k_port k) (\<lambda>pt.
             Some (str_equal hs (str_of (host info)) \<and> str_equal pt (str_of (port info))))))"

fun find_idle :: "(nat \<Rightarrow> hconn option) \<Rightarrow> hin_uri \<Rightarrow> nat list \<Rightarrow> nat option option" where
  "find_idle conns info [] = Some None"
| "find_idle conns info (a # as) =
     Option.bind (conns a) (\<lambda>k. Option.bind (conn_matches info k) (\<lambda>m.
       if m then Some (Some a) else find_idle conns info as))"

definition new_conn :: "hin_uri \<Rightarrow> hconn" where
  "new_conn info =
     \<lparr>k_fd = -1, k_cflags = 0, k_ssl = False, k_parent = None, k_flags = 0, k_io = 0, k_uri = info,
      k_host = Some (str_of (host info)),
      k_port = Some (if slen (port info) > 0 then str_of (port info)
                     else if https info \<noteq> 0 then ''443'' else ''80''),
      k_method = 0, k_status = 0, k_save_fd = 0, k_sz = 0, k_count = 0, k_buf = None,
      k_cache_flags = 0, k_cache = 0, k_cb = No_callback\<rparr>"

text \<open>\<open>b\<close> is the address of a new connection.\<close>

definition http_connection_get :: "nat \<Rightarrow> string \<Rightarrow> hclient \<Rightarrow> (nat option \<times> hclient) option" where
  "http_connection_get b url w =
     (case hin_parse_uri url 0 of (r, info) \<Rightarrow>
        if r < 0 then Some (None, w)
        else Option.bind (find_idle (hc_conns w) info (hc_idle w)) (\<lambda>found.
          case found of
            None \<Rightarrow> Some (Some b, set_conn b (new_conn info) w)
          | Some a \<Rightarrow>
              Option.bind (http_connection_allocate a w) (\<lambda>w.
                map_option (\<lambda>w. (Some a, w)) (upd_conn a (\<lambda>k. k\<lparr>k_uri := info\<rparr>) w))))"

subsection \<open>The reverse proxy\<close>

text \<open>A line of the request of the client, in the request to the server; the lines of the body's size.\<close>

definition proxy_request_text :: "string_t \<Rightarrow> string option" where
  "proxy_request_text line =
     (if fst (matchi_string line ''Host:'') > 0 then None
      else if fst (matchi_string line ''Content-Length:'') > 0 then None
      else if fst (matchi_string line ''Connection:'') > 0 then None
      else if fst (matchi_string line ''Accept-Encoding:'') > 0 then None
      else if fst (matchi_string line ''Transfer-Encoding:'') > 0 then None
      else if fst (matchi_string line ''Content-Encoding:'') > 0 then None
      else Some (c_str (str_of line) @ CRLF))"

definition proxy_post_size :: "string_t \<Rightarrow> int \<Rightarrow> int" where
  "proxy_post_size line sz =
     (if fst (matchi_string line ''Host:'') > 0 then sz
      else
        let (n, line, _) = matchi_string line ''Content-Length:''
        in if n > 0 then (case match_string line ''%s*'' of (_, line, _) \<Rightarrow> atoi (sptr line)) else sz)"

definition hin_rproxy_send_post :: "nat \<Rightarrow> nat \<Rightarrow> int \<Rightarrow> hclient \<Rightarrow> hclient option" where
  "hin_rproxy_send_post a c sz w =
     map_option (\<lambda>k.
       let h = peer c w;
           p = new_pipe\<lparr>hp_pipe := (hp_pipe new_pipe)
                 \<lparr>p_in := \<lparr>d_fd = h_fd h, d_flags = setf (HIN_SOCKET OR (h_cflags h AND HIN_SSL)) HIN_COUNT, d_pos = 0\<rparr>,
                  p_out := \<lparr>d_fd = k_fd k, d_flags = HIN_SOCKET OR (k_cflags k AND HIN_SSL), d_pos = 0\<rparr>,
                  p_left := sz, finish_cb := True\<rparr>\<rparr>
       in log_client [Start_post a p] (set_conn a (k\<lparr>k_io := setf (k_io k) HIN_REQ_POST\<rparr>) w))
       (hc_conns w a)"

text \<open>\<open>bufs\<close> is the request being printed.\<close>

definition hin_rproxy_send :: "nat \<Rightarrow> hbuf list \<Rightarrow> hclient \<Rightarrow> (int \<times> hbuf list \<times> hclient) option" where
  "hin_rproxy_send a bufs w =
     Option.bind (hc_conns w a) (\<lambda>k.
     Option.bind (k_parent k) (\<lambda>c.
     Option.bind (hin_find_line (h_headers (peer c w))) (\<lambda>(_, source, _).
     Option.bind (copy_lines proxy_request_text proxy_post_size 0 source bufs) (\<lambda>(complete, sz, source, bufs).
       if \<not> complete \<or> sz \<le> 0 then Some (0, bufs, w)
       else
         let len = (if int (slen source) > sz then sz else int (slen source))
         in Option.bind (hdr (''Content-Length: '' @ print_int sz @ CRLF) bufs) (\<lambda>bufs.
            Option.bind (hdr CRLF bufs) (\<lambda>bufs.
              map_option (\<lambda>w. (1, snd (header_raw bufs (take (nat len) (sptr source))), w))
                (hin_rproxy_send_post a c (sz - len) w)))))))"

definition proxy_response_text :: "string_t \<Rightarrow> string option" where
  "proxy_response_text line =
     (if fst (matchi_string line ''Content-Length:'') > 0 then None
      else if fst (matchi_string line ''Transfer-Encoding:'') > 0 then None
      else if fst (matchi_string line ''Content-Encoding:'') > 0 then None
      else if fst (matchi_string line ''Connection:'') > 0 then None
      else if fst (matchi_string line ''Cache-Control:'') > 0 then None
      else if fst (matchi_string line ''Server:'') > 0 then None
      else if fst (matchi_string line ''Date:'') > 0 then None
      else if fst (matchi_string line ''Accept:'') > 0 then None
      else if fst (matchi_string line ''Accept-Encoding:'') > 0 then None
      else if fst (matchi_string line ''Accept-Ranges:'') > 0 then None
      else Some (c_str (str_of line) @ CRLF))"

text \<open>The pipe as the proxy sets it up, after the options of the response.\<close>

definition proxy_pipe :: "hconn \<Rightarrow> http_pipe \<Rightarrow> http_pipe" where
  "proxy_pipe k p =
     (let q = (hp_pipe p)\<lparr>out_error_cb := True\<rparr>
      in p\<lparr>hp_pipe :=
           (if k_method k = HIN_METHOD_HEAD then (in_set HIN_COUNT q)\<lparr>p_left := 0\<rparr>
            else if has (k_flags k) HIN_HTTP_CHUNKED
            then q\<lparr>p_left := 0, p_in := (p_in q)\<lparr>d_flags := clrf (d_flags (p_in q)) HIN_COUNT\<rparr>\<rparr>
            else in_set HIN_COUNT (q\<lparr>p_left := k_sz k\<rparr>))\<rparr>)"

text \<open>The list code drops all but the first buffer of a chain put before other buffers.\<close>

definition prepend_chain :: "hbuf list \<Rightarrow> http_pipe \<Rightarrow> http_pipe" where
  "prepend_chain bufs p =
     p\<lparr>hp_pipe := (if write_que (hp_pipe p) = []
                   then foldl hin_pipe_append_raw (hp_pipe p) (head_bufs bufs)
                   else hin_pipe_prepend_raw (hp_pipe p) (hd (head_bufs bufs)))\<rparr>"

definition proxy_head ::
  "http_env \<Rightarrow> hconn \<Rightarrow> string_t \<Rightarrow> httpd \<Rightarrow> (bool \<times> hbuf list) option" where
  "proxy_head e k source h =
     Option.bind (hdr (status_line h (h_status h)) [new_buffer READ_SZ]) (\<lambda>bufs.
     Option.bind (httpd_write_common_headers e h bufs) (\<lambda>bufs.
     Option.bind (hdr_if (k_sz k \<noteq> 0 \<and> \<not> has (h_peer h) HIN_HTTP_CHUNKED)
                    (''Content-Length: '' @ print_int (k_sz k) @ CRLF) bufs) (\<lambda>bufs.
     Option.bind (copy_lines proxy_response_text (\<lambda>_ _. ()) () source bufs) (\<lambda>(complete, _, _, bufs).
       if \<not> complete then Some (False, bufs)
       else map_option (\<lambda>bufs. (True, bufs)) (hdr CRLF bufs)))))"

definition hin_rproxy_headers ::
  "http_env \<Rightarrow> nat \<Rightarrow> http_pipe \<Rightarrow> hclient \<Rightarrow> (int \<times> http_pipe \<times> hclient) option" where
  "hin_rproxy_headers e a p w =
     Option.bind (hc_conns w a) (\<lambda>k.
     Option.bind (k_parent k) (\<lambda>c.
     Option.bind (k_buf k) (\<lambda>lines.
       let h = peer c w;
           h = h\<lparr>h_count := k_sz k, h_peer := setf (h_peer h) (k_flags k AND HIN_HTTP_CHUNKED)\<rparr>
       in case httpd_pipe_set_http11_response_options h p of (h, p) \<Rightarrow>
            let p = proxy_pipe k p
            in Option.bind (hin_find_line (mk_str (lines_text lines))) (\<lambda>(_, source, line).
                 case matchi_string line ''HTTP/1.%d (%d+)'' of (_, _, caps) \<Rightarrow>
                   let h = h\<lparr>h_status := atoi (sptr (stored caps null_str))\<rparr>
                   in Option.bind (proxy_head e k source h) (\<lambda>(complete, bufs).
                        Some (0, if complete then prepend_chain bufs p else p, set_peer c h w))))))"

definition hin_rproxy_finish :: "http_env \<Rightarrow> nat \<Rightarrow> hclient \<Rightarrow> hclient option" where
  "hin_rproxy_finish e a w =
     Option.bind (hc_conns w a) (\<lambda>k.
     Option.bind (k_parent k) (\<lambda>c.
       let w = set_conn a (k\<lparr>k_save_fd := 0\<rparr>) w;
           h = peer c w;
           h = h\<lparr>h_state := clrf (h_state h) (HIN_REQ_PROXY OR HIN_REQ_DATA)\<rparr>
       in Some (set_peer c (httpd_client_finish_request e None h) w)))"

definition hin_rproxy_state_callback ::
  "http_env \<Rightarrow> nat \<Rightarrow> http_state \<Rightarrow> state_data \<Rightarrow> hclient \<Rightarrow> (int \<times> state_data \<times> hclient) option" where
  "hin_rproxy_state_callback e a st d w =
     (case (st, d) of
        (Send, Buf bufs) \<Rightarrow> map_option (\<lambda>(r, bufs, w). (r, Buf bufs, w)) (hin_rproxy_send a bufs w)
      | (Headers, Pipe p) \<Rightarrow> map_option (\<lambda>(r, p, w). (r, Pipe p, w)) (hin_rproxy_headers e a p w)
      | (Connected, _) \<Rightarrow> Some (0, d, w)
      | _ \<Rightarrow> map_option (\<lambda>w. (0, d, w)) (hin_rproxy_finish e a w))"

subsection \<open>Downloads\<close>

definition last_part :: "string \<Rightarrow> string option" where
  "last_part s = (if CHR ''/'' \<in> set s then Some (rev (takeWhile ((\<noteq>) (CHR ''/'')) (rev s))) else None)"

text \<open>Without a slash in the path, the code reads at address 1.\<close>

definition http_autoname :: "(string \<Rightarrow> int) \<Rightarrow> hconn \<Rightarrow> (int \<times> hconn) option" where
  "http_autoname opn k =
     Option.bind (last_part (str_of (path (k_uri k)))) (\<lambda>fn.
       let fd = opn (if fn \<noteq> [] then fn else ''noname'')
       in Some (if fd < 0 then -1 else 0, k\<lparr>k_save_fd := fd\<rparr>))"

definition state_callback ::
  "(string \<Rightarrow> int) \<Rightarrow> nat \<Rightarrow> http_state \<Rightarrow> state_data \<Rightarrow> hclient \<Rightarrow> (int \<times> state_data \<times> hclient) option" where
  "state_callback opn a st d w =
     Option.bind (hc_conns w a) (\<lambda>k.
       if st = Headers \<and> has (k_flags k) HIN_FLAG_AUTONAME
       then map_option (\<lambda>(_, k). (0, d, set_conn a k w)) (http_autoname opn k)
       else Some (0, d, w))"

subsection \<open>Requests\<close>

text \<open>\<open>hin_http_state\<close> for the states that are only reported: the result is always 0.\<close>

definition report_state ::
  "client_env \<Rightarrow> nat \<Rightarrow> http_state \<Rightarrow> state_data \<Rightarrow> hclient \<Rightarrow> (int \<times> state_data \<times> hclient) option" where
  "report_state ce a st d w =
     Option.bind (hc_conns w a) (\<lambda>k.
       case k_cb k of
         No_callback \<Rightarrow> Some (0, d, w)
       | Proxy \<Rightarrow> map_option (\<lambda>(_, d, w). (0, d, w)) (hin_rproxy_state_callback (ce_http ce) a st d w)
       | Download \<Rightarrow> map_option (\<lambda>(_, d, w). (0, d, w)) (state_callback (ce_open ce) a st d w))"

definition client_request_line :: "hconn \<Rightarrow> string" where
  "client_request_line k =
     (let pt = path (k_uri k); q = query (k_uri k);
          len = (if slen q > 0 then length (sptr pt) - length (sptr q) + slen q else slen pt);
          meth = (if k_method k = HIN_METHOD_POST then ''POST''
                  else if k_method k = HIN_METHOD_HEAD then ''HEAD'' else ''GET'')
      in meth @ '' '' @ c_str (take len (sptr pt)) @ '' HTTP/1.1'' @ CRLF)"

definition host_line :: "hconn \<Rightarrow> string" where
  "host_line k =
     (let u = k_uri k
      in ''Host: '' @ c_str (str_of (host u)) @
         (if slen (port u) > 0 then '':'' @ c_str (str_of (port u)) else []) @ CRLF)"

definition connection_line :: "hconn \<Rightarrow> string" where
  "connection_line k =
     (if has (k_flags k) HIN_HTTP_KEEPALIVE then ''Connection: keep-alive'' @ CRLF
      else ''Connection: close'' @ CRLF)"

definition http_client_start_headers :: "client_env \<Rightarrow> nat \<Rightarrow> hclient \<Rightarrow> (int \<times> hclient) option" where
  "http_client_start_headers ce a w =
     Option.bind (hc_conns w a) (\<lambda>k.
       if k_buf k = None then None
       else
         let w = set_conn a (k\<lparr>k_io := setf (k_io k) (HIN_REQ_HEADERS OR HIN_REQ_DATA)\<rparr>) w
         in Option.bind (hdr (client_request_line k) [new_buffer READ_SZ]) (\<lambda>bufs.
            Option.bind (hdr (host_line k) bufs) (\<lambda>bufs.
            Option.bind (hdr (connection_line k) bufs) (\<lambda>bufs.
            Option.bind (report_state ce a Send (Buf bufs) w) (\<lambda>(r, d, w).
              case d of
                Buf bufs \<Rightarrow>
                  Option.bind (hdr_if (r = 0) CRLF bufs) (\<lambda>bufs.
                    if ce_write_ok ce then Some (0, log_client [Send_head a bufs] w)
                    else map_option (\<lambda>w. (-1, w)) (http_client_shutdown a w))
              | _ \<Rightarrow> None)))))"

definition hin_http_state ::
  "client_env \<Rightarrow> nat \<Rightarrow> http_state \<Rightarrow> state_data \<Rightarrow> hclient \<Rightarrow> (int \<times> state_data \<times> hclient) option" where
  "hin_http_state ce a st d w =
     (if st = Connected
      then Option.bind (http_client_start_headers ce a w) (\<lambda>(_, w). report_state ce a st d w)
      else report_state ce a st d w)"

subsection \<open>Starting and ending\<close>

definition http_client_unlink_wrap :: "nat \<Rightarrow> hclient \<Rightarrow> hclient option" where
  "http_client_unlink_wrap a w =
     Option.bind (upd_conn a (\<lambda>k. k\<lparr>k_io := setf (k_io k) HIN_REQ_END,
                                   k_flags := clrf (k_flags k) HIN_HTTP_KEEPALIVE\<rparr>) w) (\<lambda>w.
       map_option snd (http_client_unlink a w))"

definition http_connection_start :: "client_env \<Rightarrow> nat \<Rightarrow> hclient \<Rightarrow> hclient option" where
  "http_connection_start ce a w =
     Option.bind (hc_conns w a) (\<lambda>k.
       if k_fd k \<ge> 0
       then Option.bind (hin_http_state ce a Connected (Code 0) w) (\<lambda>(_, _, w).
              map_option snd (conn_lines_request ce a w))
       else
         let w = set_conn a (k\<lparr>k_fd := -1\<rparr>) w
         in Some (if ce_resolve_ok ce then log_client [Connect a] (w\<lparr>hc_num := hc_num w + 1\<rparr>) else w))"

text \<open>The end of a connect: \<open>ret\<close> is the socket or the error.\<close>

definition connected :: "client_env \<Rightarrow> int \<Rightarrow> nat \<Rightarrow> hclient \<Rightarrow> hclient option" where
  "connected ce ret a w =
     Option.bind (upd_conn a (\<lambda>k. k\<lparr>k_fd := ret\<rparr>) w) (\<lambda>w.
       let fail = (\<lambda>st err. Option.bind (hin_http_state ce a st (Code err) w)
                                (\<lambda>(_, _, w). http_client_unlink_wrap a w))
       in if ret < 0 then fail Connection_failed ret
          else Option.bind (hc_conns w a) (\<lambda>k.
            if https (k_uri k) \<noteq> 0 \<and> \<not> ce_ssl_ok ce then fail Ssl_failed (-71)
            else
              let k = (if https (k_uri k) \<noteq> 0 then k\<lparr>k_ssl := True, k_cflags := setf (k_cflags k) HIN_SSL\<rparr> else k);
                  k = (if k_buf k = None then k\<lparr>k_buf := Some (hin_lines_create_raw READ_SZ)\<rparr> else k)
              in Option.bind (conn_lines_request ce a (set_conn a k w)) (\<lambda>(r, w).
                   if r \<noteq> 0 then Some w
                   else map_option (\<lambda>(_, _, w). w) (hin_http_state ce a Connected (Code 0) w))))"

definition http_client_finish_request :: "client_env \<Rightarrow> nat \<Rightarrow> hclient \<Rightarrow> hclient option" where
  "http_client_finish_request ce a w =
     Option.bind (hc_conns w a) (\<lambda>k.
       if has (k_io k) (HIN_REQ_DATA OR HIN_REQ_POST) then Some w
       else Option.bind (hin_http_state ce a Finish (Code 0) w) (\<lambda>(_, _, w). http_connection_release ce a w))"

definition hin_http_pipe_finish_callback :: "client_env \<Rightarrow> nat \<Rightarrow> hclient \<Rightarrow> hclient option" where
  "hin_http_pipe_finish_callback ce a w =
     Option.bind (upd_conn a (\<lambda>k. k\<lparr>k_io := clrf (k_io k) HIN_REQ_DATA\<rparr>) w) (http_client_finish_request ce a)"

definition hin_rproxy_post_done_callback :: "client_env \<Rightarrow> nat \<Rightarrow> hclient \<Rightarrow> hclient option" where
  "hin_rproxy_post_done_callback ce a w =
     Option.bind (upd_conn a (\<lambda>k. k\<lparr>k_io := clrf (k_io k) HIN_REQ_POST\<rparr>) w) (http_client_finish_request ce a)"

definition httpd_pipe_error_callback :: "nat \<Rightarrow> hclient \<Rightarrow> hclient option" where
  "httpd_pipe_error_callback a w =
     Option.bind (hc_conns w a) (\<lambda>k. Option.bind (k_parent k) (\<lambda>c.
       Some (set_peer c (snd (httpd_client_shutdown (peer c w))) w)))"

text \<open>\<open>http_client_sent_callback\<close>: the end of the write of a request.\<close>

definition http_client_sent_callback :: "client_env \<Rightarrow> int \<Rightarrow> nat \<Rightarrow> hclient \<Rightarrow> hclient option" where
  "http_client_sent_callback ce ret a w =
     Option.bind (upd_conn a (\<lambda>k. k\<lparr>k_io := clrf (k_io k) HIN_REQ_HEADERS\<rparr>) w) (\<lambda>w.
     Option.bind (hc_conns w a) (\<lambda>k.
       if has (k_io k) HIN_REQ_STOPPING then http_client_shutdown a w
       else if ret \<le> 0
       then Option.bind (hin_http_state ce a Headers_failed (Code ret) w) (\<lambda>(_, _, w). http_client_shutdown a w)
       else Some w))"

definition hin_proxy ::
  "client_env \<Rightarrow> nat \<Rightarrow> nat \<Rightarrow> nat option \<Rightarrow> string \<Rightarrow> hclient \<Rightarrow> (nat option \<times> hclient) option" where
  "hin_proxy ce b c http url w =
     (let h = peer c w
      in if has (h_state h) HIN_REQ_DATA then Some (None, w)
         else
           let w = set_peer c (h\<lparr>h_state := setf (h_state h) (HIN_REQ_DATA OR HIN_REQ_PROXY)\<rparr>) w
           in Option.bind (hin_cache_check (ce_http ce) c (hc_store w)) (\<lambda>(n, s).
                let w = w\<lparr>hc_store := s\<rparr>
                in if n > 0 then Some (None, w)
                   else Option.bind (if http = None then http_connection_get b url w else Some (http, w)) (\<lambda>(http, w).
                     Option.bind http (\<lambda>a.
                     Option.bind (upd_conn a (\<lambda>k. k\<lparr>k_flags := setf (k_flags k) HIN_HTTP_KEEPALIVE,
                                    k_parent := Some c, k_method := h_method (peer c w), k_cb := Proxy\<rparr>) w) (\<lambda>w.
                       map_option (\<lambda>w. (Some a, w)) (http_connection_start ce a w))))))"

definition http_download_raw ::
  "client_env \<Rightarrow> nat \<Rightarrow> nat option \<Rightarrow> string \<Rightarrow> hclient \<Rightarrow> (nat option \<times> hclient) option" where
  "http_download_raw ce b http url w =
     Option.bind (if http = None then http_connection_get b url w else Some (http, w)) (\<lambda>(http, w).
     Option.bind http (\<lambda>a.
     Option.bind (upd_conn a (\<lambda>k. k\<lparr>k_cb := Download\<rparr>) w) (\<lambda>w.
       map_option (\<lambda>w. (Some a, w)) (http_connection_start ce a w))))"

text \<open>The new connection has the method of a fresh one; the old one keeps no client.\<close>

definition http_client_restart :: "client_env \<Rightarrow> nat \<Rightarrow> nat \<Rightarrow> nat option \<Rightarrow> hclient \<Rightarrow> hclient option" where
  "http_client_restart ce b a parent w =
     (case parent of
        None \<Rightarrow> Some w
      | Some c \<Rightarrow>
          Option.bind (hc_conns w a) (\<lambda>k.
            if all (k_uri k) = null_str then None
            else
              Option.bind (http_connection_get b (c_str (sptr (all (k_uri k)))) w) (\<lambda>(http, w).
              Option.bind http (\<lambda>n.
              Option.bind (upd_conn n (\<lambda>j. j\<lparr>k_flags := setf (k_flags j) HIN_HTTP_KEEPALIVE,
                             k_parent := Some c, k_cb := k_cb k\<rparr>) w) (\<lambda>w.
              Option.bind (http_connection_start ce n w) (\<lambda>w.
                upd_conn a (\<lambda>k. k\<lparr>k_parent := None, k_cb := No_callback\<rparr>) w))))))"

definition http_client_headers_close_callback :: "client_env \<Rightarrow> nat \<Rightarrow> nat \<Rightarrow> hclient \<Rightarrow> hclient option" where
  "http_client_headers_close_callback ce b a w =
     Option.bind (hc_conns w a) (\<lambda>k.
     Option.bind (if has (k_io k) (HIN_REQ_HEADERS OR HIN_REQ_DATA) \<and> \<not> has (k_io k) HIN_REQ_IDLE
                  then http_client_restart ce b a (k_parent k) w else Some w)
       (http_client_shutdown a))"

subsection \<open>Responses\<close>

definition http_parse_headers_line :: "string_t \<Rightarrow> hconn \<Rightarrow> int \<times> hconn" where
  "http_parse_headers_line line k =
     (let (n1, size) = matchi_string_equal line ''Content-Length: (%d+)'';
          (n2, coding, _) = matchi_string line ''Transfer-Encoding:%s*'';
          (n3, val, _) = matchi_string line ''Cache-Control:''
      in if n1 > 0 then (1, k\<lparr>k_sz := atoi (sptr (stored size null_str))\<rparr>)
         else if n2 > 0
         then (if fst (matchi_string coding ''chunked'') > 0 then (1, k\<lparr>k_flags := setf (k_flags k) HIN_HTTP_CHUNKED\<rparr>)
               else if fst (matchi_string coding ''identity'') > 0 then (1, k)
               else (-1, k))
         else if n3 > 0
         then (case httpd_parse_cache_str (sptr val) (slen val) (k_cache k) of
                 (flags, age) \<Rightarrow> (1, k\<lparr>k_cache_flags := flags, k_cache := age\<rparr>))
         else (1, k))"

text \<open>Whether the head is complete; the body may not start before the line end of the last line.\<close>

function client_complete :: "string_t \<Rightarrow> bool option" where
  "client_complete source =
     (case hin_find_line source of
        None \<Rightarrow> None
      | Some (u, source', line) \<Rightarrow>
          if u = 0 then Some False
          else if slen line = 0 then Some True
          else if slen source' = 0 then Some False
          else client_complete source')"
  by pat_completeness auto
termination
  by (relation "measure slen") (auto dest!: sym [of _ "hin_find_line _"] find_line_progress)

declare client_complete.simps [simp del]

function client_lines :: "hconn \<Rightarrow> string_t \<Rightarrow> (int \<times> hconn \<times> string_t) option" where
  "client_lines k source =
     (case hin_find_line source of
        None \<Rightarrow> None
      | Some (u, source', line) \<Rightarrow>
          if u = 0 \<or> slen line = 0 then Some (1, k, source')
          else (case http_parse_headers_line line k of
                  (r, k) \<Rightarrow> if r < 0 then Some (-1, k, source') else client_lines k source'))"
  by pat_completeness auto
termination
  by (relation "measure (\<lambda>(k, s). slen s)") (auto dest!: sym [of _ "hin_find_line _"] find_line_progress)

declare client_lines.simps [simp del]

text \<open>The pipe of the body; a download's own read callback copies as the default one does.\<close>

definition client_pipe :: "hconn \<Rightarrow> http_pipe" where
  "client_pipe k =
     (let p = (hp_pipe new_pipe)
                \<lparr>p_in := \<lparr>d_fd = k_fd k, d_flags = HIN_SOCKET OR (k_cflags k AND HIN_SSL), d_pos = 0\<rparr>,
                 p_out := \<lparr>d_fd = 1, d_flags = 0, d_pos = 0\<rparr>, finish_cb := True\<rparr>;
          q = new_pipe\<lparr>hp_pipe := p\<rparr>
      in if k_method k = HIN_METHOD_HEAD then q\<lparr>hp_pipe := (in_set HIN_COUNT p)\<lparr>p_left := 0\<rparr>\<rparr>
         else if has (k_flags k) HIN_HTTP_CHUNKED then q\<lparr>hp_decode := True\<rparr>
         else if k_sz k > 0 then q\<lparr>hp_pipe := (in_set HIN_COUNT p)\<lparr>p_left := k_sz k\<rparr>\<rparr>
         else q)"

definition http_client_start_pipe ::
  "client_env \<Rightarrow> (http_pipe \<Rightarrow> pipe_env) \<Rightarrow> nat \<Rightarrow> string_t \<Rightarrow> hclient \<Rightarrow> (http_pipe \<times> int \<times> hclient) option" where
  "http_client_start_pipe ce penv a source w =
     Option.bind (hc_conns w a) (\<lambda>k.
       let sz = k_sz k;
           len = (if sz \<noteq> 0 \<and> sz < int (slen source) then sz else int (slen source));
           len = (if k_method k = HIN_METHOD_HEAD then 0 else len)
       in Option.bind (hin_http_state ce a Headers (Pipe (client_pipe k)) w) (\<lambda>(_, d, w).
          Option.bind (hc_conns w a) (\<lambda>k.
            case d of
              Pipe p \<Rightarrow>
                let p = (if k_save_fd k \<noteq> 0
                         then p\<lparr>hp_pipe := out_set (HIN_FILE OR HIN_OFFSETS)
                                  ((hp_pipe p)\<lparr>p_out := (p_out (hp_pipe p))\<lparr>d_fd := k_save_fd k\<rparr>\<rparr>)\<rparr>
                         else p)
                in Some (start_with penv len source p, len, w)
            | _ \<Rightarrow> None)))"

text \<open>The result is the number of bytes used, 0 to ask for more and -1 on an error.\<close>

definition http_client_headers_read_callback ::
  "client_env \<Rightarrow> (http_pipe \<Rightarrow> pipe_env) \<Rightarrow> nat \<Rightarrow> hclient \<Rightarrow> (int \<times> hclient) option" where
  "http_client_headers_read_callback ce penv a w =
     Option.bind (hc_conns w a) (\<lambda>k.
     Option.bind (k_buf k) (\<lambda>b.
       let orig = mk_str (lines_text b)
       in if has (k_io k) HIN_REQ_IDLE then Some (0, w)
          else Option.bind (client_complete orig) (\<lambda>ok.
            if \<not> ok then Some (0, w)
            else Option.bind (hin_find_line orig) (\<lambda>(u, source, line).
              case match_string line ''HTTP/1.%d ([%d]+) %w+'' of (n, _, caps) \<Rightarrow>
                if u = 0 \<or> n \<le> 0 then Some (-1, w)
                else
                  let k = k\<lparr>k_status := atoi (sptr (stored caps null_str))\<rparr>
                  in Option.bind (client_lines k source) (\<lambda>(r, k, source).
                       let w = set_conn a k w
                       in if r < 0 then Some (-1, w)
                          else Option.bind (http_client_start_pipe ce penv a source w) (\<lambda>(p, len, w).
                            Some (int (slen orig - slen source) + len, log_client [Start a p] w)))))))"

text \<open>
  A read of the line buffer ends: \<open>None\<close> for an error or the end of the stream.  This is
  \<open>hin_lines_read_callback\<close> and \<open>hin_lines_default_eat\<close> with the callbacks of a connection.
\<close>

definition client_read ::
  "client_env \<Rightarrow> (http_pipe \<Rightarrow> pipe_env) \<Rightarrow> nat \<Rightarrow> nat \<Rightarrow> string option \<Rightarrow> hclient \<Rightarrow> hclient option" where
  "client_read ce penv b a data w =
     (case data of
        None \<Rightarrow>
          Option.bind (upd_conn a (\<lambda>k. k\<lparr>k_buf := map_option (\<lambda>l. l\<lparr>lb_active := False\<rparr>) (k_buf k)\<rparr>) w)
            (http_client_headers_close_callback ce b a)
      | Some d \<Rightarrow>
          Option.bind (upd_conn a (\<lambda>k. k\<lparr>k_buf := map_option (\<lambda>l.
              (kernel_read d l)\<lparr>lb_req := 0, lb_count := lb_count l + int (length d)\<rparr>) (k_buf k)\<rparr>) w) (\<lambda>w.
          Option.bind (http_client_headers_read_callback ce penv a w) (\<lambda>(num, w).
            if num > 0
            then Option.bind (hc_conns w a) (\<lambda>k. Option.bind (k_buf k) (\<lambda>l.
                   map_option (\<lambda>(_, l). set_conn a (k\<lparr>k_buf := Some l\<rparr>) w) (hin_buffer_eat num l)))
            else if num = 0 then map_option snd (conn_lines_request ce a w)
            else http_client_headers_close_callback ce b a w)))"

end
