(* ===== verification/HttpConns.thy ===== *)
theory HttpConns
  imports HttpClient
begin

text \<open>
  The list of the idle connections of the HTTP client: as long as no response ends on a connection
  that is already being closed, it holds live connections only, whatever the order of the events.
\<close>

subsection \<open>What an operation on a connection leaves alone\<close>

definition core :: "hconn \<Rightarrow> int \<times> string option \<times> string option \<times> bool \<times> bool \<times> bool" where
  "core k = (k_fd k, k_host k, k_port k, has (k_io k) HIN_REQ_IDLE, has (k_io k) HIN_REQ_STOPPING, has (k_io k) HIN_REQ_END)"

definition quiet :: "client_event list \<Rightarrow> bool" where
  "quiet es \<longleftrightarrow> (\<forall>a. Close_conn a \<notin> set es)"

definition frame :: "nat \<Rightarrow> hclient \<Rightarrow> hclient \<Rightarrow> bool" where
  "frame a w w' \<longleftrightarrow> hc_idle w' = hc_idle w \<and> (\<forall>b. b \<noteq> a \<longrightarrow> hc_conns w' b = hc_conns w b) \<and>
     map_option core (hc_conns w' a) = map_option core (hc_conns w a) \<and>
     (\<exists>es. hc_log w' = hc_log w @ es \<and> quiet es)"

lemma quiet_simps [simp]:
  "quiet []" "quiet (es @ fs) \<longleftrightarrow> quiet es \<and> quiet fs"
  "quiet (e # es) \<longleftrightarrow> (\<forall>a. e \<noteq> Close_conn a) \<and> quiet es"
  by (auto simp: quiet_def)

lemma frame_refl [simp]: "frame a w w"
  by (simp add: frame_def)

lemma frame_trans [trans]: "frame a u v \<Longrightarrow> frame a v w \<Longrightarrow> frame a u w"
  unfolding frame_def by (metis append_assoc quiet_simps(2))

lemma frame_set [intro]: "hc_conns w a = Some k \<Longrightarrow> core k' = core k \<Longrightarrow> frame a w (set_conn a k' w)"
  by (simp add: frame_def set_conn_def)

lemma frame_peer [intro]: "frame a w v \<Longrightarrow> frame a w (set_peer c h v)"
  by (auto simp: frame_def set_peer_def)

lemma frame_log [intro]: "frame a w v \<Longrightarrow> quiet es \<Longrightarrow> frame a w (log_client es v)"
  by (auto simp: frame_def log_client_def)

lemma frame_upd: "upd_conn a f w = Some w' \<Longrightarrow> (\<And>k. core (f k) = core k) \<Longrightarrow> frame a w w'"
  by (auto simp: upd_conn_def)

lemma core_flags [simp]:
  "core (k\<lparr>k_io := setf (k_io k) HIN_REQ_POST\<rparr>) = core k" "core (k\<lparr>k_io := clrf (k_io k) HIN_REQ_POST\<rparr>) = core k"
  "core (k\<lparr>k_io := clrf (k_io k) HIN_REQ_DATA\<rparr>) = core k" "core (k\<lparr>k_io := clrf (k_io k) HIN_REQ_HEADERS\<rparr>) = core k"
  "core (k\<lparr>k_io := setf (k_io k) (HIN_REQ_HEADERS OR HIN_REQ_DATA)\<rparr>) = core k"
  by (simp_all add: core_def flag_defs has_clrf_disjoint) (simp_all add: has_def)

lemma core_fields [simp]:
  "core (k\<lparr>k_save_fd := x\<rparr>) = core k" "core (k\<lparr>k_buf := b\<rparr>) = core k" "core (k\<lparr>k_status := n\<rparr>) = core k"
  "core (k\<lparr>k_sz := n\<rparr>) = core k" "core (k\<lparr>k_cache_flags := f, k_cache := n\<rparr>) = core k" "core (k\<lparr>k_uri := u\<rparr>) = core k"
  "core (k\<lparr>k_flags := f\<rparr>) = core k" "core (k\<lparr>k_cb := cb\<rparr>) = core k" "core (k\<lparr>k_parent := p\<rparr>) = core k"
  "core (k\<lparr>k_method := m\<rparr>) = core k"
  "core (k\<lparr>k_ssl := t, k_cflags := f\<rparr>) = core k"
  by (simp_all add: core_def)

lemma frame_lines_request: "conn_lines_request ce a w = Some (r, w') \<Longrightarrow> frame a w w'"
  by (auto simp: conn_lines_request_def bind_eq_Some_conv split: if_splits prod.splits)

lemma frame_send_post: "hin_rproxy_send_post a c sz w = Some w' \<Longrightarrow> frame a w w'"
  by (auto simp: hin_rproxy_send_post_def Let_def intro!: frame_log frame_set)

lemma frame_send: "hin_rproxy_send a bufs w = Some (r, bufs', w') \<Longrightarrow> frame a w w'"
  by (auto simp: hin_rproxy_send_def bind_eq_Some_conv Let_def dest: frame_send_post split: if_splits prod.splits)

lemma frame_rproxy_headers: "hin_rproxy_headers e a p w = Some (r, p', w') \<Longrightarrow> frame a w w'"
  by (auto simp: hin_rproxy_headers_def Let_def split: Option.bind_split_asm prod.split_asm)

lemma frame_rproxy_finish: "hin_rproxy_finish e a w = Some w' \<Longrightarrow> frame a w w'"
  by (auto simp: hin_rproxy_finish_def bind_eq_Some_conv Let_def intro!: frame_peer frame_set)

lemma frame_rproxy_state:
  assumes "hin_rproxy_state_callback e a st d w = Some (r, d', w')"
  shows "frame a w w'"
proof -
  consider bufs where "st = Send" "d = Buf bufs" | p where "st = Headers" "d = Pipe p" | "st = Connected"
    | "hin_rproxy_state_callback e a st d w = map_option (\<lambda>w. (0, d, w)) (hin_rproxy_finish e a w)"
    by (cases st; cases d) (auto simp: hin_rproxy_state_callback_def)
  then show ?thesis
  proof cases
    case 1
    then show ?thesis using assms by (auto simp: hin_rproxy_state_callback_def dest: frame_send)
  next
    case 2
    then show ?thesis using assms by (auto simp: hin_rproxy_state_callback_def dest: frame_rproxy_headers)
  next
    case 3
    then show ?thesis using assms by (simp add: hin_rproxy_state_callback_def)
  next
    case 4
    show ?thesis using assms unfolding 4 by (auto dest: frame_rproxy_finish)
  qed
qed

lemma frame_download_state:
  assumes "state_callback opn a st d w = Some (r, d', w')"
  shows "frame a w w'"
proof -
  obtain k where k: "hc_conns w a = Some k" using assms by (cases "hc_conns w a") (auto simp: state_callback_def)
  show ?thesis
  proof (cases "st = Headers \<and> has (k_flags k) HIN_FLAG_AUTONAME")
    case True
    then have "map_option (\<lambda>(_, k). (0, d, set_conn a k w)) (http_autoname opn k) = Some (r, d', w')"
      using assms k by (simp add: state_callback_def)
    then obtain n k' where n: "http_autoname opn k = Some (n, k')" "w' = set_conn a k' w" by auto
    then have "core k' = core k" by (auto simp: http_autoname_def bind_eq_Some_conv Let_def)
    then show ?thesis using k n(2) frame_set by simp
  next
    case False
    then have "Some (0, d, w) = Some (r, d', w')"
      using assms k unfolding state_callback_def k Option.bind.bind_lunit if_not_P [OF False] by simp
    then show ?thesis by simp
  qed
qed

lemma frame_report:
  assumes "report_state ce a st d w = Some (r, d', w')"
  shows "frame a w w'"
proof -
  obtain k where k: "hc_conns w a = Some k" using assms by (cases "hc_conns w a") (auto simp: report_state_def)
  then show ?thesis
    using assms
    by (cases "k_cb k") (auto simp: report_state_def dest: frame_rproxy_state frame_download_state)
qed

lemma frame_start_pipe:
  assumes "http_client_start_pipe ce penv a source w = Some (p, len, w')"
  shows "frame a w w'"
proof -
  obtain k where k: "hc_conns w a = Some k"
    using assms by (cases "hc_conns w a") (auto simp: http_client_start_pipe_def)
  obtain r d w1 where r: "report_state ce a Headers (Pipe (client_pipe k)) w = Some (r, d, w1)"
    using assms k
    by (cases "report_state ce a Headers (Pipe (client_pipe k)) w")
       (auto simp: http_client_start_pipe_def hin_http_state_def Let_def)
  have "w' = w1"
    using assms k r
    by (cases d) (auto simp: http_client_start_pipe_def hin_http_state_def Let_def bind_eq_Some_conv)
  then show ?thesis using frame_report [OF r] by simp
qed

lemma core_lines:
  "client_lines k source = Some (r, k', source') \<Longrightarrow> core k' = core k"
proof (induction k source rule: client_lines.induct)
  case (1 k source)
  have line: "core (snd (http_parse_headers_line l k)) = core k" for l k
    by (simp add: http_parse_headers_line_def Let_def split: prod.splits)
  obtain u source1 l where f: "hin_find_line source = Some (u, source1, l)"
    using 1(2) by (subst (asm) client_lines.simps) (auto split: option.splits)
  obtain r1 k1 where p: "http_parse_headers_line l k = (r1, k1)" by fastforce
  then have k1: "core k1 = core k" using line [of l k] by simp
  show ?case
  proof (cases "u = 0 \<or> slen l = 0 \<or> r1 < 0")
    case True
    then show ?thesis using 1(2) f p k1 by (subst (asm) client_lines.simps) (auto split: if_splits)
  next
    case False
    then have "client_lines k1 source1 = Some (r, k', source')"
      using 1(2) f p by (subst (asm) client_lines.simps) auto
    then show ?thesis using 1(1) [OF f refl refl _ p [symmetric]] False k1 by simp
  qed
qed

lemma frame_read_callback:
  assumes "http_client_headers_read_callback ce penv a w = Some (n, w')"
  shows "frame a w w'"
proof -
  obtain k b where k: "hc_conns w a = Some k" "k_buf k = Some b"
    using assms by (auto simp: http_client_headers_read_callback_def bind_eq_Some_conv)
  show ?thesis
  proof (cases "w' = w")
    case False
    obtain u source line where f: "hin_find_line (mk_str (lines_text b)) = Some (u, source, line)"
      using assms False k by (auto simp: http_client_headers_read_callback_def Let_def bind_eq_Some_conv split: if_splits)
    obtain m v caps where m: "match_string line ''HTTP/1.%d ([%d]+) %w+'' = (m, v, caps)" by (metis prod_cases3)
    let ?k = "k\<lparr>k_status := atoi (sptr (stored caps null_str))\<rparr>"
    obtain r k' source' where l: "client_lines ?k source = Some (r, k', source')"
      "(if r < 0 then Some (-1, set_conn a k' w)
        else Option.bind (http_client_start_pipe ce penv a source' (set_conn a k' w)) (\<lambda>(p, len, v).
          Some (int (slen (mk_str (lines_text b)) - slen source') + len, log_client [Start a p] v))) = Some (n, w')"
      using assms False k f m
      by (auto simp: http_client_headers_read_callback_def Let_def bind_eq_Some_conv split: if_splits)
    have fr: "frame a w (set_conn a k' w)"
      using k core_lines [OF l(1)] by (auto intro!: frame_set)
    show ?thesis
    proof (cases "r < 0")
      case True
      then show ?thesis using l(2) fr by simp
    next
      case False
      then obtain p len v where "http_client_start_pipe ce penv a source' (set_conn a k' w) = Some (p, len, v)"
        "w' = log_client [Start a p] v"
        using l(2) by (auto simp: bind_eq_Some_conv)
      then show ?thesis using frame_trans [OF fr frame_start_pipe] frame_log by simp
    qed
  qed simp
qed

subsection \<open>The list of the idle connections\<close>

definition idle_ok :: "hclient \<Rightarrow> bool" where
  "idle_ok w \<longleftrightarrow> distinct (hc_idle w) \<and>
     (\<forall>a\<in>set (hc_idle w). \<exists>k. hc_conns w a = Some k \<and> 0 \<le> k_fd k \<and> has (k_io k) HIN_REQ_IDLE \<and>
        \<not> has (k_io k) HIN_REQ_STOPPING \<and> \<not> has (k_io k) HIN_REQ_END) \<and>
     (\<forall>a k. hc_conns w a = Some k \<longrightarrow> k_host k \<noteq> None \<and> k_port k \<noteq> None) \<and>
     (\<forall>a k. hc_conns w a = Some k \<longrightarrow> Close_conn a \<in> set (hc_log w) \<longrightarrow> has (k_io k) HIN_REQ_STOPPING)"

definition fresh :: "nat \<Rightarrow> hclient \<Rightarrow> bool" where
  "fresh b w \<longleftrightarrow> hc_conns w b = None \<and> Close_conn b \<notin> set (hc_log w)"

lemma core_eq:
  "core k' = core k \<longleftrightarrow> k_fd k' = k_fd k \<and> k_host k' = k_host k \<and> k_port k' = k_port k \<and>
     (has (k_io k') HIN_REQ_IDLE \<longleftrightarrow> has (k_io k) HIN_REQ_IDLE) \<and>
     (has (k_io k') HIN_REQ_STOPPING \<longleftrightarrow> has (k_io k) HIN_REQ_STOPPING) \<and>
     (has (k_io k') HIN_REQ_END \<longleftrightarrow> has (k_io k) HIN_REQ_END)"
  by (auto simp: core_def)

lemma frame_conn:
  "frame a w w' \<Longrightarrow> hc_conns w' b = Some k' \<Longrightarrow> \<exists>k. hc_conns w b = Some k \<and> core k' = core k"
  "frame a w w' \<Longrightarrow> hc_conns w b = Some k \<Longrightarrow> \<exists>k'. hc_conns w' b = Some k' \<and> core k' = core k"
  by (cases "b = a"; auto simp: frame_def map_option_case split: option.splits)+

lemma frame_logged: "frame a w w' \<Longrightarrow> Close_conn b \<in> set (hc_log w') \<longleftrightarrow> Close_conn b \<in> set (hc_log w)"
  by (auto simp: frame_def quiet_def)

lemma ok_frame:
  assumes "idle_ok w" "frame a w w'"
  shows "idle_ok w'"
proof -
  have i: "hc_idle w' = hc_idle w" using assms(2) by (simp add: frame_def)
  have "\<exists>k. hc_conns w' b = Some k \<and> 0 \<le> k_fd k \<and> has (k_io k) HIN_REQ_IDLE \<and>
      \<not> has (k_io k) HIN_REQ_STOPPING \<and> \<not> has (k_io k) HIN_REQ_END" if b: "b \<in> set (hc_idle w)" for b
  proof -
    obtain k where k: "hc_conns w b = Some k" "0 \<le> k_fd k" "has (k_io k) HIN_REQ_IDLE"
      "\<not> has (k_io k) HIN_REQ_STOPPING" "\<not> has (k_io k) HIN_REQ_END"
      using assms(1) b by (auto simp: idle_ok_def)
    obtain k' where "hc_conns w' b = Some k'" "core k' = core k" using frame_conn(2) [OF assms(2) k(1)] by blast
    then show ?thesis using k(2-5) by (auto simp: core_eq)
  qed
  moreover have "k_host k \<noteq> None \<and> k_port k \<noteq> None \<and>
      (Close_conn b \<in> set (hc_log w') \<longrightarrow> has (k_io k) HIN_REQ_STOPPING)" if k: "hc_conns w' b = Some k" for b k
  proof -
    obtain j where j: "hc_conns w b = Some j" "core k = core j" using frame_conn(1) [OF assms(2) k] by blast
    then show ?thesis using assms(1) frame_logged [OF assms(2), of b] by (auto simp: idle_ok_def core_eq)
  qed
  ultimately show ?thesis using assms(1) i by (simp add: idle_ok_def)
qed

lemma ok_set:
  assumes "idle_ok w" "a \<notin> set (hc_idle w)" "k_host k \<noteq> None" "k_port k \<noteq> None"
    "Close_conn a \<in> set (hc_log w) \<Longrightarrow> has (k_io k) HIN_REQ_STOPPING"
  shows "idle_ok (set_conn a k w)"
  using assms unfolding idle_ok_def set_conn_def by auto

lemma ok_idle_set:
  "idle_ok w \<Longrightarrow> a \<in> set (hc_idle w) \<Longrightarrow> \<exists>k. hc_conns w a = Some k \<and> 0 \<le> k_fd k \<and> has (k_io k) HIN_REQ_IDLE \<and>
     \<not> has (k_io k) HIN_REQ_STOPPING \<and> \<not> has (k_io k) HIN_REQ_END"
  by (simp add: idle_ok_def)

subsection \<open>Each operation keeps the list\<close>

lemma clean_result:
  assumes "http_client_clean a w = Some w'" "hc_conns w a = Some k"
  shows "\<exists>j es. w' = log_client es (set_conn a j w) \<and> quiet es \<and> k_io j = k_io k AND HIN_REQ_HEADERS \<and>
     k_fd j = k_fd k \<and> k_host j = k_host k \<and> k_port j = k_port k"
proof -
  let ?es = "if k_save_fd k \<noteq> 0 then [Close_save (k_save_fd k)] else []"
  let ?j = "k\<lparr>k_uri := (k_uri k)\<lparr>all := null_str\<rparr>, k_save_fd := 0, k_parent := None, k_flags := 0,
      k_method := 0, k_status := 0, k_sz := 0, k_count := 0, k_cache_flags := 0, k_cache := 0,
      k_ssl := False, k_io := k_io k AND HIN_REQ_HEADERS\<rparr>"
  have "quiet ?es" by simp
  moreover have "w' = log_client ?es (set_conn a ?j w)"
    using assms by (simp add: http_client_clean_def split: if_split_asm)
  ultimately show ?thesis by (intro exI [of _ ?j] exI [of _ ?es]) simp
qed

lemma unlink_ok:
  assumes "idle_ok w" "http_client_unlink a w = Some (f, w')"
  shows "idle_ok w' \<and> (if f then hc_conns w' a = None else w' = w)"
proof (cases f)
  case True
  obtain k where k: "hc_conns w a = Some k" "has (k_io k) HIN_REQ_END"
    and u: "map_option (\<lambda>w. (True, log_client [Freed a] (w\<lparr>hc_conns := (hc_conns w)(a := None)\<rparr>)))
              (http_client_clean a (w\<lparr>hc_num := hc_num w - 1\<rparr>)) = Some (f, w')"
    using assms(2) True by (auto simp: http_client_unlink_def bind_eq_Some_conv split: if_splits option.splits)
  obtain w1 where w1: "http_client_clean a (w\<lparr>hc_num := hc_num w - 1\<rparr>) = Some w1"
    "w' = log_client [Freed a] (w1\<lparr>hc_conns := (hc_conns w1)(a := None)\<rparr>)"
    using u by auto
  obtain k' es where k': "w1 = log_client es (set_conn a k' (w\<lparr>hc_num := hc_num w - 1\<rparr>))" "quiet es"
    using clean_result [OF w1(1)] k by fastforce
  have "a \<notin> set (hc_idle w)" using ok_idle_set [OF assms(1), of a] k by auto
  then show ?thesis
    using assms(1) True k'(2) unfolding w1(2) k'(1)
    by (auto simp: idle_ok_def log_client_def set_conn_def quiet_def)
next
  case False
  then have "w' = w"
    using assms(2) by (auto simp: http_client_unlink_def bind_eq_Some_conv split: if_splits option.splits)
  then show ?thesis using assms(1) False by simp
qed

lemma ok_remove:
  assumes "idle_ok w" "hc_conns w a = Some k" "has (k_io k') HIN_REQ_STOPPING" "k_host k' = k_host k" "k_port k' = k_port k"
  shows "idle_ok (log_client [Close_conn a] ((set_conn a k' w)\<lparr>hc_idle := remove1 a (hc_idle w)\<rparr>))"
  using assms unfolding idle_ok_def set_conn_def log_client_def by (auto simp: set_remove1_eq)

lemma shutdown_ok:
  assumes "idle_ok w" "http_client_shutdown a w = Some w'"
  shows "idle_ok w'"
proof -
  obtain f w1 where u: "http_client_unlink a w = Some (f, w1)" using assms(2)
    by (auto simp: http_client_shutdown_def bind_eq_Some_conv)
  note ok = unlink_ok [OF assms(1) u]
  show ?thesis
  proof (cases f)
    case True
    then show ?thesis using assms(2) u ok by (auto simp: http_client_shutdown_def)
  next
    case False
    then have w1: "w1 = w" using ok by simp
    obtain k where k: "hc_conns w a = Some k"
      using assms(2) u False w1 by (auto simp: http_client_shutdown_def bind_eq_Some_conv)
    let ?k = "k\<lparr>k_io := setf (k_io k) HIN_REQ_STOPPING\<rparr>"
    have st: "has (k_io ?k) HIN_REQ_STOPPING" by simp (simp add: has_def flag_defs)
    consider "w' = w"
      | "w' = log_client [Close_conn a] ((set_conn a ?k w)\<lparr>hc_idle := remove1 a (hc_idle w)\<rparr>)"
      | "\<not> has (k_io k) HIN_REQ_IDLE" "w' = log_client [Close_conn a] (set_conn a ?k w)"
      using assms(2) u False w1 k
      by (auto simp: http_client_shutdown_def Let_def set_conn_def split: if_splits)
    then show ?thesis
    proof cases
      case 3
      then have "a \<notin> set (hc_idle w)" using ok_idle_set [OF assms(1), of a] k by auto
      then have "w' = log_client [Close_conn a] ((set_conn a ?k w)\<lparr>hc_idle := remove1 a (hc_idle w)\<rparr>)"
        using 3 by (simp add: remove1_idem set_conn_def)
      then show ?thesis using ok_remove [OF assms(1) k st] by simp
    qed (use assms(1) ok_remove [OF assms(1) k st] in simp_all)
  qed
qed

lemma ok_log: "idle_ok w \<Longrightarrow> quiet es \<Longrightarrow> idle_ok (log_client es w)"
  by (auto simp: idle_ok_def log_client_def quiet_def)

lemma close_list_ok: "close_list as w = Some w' \<Longrightarrow> idle_ok w \<Longrightarrow> idle_ok w'"
proof (induction as arbitrary: w)
  case (Cons a as)
  obtain v where v: "http_client_shutdown a (log_client [Shut_rd a] w) = Some v" "close_list as v = Some w'"
    using Cons.prems(1) by (auto simp: bind_eq_Some_conv split: if_splits)
  have "idle_ok v" using shutdown_ok [OF ok_log [OF Cons.prems(2)] v(1)] by simp
  then show ?case using Cons.IH v(2) by blast
qed simp

lemma has_and: "has (x AND m) f \<longleftrightarrow> has x (m AND f)"
  by (simp add: has_def ac_simps)

lemma release_ok:
  assumes "idle_ok w" "hc_conns w a = Some k" "0 \<le> k_fd k" "\<not> has (k_io k) HIN_REQ_STOPPING" "\<not> has (k_io k) HIN_REQ_END"
    "http_connection_release ce a w = Some w'"
  shows "idle_ok w'"
proof (cases "has (k_flags k) HIN_HTTP_KEEPALIVE")
  case False
  then show ?thesis using assms(2,6) shutdown_ok [OF assms(1)] by (simp add: http_connection_release_def)
next
  case True
  let ?w = "w\<lparr>hc_idle := hc_idle w @ [a]\<rparr>"
  have na: "a \<notin> set (hc_idle w)" using assms(2,6) True by (auto simp: http_connection_release_def)
  obtain w1 w2 r where w1: "http_client_clean a ?w = Some w1"
    and w2: "upd_conn a (\<lambda>k. k\<lparr>k_io := setf (k_io k) HIN_REQ_IDLE, k_parent := None\<rparr>) w1 = Some w2"
    and r: "conn_lines_request ce a w2 = Some (r, w')"
    using assms(2,6) True na by (auto simp: http_connection_release_def bind_eq_Some_conv)
  obtain i es where i: "w1 = log_client es (set_conn a i ?w)" "quiet es" "k_io i = k_io k AND HIN_REQ_HEADERS"
    "k_fd i = k_fd k" "k_host i = k_host k" "k_port i = k_port k"
    using clean_result [OF w1, of k] assms(2) by auto
  let ?j = "i\<lparr>k_io := setf (k_io i) HIN_REQ_IDLE, k_parent := None\<rparr>"
  have j: "w2 = log_client es (set_conn a ?j ?w)"
    using w2 by (auto simp: i(1) upd_conn_def set_conn_def log_client_def)
  have f: "0 \<le> k_fd ?j" "k_host ?j = k_host k" "k_port ?j = k_port k"
    using i assms(3) by simp_all
  have io: "has (k_io ?j) HIN_REQ_IDLE" "\<not> has (k_io ?j) HIN_REQ_STOPPING" "\<not> has (k_io ?j) HIN_REQ_END"
    by (simp_all add: i(3) has_and) (simp_all add: has_def flag_defs)
  have nc: "Close_conn a \<notin> set (hc_log w)" using assms(1,2,4) by (auto simp: idle_ok_def)
  have "idle_ok w2"
    using assms(1,2) na f io nc i(2) unfolding j idle_ok_def set_conn_def log_client_def quiet_def by auto
  then show ?thesis using ok_frame frame_lines_request [OF r] by blast
qed

definition reusable :: "hin_uri \<Rightarrow> hclient \<Rightarrow> nat \<Rightarrow> bool" where
  "reusable info w a =
     (case hc_conns w a of None \<Rightarrow> False | Some k \<Rightarrow> conn_matches info k = Some True)"

lemma find_idle_find:
  assumes "\<forall>a\<in>set as. \<exists>k. hc_conns w a = Some k \<and> k_host k \<noteq> None \<and> k_port k \<noteq> None"
  shows "find_idle (hc_conns w) info as = Some (List.find (reusable info w) as)"
  using assms
proof (induction as)
  case (Cons a as)
  then obtain k hs pt where "hc_conns w a = Some k" "k_host k = Some hs" "k_port k = Some pt" by auto
  then show ?case using Cons by (auto simp: conn_matches_def reusable_def)
qed simp

lemma idle_named: "idle_ok w \<Longrightarrow> \<forall>a\<in>set (hc_idle w). \<exists>k. hc_conns w a = Some k \<and> k_host k \<noteq> None \<and> k_port k \<noteq> None"
  unfolding idle_ok_def by metis

text \<open>Taking a connection from the list, or making one.\<close>

lemma get_result:
  assumes "idle_ok w" "hin_parse_uri url 0 = (r, info)" "0 \<le> r"
  shows "case List.find (reusable info w) (hc_idle w) of
      None \<Rightarrow> http_connection_get b url w = Some (Some b, set_conn b (new_conn info) w)
    | Some a \<Rightarrow> \<exists>k k'. hc_conns w a = Some k \<and> core (k'\<lparr>k_io := 0\<rparr>) = core (k\<lparr>k_io := 0\<rparr>) \<and>
        k_io k' = clrf (k_io k) HIN_REQ_IDLE \<and> k_uri k' = info \<and>
        http_connection_get b url w = Some (Some a, set_conn a k' (w\<lparr>hc_idle := remove1 a (hc_idle w)\<rparr>))"
proof -
  note f = find_idle_find [OF idle_named [OF assms(1)], of info]
  show ?thesis
  proof (cases "List.find (reusable info w) (hc_idle w)")
    case None
    then show ?thesis using f assms(2,3) by (simp add: http_connection_get_def)
  next
    case (Some a)
    then have "a \<in> set (hc_idle w)" by (auto simp: find_Some_iff)
    then obtain k where k: "hc_conns w a = Some k" "has (k_io k) HIN_REQ_IDLE"
      using ok_idle_set [OF assms(1)] by blast
    let ?k = "k\<lparr>k_io := clrf (k_io k) HIN_REQ_IDLE, k_uri := info\<rparr>"
    have "http_connection_get b url w = Some (Some a, set_conn a ?k (w\<lparr>hc_idle := remove1 a (hc_idle w)\<rparr>))"
      using f Some assms(2,3) k
      by (simp add: http_connection_get_def http_connection_allocate_def upd_conn_def set_conn_def Let_def)
    moreover have "core (?k\<lparr>k_io := 0\<rparr>) = core (k\<lparr>k_io := 0\<rparr>)" "k_io ?k = clrf (k_io k) HIN_REQ_IDLE" "k_uri ?k = info"
      by (simp_all add: core_def)
    ultimately show ?thesis
      unfolding Some option.case using k(1) by (intro exI [of _ k] exI [of _ ?k] conjI)
  qed
qed

lemma get_ok:
  assumes "idle_ok w" "fresh b w" "http_connection_get b url w = Some (r, w')"
  shows "idle_ok w' \<and> (\<forall>a. r = Some a \<longrightarrow> a \<notin> set (hc_idle w'))"
proof -
  obtain n info where u: "hin_parse_uri url 0 = (n, info)" by fastforce
  show ?thesis
  proof (cases "n < 0")
    case True
    then show ?thesis using assms(1,3) u by (simp add: http_connection_get_def)
  next
    case False
    have nb: "b \<notin> set (hc_idle w)" using assms(2) ok_idle_set [OF assms(1), of b] by (auto simp: fresh_def)
    note res = get_result [OF assms(1) u, of b] False
    show ?thesis
    proof (cases "List.find (reusable info w) (hc_idle w)")
      case None
      then have w': "r = Some b" "w' = set_conn b (new_conn info) w" using res assms(3) by auto
      have "idle_ok w'" unfolding w'(2)
        using assms(1,2) nb by (intro ok_set) (auto simp: new_conn_def fresh_def)
      then show ?thesis using w' nb by (simp add: set_conn_def)
    next
      case (Some a)
      then obtain k k' where k: "hc_conns w a = Some k" "core (k'\<lparr>k_io := 0\<rparr>) = core (k\<lparr>k_io := 0\<rparr>)"
        "k_io k' = clrf (k_io k) HIN_REQ_IDLE" "r = Some a"
        "w' = set_conn a k' (w\<lparr>hc_idle := remove1 a (hc_idle w)\<rparr>)"
        using res assms(3) by auto
      have a: "a \<in> set (hc_idle w)" using Some by (auto simp: find_Some_iff)
      have "k_host k' = k_host k" "k_port k' = k_port k" using k(2) by (simp_all add: core_def)
      moreover have "Close_conn a \<notin> set (hc_log w)"
        using assms(1) a k(1) unfolding idle_ok_def by (metis option.inject)
      ultimately have "idle_ok w'"
        using assms(1) k(1,5) unfolding idle_ok_def set_conn_def by (auto simp: set_remove1_eq)
      then show ?thesis using k(4,5) assms(1) by (auto simp: set_conn_def idle_ok_def set_remove1_eq)
    qed
  qed
qed

lemma start_headers_ok:
  assumes "idle_ok w" "http_client_start_headers ce a w = Some (r, w')"
  shows "idle_ok w'"
proof -
  obtain k where k: "hc_conns w a = Some k"
    using assms(2) by (auto simp: http_client_start_headers_def bind_eq_Some_conv)
  let ?w = "set_conn a (k\<lparr>k_io := setf (k_io k) (HIN_REQ_HEADERS OR HIN_REQ_DATA)\<rparr>) w"
  obtain b1 b2 b3 where b: "hdr (client_request_line k) [new_buffer READ_SZ] = Some b1" "hdr (host_line k) b1 = Some b2"
    "hdr (connection_line k) b2 = Some b3"
    using assms(2) k by (auto simp: http_client_start_headers_def bind_eq_Some_conv Let_def split: if_splits)
  obtain n d w1 where rep: "report_state ce a Send (Buf b3) ?w = Some (n, d, w1)"
    using assms(2) k b by (auto simp: http_client_start_headers_def bind_eq_Some_conv Let_def split: if_splits)
  have ok: "idle_ok w1"
    using ok_frame [OF assms(1) frame_trans [OF frame_set frame_report [OF rep]]] k by simp
  obtain b4 where "d = Buf b4"
    using assms(2) k b rep
    by (cases d) (auto simp: http_client_start_headers_def bind_eq_Some_conv Let_def split: if_splits)
  then obtain b5 where "w' = log_client [Send_head a b5] w1 \<or> http_client_shutdown a w1 = Some w'"
    using assms(2) k b rep
    by (auto simp: http_client_start_headers_def bind_eq_Some_conv Let_def split: if_splits)
  then show ?thesis using ok ok_log shutdown_ok by auto
qed

lemma state_ok:
  assumes "idle_ok w" "hin_http_state ce a st d w = Some (r, d', w')"
  shows "idle_ok w'"
proof (cases "st = Connected")
  case True
  then obtain n w1 where "http_client_start_headers ce a w = Some (n, w1)" "report_state ce a st d w1 = Some (r, d', w')"
    using assms(2) by (auto simp: hin_http_state_def bind_eq_Some_conv)
  then show ?thesis using start_headers_ok [OF assms(1)] ok_frame frame_report by blast
next
  case False
  then show ?thesis using assms by (auto simp: hin_http_state_def intro: ok_frame frame_report)
qed

lemma start_ok:
  assumes "idle_ok w" "a \<notin> set (hc_idle w)" "http_connection_start ce a w = Some w'"
  shows "idle_ok w'"
proof -
  obtain k where k: "hc_conns w a = Some k"
    using assms(3) by (auto simp: http_connection_start_def bind_eq_Some_conv)
  show ?thesis
  proof (cases "0 \<le> k_fd k")
    case True
    then obtain r d w1 n where "hin_http_state ce a Connected (Code 0) w = Some (r, d, w1)"
      "conn_lines_request ce a w1 = Some (n, w')"
      using assms(3) k by (auto simp: http_connection_start_def bind_eq_Some_conv)
    then show ?thesis using state_ok [OF assms(1)] ok_frame frame_lines_request by blast
  next
    case False
    have "idle_ok (set_conn a (k\<lparr>k_fd := -1\<rparr>) w)"
      using assms(1,2) k by (intro ok_set) (auto simp: idle_ok_def)
    moreover have "idle_ok (v\<lparr>hc_num := n\<rparr>)" if "idle_ok v" for v n using that by (simp add: idle_ok_def)
    ultimately show ?thesis
      using assms(3) k False ok_log by (auto simp: http_connection_start_def Let_def split: if_splits)
  qed
qed

lemma unlink_wrap_ok:
  assumes "idle_ok w" "a \<notin> set (hc_idle w)" "http_client_unlink_wrap a w = Some w'"
  shows "idle_ok w'"
proof -
  obtain k f where k: "hc_conns w a = Some k"
    "http_client_unlink a (set_conn a (k\<lparr>k_io := setf (k_io k) HIN_REQ_END, k_flags := clrf (k_flags k) HIN_HTTP_KEEPALIVE\<rparr>) w) = Some (f, w')"
    using assms(3) by (auto simp: http_client_unlink_wrap_def upd_conn_def bind_eq_Some_conv)
  have "idle_ok (set_conn a (k\<lparr>k_io := setf (k_io k) HIN_REQ_END, k_flags := clrf (k_flags k) HIN_HTTP_KEEPALIVE\<rparr>) w)"
    using assms(1,2) k(1) by (intro ok_set) (auto simp: idle_ok_def)
  then show ?thesis using unlink_ok k(2) by blast
qed

lemma frame_idle: "frame a w w' \<Longrightarrow> hc_idle w' = hc_idle w"
  by (simp add: frame_def)

lemma fail_ok:
  assumes "idle_ok w" "a \<notin> set (hc_idle w)" "st \<noteq> Connected"
    "Option.bind (hin_http_state ce a st d w) (\<lambda>(_, _, w). http_client_unlink_wrap a w) = Some w'"
  shows "idle_ok w'"
proof -
  obtain r d' w1 where r: "report_state ce a st d w = Some (r, d', w1)" "http_client_unlink_wrap a w1 = Some w'"
    using assms(3,4) by (auto simp: hin_http_state_def bind_eq_Some_conv)
  have "idle_ok w1" "a \<notin> set (hc_idle w1)"
    using ok_frame [OF assms(1) frame_report [OF r(1)]] frame_idle [OF frame_report [OF r(1)]] assms(2) by simp_all
  then show ?thesis using unlink_wrap_ok r(2) by blast
qed

lemma connected_ok:
  assumes "idle_ok w" "hc_conns w a = Some k" "k_fd k < 0" "connected ce ret a w = Some w'"
  shows "idle_ok w'"
proof -
  let ?w = "set_conn a (k\<lparr>k_fd := ret\<rparr>) w"
  have na: "a \<notin> set (hc_idle w)" using ok_idle_set [OF assms(1), of a] assms(2,3) by auto
  have ok: "idle_ok ?w" using assms(1,2) na by (intro ok_set) (auto simp: idle_ok_def)
  have na': "a \<notin> set (hc_idle ?w)" using na by (simp add: set_conn_def)
  have k': "hc_conns ?w a = Some (k\<lparr>k_fd := ret\<rparr>)" by (simp add: set_conn_def)
  have up: "upd_conn a (\<lambda>k. k\<lparr>k_fd := ret\<rparr>) w = Some ?w" using assms(2) by (simp add: upd_conn_def)
  show ?thesis
  proof (cases "ret < 0 \<or> https (k_uri k) \<noteq> 0 \<and> \<not> ce_ssl_ok ce")
    case True
    then have "\<exists>st d. st \<noteq> Connected \<and>
        Option.bind (hin_http_state ce a st d ?w) (\<lambda>(_, _, w). http_client_unlink_wrap a w) = Some w'"
      using assms(4) by (auto simp: connected_def up k' Let_def split: if_splits)
    then show ?thesis using fail_ok [OF ok na'] by blast
  next
    case False
    define j where "j = (let k = k\<lparr>k_fd := ret\<rparr>;
        k = (if https (k_uri k) \<noteq> 0 then k\<lparr>k_ssl := True, k_cflags := setf (k_cflags k) HIN_SSL\<rparr> else k)
      in if k_buf k = None then k\<lparr>k_buf := Some (hin_lines_create_raw READ_SZ)\<rparr> else k)"
    have "core j = core (k\<lparr>k_fd := ret\<rparr>)" by (simp add: j_def Let_def)
    then have okj: "idle_ok (set_conn a j ?w)" using ok_frame [OF ok] frame_set [OF k'] by blast
    have c: "\<not> ret < 0" "\<not> (https (k_uri (k\<lparr>k_fd := ret\<rparr>)) \<noteq> 0 \<and> \<not> ce_ssl_ok ce)" using False by auto
    have "Option.bind (conn_lines_request ce a (set_conn a j ?w)) (\<lambda>(r, w).
        if r \<noteq> 0 then Some w else map_option (\<lambda>(_, _, w). w) (hin_http_state ce a Connected (Code 0) w)) = Some w'"
      using assms(4) unfolding connected_def up Option.bind.bind_lunit Let_def if_not_P [OF c(1)] k' if_not_P [OF c(2)] j_def .
    then obtain n w1 where l: "conn_lines_request ce a (set_conn a j ?w) = Some (n, w1)"
      "(if n \<noteq> 0 then Some w1 else map_option (\<lambda>(_, _, w). w) (hin_http_state ce a Connected (Code 0) w1)) = Some w'"
      by (auto simp: bind_eq_Some_conv)
    have "idle_ok w1" using ok_frame [OF okj frame_lines_request [OF l(1)]] .
    then show ?thesis using l(2) state_ok by (auto split: if_splits)
  qed
qed

lemma sent_ok:
  assumes "idle_ok w" "http_client_sent_callback ce ret a w = Some w'"
  shows "idle_ok w'"
proof -
  obtain w1 k where w1: "upd_conn a (\<lambda>k. k\<lparr>k_io := clrf (k_io k) HIN_REQ_HEADERS\<rparr>) w = Some w1" "hc_conns w1 a = Some k"
    "(if has (k_io k) HIN_REQ_STOPPING then http_client_shutdown a w1
      else if ret \<le> 0
      then Option.bind (hin_http_state ce a Headers_failed (Code ret) w1) (\<lambda>(_, _, w). http_client_shutdown a w)
      else Some w1) = Some w'"
    using assms(2) by (auto simp: http_client_sent_callback_def bind_eq_Some_conv)
  have ok: "idle_ok w1" using ok_frame [OF assms(1) frame_upd [OF w1(1)]] by simp
  show ?thesis
    using w1(3) ok shutdown_ok [OF ok] shutdown_ok [OF state_ok [OF ok]] by (auto simp: bind_eq_Some_conv split: if_splits)
qed

lemma finish_ok:
  assumes "idle_ok w" "hc_conns w a = Some k" "0 \<le> k_fd k" "\<not> has (k_io k) HIN_REQ_STOPPING" "\<not> has (k_io k) HIN_REQ_END"
    "http_client_finish_request ce a w = Some w'"
  shows "idle_ok w'"
proof (cases "w' = w")
  case False
  then obtain r d w1 where r: "report_state ce a Finish (Code 0) w = Some (r, d, w1)" "http_connection_release ce a w1 = Some w'"
    using assms(2,6) by (auto simp: http_client_finish_request_def hin_http_state_def bind_eq_Some_conv split: if_splits)
  obtain k1 where "hc_conns w1 a = Some k1" "core k1 = core k"
    using frame_conn(2) [OF frame_report [OF r(1)] assms(2)] by blast
  then show ?thesis
    using release_ok [OF ok_frame [OF assms(1) frame_report [OF r(1)]] _ _ _ _ r(2), of k1] assms(3-5)
    by (simp add: core_eq)
qed (use assms(1) in simp)

lemma closed_ok:
  assumes "idle_ok w" "Close_conn a \<in> set (hc_log w)" "http_client_close_callback ret a w = Some (r, w')"
  shows "idle_ok w'"
proof (cases "ret < 0")
  case False
  then obtain k f where k: "hc_conns w a = Some k"
    "http_client_unlink a (set_conn a (k\<lparr>k_io := setf (k_io k) HIN_REQ_END\<rparr>) w) = Some (f, w')"
    using assms(3) by (auto simp: http_client_close_callback_def upd_conn_def bind_eq_Some_conv)
  have st: "has (k_io k) HIN_REQ_STOPPING" using assms(1,2) k(1) by (auto simp: idle_ok_def)
  then have "a \<notin> set (hc_idle w)" using ok_idle_set [OF assms(1), of a] k(1) by auto
  then have "idle_ok (set_conn a (k\<lparr>k_io := setf (k_io k) HIN_REQ_END\<rparr>) w)"
    using assms(1) k(1) st by (intro ok_set) (auto simp: idle_ok_def)
  then show ?thesis using unlink_ok k(2) by blast
qed (use assms in \<open>simp add: http_client_close_callback_def\<close>)

lemma restart_ok:
  assumes "idle_ok w" "fresh b w" "http_client_restart ce b a parent w = Some w'"
  shows "idle_ok w'"
proof (cases parent)
  case (Some c)
  then obtain k n w1 w2 w3 where w: "hc_conns w a = Some k"
    "http_connection_get b (c_str (sptr (all (k_uri k)))) w = Some (Some n, w1)"
    "upd_conn n (\<lambda>j. j\<lparr>k_flags := setf (k_flags j) HIN_HTTP_KEEPALIVE, k_parent := Some c, k_cb := k_cb k\<rparr>) w1 = Some w2"
    "http_connection_start ce n w2 = Some w3"
    "upd_conn a (\<lambda>k. k\<lparr>k_parent := None, k_cb := No_callback\<rparr>) w3 = Some w'"
    using assms(3) by (auto simp: http_client_restart_def bind_eq_Some_conv split: if_splits)
  have 1: "idle_ok w1" "n \<notin> set (hc_idle w1)" using get_ok [OF assms(1,2) w(2)] by auto
  have f: "frame n w1 w2" using frame_upd [OF w(3)] by simp
  have "idle_ok w2" "n \<notin> set (hc_idle w2)" using ok_frame [OF 1(1) f] frame_idle [OF f] 1(2) by auto
  then have "idle_ok w3" using start_ok w(4) by blast
  then show ?thesis using ok_frame frame_upd [OF w(5)] by simp
qed (use assms in \<open>simp add: http_client_restart_def\<close>)

lemma close_callback_ok:
  assumes "idle_ok w" "fresh b w" "http_client_headers_close_callback ce b a w = Some w'"
  shows "idle_ok w'"
proof -
  obtain k where k: "hc_conns w a = Some k"
    using assms(3) by (auto simp: http_client_headers_close_callback_def bind_eq_Some_conv)
  obtain w1 where "w1 = w \<or> http_client_restart ce b a (k_parent k) w = Some w1" "http_client_shutdown a w1 = Some w'"
    using assms(3) k by (auto simp: http_client_headers_close_callback_def bind_eq_Some_conv split: if_splits)
  then show ?thesis using restart_ok [OF assms(1,2)] shutdown_ok assms(1) by blast
qed

lemma fresh_frame: "fresh b w \<Longrightarrow> frame a w w' \<Longrightarrow> fresh b w'"
  using frame_logged [of a w w' b] by (cases "b = a") (auto simp: fresh_def frame_def)

lemma read_ok:
  assumes "idle_ok w" "fresh b w" "client_read ce penv b a data w = Some w'"
  shows "idle_ok w'"
proof (cases data)
  case None
  then obtain w1 where w1: "upd_conn a (\<lambda>k. k\<lparr>k_buf := map_option (\<lambda>l. l\<lparr>lb_active := False\<rparr>) (k_buf k)\<rparr>) w = Some w1"
    "http_client_headers_close_callback ce b a w1 = Some w'"
    using assms(3) by (auto simp: client_read_def bind_eq_Some_conv)
  have f: "frame a w w1" using frame_upd [OF w1(1)] by simp
  show ?thesis using close_callback_ok [OF ok_frame [OF assms(1) f] fresh_frame [OF assms(2) f] w1(2)] .
next
  case (Some d)
  then obtain w1 w2 num where w1: "upd_conn a (\<lambda>k. k\<lparr>k_buf := map_option (\<lambda>l.
              (kernel_read d l)\<lparr>lb_req := 0, lb_count := lb_count l + int (length d)\<rparr>) (k_buf k)\<rparr>) w = Some w1"
    "http_client_headers_read_callback ce penv a w1 = Some (num, w2)"
    "(if num > 0
      then Option.bind (hc_conns w2 a) (\<lambda>k. Option.bind (k_buf k) (\<lambda>l.
             map_option (\<lambda>(_, l). set_conn a (k\<lparr>k_buf := Some l\<rparr>) w2) (hin_buffer_eat num l)))
      else if num = 0 then map_option snd (conn_lines_request ce a w2)
      else http_client_headers_close_callback ce b a w2) = Some w'"
    using assms(3) by (auto simp: client_read_def bind_eq_Some_conv)
  have "frame a w w1" using frame_upd [OF w1(1)] by simp
  then have f: "frame a w w2" using frame_read_callback [OF w1(2)] frame_trans by blast
  note ok = ok_frame [OF assms(1) f] fresh_frame [OF assms(2) f]
  consider "num > 0" | "num = 0" | "num < 0" by linarith
  then show ?thesis
  proof cases
    case 1
    then obtain k l n l' where k: "hc_conns w2 a = Some k" "w' = set_conn a (k\<lparr>k_buf := Some l'\<rparr>) w2"
      using w1(3) by (auto simp: bind_eq_Some_conv)
    then show ?thesis using ok_frame [OF ok(1) frame_set [OF k(1)]] by simp
  next
    case 2
    then show ?thesis using w1(3) by (auto intro: ok_frame [OF ok(1)] frame_lines_request)
  next
    case 3
    then show ?thesis using w1(3) close_callback_ok [OF ok] by auto
  qed
qed

lemma begin_ok:
  assumes "idle_ok w" "fresh b w" "http_connection_get b url w = Some (Some a, w1)" "\<And>k. core (f k) = core k"
    "upd_conn a f w1 = Some w2" "http_connection_start ce a w2 = Some w'"
  shows "idle_ok w'"
proof -
  have 1: "idle_ok w1" "a \<notin> set (hc_idle w1)" using get_ok [OF assms(1-3)] by auto
  have fr: "frame a w1 w2" using frame_upd [OF assms(5)] assms(4) by simp
  show ?thesis using start_ok [OF ok_frame [OF 1(1) fr] _ assms(6)] frame_idle [OF fr] 1(2) by simp
qed

lemma proxy_ok:
  assumes "idle_ok w" "fresh b w" "hin_proxy ce b c None url w = Some (r, w')"
  shows "idle_ok w'"
proof (cases "has (h_state (peer c w)) HIN_REQ_DATA")
  case False
  let ?h = "(peer c w)\<lparr>h_state := setf (h_state (peer c w)) (HIN_REQ_DATA OR HIN_REQ_PROXY)\<rparr>"
  obtain n s where s: "hin_cache_check (ce_http ce) c (hc_store (set_peer c ?h w)) = Some (n, s)"
    using assms(3) False by (auto simp: hin_proxy_def Let_def bind_eq_Some_conv)
  let ?w = "(set_peer c ?h w)\<lparr>hc_store := s\<rparr>"
  have ok: "idle_ok ?w" "fresh b ?w" using assms(1,2) by (simp_all add: idle_ok_def fresh_def set_peer_def)
  show ?thesis
  proof (cases "n > 0")
    case True
    then show ?thesis using assms(3) False s ok by (auto simp: hin_proxy_def Let_def)
  next
    case nf: False
    then obtain a w1 w2 where a: "http_connection_get b url ?w = Some (Some a, w1)"
      "upd_conn a (\<lambda>k. k\<lparr>k_flags := setf (k_flags k) HIN_HTTP_KEEPALIVE,
                          k_parent := Some c, k_method := h_method (peer c w1), k_cb := Proxy\<rparr>) w1 = Some w2"
      "http_connection_start ce a w2 = Some w'"
      using assms(3) False s by (auto simp: hin_proxy_def Let_def bind_eq_Some_conv)
    show ?thesis by (rule begin_ok [OF ok a(1) _ a(2,3)]) simp
  qed
qed (use assms in \<open>simp add: hin_proxy_def\<close>)

lemma download_ok:
  assumes "idle_ok w" "fresh b w" "http_download_raw ce b None url w = Some (r, w')"
  shows "idle_ok w'"
proof -
  obtain a w1 w2 where a: "http_connection_get b url w = Some (Some a, w1)"
    "upd_conn a (\<lambda>k. k\<lparr>k_cb := Download\<rparr>) w1 = Some w2" "http_connection_start ce a w2 = Some w'"
    using assms(3) by (auto simp: http_download_raw_def bind_eq_Some_conv)
  show ?thesis by (rule begin_ok [OF assms(1,2) a(1) _ a(2,3)]) simp
qed

subsection \<open>Every order of the events\<close>

text \<open>
  What can happen: a request is proxied or a URL downloaded, a connect, a write, a read or a close
  completes, the pipe of a response or of a request body ends, the idle connections are closed.  A
  connect completes on a connection that has no socket, a close where one was requested, and a
  response ends on a connection that is open and not being closed.
\<close>

inductive client_step :: "hclient \<Rightarrow> hclient \<Rightarrow> bool" where
  step_proxy: "hin_proxy ce b c None url w = Some (r, w') \<Longrightarrow> fresh b w \<Longrightarrow> client_step w w'"
| step_download: "http_download_raw ce b None url w = Some (r, w') \<Longrightarrow> fresh b w \<Longrightarrow> client_step w w'"
| step_connected: "connected ce ret a w = Some w' \<Longrightarrow> hc_conns w a = Some k \<Longrightarrow> k_fd k < 0 \<Longrightarrow> client_step w w'"
| step_sent: "http_client_sent_callback ce ret a w = Some w' \<Longrightarrow> client_step w w'"
| step_read: "client_read ce penv b a data w = Some w' \<Longrightarrow> fresh b w \<Longrightarrow> client_step w w'"
| step_done: "hin_http_pipe_finish_callback ce a w = Some w' \<Longrightarrow> hc_conns w a = Some k \<Longrightarrow> 0 \<le> k_fd k \<Longrightarrow>
    \<not> has (k_io k) HIN_REQ_STOPPING \<Longrightarrow> \<not> has (k_io k) HIN_REQ_END \<Longrightarrow> client_step w w'"
| step_posted: "hin_rproxy_post_done_callback ce a w = Some w' \<Longrightarrow> hc_conns w a = Some k \<Longrightarrow> 0 \<le> k_fd k \<Longrightarrow>
    \<not> has (k_io k) HIN_REQ_STOPPING \<Longrightarrow> \<not> has (k_io k) HIN_REQ_END \<Longrightarrow> client_step w w'"
| step_closed: "http_client_close_callback ret a w = Some (r, w') \<Longrightarrow> Close_conn a \<in> set (hc_log w) \<Longrightarrow> client_step w w'"
| step_close_idle: "http_connection_close_idle w = Some w' \<Longrightarrow> client_step w w'"

lemma done_ok:
  assumes "idle_ok w" "upd_conn a f w = Some w1" "\<And>k. core (f k) = core k" "http_client_finish_request ce a w1 = Some w'"
    "hc_conns w a = Some k" "0 \<le> k_fd k" "\<not> has (k_io k) HIN_REQ_STOPPING" "\<not> has (k_io k) HIN_REQ_END"
  shows "idle_ok w'"
proof -
  have fr: "frame a w w1" using frame_upd [OF assms(2)] assms(3) by simp
  obtain k1 where "hc_conns w1 a = Some k1" "core k1 = core k" using frame_conn(2) [OF fr assms(5)] by blast
  then show ?thesis using finish_ok [OF ok_frame [OF assms(1) fr] _ _ _ _ assms(4), of k1] assms(6-8) by (simp add: core_eq)
qed

lemma step_ok: "client_step w w' \<Longrightarrow> idle_ok w \<Longrightarrow> idle_ok w'"
proof (induction rule: client_step.induct)
  case (step_done ce a w w' k)
  then obtain w1 where "upd_conn a (\<lambda>k. k\<lparr>k_io := clrf (k_io k) HIN_REQ_DATA\<rparr>) w = Some w1"
    "http_client_finish_request ce a w1 = Some w'"
    by (auto simp: hin_http_pipe_finish_callback_def bind_eq_Some_conv)
  then show ?case using done_ok [OF step_done(6), of a _ w1 ce w' k] step_done(2-5) by auto
next
  case (step_posted ce a w w' k)
  then obtain w1 where "upd_conn a (\<lambda>k. k\<lparr>k_io := clrf (k_io k) HIN_REQ_POST\<rparr>) w = Some w1"
    "http_client_finish_request ce a w1 = Some w'"
    by (auto simp: hin_rproxy_post_done_callback_def bind_eq_Some_conv)
  then show ?case using done_ok [OF step_posted(6), of a _ w1 ce w' k] step_posted(2-5) by auto
next
  case (step_close_idle w w')
  then show ?case using close_list_ok by (auto simp: http_connection_close_idle_def)
qed (auto intro: proxy_ok download_ok connected_ok sent_ok read_ok closed_ok)

lemma steps_ok: "client_step\<^sup>*\<^sup>* w w' \<Longrightarrow> idle_ok w \<Longrightarrow> idle_ok w'"
  by (induction rule: rtranclp_induct) (auto intro: step_ok)


definition env1_client :: client_env where
  "env1_client = \<lparr>ce_http = env0, ce_open = (\<lambda>_. 9), ce_read_ok = True, ce_write_ok = True, ce_ssl_ok = True,
     ce_resolve_ok = True\<rparr>"

definition no_conns :: "cache \<Rightarrow> hclient" where
  "no_conns s = \<lparr>hc_conns = Map.empty, hc_idle = [], hc_num = 0, hc_store = s, hc_log = []\<rparr>"

lemma parse_ab: "hin_parse_uri ''http://a/b'' 0 = (10, uri0\<lparr>scheme := \<lparr>sptr = ''http://a/b'', slen = 4\<rparr>,
    host := \<lparr>sptr = ''a/b'', slen = 1\<rparr>, path := \<lparr>sptr = ''/b'', slen = 2\<rparr>,
    all := \<lparr>sptr = ''http://a/b'', slen = 10\<rparr>\<rparr>)"
  by code_simp


subsection \<open>What goes wrong\<close>

text \<open>
  A URL without a port never gets an idle connection: its empty port is compared with the
  default port the connection was stored with.
\<close>

lemma default_port_not_reused:
  assumes "idle_ok w" "hin_parse_uri url 0 = (r, info)" "0 \<le> r" "slen (port info) = 0"
    "\<forall>a\<in>set (hc_idle w). \<forall>k. hc_conns w a = Some k \<longrightarrow> (\<exists>c p. k_port k = Some (c # p) \<and> c \<noteq> NUL)"
  shows "http_connection_get b url w = Some (Some b, set_conn b (new_conn info) w)"
proof -
  have "\<not> reusable info w a" if a: "a \<in> set (hc_idle w)" for a
  proof -
    obtain k where k: "hc_conns w a = Some k" using ok_idle_set [OF assms(1) a] by blast
    then obtain c p where "k_port k = Some (c # p)" "c \<noteq> NUL" using assms(5) a by blast
    then show ?thesis using k assms(4) by (auto simp: reusable_def conn_matches_def str_of_def bind_eq_Some_conv split: if_splits)
  qed
  then have "List.find (reusable info w) (hc_idle w) = None" by (auto simp: find_None_iff)
  then show ?thesis using get_result [OF assms(1-3), of b] by simp
qed

definition conn_ab :: hconn where
  "conn_ab = (new_conn (snd (hin_parse_uri ''http://a/b'' 0)))\<lparr>k_fd := 8, k_buf := Some (hin_lines_create_raw READ_SZ)\<rparr>"

lemma conn_ab_simps [simp]:
  "k_fd conn_ab = 8" "k_host conn_ab = Some ''a''" "k_port conn_ab = Some ''80''" "k_io conn_ab = 0" "k_flags conn_ab = 0"
  "k_buf conn_ab = Some (hin_lines_create_raw READ_SZ)" "k_cflags conn_ab = 0" "k_sz conn_ab = 0" "k_save_fd conn_ab = 0"
  "k_uri conn_ab = snd (hin_parse_uri ''http://a/b'' 0)"
  by (simp_all add: conn_ab_def new_conn_def parse_ab str_of_def uri0_def null_str_def)

text \<open>
  C33: when a response ends on a connection that is being closed (after its request could not be
  written), the connection goes to the list of the idle ones and forgets that it is being closed;
  when the close and the read complete it is freed, and stays in the list, where the next lookup
  reads it.
\<close>

theorem stopping_connection_dangles:
  assumes "hc_conns w a = Some k" "hc_idle w = []" "k_parent k = Some c" "k_cb k = Proxy"
    "has (k_flags k) HIN_HTTP_KEEPALIVE" "\<not> has (k_cflags k) HIN_SSL" "k_buf k = Some l" "\<not> lb_active l"
    "has (k_io k) HIN_REQ_STOPPING" "\<not> has (k_io k) HIN_REQ_POST" "\<not> has (k_io k) HIN_REQ_HEADERS" "ce_read_ok ce"
    "hin_parse_uri url 0 = (r, info)" "0 \<le> r"
  shows "\<exists>w1 w2 w3. hin_http_pipe_finish_callback ce a w = Some w1 \<and>
     http_client_close_callback 0 a w1 = Some (0, w2) \<and> client_read ce penv b a None w2 = Some w3 \<and>
     hc_idle w3 = [a] \<and> hc_conns w3 a = None \<and> http_connection_get b' url w3 = None"
proof -
  let ?D = "\<lambda>k. k\<lparr>k_io := clrf (k_io k) HIN_REQ_DATA\<rparr>"
  have io: "k_io (?D k) AND HIN_REQ_HEADERS = 0"
  proof -
    have "k_io (?D k) AND HIN_REQ_HEADERS = (k_io k AND HIN_REQ_HEADERS) AND NOT HIN_REQ_DATA"
      by (simp add: clrf_def ac_simps)
    then show ?thesis using assms(11) by (simp add: has_def)
  qed
  have go: "\<not> has (k_io (?D k)) (HIN_REQ_DATA OR HIN_REQ_POST)"
    using assms(10) by simp
  obtain l1 where l1: "hin_lines_request True True 0 l = (0, l1)" "lb_active l1"
    using assms(8) by (simp add: hin_lines_request_def Let_def)
  obtain v where v: "hin_rproxy_finish (ce_http ce) a (set_conn a (?D k) w) = Some v"
    "hc_conns v a = Some ((?D k)\<lparr>k_save_fd := 0\<rparr>)" "hc_idle v = []"
    using assms(2,3) by (simp add: hin_rproxy_finish_def set_conn_def set_peer_def Let_def)
  let ?k1 = "k\<lparr>k_uri := (k_uri k)\<lparr>all := null_str\<rparr>, k_save_fd := 0, k_parent := None, k_flags := 0,
      k_method := 0, k_status := 0, k_sz := 0, k_count := 0, k_cache_flags := 0, k_cache := 0,
      k_ssl := False, k_buf := Some l1, k_io := HIN_REQ_IDLE\<rparr>"
  obtain w1 where rel: "http_connection_release ce a v = Some w1" "hc_conns w1 a = Some ?k1" "hc_idle w1 = [a]"
    using v(2,3) assms(5-7,12) l1(1) io
    by (simp add: http_connection_release_def http_client_clean_def upd_conn_def set_conn_def log_client_def
        conn_lines_request_def setf_def)
  have w1: "hin_http_pipe_finish_callback ce a w = Some w1"
    using assms(1,4) go rel(1) v(1)
    by (simp add: hin_http_pipe_finish_callback_def upd_conn_def http_client_finish_request_def hin_http_state_def
        report_state_def hin_rproxy_state_callback_def set_conn_def)
  have e: "has (setf HIN_REQ_IDLE HIN_REQ_END) HIN_REQ_END" "\<not> has (setf HIN_REQ_IDLE HIN_REQ_END) (HIN_REQ_HEADERS OR HIN_REQ_POST)"
    "\<not> has (setf HIN_REQ_IDLE HIN_REQ_END) (HIN_REQ_HEADERS OR HIN_REQ_DATA)"
    by (simp_all) (simp_all add: has_def flag_defs)
  let ?k2 = "?k1\<lparr>k_io := setf HIN_REQ_IDLE HIN_REQ_END\<rparr>"
  let ?w2 = "set_conn a ?k2 w1"
  have w2: "http_client_close_callback 0 a w1 = Some (0, ?w2)"
    using rel(2) e(1,2) l1(2) by (simp add: http_client_close_callback_def upd_conn_def http_client_unlink_def set_conn_def)
  let ?l2 = "l1\<lparr>lb_active := False\<rparr>"
  let ?w3 = "set_conn a (?k2\<lparr>k_buf := Some ?l2\<rparr>) ?w2"
  have up: "upd_conn a (\<lambda>k. k\<lparr>k_buf := map_option (\<lambda>l. l\<lparr>lb_active := False\<rparr>) (k_buf k)\<rparr>) ?w2 = Some ?w3"
    by (simp add: upd_conn_def set_conn_def)
  obtain w3 where u3: "http_client_unlink a ?w3 = Some (True, w3)" "hc_conns w3 a = None" "hc_idle w3 = [a]"
    using e(1,2) assms(6) rel(3)
    by (simp add: http_client_unlink_def set_conn_def http_client_clean_def log_client_def)
  have "client_read ce penv b a None ?w2 = Some w3"
    using u3(1) e(3) unfolding client_read_def option.case up Option.bind.bind_lunit
    by (simp add: http_client_headers_close_callback_def http_client_shutdown_def set_conn_def)
  moreover have "http_connection_get b' url w3 = None"
    using u3(2,3) assms(13,14) by (simp add: http_connection_get_def)
  ultimately show ?thesis using w1 w2 u3(2,3) by blast
qed

theorem stopping_connection_dangles_witness:
  "\<exists>s w1 w2 w3. hin_http_pipe_finish_callback env1_client 64 ((no_conns s)\<lparr>hc_conns := [64 \<mapsto>
       conn_ab\<lparr>k_io := HIN_REQ_DATA OR HIN_REQ_STOPPING, k_flags := HIN_HTTP_KEEPALIVE, k_parent := Some 3, k_cb := Proxy\<rparr>]\<rparr>) = Some w1 \<and>
     http_client_close_callback 0 64 w1 = Some (0, w2) \<and>
     client_read env1_client (\<lambda>_. plain_env) 65 64 None w2 = Some w3 \<and>
     hc_idle w3 = [64] \<and> http_connection_get 66 ''http://a/b'' w3 = None"
proof -
  let ?k = "conn_ab\<lparr>k_io := HIN_REQ_DATA OR HIN_REQ_STOPPING, k_flags := HIN_HTTP_KEEPALIVE, k_parent := Some 3, k_cb := Proxy\<rparr>"
  obtain s where "hin_cache_create 7 \<lparr>tlist = [], ttime = (\<lambda>_. 0)\<rparr> (\<lambda>_. httpd0) = Some s"
    using create_succeeds by blast
  let ?w = "(no_conns s)\<lparr>hc_conns := [64 \<mapsto> ?k]\<rparr>"
  have k: "hc_conns ?w 64 = Some ?k" "hc_idle ?w = []" "k_parent ?k = Some 3" "k_cb ?k = Proxy"
    "has (k_flags ?k) HIN_HTTP_KEEPALIVE" "\<not> has (k_cflags ?k) HIN_SSL" "k_buf ?k = Some (hin_lines_create_raw READ_SZ)"
    "\<not> lb_active (hin_lines_create_raw READ_SZ)" "has (k_io ?k) HIN_REQ_STOPPING" "\<not> has (k_io ?k) HIN_REQ_POST"
    "\<not> has (k_io ?k) HIN_REQ_HEADERS" "ce_read_ok env1_client" "hin_parse_uri ''http://a/b'' 0 = (10, snd (hin_parse_uri ''http://a/b'' 0))"
    "0 \<le> (10::int)"
    by (simp_all add: no_conns_def hin_lines_create_raw_def env1_client_def parse_ab) (simp_all add: has_def flag_defs)
  from stopping_connection_dangles [OF k, where penv = "\<lambda>_. plain_env" and b = 65 and b' = 66] show ?thesis by blast
qed

lemma shutdown_open:
  assumes "hc_conns w a = Some k" "\<not> has (k_io k) HIN_REQ_END"
  shows "\<exists>w'. http_client_shutdown a w = Some w' \<and> (\<forall>b. b \<noteq> a \<longrightarrow> hc_conns w' b = hc_conns w b) \<and>
     hc_store w' = hc_store w \<and> set (hc_log w) \<subseteq> set (hc_log w')"
  using assms
  by (cases "has (k_io k) HIN_REQ_STOPPING"; cases "has (k_io k) HIN_REQ_IDLE")
     (auto simp: http_client_shutdown_def http_client_unlink_def set_conn_def log_client_def)

text \<open>
  C34: a response whose first line is not understood (one with an empty reason phrase is enough) is
  not reported to the client of the proxy: the request is sent again, on another connection, with
  the method of a fresh connection, which is printed as GET.  The same response has the same effect
  again, without bound.
\<close>

theorem bad_response_retried:
  assumes "hc_conns w a = Some k" "k_buf k = Some l" "k_parent k = Some c" "hc_idle w = []"
    "has (k_io k) HIN_REQ_DATA" "\<not> has (k_io k) HIN_REQ_IDLE" "\<not> has (k_io k) HIN_REQ_END" "a \<noteq> b"
    "l' = (kernel_read d l)\<lparr>lb_req := 0, lb_count := lb_count l + int (length d)\<rparr>"
    "client_complete (mk_str (lines_text l')) = Some True"
    "hin_find_line (mk_str (lines_text l')) = Some (u, source, line)"
    "match_string line ''HTTP/1.%d ([%d]+) %w+'' = (n, v, caps)" "n \<le> 0"
    "all (k_uri k) \<noteq> null_str" "hin_parse_uri (c_str (sptr (all (k_uri k)))) 0 = (r, info)" "0 \<le> r"
    "ce_resolve_ok ce"
  shows "\<exists>w' j. client_read ce penv b a (Some d) w = Some w' \<and> hc_conns w' b = Some j \<and> k_parent j = Some c \<and>
     k_method j = 0 \<and> k_cb j = k_cb k \<and> k_uri j = info \<and> Connect b \<in> set (hc_log w') \<and> peer c w' = peer c w"
proof -
  let ?k = "k\<lparr>k_buf := Some l'\<rparr>" and ?w = "set_conn a (k\<lparr>k_buf := Some l'\<rparr>) w"
  let ?j = "(new_conn info)\<lparr>k_flags := setf 0 HIN_HTTP_KEEPALIVE, k_parent := Some c, k_cb := k_cb k\<rparr>"
  have up: "upd_conn a (\<lambda>k. k\<lparr>k_buf := map_option (\<lambda>l.
              (kernel_read d l)\<lparr>lb_req := 0, lb_count := lb_count l + int (length d)\<rparr>) (k_buf k)\<rparr>) w = Some ?w"
    using assms(1,2,9) by (simp add: upd_conn_def)
  have wa: "hc_conns ?w a = Some ?k" "hc_idle ?w = []" using assms(4) by (simp_all add: set_conn_def)
  have cb: "http_client_headers_read_callback ce penv a ?w = Some (-1, ?w)"
    using assms(6,10-13) wa(1) by (simp add: http_client_headers_read_callback_def Let_def)
  have get: "http_connection_get b (c_str (sptr (all (k_uri ?k)))) ?w = Some (Some b, set_conn b (new_conn info) ?w)"
    using assms(15,16) wa(2) by (simp add: http_connection_get_def)
  let ?w3 = "log_client [Connect b] ((set_conn b ?j ?w)\<lparr>hc_num := hc_num w + 1\<rparr>)"
  have j: "?j\<lparr>k_fd := -1\<rparr> = ?j" by (simp add: new_conn_def)
  have start: "http_connection_start ce b (set_conn b ?j (set_conn b (new_conn info) ?w)) = Some ?w3"
    using assms(17) by (simp add: http_connection_start_def set_conn_def log_client_def new_conn_def)
  have upj: "upd_conn b (\<lambda>j. j\<lparr>k_flags := setf (k_flags j) HIN_HTTP_KEEPALIVE, k_parent := Some c, k_cb := k_cb ?k\<rparr>)
      (set_conn b (new_conn info) ?w) = Some (set_conn b ?j (set_conn b (new_conn info) ?w))"
    by (simp add: upd_conn_def set_conn_def new_conn_def)
  let ?w4 = "set_conn a (?k\<lparr>k_parent := None, k_cb := No_callback\<rparr>) ?w3"
  have upa: "upd_conn a (\<lambda>k. k\<lparr>k_parent := None, k_cb := No_callback\<rparr>) ?w3 = Some ?w4"
    using assms(8) by (simp add: upd_conn_def set_conn_def log_client_def)
  have restart: "http_client_restart ce b a (k_parent ?k) ?w = Some ?w4"
    using assms(3,14) by (simp add: http_client_restart_def wa(1) get [simplified] upj [simplified] start upa)
  have w4: "hc_conns ?w4 a = Some (?k\<lparr>k_parent := None, k_cb := No_callback\<rparr>)" "hc_store ?w4 = hc_store w"
    "Connect b \<in> set (hc_log ?w4)" "hc_conns ?w4 b = Some ?j"
    using assms(8) by (simp_all add: set_conn_def log_client_def)
  obtain w' where w': "http_client_shutdown a ?w4 = Some w'" "hc_conns w' b = hc_conns ?w4 b" "hc_store w' = hc_store w"
    "Connect b \<in> set (hc_log w')"
    using shutdown_open [OF w4(1)] assms(7,8) w4(2,3) by auto
  have "has (k_io ?k) (HIN_REQ_HEADERS OR HIN_REQ_DATA) \<and> \<not> has (k_io ?k) HIN_REQ_IDLE" using assms(5,6) by simp
  then have "http_client_headers_close_callback ce b a ?w = Some w'"
    using restart w'(1) wa(1) by (simp add: http_client_headers_close_callback_def)
  then have "client_read ce penv b a (Some d) w = Some w'"
    by (simp add: client_read_def up cb)
  moreover have "hc_conns w' b = Some ?j" using w'(2) w4(4) by simp
  moreover have "peer c w' = peer c w" using w'(3) by (simp add: peer_def)
  ultimately show ?thesis using w'(4) by (intro exI [of _ w'] exI [of _ ?j]) (simp add: new_conn_def)
qed

definition short_head :: string where
  "short_head = ''HTTP/1.1 200'' @ CRLF @ CRLF"

lemma short_head_lines:
  "lines_text ((kernel_read short_head (hin_lines_create_raw 16))\<lparr>lb_req := 0, lb_count := 16\<rparr>) = short_head"
  "client_complete (mk_str short_head) = Some True"
  "hin_find_line (mk_str short_head) = Some (1, \<lparr>sptr = CRLF, slen = 2\<rparr>, \<lparr>sptr = short_head, slen = 12\<rparr>)"
  "fst (match_string \<lparr>sptr = short_head, slen = 12\<rparr> ''HTTP/1.%d ([%d]+) %w+'') = -1"
  by code_simp+

theorem bad_response_retried_witness:
  "\<exists>s w' j. client_read env1_client (\<lambda>_. plain_env) 65 64 (Some short_head) ((no_conns s)\<lparr>hc_conns := [64 \<mapsto>
       conn_ab\<lparr>k_io := HIN_REQ_DATA, k_method := HIN_METHOD_POST, k_parent := Some 3, k_cb := Proxy,
               k_buf := Some (hin_lines_create_raw 16)\<rparr>]\<rparr>) = Some w' \<and>
     hc_conns w' 65 = Some j \<and> k_parent j = Some 3 \<and> k_method j = 0 \<and> Connect 65 \<in> set (hc_log w')"
proof -
  let ?l = "hin_lines_create_raw 16"
  let ?k = "conn_ab\<lparr>k_io := HIN_REQ_DATA, k_method := HIN_METHOD_POST, k_parent := Some 3, k_cb := Proxy, k_buf := Some ?l\<rparr>"
  obtain s where "hin_cache_create 7 \<lparr>tlist = [], ttime = (\<lambda>_. 0)\<rparr> (\<lambda>_. httpd0) = Some s"
    using create_succeeds by blast
  let ?w = "(no_conns s)\<lparr>hc_conns := [64 \<mapsto> ?k]\<rparr>"
  let ?l' = "(kernel_read short_head ?l)\<lparr>lb_req := 0, lb_count := lb_count ?l + int (length short_head)\<rparr>"
  have len: "lb_count ?l + int (length short_head) = 16" by (simp add: hin_lines_create_raw_def short_head_def)
  have lt: "lines_text ?l' = short_head" unfolding len by (rule short_head_lines(1))
  obtain v caps where m: "match_string \<lparr>sptr = short_head, slen = 12\<rparr> ''HTTP/1.%d ([%d]+) %w+'' = (-1, v, caps)"
    using short_head_lines(4) by (cases "match_string \<lparr>sptr = short_head, slen = 12\<rparr> ''HTTP/1.%d ([%d]+) %w+''") auto
  have url: "c_str (sptr (all (k_uri ?k))) = ''http://a/b''" by (simp add: parse_ab c_str_def)
  have k: "hc_conns ?w 64 = Some ?k" "k_buf ?k = Some ?l" "k_parent ?k = Some 3" "hc_idle ?w = []"
    "has (k_io ?k) HIN_REQ_DATA" "\<not> has (k_io ?k) HIN_REQ_IDLE" "\<not> has (k_io ?k) HIN_REQ_END" "(64::nat) \<noteq> 65"
    by (simp_all add: no_conns_def) (simp_all add: has_def flag_defs)
  have h: "client_complete (mk_str (lines_text ?l')) = Some True"
    "hin_find_line (mk_str (lines_text ?l')) = Some (1, \<lparr>sptr = CRLF, slen = 2\<rparr>, \<lparr>sptr = short_head, slen = 12\<rparr>)"
    unfolding lt by (rule short_head_lines)+
  have e: "all (k_uri ?k) \<noteq> null_str" "hin_parse_uri (c_str (sptr (all (k_uri ?k)))) 0 = (10, snd (hin_parse_uri ''http://a/b'' 0))"
    "(0::int) \<le> 10" "ce_resolve_ok env1_client"
    unfolding url by (simp_all add: parse_ab env1_client_def null_str_def)
  from bad_response_retried [OF k refl h m _ e(1-4), where penv = "\<lambda>_. plain_env"] show ?thesis by auto
qed

end
