(* ===== verification/HttpProxy.thy ===== *)
theory HttpProxy
  imports HttpClient
begin

text \<open>
  What the reverse proxy sends: the request it forwards to the other server (\<open>hin_rproxy_send\<close> in
  \<open>http_client_start_headers\<close>), and the head it puts before the response (\<open>hin_rproxy_headers\<close> in
  \<open>http_client_start_pipe\<close>).
\<close>

subsection \<open>The request\<close>

declare header_raw.simps [simp del]

lemma proxy_send_result:
  assumes "hc_conns w a = Some k" "k_parent k = Some c"
    "hin_find_line (h_headers (peer c w)) = Some (u, source, first)" "head_lines source = Some (ls, rest)"
    "lines_fit proxy_request_text ls" "chain_wf bufs" "slen rest \<le> length (sptr rest)"
  defines "sz \<equiv> foldl (\<lambda>sz l. proxy_post_size l sz) 0 ls"
  defines "body \<equiv> take (min (nat sz) (slen rest)) (sptr rest)"
  assumes "length (print_int sz) < 100" "length body \<le> HIN_HTTPD_MAX_HEADER_LINE_SIZE"
  shows "\<exists>bufs' w'. hin_rproxy_send a bufs w = Some (if sz > 0 then 1 else 0, bufs', w') \<and> chain_wf bufs' \<and>
     chain_text bufs' = chain_text bufs @ copied proxy_request_text ls @
       (if sz > 0 then ''Content-Length: '' @ print_int sz @ CRLF @ CRLF @ body else []) \<and>
     (if sz > 0 then \<exists>p. hc_log w' = hc_log w @ [Start_post a p] \<and> p_left (hp_pipe p) = sz - int (length body)
      else w' = w)"
proof -
  obtain b1 where b1: "copy_lines proxy_request_text proxy_post_size 0 source bufs = Some (True, sz, rest, b1)"
    "chain_wf b1" "chain_text b1 = chain_text bufs @ copied proxy_request_text ls"
    using copy_lines_result [OF assms(4,5,6), of proxy_post_size 0] unfolding sz_def by (elim exE conjE)
  show ?thesis
  proof (cases "sz > 0")
    case False
    then have "hin_rproxy_send a bufs w = Some (0, b1, w)"
      unfolding hin_rproxy_send_def assms(1-3) Option.bind.bind_lunit prod.case b1(1) using False by simp
    then show ?thesis using b1(2,3) False by simp
  next
    case True
    let ?cl = "''Content-Length: '' @ print_int sz @ CRLF"
    let ?len = "if int (slen rest) > sz then sz else int (slen rest)"
    have l: "nat ?len = min (nat sz) (slen rest)" using True by auto
    have bl: "int (length body) = ?len" using True assms(7) by (auto simp: body_def)
    obtain b2 where b2: "hdr ?cl b1 = Some b2" "chain_wf b2" "chain_text b2 = chain_text b1 @ ?cl"
      using appends_hdr [OF b1(2), of ?cl] assms(10) by (auto simp: appends_def HIN_HTTPD_MAX_HEADER_LINE_SIZE_def)
    obtain b3 where b3: "hdr CRLF b2 = Some b3" "chain_wf b3" "chain_text b3 = chain_text b2 @ CRLF"
      using appends_hdr [OF b2(2), of CRLF] by (auto simp: appends_def HIN_HTTPD_MAX_HEADER_LINE_SIZE_def)
    obtain b4 where b4: "header_raw b3 body = (length body, b4)" "chain_wf b4" "chain_text b4 = chain_text b3 @ body"
      using header_raw_appends [OF b3(2) assms(11)] by blast
    obtain p w' where p: "hin_rproxy_send_post a c (sz - ?len) w = Some w'" "hc_log w' = hc_log w @ [Start_post a p]"
      "p_left (hp_pipe p) = sz - ?len"
      using assms(1) by (auto simp: hin_rproxy_send_post_def Let_def log_client_def set_conn_def)
    have go: "\<not> (\<not> True \<or> sz \<le> 0)" using True by simp
    have "hin_rproxy_send a bufs w = map_option (\<lambda>w. (1, snd (header_raw b3 (take (nat ?len) (sptr rest))), w))
        (hin_rproxy_send_post a c (sz - ?len) w)"
      unfolding hin_rproxy_send_def assms(1-3) Option.bind.bind_lunit prod.case b1(1) Let_def if_not_P [OF go] b2(1) b3(1) ..
    then have "hin_rproxy_send a bufs w = Some (1, b4, w')"
      unfolding l using b4(1) p(1) by (simp add: body_def)
    moreover have "chain_text b4 = chain_text bufs @ copied proxy_request_text ls @ ?cl @ CRLF @ body"
      using b1(3) b2(3) b3(3) b4(3) by simp
    ultimately show ?thesis using True b4(2) p(2,3) bl by auto
  qed
qed

lemma report_send_result:
  assumes "hc_conns w a = Some k" "k_cb k = Proxy" "hin_rproxy_send a bufs w = Some (r, bufs', w')"
  shows "report_state ce a Send (Buf bufs) w = Some (0, Buf bufs', w')"
  by (simp add: report_state_def hin_rproxy_state_callback_def assms)

text \<open>
  C19: the request the proxy writes is the request line, the host and the connection header, then
  the lines of the client's head less the six it replaces, and an empty line.  A request with a
  length ends its head with that length and an empty line and goes on with the bytes of the body
  that are already there, the rest following through a pipe; but \<open>hin_http_state\<close> drops the result
  of the callback, so an empty line is printed in any case: two bytes into the middle of the body.
\<close>

theorem proxied_request_bytes:
  assumes "hc_conns w a = Some k" "k_buf k \<noteq> None" "k_cb k = Proxy" "k_parent k = Some c"
    "hin_find_line (h_headers (peer c w)) = Some (u, source, first)" "head_lines source = Some (ls, rest)"
    "lines_fit proxy_request_text ls" "slen rest \<le> length (sptr rest)"
    "sz = foldl (\<lambda>sz l. proxy_post_size l sz) 0 ls" "body = take (min (nat sz) (slen rest)) (sptr rest)"
    "length (print_int sz) < 100" "length body \<le> HIN_HTTPD_MAX_HEADER_LINE_SIZE"
    "length (client_request_line k) < HIN_HTTPD_MAX_HEADER_LINE_SIZE" "length (host_line k) < HIN_HTTPD_MAX_HEADER_LINE_SIZE"
    "ce_write_ok ce"
  shows "\<exists>bufs w' post. http_client_start_headers ce a w = Some (0, w') \<and>
     chain_text bufs = client_request_line k @ host_line k @ connection_line k @ copied proxy_request_text ls @
       (if sz > 0 then ''Content-Length: '' @ print_int sz @ CRLF @ CRLF @ body else []) @ CRLF \<and>
     hc_log w' = hc_log w @ post @ [Send_head a bufs] \<and>
     (if sz > 0 then \<exists>p. post = [Start_post a p] \<and> p_left (hp_pipe p) = sz - int (length body) else post = [])"
proof -
  let ?k = "k\<lparr>k_io := setf (k_io k) (HIN_REQ_HEADERS OR HIN_REQ_DATA)\<rparr>"
  let ?w = "set_conn a ?k w"
  have nb: "chain_wf [new_buffer READ_SZ]" "chain_text [new_buffer READ_SZ] = []" by (simp_all add: chain_wf_def)
  obtain b1 where b1: "hdr (client_request_line k) [new_buffer READ_SZ] = Some b1" "chain_wf b1" "chain_text b1 = client_request_line k"
    using appends_hdr [OF nb(1) assms(13)] nb(2) by (auto simp: appends_def)
  obtain b2 where b2: "hdr (host_line k) b1 = Some b2" "chain_wf b2" "chain_text b2 = chain_text b1 @ host_line k"
    using appends_hdr [OF b1(2) assms(14)] by (auto simp: appends_def)
  have cl: "length (connection_line k) < HIN_HTTPD_MAX_HEADER_LINE_SIZE"
    by (simp add: connection_line_def HIN_HTTPD_MAX_HEADER_LINE_SIZE_def)
  obtain b3 where b3: "hdr (connection_line k) b2 = Some b3" "chain_wf b3" "chain_text b3 = chain_text b2 @ connection_line k"
    using appends_hdr [OF b2(2) cl] by (auto simp: appends_def)
  have conn: "hc_conns ?w a = Some ?k" "k_parent ?k = Some c" "k_cb ?k = Proxy" "peer c ?w = peer c w" "hc_log ?w = hc_log w"
    using assms(3,4) by (simp_all add: set_conn_def peer_def)
  from proxy_send_result [OF conn(1,2) _ assms(6,7) b3(2) assms(8), unfolded conn(4), OF assms(5)] assms(9-12)
  obtain b4 w4 where b4: "hin_rproxy_send a b3 ?w = Some (if sz > 0 then 1 else 0, b4, w4)" "chain_wf b4"
    "chain_text b4 = chain_text b3 @ copied proxy_request_text ls @
       (if sz > 0 then ''Content-Length: '' @ print_int sz @ CRLF @ CRLF @ body else [])"
    "if sz > 0 then \<exists>p. hc_log w4 = hc_log ?w @ [Start_post a p] \<and> p_left (hp_pipe p) = sz - int (length body) else w4 = ?w"
    by blast
  obtain b5 where b5: "hdr CRLF b4 = Some b5" "chain_text b5 = chain_text b4 @ CRLF"
    using appends_hdr [OF b4(2), of CRLF] by (auto simp: appends_def HIN_HTTPD_MAX_HEADER_LINE_SIZE_def)
  have "http_client_start_headers ce a w = Some (0, log_client [Send_head a b5] w4)"
    unfolding http_client_start_headers_def assms(1) Option.bind.bind_lunit if_not_P [OF assms(2)] Let_def
      b1(1) b2(1) b3(1) report_send_result [OF conn(1,3) b4(1)] prod.case state_data.case
    using assms(15) b5(1) by (simp add: hdr_if_def)
  moreover have "chain_text b5 = client_request_line k @ host_line k @ connection_line k @ copied proxy_request_text ls @
       (if sz > 0 then ''Content-Length: '' @ print_int sz @ CRLF @ CRLF @ body else []) @ CRLF"
    unfolding b5(2) b4(3) b3(3) b2(3) b1(3) by simp
  moreover have "\<exists>post. hc_log w4 = hc_log w @ post \<and>
      (if sz > 0 then \<exists>p. post = [Start_post a p] \<and> p_left (hp_pipe p) = sz - int (length body) else post = [])"
    using b4(4) conn(5) by (cases "sz > 0") auto
  ultimately show ?thesis by (auto simp: log_client_def)
qed

definition conn0 :: hconn where
  "conn0 = (new_conn (uri0\<lparr>host := mk_str ''b'', path := mk_str ''/''\<rparr>))
     \<lparr>k_fd := 8, k_buf := Some (hin_lines_create_raw READ_SZ), k_parent := Some 3, k_flags := HIN_HTTP_KEEPALIVE,
      k_method := HIN_METHOD_POST, k_cb := Proxy\<rparr>"

definition client_env0 :: client_env where
  "client_env0 = \<lparr>ce_http = env0\<lparr>e_strftime := \<lambda>_ _. []\<rparr>, ce_open = (\<lambda>_. 9), ce_read_ok = True, ce_write_ok = True,
     ce_ssl_ok = True, ce_resolve_ok = True\<rparr>"

text \<open>A world with one connection, at address 64.\<close>

definition world0 :: "cache \<Rightarrow> hconn \<Rightarrow> hclient" where
  "world0 s k = \<lparr>hc_conns = [64 \<mapsto> k], hc_idle = [], hc_num = 1, hc_store = s, hc_log = []\<rparr>"

definition post_example :: string where
  "post_example = ''POST / HTTP/1.1'' @ CRLF @ ''Host: a'' @ CRLF @ ''Content-Length: 5'' @ CRLF @ ''X-A: b'' @ CRLF @ CRLF @ ''hel''"

abbreviation post_lines :: "string_t list" where
  "post_lines \<equiv> [\<lparr>sptr = drop 17 post_example, slen = 7\<rparr>, \<lparr>sptr = drop 26 post_example, slen = 17\<rparr>,
                 \<lparr>sptr = drop 45 post_example, slen = 6\<rparr>]"

lemma post_example_lines:
  "hin_find_line (mk_str post_example) =
     Some (1, \<lparr>sptr = drop 17 post_example, slen = 41\<rparr>, \<lparr>sptr = post_example, slen = 15\<rparr>)"
  "head_lines \<lparr>sptr = drop 17 post_example, slen = 41\<rparr> = Some (post_lines, mk_str ''hel'')"
  "foldl (\<lambda>sz l. proxy_post_size l sz) 0 post_lines = 5"
  "map proxy_request_text post_lines = [None, None, Some (''X-A: b'' @ CRLF)]"
  by code_simp+

theorem proxied_request_bytes_witness:
  "\<exists>s w' bufs p. http_client_start_headers client_env0 64 (world0 s conn0) = Some (0, w') \<and>
     hc_log w' = [Start_post 64 p, Send_head 64 bufs] \<and> p_left (hp_pipe p) = 2 \<and>
     chain_text bufs = ''POST / HTTP/1.1'' @ CRLF @ ''Host: b'' @ CRLF @ ''Connection: keep-alive'' @ CRLF @
       ''X-A: b'' @ CRLF @ ''Content-Length: '' @ print_int 5 @ CRLF @ CRLF @ ''hel'' @ CRLF"
proof -
  obtain s where "hin_cache_create 7 \<lparr>tlist = [], ttime = (\<lambda>_. 0)\<rparr> (\<lambda>_. httpd0\<lparr>h_headers := mk_str post_example\<rparr>) = Some s"
    using create_succeeds by blast
  then have "cs_clients s 3 = httpd0\<lparr>h_headers := mk_str post_example\<rparr>"
    by (auto simp: hin_cache_create_def Let_def split: prod.splits if_splits option.splits)
  then have h: "h_headers (peer 3 (world0 s conn0)) = mk_str post_example" by (simp add: peer_def world0_def)
  have k: "hc_conns (world0 s conn0) 64 = Some conn0" "k_buf conn0 \<noteq> None" "k_cb conn0 = Proxy" "k_parent conn0 = Some 3"
    by (simp_all add: world0_def conn0_def)
  have fl: "hin_find_line (h_headers (peer 3 (world0 s conn0))) =
     Some (1, \<lparr>sptr = drop 17 post_example, slen = 41\<rparr>, \<lparr>sptr = post_example, slen = 15\<rparr>)"
    unfolding h by (rule post_example_lines(1))
  have fit: "lines_fit proxy_request_text post_lines"
    using post_example_lines(4) by (simp add: lines_fit_def HIN_HTTPD_MAX_HEADER_LINE_SIZE_def)
  have body: "''hel'' = take (min (nat 5) (slen (mk_str ''hel''))) (sptr (mk_str ''hel''))" by (simp add: mk_str_def)
  have texts: "client_request_line conn0 = ''POST / HTTP/1.1'' @ CRLF" "host_line conn0 = ''Host: b'' @ CRLF"
    "connection_line conn0 = ''Connection: keep-alive'' @ CRLF"
    "copied proxy_request_text post_lines = ''X-A: b'' @ CRLF"
    "length (print_int 5) < 100" "slen (mk_str ''hel'') \<le> length (sptr (mk_str ''hel''))"
    by code_simp+
  have lens: "length ''hel'' \<le> HIN_HTTPD_MAX_HEADER_LINE_SIZE" "length (client_request_line conn0) < HIN_HTTPD_MAX_HEADER_LINE_SIZE"
    "length (host_line conn0) < HIN_HTTPD_MAX_HEADER_LINE_SIZE" "ce_write_ok client_env0"
    by (simp_all add: texts HIN_HTTPD_MAX_HEADER_LINE_SIZE_def client_env0_def)
  obtain bufs w' post where r: "http_client_start_headers client_env0 64 (world0 s conn0) = Some (0, w')"
    "chain_text bufs = client_request_line conn0 @ host_line conn0 @ connection_line conn0 @ copied proxy_request_text post_lines @
       (if (5::int) > 0 then ''Content-Length: '' @ print_int 5 @ CRLF @ CRLF @ ''hel'' else []) @ CRLF"
    "hc_log w' = hc_log (world0 s conn0) @ post @ [Send_head 64 bufs]"
    "if (5::int) > 0 then \<exists>p. post = [Start_post 64 p] \<and> p_left (hp_pipe p) = 5 - int (length ''hel'') else post = []"
    using proxied_request_bytes [OF k fl post_example_lines(2) fit texts(6) post_example_lines(3) [symmetric] body texts(5) lens]
    by (elim exE conjE)
  have "chain_text bufs = ''POST / HTTP/1.1'' @ CRLF @ ''Host: b'' @ CRLF @ ''Connection: keep-alive'' @ CRLF @
       ''X-A: b'' @ CRLF @ ''Content-Length: '' @ print_int 5 @ CRLF @ CRLF @ ''hel'' @ CRLF"
    unfolding r(2) texts(1-4) by simp
  moreover obtain p where "hc_log w' = [Start_post 64 p, Send_head 64 bufs]" "p_left (hp_pipe p) = 2"
    using r(3,4) by (auto simp: world0_def)
  ultimately show ?thesis using r(1) by blast
qed

subsection \<open>The response\<close>

lemma append_raw_all: "foldl hin_pipe_append_raw p bs = p\<lparr>write_que := write_que p @ bs\<rparr>"
  by (induction bs arbitrary: p) (simp_all add: hin_pipe_append_raw_def)

lemma proxy_pipe_queue: "write_que (hp_pipe (proxy_pipe k p)) = write_que (hp_pipe p)"
  by (simp add: proxy_pipe_def in_set_def Let_def)

lemma client_pipe_queue: "write_que (hp_pipe (client_pipe k)) = []"
  by (simp add: client_pipe_def new_pipe_def in_set_def Let_def)

lemma proxy_head_result:
  assumes "texts_fit e h" "length (print_int (h_status h)) < 100" "length (print_int (k_sz k)) < 100"
    "head_lines source = Some (ls, rest)" "lines_fit proxy_response_text ls"
  shows "\<exists>bufs. proxy_head e k source h = Some (True, bufs) \<and>
     chain_text bufs = status_line h (h_status h) @ date_text e h @ common_text e h @
       (if k_sz k \<noteq> 0 \<and> \<not> has (h_peer h) HIN_HTTP_CHUNKED
        then ''Content-Length: '' @ print_int (k_sz k) @ CRLF else []) @
       copied proxy_response_text ls @ CRLF"
proof -
  let ?c = "k_sz k \<noteq> 0 \<and> \<not> has (h_peer h) HIN_HTTP_CHUNKED"
  let ?cl = "''Content-Length: '' @ print_int (k_sz k) @ CRLF"
  obtain b0 b where b: "hdr (status_line h (h_status h)) [new_buffer READ_SZ] = Some b0"
    "httpd_write_common_headers e h b0 = Some b" "chain_wf b"
    "chain_text b = status_line h (h_status h) @ date_text e h @ common_text e h"
    using appends_head [OF assms(1,2), of READ_SZ]
    by (cases "hdr (status_line h (h_status h)) [new_buffer READ_SZ]") auto
  have l: "length ?cl < HIN_HTTPD_MAX_HEADER_LINE_SIZE" using assms(3) by (simp add: HIN_HTTPD_MAX_HEADER_LINE_SIZE_def)
  obtain c where c: "hdr_if ?c ?cl b = Some c" "chain_wf c" "chain_text c = chain_text b @ (if ?c then ?cl else [])"
    using appends_if [OF b(3) l, of ?c] by (auto simp only: appends_def)
  obtain d where d: "copy_lines proxy_response_text (\<lambda>_ _. ()) () source c = Some (True, (), rest, d)" "chain_wf d"
    "chain_text d = chain_text c @ copied proxy_response_text ls"
    using copy_lines_result [OF assms(4,5) c(2), of "\<lambda>_ _. ()" "()"] by auto
  obtain f where f: "hdr CRLF d = Some f" "chain_text f = chain_text d @ CRLF"
    using appends_hdr [OF d(2), of CRLF] by (auto simp: appends_def HIN_HTTPD_MAX_HEADER_LINE_SIZE_def)
  have "proxy_head e k source h = Some (True, f)"
    unfolding proxy_head_def b(1,2) Option.bind.bind_lunit c(1) d(1) prod.case f(1) by simp
  moreover have "chain_text f = status_line h (h_status h) @ date_text e h @ common_text e h @
      (if ?c then ?cl else []) @ copied proxy_response_text ls @ CRLF"
    unfolding f(2) d(3) c(3) b(4) by simp
  ultimately show ?thesis by blast
qed

text \<open>
  C20: the head the proxy sends to its client is a status line with the status of the other server's
  response, the common headers of this server, the length (unless the body is sent in chunks) and
  the other server's header lines in their order, less the ten the proxy drops, and an empty line.
  It is in the pipe of the body, before the bytes of the body that were read with the head.  The
  pipe is limited to the length of the response unless that is chunked, so when a response has
  neither, as one that ends with the connection, nothing of the body but those bytes is delivered.
\<close>

theorem proxied_response_bytes:
  assumes "hc_conns w a = Some k" "k_cb k = Proxy" "k_parent k = Some c" "k_buf k = Some l" "k_save_fd k = 0"
    "hin_find_line (mk_str (lines_text l)) = Some (u, source, first)" "head_lines source = Some (ls, rest)"
    "matchi_string first ''HTTP/1.%d (%d+)'' = (n, v, caps)"
    "h = (peer c w)\<lparr>h_count := k_sz k, h_peer := setf (h_peer (peer c w)) (k_flags k AND HIN_HTTP_CHUNKED)\<rparr>"
    "httpd_pipe_set_http11_response_options h (client_pipe k) = (g, q)"
    "g' = g\<lparr>h_status := atoi (sptr (stored caps null_str))\<rparr>"
    "texts_fit (ce_http ce) g'" "length (print_int (h_status g')) < 100" "length (print_int (k_sz k)) < 100"
    "lines_fit proxy_response_text ls" "k_method k \<noteq> HIN_METHOD_HEAD"
  shows "\<exists>bufs p. http_client_start_pipe ce penv a body w =
       Some (start_with penv (min (if k_sz k = 0 then int (slen body) else k_sz k) (int (slen body))) body p,
             min (if k_sz k = 0 then int (slen body) else k_sz k) (int (slen body)), set_peer c g' w) \<and>
     write_que (hp_pipe p) = head_bufs bufs \<and>
     chain_text bufs = status_line g' (h_status g') @ date_text (ce_http ce) g' @ common_text (ce_http ce) g' @
       (if k_sz k \<noteq> 0 \<and> \<not> has (h_peer g') HIN_HTTP_CHUNKED then ''Content-Length: '' @ print_int (k_sz k) @ CRLF else []) @
       copied proxy_response_text ls @ CRLF \<and>
     (if has (k_flags k) HIN_HTTP_CHUNKED then \<not> in_has (hp_pipe p) HIN_COUNT
      else in_has (hp_pipe p) HIN_COUNT \<and> p_left (hp_pipe p) = k_sz k)"
proof -
  let ?p = "proxy_pipe k q"
  from proxy_head_result [OF assms(12-14,7,15)]
  obtain bufs where b: "proxy_head (ce_http ce) k source g' = Some (True, bufs)"
    "chain_text bufs = status_line g' (h_status g') @ date_text (ce_http ce) g' @ common_text (ce_http ce) g' @
       (if k_sz k \<noteq> 0 \<and> \<not> has (h_peer g') HIN_HTTP_CHUNKED then ''Content-Length: '' @ print_int (k_sz k) @ CRLF else []) @
       copied proxy_response_text ls @ CRLF"
    by (elim exE conjE)
  have q: "write_que (hp_pipe ?p) = []"
    using options_pipe(2) [OF assms(10)] by (simp add: proxy_pipe_queue client_pipe_queue)
  let ?r = "?p\<lparr>hp_pipe := (hp_pipe ?p)\<lparr>write_que := head_bufs bufs\<rparr>\<rparr>"
  have "hin_rproxy_headers (ce_http ce) a (client_pipe k) w = Some (0, ?r, set_peer c g' w)"
    unfolding hin_rproxy_headers_def assms(1,3,4) Option.bind.bind_lunit Let_def assms(9) [symmetric]
      assms(6,8,10) prod.case assms(11) [symmetric] b(1)
    using q by (simp add: prepend_chain_def append_raw_all)
  then have "report_state ce a Headers (Pipe (client_pipe k)) w = Some (0, Pipe ?r, set_peer c g' w)"
    by (simp add: report_state_def hin_rproxy_state_callback_def assms(1,2))
  moreover have "hc_conns (set_peer c g' w) a = Some k" by (simp add: set_peer_def assms(1))
  moreover have "(if k_sz k \<noteq> 0 \<and> k_sz k < int (slen body) then k_sz k else int (slen body)) =
      min (if k_sz k = 0 then int (slen body) else k_sz k) (int (slen body))" by auto
  ultimately have "http_client_start_pipe ce penv a body w =
       Some (start_with penv (min (if k_sz k = 0 then int (slen body) else k_sz k) (int (slen body))) body ?r,
             min (if k_sz k = 0 then int (slen body) else k_sz k) (int (slen body)), set_peer c g' w)"
    using assms(1,5,16) by (simp add: http_client_start_pipe_def hin_http_state_def Let_def)
  moreover have "if has (k_flags k) HIN_HTTP_CHUNKED then \<not> in_has (hp_pipe ?r) HIN_COUNT
      else in_has (hp_pipe ?r) HIN_COUNT \<and> p_left (hp_pipe ?r) = k_sz k"
    using assms(16) by (simp add: proxy_pipe_def Let_def in_set_def in_has_def) (simp add: has_def HIN_COUNT_def)
  ultimately show ?thesis using b(2) by (intro exI [of _ bufs] exI [of _ ?r] conjI) simp_all
qed

definition response_example :: string where
  "response_example = ''HTTP/1.1 404 Not Found'' @ CRLF @ ''X-A: b'' @ CRLF @ ''Server: c'' @ CRLF @ CRLF @ ''hey''"

definition conn1 :: hconn where
  "conn1 = conn0\<lparr>k_buf := Some ((hin_lines_create_raw READ_SZ)\<lparr>lb_base := response_example, lb_count := 48\<rparr>),
     k_method := HIN_METHOD_GET\<rparr>"

abbreviation response_lines :: "string_t list" where
  "response_lines \<equiv> [\<lparr>sptr = drop 24 response_example, slen = 6\<rparr>, \<lparr>sptr = drop 32 response_example, slen = 9\<rparr>]"

lemma response_example_lines:
  "hin_find_line (mk_str response_example) =
     Some (1, \<lparr>sptr = drop 24 response_example, slen = 24\<rparr>, \<lparr>sptr = response_example, slen = 22\<rparr>)"
  "head_lines \<lparr>sptr = drop 24 response_example, slen = 24\<rparr> = Some (response_lines, mk_str ''hey'')"
  "map proxy_response_text response_lines = [Some (''X-A: b'' @ CRLF), None]"
  "matchi_string \<lparr>sptr = response_example, slen = 22\<rparr> ''HTTP/1.%d (%d+)'' =
     (12, \<lparr>sptr = drop 12 response_example, slen = 10\<rparr>, [\<lparr>sptr = drop 9 response_example, slen = 3\<rparr>])"
  by code_simp+

theorem proxied_response_bytes_witness:
  "\<exists>s p w' bufs. http_client_start_pipe client_env0 (\<lambda>_. plain_env) 64 (mk_str ''hey'') (world0 s conn1) =
       Some (start_with (\<lambda>_. plain_env) 3 (mk_str ''hey'') p, 3, w') \<and>
     write_que (hp_pipe p) = head_bufs bufs \<and> in_has (hp_pipe p) HIN_COUNT \<and> p_left (hp_pipe p) = 0 \<and>
     chain_text bufs = ''HTTP/1.1 '' @ print_int 404 @ '' Not Found'' @ CRLF @ ''Server: hinsightd 0.9'' @ CRLF @
       ''Connection: close'' @ CRLF @ ''X-A: b'' @ CRLF @ CRLF"
proof -
  let ?e = "env0\<lparr>e_strftime := \<lambda>_ _. []\<rparr>" and ?h = "httpd0\<lparr>h_status := 404\<rparr>"
  obtain s where "hin_cache_create 7 \<lparr>tlist = [], ttime = (\<lambda>_. 0)\<rparr> (\<lambda>_. httpd0) = Some s"
    using create_succeeds by blast
  then have "cs_clients s 3 = httpd0"
    by (auto simp: hin_cache_create_def Let_def split: prod.splits if_splits option.splits)
  then have pr: "peer 3 (world0 s conn1) = httpd0" by (simp add: peer_def world0_def)
  let ?l = "(hin_lines_create_raw READ_SZ)\<lparr>lb_base := response_example, lb_count := 48\<rparr>"
  have k: "hc_conns (world0 s conn1) 64 = Some conn1" "k_cb conn1 = Proxy" "k_parent conn1 = Some 3"
    "k_buf conn1 = Some ?l" "k_save_fd conn1 = 0" "k_sz conn1 = 0" "k_flags conn1 = HIN_HTTP_KEEPALIVE"
    by (simp_all add: world0_def conn1_def conn0_def new_conn_def)
  have lt: "lines_text ?l = response_example" by (simp add: lines_text_def response_example_def)
  have fl: "hin_find_line (mk_str (lines_text ?l)) =
     Some (1, \<lparr>sptr = drop 24 response_example, slen = 24\<rparr>, \<lparr>sptr = response_example, slen = 22\<rparr>)"
    unfolding lt by (rule response_example_lines(1))
  have h: "httpd0 = (peer 3 (world0 s conn1))\<lparr>h_count := k_sz conn1,
      h_peer := setf (h_peer (peer 3 (world0 s conn1))) (k_flags conn1 AND HIN_HTTP_CHUNKED)\<rparr>"
    by (simp add: pr k httpd0_def setf_def flag_defs)
  obtain g q where g: "httpd_pipe_set_http11_response_options httpd0 (client_pipe conn1) = (g, q)" by fastforce
  then have gh: "g = httpd0"
    by (simp add: httpd_pipe_set_http11_response_options_def httpd_pipe_set_chunked_def httpd_request_chunked_def
        httpd0_def Let_def HIN_METHOD_HEAD_def has_def flag_defs clrf_def split: if_splits)
  have st: "atoi (sptr (stored [\<lparr>sptr = drop 9 response_example, slen = 3\<rparr>] null_str)) = 404" by code_simp
  have g': "?h = g\<lparr>h_status := atoi (sptr (stored [\<lparr>sptr = drop 9 response_example, slen = 3\<rparr>] null_str))\<rparr>"
    unfolding gh st ..
  have v: "vh_hsts (vhost_heap (e_vhosts ?e) 0) = 0" by (simp add: env0_def vhosts0_def)
  have ce: "ce_http client_env0 = ?e" by (simp add: client_env0_def)
  have fit: "texts_fit (ce_http client_env0) ?h" using v by (simp add: ce texts_fit_def httpd0_def)
  have lens: "length (print_int (h_status ?h)) < 100" "length (print_int (k_sz conn1)) < 100"
    unfolding k(6) by (simp, code_simp, code_simp)
  have lf: "lines_fit proxy_response_text response_lines"
    using response_example_lines(3) by (simp add: lines_fit_def HIN_HTTPD_MAX_HEADER_LINE_SIZE_def)
  have m: "k_method conn1 \<noteq> HIN_METHOD_HEAD" by (simp add: conn1_def HIN_METHOD_GET_def HIN_METHOD_HEAD_def)
  let ?len = "min (if k_sz conn1 = 0 then int (slen (mk_str ''hey'')) else k_sz conn1) (int (slen (mk_str ''hey'')))"
  obtain bufs p where r: "http_client_start_pipe client_env0 (\<lambda>_. plain_env) 64 (mk_str ''hey'') (world0 s conn1) =
       Some (start_with (\<lambda>_. plain_env) ?len (mk_str ''hey'') p, ?len, set_peer 3 ?h (world0 s conn1))"
    "write_que (hp_pipe p) = head_bufs bufs"
    "chain_text bufs = status_line ?h (h_status ?h) @ date_text (ce_http client_env0) ?h @ common_text (ce_http client_env0) ?h @
       (if k_sz conn1 \<noteq> 0 \<and> \<not> has (h_peer ?h) HIN_HTTP_CHUNKED then ''Content-Length: '' @ print_int (k_sz conn1) @ CRLF else []) @
       copied proxy_response_text response_lines @ CRLF"
    "if has (k_flags conn1) HIN_HTTP_CHUNKED then \<not> in_has (hp_pipe p) HIN_COUNT
      else in_has (hp_pipe p) HIN_COUNT \<and> p_left (hp_pipe p) = k_sz conn1"
    using proxied_response_bytes [OF k(1-5) fl response_example_lines(2,4) h g g' fit lens lf m,
        where penv = "\<lambda>_. plain_env" and body = "mk_str ''hey''"]
    by (elim exE conjE) (rule that)
  have "copied proxy_response_text response_lines = ''X-A: b'' @ CRLF" using response_example_lines(3) by simp
  moreover have "status_line ?h (h_status ?h) = ''HTTP/1.1 '' @ print_int 404 @ '' Not Found'' @ CRLF"
    by (simp add: status_line_def httpd0_def has_def http_status_name_def status_names_def)
  moreover have "date_text (ce_http client_env0) ?h = []" by (simp add: date_text_def ce)
  moreover have "common_text (ce_http client_env0) ?h = ''Server: hinsightd 0.9'' @ CRLF @ ''Connection: close'' @ CRLF"
    using v by (simp add: ce common_text_def httpd0_def has_def hsts_text_def HIN_HTTPD_SERVER_BANNER_def)
  ultimately have t: "chain_text bufs = ''HTTP/1.1 '' @ print_int 404 @ '' Not Found'' @ CRLF @ ''Server: hinsightd 0.9'' @ CRLF @
       ''Connection: close'' @ CRLF @ ''X-A: b'' @ CRLF @ CRLF"
    unfolding r(3) by (simp add: k(6))
  have "?len = 3" by (simp add: k(6) mk_str_def)
  moreover have "\<not> has (k_flags conn1) HIN_HTTP_CHUNKED" by (simp add: k(7) has_def flag_defs)
  ultimately show ?thesis using r(1,2,4) t k(6) by (intro exI [of _ s] exI [of _ p] exI [of _ "set_peer 3 ?h (world0 s conn1)"] exI [of _ bufs]) simp
qed

end
