(* ===== verification/EventLoop.thy ===== *)
theory EventLoop
  imports Pipes
begin

text \<open>
  The event loop: the submission ring of io_uring with its overflow queue (\<open>netcode/uring.c\<close>) and
  the epoll requests (\<open>netcode/epoll.c\<close>).  Buffers are a heap; the kernel takes the entries of the
  ring, completes them in any order and hands back completions, whose callback the loop runs.
\<close>

subsection \<open>State\<close>

definition HIN_SYNC :: u32 where [flag_defs]: "HIN_SYNC = 0x80"
definition HIN_EPOLL_READ :: u32 where [flag_defs]: "HIN_EPOLL_READ = 0x100"
definition HIN_EPOLL_WRITE :: u32 where [flag_defs]: "HIN_EPOLL_WRITE = 0x200"
definition HIN_EPOLL :: u32 where [flag_defs]: "HIN_EPOLL = HIN_EPOLL_READ OR HIN_EPOLL_WRITE"
definition HIN_ACTIVE :: u32 where [flag_defs]: "HIN_ACTIVE = 0x800"

definition HIN_URING_QUEUE_DEPTH :: nat where "HIN_URING_QUEUE_DEPTH = 256"

record ubuf =
  ub_fd :: int
  ub_flags :: u32
  ub_count :: int
  ub_pos :: int

datatype uop =
    Send_op | Recv_op | Write_op int | Read_op int | Accept_op | Connect_op | Close_op
  | Openat_op string | Timeout_op | Statx_op string

record sqe =
  sq_op :: uop
  sq_fd :: int
  sq_len :: int
  sq_data :: nat

datatype uring_event =
    Accepted nat | Delivered nat int | Synchronous nat uop int | Ssl_write nat | Ssl_read nat
  | Epoll_wait nat | Bad_use nat

text \<open>
  \<open>ur_ring\<close>: entries taken since the last submission, \<open>ur_queue\<close>: the overflow queue, its head
  first, \<open>ur_kernel\<close>: submitted entries, \<open>ur_cqes\<close>: completions not seen.  An entry that was taken
  and not filled in is \<open>None\<close>.
\<close>

record uring =
  ur_bufs :: "nat \<Rightarrow> ubuf option"
  ur_open :: bool
  ur_ring :: "sqe option list"
  ur_queue :: "sqe option list"
  ur_kernel :: "sqe option list"
  ur_cqes :: "(nat option \<times> int) list"
  ur_epoll :: int
  ur_log :: "uring_event list"

text \<open>System calls and the callbacks of the buffers.\<close>

record uring_env =
  ue_sys :: "nat \<Rightarrow> uop \<Rightarrow> int"
  ue_cb :: "nat \<Rightarrow> int \<Rightarrow> uring \<Rightarrow> (int \<times> uring) option"
  ue_epoll_fd :: int
  ue_epoll_ok :: "nat \<Rightarrow> bool"

definition log_uring :: "uring_event \<Rightarrow> uring \<Rightarrow> uring" where
  "log_uring v s = s\<lparr>ur_log := ur_log s @ [v]\<rparr>"

definition set_flags :: "nat \<Rightarrow> (u32 \<Rightarrow> u32) \<Rightarrow> uring \<Rightarrow> uring" where
  "set_flags b f s =
     s\<lparr>ur_bufs := (ur_bufs s)(b := map_option (\<lambda>u. u\<lparr>ub_flags := f (ub_flags u)\<rparr>) (ur_bufs s b))\<rparr>"

text \<open>Freeing a buffer that is still in use is only reported.\<close>

definition buffer_clean :: "nat \<Rightarrow> uring \<Rightarrow> uring option" where
  "buffer_clean b s = map_option (\<lambda>u. s\<lparr>ur_bufs := (ur_bufs s)(b := None)\<rparr>) (ur_bufs s b)"

definition hin_request_callback :: "uring_env \<Rightarrow> nat \<Rightarrow> int \<Rightarrow> uring \<Rightarrow> (int \<times> uring) option" where
  "hin_request_callback e b ret s =
     Option.bind (ue_cb e b ret s) (\<lambda>(err, s).
       map_option (\<lambda>s. (0, s)) (if err \<noteq> 0 then buffer_clean b s else Some s))"

definition hin_request_active :: "nat \<Rightarrow> uring \<Rightarrow> (int \<times> uring) option" where
  "hin_request_active b s =
     Option.bind (ur_bufs s b) (\<lambda>u.
       if has (ub_flags u) HIN_ACTIVE then Some (-1, log_uring (Bad_use b) s)
       else Some (0, set_flags b (\<lambda>f. setf f HIN_ACTIVE) s))"

text \<open>\<open>hin_request_sqe\<close>: an entry of the ring, or of the overflow queue, with what is put there.\<close>

definition hin_request_sqe :: "sqe option \<Rightarrow> uring \<Rightarrow> uring" where
  "hin_request_sqe q s =
     (if ur_open s \<and> length (ur_ring s) < HIN_URING_QUEUE_DEPTH then s\<lparr>ur_ring := ur_ring s @ [q]\<rparr>
      else s\<lparr>ur_queue := q # ur_queue s\<rparr>)"

definition hin_process_sqe_queue :: "uring \<Rightarrow> uring" where
  "hin_process_sqe_queue s =
     (case ur_queue s of
        [] \<Rightarrow> s
      | q # qs \<Rightarrow>
          if length (ur_ring s) < HIN_URING_QUEUE_DEPTH
          then s\<lparr>ur_ring := ur_ring s @ [q], ur_queue := qs\<rparr> else s)"

definition hin_request_is_overloaded :: "uring \<Rightarrow> bool" where
  "hin_request_is_overloaded s \<longleftrightarrow> ur_queue s \<noteq> []"

definition ring_request :: "uop \<Rightarrow> int \<Rightarrow> ubuf \<Rightarrow> nat \<Rightarrow> uring \<Rightarrow> uring" where
  "ring_request op fd u b s =
     log_uring (Accepted b)
       (hin_request_sqe (Some \<lparr>sq_op = op, sq_fd = fd, sq_len = ub_count u, sq_data = b\<rparr>) s)"

definition sync_request :: "uring_env \<Rightarrow> nat \<Rightarrow> uop \<Rightarrow> uring \<Rightarrow> (int \<times> uring) option" where
  "sync_request e b op s = hin_request_callback e b (ue_sys e b op) (log_uring (Synchronous b op (ue_sys e b op)) s)"

subsection \<open>Requests\<close>

definition hin_init_epoll :: "uring_env \<Rightarrow> uring \<Rightarrow> int \<times> uring" where
  "hin_init_epoll e s =
     (if ur_epoll s < 0 then (if ue_epoll_fd e < 0 then -1 else 0, s\<lparr>ur_epoll := ue_epoll_fd e\<rparr>) else (0, s))"

text \<open>A buffer with both flags is added to the set, and keeps the flag of its direction only.\<close>

definition epoll_request :: "uring_env \<Rightarrow> u32 \<Rightarrow> nat \<Rightarrow> uring \<Rightarrow> int \<times> uring" where
  "epoll_request e dir b s =
     (case hin_init_epoll e s of
        (r, s) \<Rightarrow>
          if r < 0 then (-1, s)
          else
            let s = set_flags b (\<lambda>f. if f AND HIN_EPOLL = HIN_EPOLL then f AND (NOT HIN_EPOLL OR dir) else f) s
            in if ue_epoll_ok e b then (0, log_uring (Epoll_wait b) s) else (-1, s))"

definition hin_epoll_request_read :: "uring_env \<Rightarrow> nat \<Rightarrow> uring \<Rightarrow> int \<times> uring" where
  "hin_epoll_request_read e = epoll_request e HIN_EPOLL_READ"

definition hin_epoll_request_write :: "uring_env \<Rightarrow> nat \<Rightarrow> uring \<Rightarrow> int \<times> uring" where
  "hin_epoll_request_write e = epoll_request e HIN_EPOLL_WRITE"

definition hin_request_write :: "uring_env \<Rightarrow> nat \<Rightarrow> uring \<Rightarrow> (int \<times> uring) option" where
  "hin_request_write e b s =
     Option.bind (hin_request_active b s) (\<lambda>(r, s).
       if r \<noteq> 0 then Some (-1, s)
       else Option.bind (ur_bufs s b) (\<lambda>u.
         let f = ub_flags u; file = has f (HIN_FILE OR HIN_OFFSETS) in
         if has f HIN_SSL then Some (0, log_uring (Ssl_write b) s)
         else if has f HIN_EPOLL \<and> \<not> file
         then (case hin_epoll_request_write e b s of (r, s) \<Rightarrow> Some (if r < 0 then -1 else 0, s))
         else
           let s = (if has f HIN_EPOLL then set_flags b (\<lambda>f. setf f HIN_SYNC) s else s)
           in if has f (HIN_SYNC OR HIN_EPOLL) then sync_request e b (Write_op (ub_pos u)) s
              else if has f HIN_SOCKET then Some (0, ring_request Send_op (ub_fd u) u b s)
              else Some (0, ring_request (Write_op (ub_pos u)) (ub_fd u) u b s)))"

definition hin_request_read :: "uring_env \<Rightarrow> nat \<Rightarrow> uring \<Rightarrow> (int \<times> uring) option" where
  "hin_request_read e b s =
     Option.bind (hin_request_active b s) (\<lambda>(r, s).
       if r \<noteq> 0 then Some (-1, s)
       else Option.bind (ur_bufs s b) (\<lambda>u.
         let f = ub_flags u; file = has f (HIN_FILE OR HIN_OFFSETS) in
         if has f HIN_SSL then Some (0, log_uring (Ssl_read b) s)
         else if has f HIN_EPOLL \<and> \<not> file
         then (case hin_epoll_request_read e b s of (r, s) \<Rightarrow> Some (if r < 0 then -1 else 0, s))
         else
           let s = (if has f HIN_EPOLL then set_flags b (\<lambda>f. setf f HIN_SYNC) s else s)
           in if has f (HIN_SYNC OR HIN_EPOLL) then sync_request e b (Read_op (ub_pos u)) s
              else if has f HIN_SOCKET then Some (0, ring_request Recv_op (ub_fd u) u b s)
              else Some (0, ring_request (Read_op (ub_pos u)) (ub_fd u) u b s)))"

text \<open>\<open>sfd\<close> is the socket of the server.\<close>

definition hin_request_accept :: "uring_env \<Rightarrow> int \<Rightarrow> nat \<Rightarrow> uring \<Rightarrow> (int \<times> uring) option" where
  "hin_request_accept e sfd b s =
     Option.bind (hin_request_active b s) (\<lambda>(r, s).
       if r \<noteq> 0 then Some (-1, s)
       else Option.bind (ur_bufs s b) (\<lambda>u.
         if has (ub_flags u) HIN_EPOLL
         then (case hin_epoll_request_read e b s of (r, s) \<Rightarrow> Some (if r < 0 then -1 else 0, s))
         else if has (ub_flags u) HIN_SYNC then sync_request e b Accept_op s
         else Some (0, ring_request Accept_op sfd u b s)))"

definition hin_request_connect :: "uring_env \<Rightarrow> nat \<Rightarrow> uring \<Rightarrow> (int \<times> uring) option" where
  "hin_request_connect e b s =
     Option.bind (ur_bufs s b) (\<lambda>u.
       if has (ub_flags u) HIN_EPOLL
       then (case hin_epoll_request_read e b s of (r, s) \<Rightarrow> Some (if r < 0 then -1 else 0, s))
       else if has (ub_flags u) HIN_SYNC then sync_request e b Connect_op s
       else Option.bind (hin_request_active b s) (\<lambda>(r, s).
         if r \<noteq> 0 then Some (-1, s) else Some (0, ring_request Connect_op (ub_fd u) u b s)))"

definition hin_request_close :: "uring_env \<Rightarrow> nat \<Rightarrow> uring \<Rightarrow> (int \<times> uring) option" where
  "hin_request_close e b s =
     Option.bind (ur_bufs s b) (\<lambda>u.
       if has (ub_flags u) (HIN_SYNC OR HIN_EPOLL) then sync_request e b Close_op s
       else Option.bind (hin_request_active b s) (\<lambda>(r, s).
         if r \<noteq> 0 then Some (-1, s) else Some (0, ring_request Close_op (ub_fd u) u b s)))"

definition hin_request_openat :: "uring_env \<Rightarrow> string \<Rightarrow> nat \<Rightarrow> uring \<Rightarrow> (int \<times> uring) option" where
  "hin_request_openat e fn b s =
     Option.bind (hin_request_active b s) (\<lambda>(r, s).
       if r \<noteq> 0 then Some (-1, s)
       else Option.bind (ur_bufs s b) (\<lambda>u.
         if has (ub_flags u) (HIN_SYNC OR HIN_EPOLL) then sync_request e b (Openat_op fn) s
         else Some (0, ring_request (Openat_op fn) (ub_fd u) u b s)))"

definition hin_request_timeout :: "uring_env \<Rightarrow> nat \<Rightarrow> uring \<Rightarrow> (int \<times> uring) option" where
  "hin_request_timeout e b s =
     Option.bind (hin_request_active b s) (\<lambda>(r, s).
       if r \<noteq> 0 then Some (-1, s)
       else Option.bind (ur_bufs s b) (\<lambda>u.
         if has (ub_flags u) (HIN_SYNC OR HIN_EPOLL) then Some (-1, s)
         else Some (0, ring_request Timeout_op (ub_fd u) u b s)))"

text \<open>\<open>STATX_SZ\<close>: the size of \<open>struct statx\<close>.  A buffer that is too small leaves its entry unfilled.\<close>

definition STATX_SZ :: int where "STATX_SZ = 256"

definition hin_request_statx :: "uring_env \<Rightarrow> string \<Rightarrow> nat \<Rightarrow> uring \<Rightarrow> (int \<times> uring) option" where
  "hin_request_statx e fn b s =
     Option.bind (hin_request_active b s) (\<lambda>(r, s).
       if r \<noteq> 0 then Some (-1, s)
       else Option.bind (ur_bufs s b) (\<lambda>u.
         if has (ub_flags u) (HIN_SYNC OR HIN_EPOLL) then sync_request e b (Statx_op fn) s
         else if ub_count u < STATX_SZ then Some (-1, hin_request_sqe None s)
         else Some (0, ring_request (Statx_op fn) (ub_fd u) u b s)))"

subsection \<open>The loop\<close>

definition hin_event_init :: "uring \<Rightarrow> uring" where
  "hin_event_init s =
     hin_process_sqe_queue (s\<lparr>ur_open := True, ur_ring := [], ur_kernel := [], ur_cqes := []\<rparr>)"

definition hin_event_clean :: "uring \<Rightarrow> uring" where
  "hin_event_clean s = s\<lparr>ur_open := False, ur_ring := [], ur_kernel := [], ur_cqes := []\<rparr>"

text \<open>\<open>fin\<close>: \<open>HIN_FLAG_FINISH\<close> is set; the wait itself is the kernel's.\<close>

definition hin_event_wait :: "bool \<Rightarrow> uring \<Rightarrow> int \<times> uring" where
  "hin_event_wait fin s =
     (if fin then (0, s) else (1, s\<lparr>ur_kernel := ur_kernel s @ ur_ring s, ur_ring := []\<rparr>))"

text \<open>
  The loop over the batch: the bound \<open>err\<close> is overwritten by the result of every callback.  Past the
  end of the batch the array is not initialised; an entry that was never filled in has no buffer.
\<close>

fun process_loop :: "uring_env \<Rightarrow> int \<Rightarrow> int \<Rightarrow> (nat option \<times> int) list \<Rightarrow> uring \<Rightarrow> uring option" where
  "process_loop e i err [] s = (if i < err then None else Some s)"
| "process_loop e i err ((b, res) # cqes) s =
     (if i < err
      then Option.bind b (\<lambda>b.
             if ur_bufs s b = None then None
             else
               Option.bind (ue_cb e b res (log_uring (Delivered b res) (set_flags b (\<lambda>f. clrf f HIN_ACTIVE) s))) (\<lambda>(err, s).
               Option.bind (if err \<noteq> 0 then buffer_clean b s else Some s) (\<lambda>s.
                 process_loop e (i + 1) err cqes (s\<lparr>ur_cqes := tl (ur_cqes s)\<rparr>))))
      else Some s)"

definition hin_event_process :: "uring_env \<Rightarrow> uring \<Rightarrow> uring option" where
  "hin_event_process e s =
     (let s = hin_process_sqe_queue s; batch = take 64 (ur_cqes s)
      in process_loop e 0 (int (length batch)) batch s)"

text \<open>One event of an epoll set; \<open>res\<close> is what the read or write returns.\<close>

definition epoll_event :: "uring_env \<Rightarrow> nat \<Rightarrow> int \<Rightarrow> uring \<Rightarrow> (int \<times> uring) option" where
  "epoll_event e b res s =
     Option.bind (ur_bufs s b) (\<lambda>u.
       if ub_flags u AND HIN_EPOLL = HIN_EPOLL then Some (-1, s)
       else
         let ret = (if has (ub_flags u) HIN_EPOLL then res else 0)
         in Option.bind (ue_cb e b ret (set_flags b (\<lambda>f. clrf f HIN_ACTIVE) s)) (\<lambda>(err, s).
              map_option (\<lambda>s. (0, s)) (if err \<noteq> 0 then buffer_clean b s else Some s)))"

fun hin_epoll_check :: "uring_env \<Rightarrow> (nat \<times> int) list \<Rightarrow> uring \<Rightarrow> (int \<times> uring) option" where
  "hin_epoll_check e [] s = Some (0, s)"
| "hin_epoll_check e ((b, res) # evs) s =
     (if ur_epoll s < 0 then Some (0, s)
      else Option.bind (epoll_event e b res s) (\<lambda>(r, s). if r < 0 then Some (-1, s) else hin_epoll_check e evs s))"

definition hin_epoll_clean :: "uring \<Rightarrow> uring" where
  "hin_epoll_clean s = s\<lparr>ur_epoll := -1\<rparr>"

text \<open>The kernel completes one of its entries.\<close>

definition kernel_complete :: "nat \<Rightarrow> int \<Rightarrow> uring \<Rightarrow> uring" where
  "kernel_complete i res s =
     s\<lparr>ur_kernel := take i (ur_kernel s) @ drop (Suc i) (ur_kernel s),
       ur_cqes := ur_cqes s @ [(map_option sq_data (ur_kernel s ! i), res)]\<rparr>"

subsection \<open>Every request completes once\<close>

text \<open>
  Requests accepted and completions delivered for a buffer, by the log, and its entries in the
  ring, the queue, the kernel and the completions but the first \<open>n\<close>.
\<close>

definition accepted :: "uring \<Rightarrow> nat \<Rightarrow> nat" where
  "accepted s b = count_list (ur_log s) (Accepted b)"

definition delivered :: "uring \<Rightarrow> nat \<Rightarrow> nat" where
  "delivered s b = length (filter (\<lambda>v. \<exists>r. v = Delivered b r) (ur_log s))"

definition waiting :: "nat \<Rightarrow> uring \<Rightarrow> nat \<Rightarrow> nat" where
  "waiting n s b =
     count_list (map (map_option sq_data) (ur_ring s @ ur_queue s @ ur_kernel s) @ map fst (drop n (ur_cqes s))) (Some b)"

definition is_active :: "uring \<Rightarrow> nat \<Rightarrow> bool" where
  "is_active s b \<longleftrightarrow> (\<exists>u. ur_bufs s b = Some u \<and> has (ub_flags u) HIN_ACTIVE)"

definition uring_ok :: "nat \<Rightarrow> uring \<Rightarrow> bool" where
  "uring_ok n s \<longleftrightarrow> (\<forall>b. accepted s b = delivered s b + waiting n s b \<and> waiting n s b \<le> 1 \<and>
                        (waiting n s b = 1 \<longrightarrow> is_active s b))"

text \<open>
  What the loop relies on: a callback makes requests, does not touch the completions, and answers
  non-zero only when its buffer is not in use.  It may run while \<open>n\<close> completions are not yet seen.
\<close>

definition callbacks_ok :: "uring_env \<Rightarrow> bool" where
  "callbacks_ok e \<longleftrightarrow> (\<forall>b r s k s' n. ue_cb e b r s = Some (k, s') \<longrightarrow> uring_ok n s \<longrightarrow>
     uring_ok n s' \<and> ur_cqes s' = ur_cqes s \<and> (k \<noteq> 0 \<longrightarrow> waiting n s' b = 0))"

lemma log_simps [simp]:
  "accepted (log_uring v s) b = accepted s b + (if v = Accepted b then 1 else 0)"
  "delivered (log_uring v s) b = delivered s b + (if \<exists>r. v = Delivered b r then 1 else 0)"
  "waiting n (log_uring v s) b = waiting n s b" "is_active (log_uring v s) b \<longleftrightarrow> is_active s b"
  "ur_cqes (log_uring v s) = ur_cqes s" "ur_bufs (log_uring v s) = ur_bufs s"
  by (auto simp: accepted_def delivered_def waiting_def is_active_def log_uring_def)

lemma flags_simps [simp]:
  "accepted (set_flags c f s) b = accepted s b" "delivered (set_flags c f s) b = delivered s b"
  "waiting n (set_flags c f s) b = waiting n s b" "ur_cqes (set_flags c f s) = ur_cqes s"
  by (simp_all add: accepted_def delivered_def waiting_def set_flags_def)

lemma active_flags:
  "is_active (set_flags c f s) b \<longleftrightarrow>
     (if b = c then \<exists>u. ur_bufs s b = Some u \<and> has (f (ub_flags u)) HIN_ACTIVE else is_active s b)"
  by (auto simp: is_active_def set_flags_def)

lemma sqe_simps [simp]:
  "accepted (hin_request_sqe q s) b = accepted s b" "delivered (hin_request_sqe q s) b = delivered s b"
  "is_active (hin_request_sqe q s) b \<longleftrightarrow> is_active s b" "ur_cqes (hin_request_sqe q s) = ur_cqes s"
  "waiting n (hin_request_sqe q s) b = waiting n s b + (if map_option sq_data q = Some b then 1 else 0)"
  by (auto simp: accepted_def delivered_def waiting_def is_active_def hin_request_sqe_def)

lemma epoll_simps [simp]:
  "accepted (s\<lparr>ur_epoll := x\<rparr>) b = accepted s b" "delivered (s\<lparr>ur_epoll := x\<rparr>) b = delivered s b"
  "is_active (s\<lparr>ur_epoll := x\<rparr>) b \<longleftrightarrow> is_active s b" "waiting n (s\<lparr>ur_epoll := x\<rparr>) b = waiting n s b"
  by (simp_all add: accepted_def delivered_def waiting_def is_active_def)

lemma uring_ok_log: "uring_ok n s \<Longrightarrow> (\<And>b. v \<noteq> Accepted b) \<Longrightarrow> (\<And>b r. v \<noteq> Delivered b r) \<Longrightarrow> uring_ok n (log_uring v s)"
  by (simp add: uring_ok_def)

lemma uring_ok_flags:
  "uring_ok n s \<Longrightarrow> (\<And>x. has x HIN_ACTIVE \<Longrightarrow> has (f x) HIN_ACTIVE) \<Longrightarrow> uring_ok n (set_flags b f s)"
proof -
  assume ok: "uring_ok n s" and f: "\<And>x. has x HIN_ACTIVE \<Longrightarrow> has (f x) HIN_ACTIVE"
  have "is_active s c \<Longrightarrow> is_active (set_flags b f s) c" for c
    unfolding active_flags using f by (auto simp: is_active_def)
  then show ?thesis using ok by (simp add: uring_ok_def)
qed

lemma u_active_ok:
  assumes "uring_ok n s" "hin_request_active b s = Some (r, s')"
  shows "uring_ok n s' \<and> (r = 0 \<longrightarrow> waiting n s' b = 0 \<and> is_active s' b) \<and> ur_cqes s' = ur_cqes s"
proof -
  obtain u where u: "ur_bufs s b = Some u" using assms(2) by (auto simp: hin_request_active_def bind_eq_Some_conv)
  show ?thesis
  proof (cases "has (ub_flags u) HIN_ACTIVE")
    case True
    then show ?thesis using assms u uring_ok_log by (auto simp: hin_request_active_def)
  next
    case False
    then have "\<not> is_active s b" using u by (simp add: is_active_def)
    moreover have "waiting n s b \<le> 1" "waiting n s b = 1 \<longrightarrow> is_active s b" using assms(1) by (auto simp: uring_ok_def)
    ultimately have "waiting n s b = 0" by linarith
    moreover have "has HIN_ACTIVE HIN_ACTIVE" by (simp add: has_def flag_defs)
    ultimately show ?thesis
      using assms u False by (auto simp: hin_request_active_def active_flags intro!: uring_ok_flags)
  qed
qed

lemma ring_request_ok:
  "uring_ok n s \<Longrightarrow> waiting n s b = 0 \<Longrightarrow> is_active s b \<Longrightarrow> uring_ok n (ring_request op fd u b s)"
  by (auto simp: uring_ok_def ring_request_def)

lemma u_clean_ok:
  assumes "uring_ok n s" "waiting n s b = 0" "buffer_clean b s = Some s'"
  shows "uring_ok n s' \<and> ur_cqes s' = ur_cqes s"
proof -
  have s': "s' = s\<lparr>ur_bufs := (ur_bufs s)(b := None)\<rparr>" using assms(3) by (auto simp: buffer_clean_def)
  have same: "accepted s' c = accepted s c" "delivered s' c = delivered s c" "waiting n s' c = waiting n s c"
    "c \<noteq> b \<Longrightarrow> is_active s' c = is_active s c" for c
    by (simp_all add: s' accepted_def delivered_def waiting_def is_active_def)
  have "waiting n s c = 1 \<longrightarrow> c \<noteq> b" for c using assms(2) by auto
  then show ?thesis using assms(1) same unfolding uring_ok_def by (auto simp: s')
qed

lemma u_sync_ok:
  assumes "callbacks_ok e" "uring_ok n s" "sync_request e b op s = Some (r, s')"
  shows "uring_ok n s'"
proof -
  let ?s = "log_uring (Synchronous b op (ue_sys e b op)) s"
  have "uring_ok n ?s" using uring_ok_log [OF assms(2)] by simp
  moreover obtain k s1 where k: "ue_cb e b (ue_sys e b op) ?s = Some (k, s1)"
    "(if k \<noteq> 0 then buffer_clean b s1 else Some s1) = Some s'"
    using assms(3) by (auto simp: sync_request_def hin_request_callback_def bind_eq_Some_conv split: if_splits)
  ultimately have "uring_ok n s1" "k \<noteq> 0 \<longrightarrow> waiting n s1 b = 0" using assms(1) unfolding callbacks_ok_def by blast+
  then show ?thesis using k(2) u_clean_ok [of n s1 b s'] by (cases "k = 0") simp_all
qed

lemma keep_active: "has x HIN_ACTIVE \<Longrightarrow> dir = HIN_EPOLL_READ \<or> dir = HIN_EPOLL_WRITE \<Longrightarrow> has (x AND (NOT HIN_EPOLL OR dir)) HIN_ACTIVE"
proof -
  assume "has x HIN_ACTIVE" "dir = HIN_EPOLL_READ \<or> dir = HIN_EPOLL_WRITE"
  moreover from this(2) have "(NOT HIN_EPOLL OR dir) AND HIN_ACTIVE = HIN_ACTIVE" by (auto simp: flag_defs)
  moreover have "has (x AND m) HIN_ACTIVE \<longleftrightarrow> has x (m AND HIN_ACTIVE)" for m by (simp add: has_def ac_simps)
  ultimately show ?thesis by simp
qed

lemma epoll_request_ok:
  assumes "uring_ok n s" "dir = HIN_EPOLL_READ \<or> dir = HIN_EPOLL_WRITE" "epoll_request e dir b s = (r, s')"
  shows "uring_ok n s'"
proof -
  obtain q s1 where q: "hin_init_epoll e s = (q, s1)" by fastforce
  then have "uring_ok n s1" using assms(1) by (auto simp: hin_init_epoll_def uring_ok_def split: if_splits)
  then show ?thesis
    using assms(2,3) q keep_active
    by (auto simp: epoll_request_def Let_def split: if_splits intro!: uring_ok_log uring_ok_flags)
qed

lemma sync_flag_ok:
  "uring_ok n s \<Longrightarrow> uring_ok n (set_flags b (\<lambda>f. setf f HIN_SYNC) s)"
  by (rule uring_ok_flags) simp_all

text \<open>A request that starts with \<open>hin_request_active\<close>.\<close>

lemma after_active:
  assumes "uring_ok n s" "Option.bind (hin_request_active b s) (\<lambda>(r, s). if r \<noteq> 0 then Some (-1, s) else f s) = Some (r', s')"
    "\<And>s1 r' s'. uring_ok n s1 \<Longrightarrow> waiting n s1 b = 0 \<Longrightarrow> is_active s1 b \<Longrightarrow> f s1 = Some (r', s') \<Longrightarrow> uring_ok n s'"
  shows "uring_ok n s'"
proof -
  obtain r s1 where a: "hin_request_active b s = Some (r, s1)" "(if r \<noteq> 0 then Some (-1, s1) else f s1) = Some (r', s')"
    using assms(2) by (auto simp: bind_eq_Some_conv)
  show ?thesis
  proof (cases "r = 0")
    case True
    have "uring_ok n s1" "waiting n s1 b = 0" "is_active s1 b" using u_active_ok [OF assms(1) a(1)] True by simp_all
    then show ?thesis using assms(3) a(2) True by simp
  next
    case False
    then show ?thesis using u_active_ok [OF assms(1) a(1)] a(2) by simp
  qed
qed

lemma u_epoll_ok:
  assumes "uring_ok n s" "(case hin_epoll_request_read e b s of (r, s) \<Rightarrow> Some (if r < 0 then -1 else 0 :: int, s)) = Some (r', s') \<or>
    (case hin_epoll_request_write e b s of (r, s) \<Rightarrow> Some (if r < 0 then -1 else 0 :: int, s)) = Some (r', s')"
  shows "uring_ok n s'"
  using assms(2) epoll_request_ok [OF assms(1), of HIN_EPOLL_READ e b] epoll_request_ok [OF assms(1), of HIN_EPOLL_WRITE e b]
  by (cases "epoll_request e HIN_EPOLL_READ b s"; cases "epoll_request e HIN_EPOLL_WRITE b s")
     (auto simp: hin_epoll_request_read_def hin_epoll_request_write_def)

lemma u_write_ok:
  assumes "callbacks_ok e" "uring_ok n s" "hin_request_write e b s = Some (r, s')"
  shows "uring_ok n s'"
proof (rule after_active [OF assms(2) assms(3) [unfolded hin_request_write_def]])
  fix s1 r' s2
  assume ok: "uring_ok n s1" "waiting n s1 b = 0" "is_active s1 b"
  assume f: "Option.bind (ur_bufs s1 b) (\<lambda>u.
         let f = ub_flags u; file = has f (HIN_FILE OR HIN_OFFSETS) in
         if has f HIN_SSL then Some (0, log_uring (Ssl_write b) s1)
         else if has f HIN_EPOLL \<and> \<not> file
         then (case hin_epoll_request_write e b s1 of (r, s) \<Rightarrow> Some (if r < 0 then -1 else 0, s))
         else
           let s = (if has f HIN_EPOLL then set_flags b (\<lambda>f. setf f HIN_SYNC) s1 else s1)
           in if has f (HIN_SYNC OR HIN_EPOLL) then sync_request e b (Write_op (ub_pos u)) s
              else if has f HIN_SOCKET then Some (0, ring_request Send_op (ub_fd u) u b s)
              else Some (0, ring_request (Write_op (ub_pos u)) (ub_fd u) u b s)) = Some (r', s2)"
  obtain u where u: "ur_bufs s1 b = Some u" using f by (auto simp: bind_eq_Some_conv)
  show "uring_ok n s2"
    using f u ok(1) ring_request_ok [OF ok] u_sync_ok [OF assms(1) ok(1)] u_sync_ok [OF assms(1) sync_flag_ok [OF ok(1)]]
      u_epoll_ok [OF ok(1)]
    by (auto simp: Let_def uring_ok_log split: if_split_asm)
qed

lemma u_read_ok:
  assumes "callbacks_ok e" "uring_ok n s" "hin_request_read e b s = Some (r, s')"
  shows "uring_ok n s'"
proof (rule after_active [OF assms(2) assms(3) [unfolded hin_request_read_def]])
  fix s1 r' s2
  assume ok: "uring_ok n s1" "waiting n s1 b = 0" "is_active s1 b"
  assume f: "Option.bind (ur_bufs s1 b) (\<lambda>u.
         let f = ub_flags u; file = has f (HIN_FILE OR HIN_OFFSETS) in
         if has f HIN_SSL then Some (0, log_uring (Ssl_read b) s1)
         else if has f HIN_EPOLL \<and> \<not> file
         then (case hin_epoll_request_read e b s1 of (r, s) \<Rightarrow> Some (if r < 0 then -1 else 0, s))
         else
           let s = (if has f HIN_EPOLL then set_flags b (\<lambda>f. setf f HIN_SYNC) s1 else s1)
           in if has f (HIN_SYNC OR HIN_EPOLL) then sync_request e b (Read_op (ub_pos u)) s
              else if has f HIN_SOCKET then Some (0, ring_request Recv_op (ub_fd u) u b s)
              else Some (0, ring_request (Read_op (ub_pos u)) (ub_fd u) u b s)) = Some (r', s2)"
  obtain u where u: "ur_bufs s1 b = Some u" using f by (auto simp: bind_eq_Some_conv)
  show "uring_ok n s2"
    using f u ok(1) ring_request_ok [OF ok] u_sync_ok [OF assms(1) ok(1)] u_sync_ok [OF assms(1) sync_flag_ok [OF ok(1)]]
      u_epoll_ok [OF ok(1)]
    by (auto simp: Let_def uring_ok_log split: if_split_asm)
qed

text \<open>The other requests: a wait on an epoll set, a synchronous call, or an entry of the ring.\<close>

lemma u_request_ok:
  assumes "callbacks_ok e" "uring_ok n s" "waiting n s b = 0" "is_active s b"
    "(case hin_epoll_request_read e b s of (r, s) \<Rightarrow> Some (if r < 0 then -1 else 0 :: int, s)) = Some (r, s') \<or>
     sync_request e b op s = Some (r, s') \<or> s' = ring_request op fd u b s \<or> s' = s \<or> s' = hin_request_sqe None s"
  shows "uring_ok n s'"
  using assms(5)
proof (elim disjE)
  assume "s' = hin_request_sqe None s"
  then show ?thesis using assms(2) by (simp add: uring_ok_def)
qed (use assms(2) u_epoll_ok [OF assms(2), of e b r s'] u_sync_ok [OF assms(1,2)] ring_request_ok [OF assms(2-4)] in simp_all)

lemma u_accept_ok:
  assumes "callbacks_ok e" "uring_ok n s" "hin_request_accept e sfd b s = Some (r, s')"
  shows "uring_ok n s'"
  by (rule after_active [OF assms(2) assms(3) [unfolded hin_request_accept_def]])
     (auto simp: bind_eq_Some_conv split: if_split_asm intro: u_request_ok [OF assms(1)])

lemma u_openat_ok:
  assumes "callbacks_ok e" "uring_ok n s" "hin_request_openat e fn b s = Some (r, s')"
  shows "uring_ok n s'"
  by (rule after_active [OF assms(2) assms(3) [unfolded hin_request_openat_def]])
     (auto simp: bind_eq_Some_conv split: if_split_asm intro: u_request_ok [OF assms(1)])

lemma u_timeout_ok:
  assumes "callbacks_ok e" "uring_ok n s" "hin_request_timeout e b s = Some (r, s')"
  shows "uring_ok n s'"
  by (rule after_active [OF assms(2) assms(3) [unfolded hin_request_timeout_def]])
     (auto simp: bind_eq_Some_conv split: if_split_asm intro: u_request_ok [OF assms(1)])

lemma u_statx_ok:
  assumes "callbacks_ok e" "uring_ok n s" "hin_request_statx e fn b s = Some (r, s')"
  shows "uring_ok n s'"
  by (rule after_active [OF assms(2) assms(3) [unfolded hin_request_statx_def]])
     (auto simp: bind_eq_Some_conv split: if_split_asm intro: u_request_ok [OF assms(1)])

lemma u_connect_ok:
  assumes "callbacks_ok e" "uring_ok n s" "hin_request_connect e b s = Some (r, s')"
  shows "uring_ok n s'"
  using assms(3) u_epoll_ok [OF assms(2)] u_sync_ok [OF assms(1,2)]
  by (auto simp: hin_request_connect_def bind_eq_Some_conv split: if_split_asm
      dest!: u_active_ok [OF assms(2)] intro: ring_request_ok)

lemma u_close_ok:
  assumes "callbacks_ok e" "uring_ok n s" "hin_request_close e b s = Some (r, s')"
  shows "uring_ok n s'"
  using assms(3) u_sync_ok [OF assms(1,2)]
  by (auto simp: hin_request_close_def bind_eq_Some_conv split: if_split_asm
      dest!: u_active_ok [OF assms(2)] intro: ring_request_ok)

lemma waiting_move:
  "waiting n (hin_process_sqe_queue s) b = waiting n s b"
  "waiting n (snd (hin_event_wait fin s)) b = waiting n s b"
  by (auto simp: waiting_def hin_process_sqe_queue_def hin_event_wait_def split: list.splits)

lemma move_same [simp]:
  "accepted (hin_process_sqe_queue s) b = accepted s b" "delivered (hin_process_sqe_queue s) b = delivered s b"
  "is_active (hin_process_sqe_queue s) b = is_active s b" "ur_cqes (hin_process_sqe_queue s) = ur_cqes s"
  "accepted (snd (hin_event_wait fin s)) b = accepted s b" "delivered (snd (hin_event_wait fin s)) b = delivered s b"
  "is_active (snd (hin_event_wait fin s)) b = is_active s b"
  by (auto simp: accepted_def delivered_def is_active_def hin_process_sqe_queue_def hin_event_wait_def split: list.splits)

lemma u_move_ok: "uring_ok n s \<Longrightarrow> uring_ok n (hin_process_sqe_queue s)" "uring_ok n s \<Longrightarrow> uring_ok n (snd (hin_event_wait fin s))"
  by (simp_all add: uring_ok_def waiting_move)

lemma u_complete_ok:
  assumes "uring_ok 0 s" "i < length (ur_kernel s)"
  shows "uring_ok 0 (kernel_complete i res s)"
proof -
  have "count_list (map (map_option sq_data) (ur_kernel s)) x =
      count_list (map (map_option sq_data) (take i (ur_kernel s) @ drop (Suc i) (ur_kernel s))) x +
      count_list [map_option sq_data (ur_kernel s ! i)] x" for x
    by (subst id_take_nth_drop [OF assms(2)]) simp
  then have "waiting 0 (kernel_complete i res s) b = waiting 0 s b" for b
    by (simp add: waiting_def kernel_complete_def)
  then show ?thesis
    using assms(1) by (simp add: uring_ok_def accepted_def delivered_def is_active_def kernel_complete_def)
qed

lemma u_seen_ok: "uring_ok 1 s \<Longrightarrow> uring_ok 0 (s\<lparr>ur_cqes := tl (ur_cqes s)\<rparr>)"
  by (simp add: uring_ok_def accepted_def delivered_def is_active_def waiting_def drop_Suc)

lemma u_deliver_ok:
  assumes "uring_ok 0 s" "ur_cqes s = (Some c, res) # cqes"
  shows "uring_ok 1 (log_uring (Delivered c res) (set_flags c (\<lambda>f. clrf f HIN_ACTIVE) s))"
proof -
  have "waiting 0 s b = waiting 1 s b + (if b = c then 1 else 0)" for b
    using assms(2) by (simp add: waiting_def)
  note w = this
  let ?s = "log_uring (Delivered c res) (set_flags c (\<lambda>f. clrf f HIN_ACTIVE) s)"
  show ?thesis
    unfolding uring_ok_def
  proof
    fix b
    have "accepted s b = delivered s b + waiting 0 s b" "waiting 0 s b \<le> 1" "waiting 0 s b = 1 \<longrightarrow> is_active s b"
      using assms(1) by (simp_all add: uring_ok_def)
    then show "accepted ?s b = delivered ?s b + waiting 1 ?s b \<and> waiting 1 ?s b \<le> 1 \<and> (waiting 1 ?s b = 1 \<longrightarrow> is_active ?s b)"
      using w [of b] by (cases "b = c") (auto simp: active_flags)
  qed
qed

lemma u_process_ok:
  assumes "callbacks_ok e" "uring_ok 0 s" "process_loop e i err cqes s = Some s'" "\<exists>rest. ur_cqes s = cqes @ rest"
  shows "uring_ok 0 s'"
  using assms
proof (induction e i err cqes s rule: process_loop.induct)
  case (2 e i err b res cqes s)
  show ?case
  proof (cases "i < err")
    case True
    then obtain c k s1 s2 where c: "b = Some c"
      "ue_cb e c res (log_uring (Delivered c res) (set_flags c (\<lambda>f. clrf f HIN_ACTIVE) s)) = Some (k, s1)"
      "(if k \<noteq> 0 then buffer_clean c s1 else Some s1) = Some s2"
      "process_loop e (i + 1) k cqes (s2\<lparr>ur_cqes := tl (ur_cqes s2)\<rparr>) = Some s'" "ur_bufs s c \<noteq> None"
      using 2(4) by (auto simp: bind_eq_Some_conv split: if_split_asm)
    obtain rest where rest: "ur_cqes s = (Some c, res) # cqes @ rest" using 2(5) c(1) by auto
    have s1: "uring_ok 1 s1" "ur_cqes s1 = ur_cqes s" "k \<noteq> 0 \<longrightarrow> waiting 1 s1 c = 0"
      using 2(2) u_deliver_ok [OF 2(3) rest] c(2) unfolding callbacks_ok_def by fastforce+
    have s2: "uring_ok 1 s2 \<and> ur_cqes s2 = ur_cqes s"
      using c(3) s1 u_clean_ok [of 1 s1 c s2] by (cases "k = 0") auto
    then have "uring_ok 0 (s2\<lparr>ur_cqes := tl (ur_cqes s2)\<rparr>)" using u_seen_ok by blast
    then show ?thesis
      using 2(1) [OF True c(1)] c(2-5) 2(2) s2 rest by auto
  next
    case False
    then show ?thesis using 2 by simp
  qed
qed (simp split: if_splits)

text \<open>
  What happens: the program makes requests, allocates buffers and frees those not in use; the
  kernel takes the ring and completes its entries in any order; the loop runs the callbacks.
\<close>

inductive uring_step :: "uring_env \<Rightarrow> uring \<Rightarrow> uring \<Rightarrow> bool" for e where
  step_write: "hin_request_write e b s = Some (r, s') \<Longrightarrow> uring_step e s s'"
| step_read: "hin_request_read e b s = Some (r, s') \<Longrightarrow> uring_step e s s'"
| step_accept: "hin_request_accept e sfd b s = Some (r, s') \<Longrightarrow> uring_step e s s'"
| step_connect: "hin_request_connect e b s = Some (r, s') \<Longrightarrow> uring_step e s s'"
| step_close: "hin_request_close e b s = Some (r, s') \<Longrightarrow> uring_step e s s'"
| step_openat: "hin_request_openat e fn b s = Some (r, s') \<Longrightarrow> uring_step e s s'"
| step_timeout: "hin_request_timeout e b s = Some (r, s') \<Longrightarrow> uring_step e s s'"
| step_statx: "hin_request_statx e fn b s = Some (r, s') \<Longrightarrow> uring_step e s s'"
| step_alloc: "ur_bufs s b = None \<Longrightarrow> uring_step e s (s\<lparr>ur_bufs := (ur_bufs s)(b \<mapsto> u)\<rparr>)"
| step_free: "\<not> is_active s b \<Longrightarrow> buffer_clean b s = Some s' \<Longrightarrow> uring_step e s s'"
| step_wait: "uring_step e s (snd (hin_event_wait fin s))"
| step_complete: "i < length (ur_kernel s) \<Longrightarrow> uring_step e s (kernel_complete i res s)"
| step_process: "hin_event_process e s = Some s' \<Longrightarrow> uring_step e s s'"

lemma u_alloc_ok:
  assumes "uring_ok n s" "ur_bufs s b = None"
  shows "uring_ok n (s\<lparr>ur_bufs := (ur_bufs s)(b \<mapsto> u)\<rparr>)"
proof -
  have "is_active s c \<Longrightarrow> is_active (s\<lparr>ur_bufs := (ur_bufs s)(b \<mapsto> u)\<rparr>) c" for c
    using assms(2) by (auto simp: is_active_def)
  then show ?thesis using assms(1) by (auto simp: uring_ok_def accepted_def delivered_def waiting_def)
qed

lemma not_waiting: "uring_ok n s \<Longrightarrow> \<not> is_active s b \<Longrightarrow> waiting n s b = 0"
  unfolding uring_ok_def by (metis le_eq_less_or_eq less_one)

lemma uring_step_ok:
  assumes "callbacks_ok e" "uring_step e s s'" "uring_ok 0 s"
  shows "uring_ok 0 s'"
  using assms(2)
proof cases
  case step_process
  let ?s = "hin_process_sqe_queue s"
  have "\<exists>rest. ur_cqes ?s = take 64 (ur_cqes s) @ rest" by (intro exI [of _ "drop 64 (ur_cqes s)"]) simp
  then show ?thesis
    using step_process u_process_ok [OF assms(1) u_move_ok(1) [OF assms(3)]] by (simp add: hin_event_process_def Let_def)
next
  case (step_free b)
  then show ?thesis using u_clean_ok [OF assms(3) not_waiting [OF assms(3)]] by blast
qed (use assms(3) in \<open>auto intro: u_write_ok [OF assms(1,3)] u_read_ok [OF assms(1,3)] u_accept_ok [OF assms(1,3)]
     u_connect_ok [OF assms(1,3)] u_close_ok [OF assms(1,3)] u_openat_ok [OF assms(1,3)] u_timeout_ok [OF assms(1,3)]
     u_statx_ok [OF assms(1,3)] u_alloc_ok u_move_ok(2) u_complete_ok\<close>)


definition uenv0 :: uring_env where
  "uenv0 = \<lparr>ue_sys = \<lambda>_ _. 0, ue_cb = \<lambda>_ _ s. Some (0, s), ue_epoll_fd = 9, ue_epoll_ok = \<lambda>_. True\<rparr>"

definition uring0 :: uring where
  "uring0 = \<lparr>ur_bufs = [5 \<mapsto> \<lparr>ub_fd = 7, ub_flags = HIN_SOCKET, ub_count = 10, ub_pos = 0\<rparr>], ur_open = True,
     ur_ring = [], ur_queue = [], ur_kernel = [], ur_cqes = [], ur_epoll = -1, ur_log = []\<rparr>"

lemma has_masks [simp]:
  "\<not> has HIN_SOCKET HIN_ACTIVE" "\<not> has HIN_SOCKET HIN_SSL" "\<not> has HIN_SOCKET HIN_EPOLL" "\<not> has HIN_SOCKET HIN_SYNC"
  "has HIN_SOCKET HIN_SOCKET" "\<not> has HIN_ACTIVE HIN_SSL" "\<not> has HIN_ACTIVE HIN_EPOLL" "\<not> has HIN_ACTIVE HIN_SYNC"
  "has HIN_ACTIVE HIN_ACTIVE"
  by (simp_all add: has_def flag_defs)


subsection \<open>How the loop differs from what it means to do\<close>

text \<open>
  A round of the loop delivers one completion, whatever the number that are there, since the
  bound of the loop is overwritten by the result of the callback (which is at most 1 for all of the
  program's callbacks); the others wait for the next round, and so does the overflow queue, of which
  a round moves one entry.
\<close>

theorem one_completion_per_round:
  assumes "ur_cqes s = (Some b, res) # rest" "ur_bufs s b \<noteq> None"
    "ue_cb e b res (log_uring (Delivered b res) (set_flags b (\<lambda>f. clrf f HIN_ACTIVE) (hin_process_sqe_queue s))) = Some (k, s1)"
    "k \<le> 1" "ur_cqes s1 = ur_cqes s" "ur_bufs s1 b \<noteq> None"
  shows "\<exists>s'. hin_event_process e s = Some s' \<and> ur_cqes s' = rest \<and> ur_log s' = ur_log s1 \<and>
     ur_queue s' = ur_queue s1 \<and> length (ur_queue (hin_process_sqe_queue s)) \<ge> length (ur_queue s) - 1"
proof -
  have b: "ur_bufs (hin_process_sqe_queue s) b \<noteq> None"
    using assms(2) by (auto simp: hin_process_sqe_queue_def split: list.splits)
  obtain s2 where s2: "(if k \<noteq> 0 then buffer_clean b s1 else Some s1) = Some s2" "ur_cqes s2 = ur_cqes s1"
    "ur_log s2 = ur_log s1" "ur_queue s2 = ur_queue s1"
    using assms(6) by (cases "k = 0") (auto simp: buffer_clean_def)
  have stop: "process_loop e 1 k cqes (s2\<lparr>ur_cqes := tl (ur_cqes s2)\<rparr>) = Some (s2\<lparr>ur_cqes := tl (ur_cqes s2)\<rparr>)" for cqes
    using assms(4) by (cases cqes) auto
  have "hin_event_process e s = Some (s2\<lparr>ur_cqes := tl (ur_cqes s2)\<rparr>)"
    using assms(1,3) b s2(1) stop by (simp add: hin_event_process_def Let_def)
  moreover have "length (ur_queue (hin_process_sqe_queue s)) \<ge> length (ur_queue s) - 1"
    by (auto simp: hin_process_sqe_queue_def split: list.splits)
  ultimately show ?thesis using s2(2-4) assms(1,5) by simp
qed

theorem one_completion_per_round_witness:
  "\<exists>s'. hin_event_process uenv0 (uring0\<lparr>ur_cqes := [(Some 5, 10), (Some 5, 11)]\<rparr>) = Some s' \<and>
     ur_cqes s' = [(Some 5, 11)] \<and> ur_log s' = [Delivered 5 10]"
proof -
  let ?s = "uring0\<lparr>ur_cqes := [(Some 5, 10), (Some 5, 11)]\<rparr>"
  obtain s1 where s1: "ue_cb uenv0 5 10 (log_uring (Delivered 5 10) (set_flags 5 (\<lambda>f. clrf f HIN_ACTIVE) (hin_process_sqe_queue ?s))) = Some (0, s1)"
    "ur_cqes s1 = ur_cqes ?s" "ur_bufs s1 5 \<noteq> None" "ur_log s1 = [Delivered 5 10]"
    by (simp add: uenv0_def uring0_def hin_process_sqe_queue_def log_uring_def set_flags_def)
  have c: "ur_cqes ?s = (Some 5, 10) # [(Some 5, 11)]" "ur_bufs ?s 5 \<noteq> None" by (simp_all add: uring0_def)
  from one_completion_per_round [OF c s1(1) _ s1(2,3)] s1(4) show ?thesis by auto
qed

text \<open>
  A synchronous request runs the callback with the buffer still marked as active, so a callback
  that asks for more on its buffer, as every callback does after a partial write, is refused.
\<close>

lemma sync_request_not_continued:
  assumes "ur_bufs s b = Some u" "has (ub_flags u) HIN_SYNC" "\<not> has (ub_flags u) HIN_ACTIVE" "\<not> has (ub_flags u) HIN_SSL"
    "\<not> has (ub_flags u) HIN_EPOLL"
    "s1 = log_uring (Synchronous b (Write_op (ub_pos u)) (ue_sys e b (Write_op (ub_pos u)))) (set_flags b (\<lambda>f. setf f HIN_ACTIVE) s)"
  shows "hin_request_write e b s = hin_request_callback e b (ue_sys e b (Write_op (ub_pos u))) s1 \<and>
     hin_request_write e b s1 = Some (-1, log_uring (Bad_use b) s1) \<and>
     hin_request_read e b s1 = Some (-1, log_uring (Bad_use b) s1)"
proof -
  have "has (setf (ub_flags u) HIN_ACTIVE) HIN_ACTIVE" by simp
  then have "hin_request_active b s1 = Some (-1, log_uring (Bad_use b) s1)"
    using assms(1) by (simp add: assms(6) hin_request_active_def set_flags_def log_uring_def)
  moreover have "hin_request_write e b s = hin_request_callback e b (ue_sys e b (Write_op (ub_pos u))) s1"
    using assms by (simp add: hin_request_write_def hin_request_active_def set_flags_def sync_request_def Let_def)
  ultimately show ?thesis by (simp add: hin_request_write_def hin_request_read_def)
qed

end
