(* ===== verification/Spec2Isabelle.thy ===== *)
theory Spec2Isabelle
  imports ServerLife VhostMap FcgiPool CgiEnv HttpConns HttpProxy EventLoop Vfs
begin

text \<open>
  A verification of the core of hin9 (\<open>hinsightd\<close>), an event-driven HTTP/1.1 server, and of the
  C base library it is built on (\<open>external/basic\<close>).

  \<^bold>\<open>How the program works.\<close>  A client connection is read through a line buffer
  (\<open>netcode/buffer.c\<close>).  When a request head is complete it is parsed
  (\<open>http/server/httpd_head.c\<close>, with the pattern matcher \<open>basic_pattern.c\<close>), and answered with a
  text (\<open>httpd_req.c\<close>), a file (\<open>httpd_file.c\<close>) or the output of another program.  A response
  body is moved by a pipe (\<open>netcode/pipe.c\<close>), whose data may pass the filters of
  \<open>http/utils/filters.c\<close>, and when it ends the connection is closed or starts the next request
  (\<open>httpd.c\<close>).  Responses of programs may be kept in a store (\<open>http/cache/cache.c\<close>).  Timers
  (\<open>system/timing.c\<close>) close idle connections and expire stored responses.

  \<^bold>\<open>Theories\<close>, in the order of their dependencies:

  \<^item> \<open>Prelude\<close>: machine words and flag words, character classes, C strings as suffixes of memory.
  \<^item> \<open>Pattern\<close> (\<open>basic_pattern.c\<close>): the pattern matcher; what a set with or without repetition
    matches, and that a match never leaves the data.
  \<^item> \<open>Endian\<close> (\<open>basic_endianness.c\<close>): the swaps reverse the bytes.
  \<^item> \<open>Hashtable\<close> (\<open>basic_hashtable.c\<close>): the table refines a finite map, stated once in the locale
    \<open>kv_store\<close> and interpreted on the code's table; \<open>Vhost\<close> and \<open>Cache\<close> use its facts.
  \<^item> \<open>Dlist_Heap\<close> (\<open>basic_lists.c\<close>): the linked lists, on a heap of nodes, refine sequences.
  \<^item> \<open>Timers\<close> (\<open>system/timing.c\<close>): the sorted list of timers and the loop that runs those due.
  \<^item> \<open>Buffers\<close> (\<open>netcode/buffer.c\<close>, \<open>netcode/header.c\<close>): printing headers into a chain of
    buffers, transmitting it, and the line buffer of a reader.
  \<^item> \<open>Pipes\<close> (\<open>netcode/pipe.c\<close>): the state machine of a pipe as a step relation over the
    completions the kernel delivers: no byte is lost and it never stalls.
  \<^item> \<open>Filters\<close> (\<open>http/utils/filters.c\<close>): chunked transfer coding and deflate.
  \<^item> \<open>HttpUtils\<close> (\<open>http_utils.c\<close>): request lines, lines, URL decoding, URIs.
  \<^item> \<open>Numbers\<close>: \<open>%d\<close>, \<open>strtol\<close> and \<open>atoi\<close> of the C library.
  \<^item> \<open>CacheCtl\<close> (\<open>http_misc.c\<close>): parsing and printing \<open>Cache-Control\<close>.
  \<^item> \<open>Vhost\<close> (\<open>http/server/vhost.c\<close>): the table of the host names.
  \<^item> \<open>Httpd\<close> (\<open>httpd_req.c\<close>, \<open>http_misc.c\<close>, part of \<open>filters.c\<close>): the state of a request
    (\<open>httpd_client_t\<close>) and the responses that are not files.
  \<^item> \<open>HttpdParse\<close> (\<open>httpd_head.c\<close>): the head of a request.
  \<^item> \<open>HttpdLife\<close> (\<open>httpd.c\<close>, \<open>httpd_read.c\<close>): accepting, reading, finishing and closing.
  \<^item> \<open>HttpdFile\<close> (\<open>httpd_file.c\<close>): files, ranges and conditional requests.
  \<^item> \<open>Cache\<close> (\<open>cache.c\<close>): the store of responses and its reference counts.

  \<^item> \<open>Vfs\<close> (\<open>basic/vfs\<close>, part of \<open>lua/lua_vfs.c\<close>): the tree of the files on disk, the lookup of a
    request path in it, and the events of the kernel that change it.
  \<^item> \<open>VhostMap\<close> (\<open>lua/lua_map.c\<close>, \<open>lua/lua.c\<close>): the callbacks of the configuration on paths: which
    patterns match, and that they are called in the order of their registration.
  \<^item> \<open>Fcgi\<close> (\<open>http/cgi/fcgi_write.c\<close>, \<open>fcgi_util.c\<close>, \<open>fcgi_post.c\<close>): the packets of FastCGI requests,
    printed into a header chain and read back by a decoder of the specification.
  \<^item> \<open>FcgiPool\<close> (\<open>fcgi.c\<close>, \<open>fcgi_socket.c\<close>, \<open>fcgi_worker.c\<close>, \<open>fcgi_read.c\<close>): the workers and sockets
    of a FastCGI server on a heap, their queues, and the records that come back.
  \<^item> \<open>HeadLines\<close>: the loops that copy the lines of one head into another.
  \<^item> \<open>CgiParse\<close> (\<open>http/cgi/cgi_parse.c\<close>): the head of the response of a CGI or FastCGI program.
  \<^item> \<open>CgiEnv\<close> (\<open>http/cgi/httpd_cgi.c\<close>): the start of a CGI program and its environment, which is
    exactly that of its request as long as it fits the array.
  \<^item> \<open>HttpClient\<close> (\<open>http/client\<close>): connections to other servers, requests and responses on them,
    and the reverse proxy; \<open>HttpConns\<close>: the list of the idle connections over every order of the
    events; \<open>HttpProxy\<close>: the bytes of a proxied request and of the head of its response.
  \<^item> \<open>CmdLine\<close> (\<open>basic_args.c\<close>, \<open>system/main.c\<close>): the walk over the arguments, the options, and the way
    to the event loop: it always ends, and bundled letters mean the same as separate ones.
  \<^item> \<open>Servers\<close> (\<open>netcode/listen.c\<close>, \<open>netcode/server.c\<close>, \<open>netcode/hin.c\<close>, \<open>system/restart.c\<close>): listening
    sockets, accepting, stopping and restarting, on a heap of servers and clients; \<open>ServerLife\<close>:
    what holds over every order of their events, and what a stop or restart does.
  \<^item> \<open>EventLoop\<close> (\<open>netcode/uring.c\<close>, \<open>netcode/epoll.c\<close>): requests to the kernel, the overflow queue
    and the loop that runs the callbacks: every accepted request is delivered once.

  \<^bold>\<open>Conventions.\<close>  A definition has the name of the C function it models; a part of a function
  that is a definition of its own (the body of a loop, a header that is printed) is named after
  what it does.  C structures are records, flag words are words of their width, \<open>has\<close>, \<open>setf\<close>
  and \<open>clrf\<close> test, set and clear bits.  Debug output is left out.  \<open>None\<close> stands for undefined
  behaviour (memory that is not allocated, signed overflow) and for recursion that never ends;
  error returns are values.  Requests to the kernel are events in a log, or the success of the
  request is an argument; what the kernel delivers later is the argument of the callback.  The
  clock, \<open>strftime\<close>, \<open>strptime\<close>, \<open>zlib\<close> and the callbacks of the Lua configuration are parameters.

  \<^bold>\<open>Bounds and fuel.\<close>  Loops over data are structural or have a measure on the bytes left.  The
  only fuel is that of \<open>ht_collect\<close>, one more than the number of pairs, which
  \<open>ht_iterate_complete\<close> shows to be enough.  Loops whose end depends on callbacks
  (\<open>check_loop\<close>, \<open>vheader\<close>, \<open>pow_loop\<close>, \<open>fcgi_do\<close>) are partial functions, and their results are proved to
  be values under the stated conditions.

  \<^bold>\<open>Not modelled.\<close>  TLS, opening connections, signals and the console, and the Lua bindings
  are system calls or glue around libraries that are not in the repository.
\<close>

end
